(* ===== verification/Prelude.thy ===== *)
theory Prelude
  imports Main "HOL-Library.Word" "HOL-Library.Monad_Syntax" "HOL-Library.Multiset"
begin

text \<open>
  Shared vocabulary of the development: the machine types of the LP64 build
  (\<^verbatim>\<open>include/konoha2/konoha2.h\<close>), a memory block as a list of cells with reads and
  writes that are undefined (\<open>None\<close>) outside the block, and the generic lemmas on
  lists and options that the component theories use.
\<close>

section \<open>Machine types\<close>

text \<open>
  \<open>byte\<close> is C's \<^verbatim>\<open>char\<close> (signed on the targets the build files name, read through
  \<open>sint\<close>); \<open>u32\<close> is \<^verbatim>\<open>kushort_t\<close>, which is \<^verbatim>\<open>uint32_t\<close> under
  \<^verbatim>\<open>__LP64__\<close>; \<open>u64\<close> is \<^verbatim>\<open>uintptr_t\<close>. A byte count (\<^verbatim>\<open>size_t\<close>) is a \<open>nat\<close>
  where it measures an allocation, which no machine can make wrap.
\<close>

type_synonym byte = "8 word"
type_synonym u32 = "32 word"
type_synonym u64 = "64 word"
type_synonym bytes = "byte list"

text \<open>A C character constant and a C string literal as bytes.\<close>

definition chr :: "char \<Rightarrow> byte" where
  "chr c = word_of_nat (of_char c)"

definition lit :: "string \<Rightarrow> bytes" where
  "lit s = map chr s"

lemma unat_chr: "unat (chr c) = of_char c"
proof -
  have "of_char c < (256 :: nat)" using mod_less_divisor [of 256 "of_char c :: nat"] by simp
  then show ?thesis by (simp add: chr_def unsigned_of_nat take_bit_nat_eq_self)
qed

lemma chr_eq_iff [simp]: "chr a = chr b \<longleftrightarrow> a = b"
  by (simp add: word_unat_eq_iff unat_chr)

lemma chr_le_iff: "chr a \<le> chr b \<longleftrightarrow> (of_char a :: nat) \<le> of_char b"
  by (simp add: word_le_nat_alt unat_chr)

lemma chr_eq_zero [simp]: "chr c = 0 \<longleftrightarrow> c = CHR 0x00"
proof -
  have "chr CHR 0x00 = 0" by (simp add: chr_def)
  then show ?thesis by (metis chr_eq_iff)
qed

section \<open>Collections of hints\<close>

named_theorems mem_simps \<open>results of memory reads and writes that are in bounds\<close>
named_theorems kinv \<open>each operation keeps the invariant of its component\<close>

section \<open>Memory blocks\<close>

definition mem_read :: "'c list \<Rightarrow> nat \<Rightarrow> nat \<Rightarrow> 'c list option" where
  "mem_read buf off n =
     (if off + n \<le> length buf then Some (take n (drop off buf)) else None)"

definition mem_write :: "'c list \<Rightarrow> nat \<Rightarrow> 'c list \<Rightarrow> 'c list option" where
  "mem_write buf off d =
     (if off + length d \<le> length buf
      then Some (take off buf @ d @ drop (off + length d) buf) else None)"

definition mem_get :: "'c list \<Rightarrow> nat \<Rightarrow> 'c option" where
  "mem_get buf i = (if i < length buf then Some (buf ! i) else None)"

definition mem_put :: "'c list \<Rightarrow> nat \<Rightarrow> 'c \<Rightarrow> 'c list option" where
  "mem_put buf i c = (if i < length buf then Some (buf[i := c]) else None)"

lemma mem_read_Some [mem_simps]:
  "off + n \<le> length buf \<Longrightarrow> mem_read buf off n = Some (take n (drop off buf))"
  by (simp add: mem_read_def)

lemma mem_write_Some [mem_simps]:
  "off + length d \<le> length buf \<Longrightarrow>
     mem_write buf off d = Some (take off buf @ d @ drop (off + length d) buf)"
  by (simp add: mem_write_def)

lemma mem_get_Some [mem_simps]: "i < length buf \<Longrightarrow> mem_get buf i = Some (buf ! i)"
  by (simp add: mem_get_def)

lemma mem_put_Some [mem_simps]: "i < length buf \<Longrightarrow> mem_put buf i c = Some (buf[i := c])"
  by (simp add: mem_put_def)

lemma mem_write_eq_Some_iff:
  "mem_write buf off d = Some buf' \<longleftrightarrow>
     off + length d \<le> length buf \<and> buf' = take off buf @ d @ drop (off + length d) buf"
  by (auto simp: mem_write_def)

lemma length_mem_write: "mem_write buf off d = Some buf' \<Longrightarrow> length buf' = length buf"
  by (auto simp: mem_write_eq_Some_iff)

lemma take_mem_write:
  "mem_write buf off d = Some buf' \<Longrightarrow> n \<le> off \<Longrightarrow> take n buf' = take n buf"
  by (auto simp: mem_write_eq_Some_iff)

lemma mem_write_prefix:
  "mem_write buf off d = Some buf' \<Longrightarrow> take (off + length d) buf' = take off buf @ d"
  by (auto simp: mem_write_eq_Some_iff)

section \<open>Options and lists\<close>

lemma bind_Some_iff: "Option.bind m f = Some y \<longleftrightarrow> (\<exists>x. m = Some x \<and> f x = Some y)"
  by (cases m) auto

lemma nth_take_drop_split:
  "i < length xs \<Longrightarrow> xs = take i xs @ xs ! i # drop (Suc i) xs"
  by (simp add: id_take_nth_drop)

text \<open>
  A C loop that rewrites the cells of an array one by one: \<open>f i\<close> is what happens to cell \<open>i\<close>.
\<close>

definition update_each :: "(nat \<Rightarrow> 'a \<Rightarrow> 'a) \<Rightarrow> nat list \<Rightarrow> 'a list \<Rightarrow> 'a list" where
  "update_each f is a = fold (\<lambda>i a. a[i := f i (a ! i)]) is a"

lemma length_update_each [simp]: "length (update_each f is a) = length a"
  unfolding update_each_def by (induction "is" arbitrary: a) auto

lemma nth_update_each:
  assumes "distinct is" "j < length a"
  shows "update_each f is a ! j = (if j \<in> set is then f j (a ! j) else a ! j)"
  using assms
proof (induction "is" arbitrary: a)
  case Nil
  then show ?case by (simp add: update_each_def)
next
  case (Cons i "is")
  from Cons.prems have "update_each f is (a[i := f i (a ! i)]) ! j =
      (if j \<in> set is then f j (a[i := f i (a ! i)] ! j) else a[i := f i (a ! i)] ! j)"
    by (intro Cons.IH) simp_all
  with Cons.prems show ?case by (cases "i = j") (auto simp: update_each_def)
qed

lemma map_update_same: "f x = f (a ! q) \<Longrightarrow> map f (a[q := x]) = map f a"
  by (metis list_update_id map_update)

lemma find_append:
  "List.find P (xs @ ys) = (case List.find P xs of None \<Rightarrow> List.find P ys | Some x \<Rightarrow> Some x)"
  by (induction xs) auto

text \<open>Replacing one list of a list of lists, seen through the elements they hold together.\<close>

lemma mset_concat_update:
  "i < length cs \<Longrightarrow> mset (concat (cs[i := ys])) + mset (cs ! i) = mset (concat cs) + mset ys"
  by (induction cs arbitrary: i) (auto simp: nth_Cons' split: nat.split)

lemma mset_concat_Cons:
  "i < length cs \<Longrightarrow> mset (concat (cs[i := x # cs ! i])) = add_mset x (mset (concat cs))"
  using mset_concat_update [of i cs "x # cs ! i"] by simp

lemma length_concat_mset: "mset xs = mset ys \<Longrightarrow> length xs = length ys"
  by (rule mset_eq_length)

lemma nth_in_concat: "i < length cs \<Longrightarrow> j \<in> set (cs ! i) \<Longrightarrow> j \<in> set (concat cs)"
  by auto

end
