(* ===== verification/Karray.thy ===== *)
theory Karray
  imports Prelude
begin

text \<open>
  \<^verbatim>\<open>karray_t\<close> and \<^verbatim>\<open>kwb_t\<close> of \<^verbatim>\<open>src/konoha/klibexec.h\<close>: the growable array behind every
  container of the runtime and the write buffer on top of it.
\<close>

section \<open>karray\<close>

text \<open>
  The buffer is a list of cells of \<open>w\<close> bytes each (1 for text, 8 for pointers); the two
  sizes count bytes, as in the code. A freed or never allocated buffer is the empty list.
\<close>

record 'c karray =
  bytesize :: nat
  bytebuf :: "'c list"
  bytemax :: nat

definition karray_ok :: "nat \<Rightarrow> 'c karray \<Rightarrow> bool" where
  "karray_ok w m \<longleftrightarrow> length (bytebuf m) = bytemax m div w \<and> bytesize m \<le> bytemax m"

definition karray_init :: "nat \<Rightarrow> 'c::zero karray \<Rightarrow> nat \<Rightarrow> 'c karray" where
  "karray_init w m n =
     m\<lparr>bytesize := 0, bytemax := n, bytebuf := replicate (n div w) 0\<rparr>"

definition karray_resize :: "nat \<Rightarrow> 'c::zero karray \<Rightarrow> nat \<Rightarrow> 'c karray" where
  "karray_resize w m newsize =
     (let oldsize = bytemax m;
          newbody = (if oldsize < newsize
                     then take (oldsize div w) (bytebuf m)
                            @ replicate (newsize div w - oldsize div w) 0
                     else take (newsize div w) (bytebuf m))
      in m\<lparr>bytebuf := newbody, bytemax := newsize\<rparr>)"

definition karray_expand :: "nat \<Rightarrow> 'c::zero karray \<Rightarrow> nat \<Rightarrow> 'c karray" where
  "karray_expand w m minsize =
     (if bytemax m = 0
      then (if minsize > 0 then karray_init w m minsize else m)
      else let oldsize = bytemax m;
               newsize = oldsize * 2;
               newsize = (if minsize > newsize then minsize else newsize)
           in karray_resize w m newsize)"

definition karray_free :: "'c karray \<Rightarrow> 'c karray" where
  "karray_free m =
     (if bytemax m > 0 then m\<lparr>bytebuf := [], bytesize := 0, bytemax := 0\<rparr> else m)"


definition content :: "'c karray \<Rightarrow> 'c list" where
  "content m = take (bytesize m) (bytebuf m)"

lemma karray_init_ok [kinv]: "karray_ok w (karray_init w m n)"
  by (simp add: karray_ok_def karray_init_def)

lemma karray_resize_bytemax: "bytemax (karray_resize w m n) = n"
  by (simp add: karray_resize_def Let_def)

lemma karray_resize_bytesize: "bytesize (karray_resize w m n) = bytesize m"
  by (simp add: karray_resize_def Let_def)

lemma karray_resize_length:
  assumes "karray_ok w m"
  shows "length (bytebuf (karray_resize w m n)) = n div w"
  using assms by (auto simp: karray_resize_def Let_def karray_ok_def div_le_mono)

text \<open>Growing keeps every old cell and clears every new one.\<close>

lemma karray_resize_grow:
  assumes "karray_ok w m" "bytemax m \<le> n"
  shows "bytebuf (karray_resize w m n)
           = bytebuf m @ replicate (n div w - bytemax m div w) 0"
  using assms by (auto simp: karray_resize_def Let_def karray_ok_def)

lemma karray_expand_bytemax:
  "minsize > 0 \<Longrightarrow> bytemax (karray_expand w m minsize) = max (2 * bytemax m) minsize"
  by (auto simp: karray_expand_def karray_init_def karray_resize_bytemax Let_def max_def)

lemma karray_expand_bytesize:
  "karray_ok w m \<Longrightarrow> bytesize (karray_expand w m minsize) = bytesize m"
  by (auto simp: karray_expand_def karray_init_def karray_resize_bytesize karray_ok_def Let_def)

lemma karray_expand_ok [kinv]:
  assumes "karray_ok w m"
  shows "karray_ok w (karray_expand w m minsize)"
  using assms
  by (auto simp: karray_expand_def Let_def karray_ok_def karray_init_def karray_resize_bytemax
      karray_resize_bytesize karray_resize_length)

lemma karray_expand_bytebuf:
  assumes "karray_ok w m"
  shows "bytebuf (karray_expand w m minsize)
           = bytebuf m @ replicate (bytemax (karray_expand w m minsize) div w - bytemax m div w) 0"
proof (cases "bytemax m = 0")
  case True
  with assms show ?thesis
    by (auto simp: karray_expand_def karray_init_def karray_ok_def)
next
  case False
  have "bytemax m \<le> (if minsize > bytemax m * 2 then minsize else bytemax m * 2)" by simp
  with False assms show ?thesis
    by (simp add: karray_expand_def Let_def karray_resize_grow karray_resize_bytemax)
qed

lemma karray_expand_content:
  "karray_ok 1 m \<Longrightarrow> content (karray_expand 1 m minsize) = content m"
  by (simp add: content_def karray_expand_bytebuf karray_expand_bytesize) (simp add: karray_ok_def)

lemma karray_free_ok [kinv]: "karray_ok w m \<Longrightarrow> karray_ok w (karray_free m)"
  by (simp add: karray_free_def karray_ok_def)

lemmas karray_expand_facts =
  karray_expand_bytemax karray_expand_bytesize karray_expand_ok karray_expand_bytebuf

section \<open>Write buffers\<close>

text \<open>
  \<^verbatim>\<open>kwb_t\<close> is the position in a shared array where one use of the buffer starts; the array
  itself is passed along. Every operation that touches memory is undefined (\<open>None\<close>) when it
  would leave the allocation.
\<close>

record kwb =
  pos :: nat

definition Kwb_init :: "byte karray \<Rightarrow> kwb" where
  "Kwb_init m = \<lparr>pos = bytesize m\<rparr>"

definition Kwb_write :: "byte karray \<Rightarrow> bytes \<Rightarrow> byte karray option" where
  "Kwb_write m data =
     (let bytelen = length data;
          m = (if \<not> (bytesize m + bytelen < bytemax m)
               then karray_expand 1 m (bytesize m + bytelen) else m)
      in do {
        buf \<leftarrow> mem_write (bytebuf m) (bytesize m) data;
        Some (m\<lparr>bytebuf := buf, bytesize := bytesize m + bytelen\<rparr>)
      })"

text \<open>
  The variadic \<^verbatim>\<open>Kwb_putc\<close> collects \<^verbatim>\<open>int\<close>s into a 256-byte local array up to the \<open>-1\<close>
  that the macro \<^verbatim>\<open>kwb_putc\<close> appends.
\<close>

fun putc_collect :: "int list \<Rightarrow> bytes \<Rightarrow> bytes option" where
  "putc_collect [] buf = None"
| "putc_collect (ch # rest) buf =
     (if ch = -1 then Some buf
      else if length buf < 256 then putc_collect rest (buf @ [word_of_int ch]) else None)"

definition Kwb_putc :: "byte karray \<Rightarrow> int list \<Rightarrow> byte karray option" where
  "Kwb_putc m args = do { buf \<leftarrow> putc_collect args []; Kwb_write m buf }"

text \<open>
  \<^verbatim>\<open>vsnprintf(buf + off, size, ...)\<close> with \<open>out\<close> for the formatted text: at most \<open>size - 1\<close>
  characters and a terminator are stored; the value is the length of the whole text.
\<close>

definition vsnprintf :: "bytes \<Rightarrow> nat \<Rightarrow> nat \<Rightarrow> bytes \<Rightarrow> (bytes \<times> nat) option" where
  "vsnprintf buf off sz out =
     (if sz = 0 then Some (buf, length out)
      else do {
        buf \<leftarrow> mem_write buf off (take (sz - 1) out @ [0]);
        Some (buf, length out)
      })"

definition Kwb_vprintf :: "byte karray \<Rightarrow> bytes \<Rightarrow> byte karray option" where
  "Kwb_vprintf m out =
     (let s = bytesize m in do {
        (buf, n) \<leftarrow> vsnprintf (bytebuf m) s (bytemax m - s) out;
        let m1 = m\<lparr>bytebuf := buf\<rparr>;
        (m2, n) \<leftarrow>
          (if n \<ge> bytemax m1 - s
           then (let m2 = karray_expand 1 m1 (n + 1) in do {
             (buf, n) \<leftarrow> vsnprintf (bytebuf m2) s (bytemax m2 - s) out;
             Some (m2\<lparr>bytebuf := buf\<rparr>, n)
           })
           else Some (m1, n));
        Some (m2\<lparr>bytesize := bytesize m2 + n\<rparr>)
      })"

definition Kwb_printf :: "byte karray \<Rightarrow> bytes \<Rightarrow> byte karray option" where
  "Kwb_printf m out = Kwb_vprintf m out"

text \<open>\<^verbatim>\<open>Kwb_top\<close> returns a pointer into the buffer; the model returns the offset it points to.\<close>

definition Kwb_top :: "byte karray \<Rightarrow> kwb \<Rightarrow> bool \<Rightarrow> (byte karray \<times> nat) option" where
  "Kwb_top m wb ensureZero =
     (if ensureZero
      then (let m = (if \<not> (bytesize m + 1 < bytemax m)
                     then karray_expand 1 m (bytesize m + 1) else m)
            in do {
              buf \<leftarrow> mem_put (bytebuf m) (bytesize m) 0;
              Some (m\<lparr>bytebuf := buf\<rparr>, pos wb)
            })
      else Some (m, pos wb))"

definition Kwb_free :: "byte karray \<Rightarrow> kwb \<Rightarrow> byte karray option" where
  "Kwb_free m wb = do {
     buf \<leftarrow> mem_write (bytebuf m) (pos wb) (replicate (bytesize m - pos wb) 0);
     Some (m\<lparr>bytebuf := buf, bytesize := pos wb\<rparr>)
   }"

text \<open>The bytes a \<^verbatim>\<open>char*\<close> reads up to the terminator; \<open>None\<close> when it runs off the block.\<close>

fun cstring :: "bytes \<Rightarrow> bytes option" where
  "cstring [] = None"
| "cstring (b # bs) = (if b = 0 then Some [] else map_option ((#) b) (cstring bs))"

lemma cstring_append_zero: "0 \<notin> set xs \<Longrightarrow> cstring (xs @ 0 # ys) = Some xs"
  by (induction xs) auto

definition kwb_text :: "byte karray \<Rightarrow> kwb \<Rightarrow> bytes" where
  "kwb_text m wb = drop (pos wb) (content m)"

section \<open>Contract of a text buffer\<close>

text \<open>What a client of a buffer relies on: a write is defined and appends to the content.\<close>

locale text_buffer =
  fixes ok :: "'b \<Rightarrow> bool"
    and text_of :: "'b \<Rightarrow> 'c list"
    and put :: "'b \<Rightarrow> 'c list \<Rightarrow> 'b option"
  assumes write_total: "ok b \<Longrightarrow> \<exists>b'. put b d = Some b'"
    and write_ok: "ok b \<Longrightarrow> put b d = Some b' \<Longrightarrow> ok b'"
    and write_text: "ok b \<Longrightarrow> put b d = Some b' \<Longrightarrow> text_of b' = text_of b @ d"
begin

lemma write_all:
  assumes "ok b"
  shows "\<exists>b'. fold (\<lambda>d m. Option.bind m (\<lambda>b. put b d)) ds (Some b) = Some b'
           \<and> ok b' \<and> text_of b' = text_of b @ concat ds"
  using assms
proof (induction ds arbitrary: b)
  case Nil
  then show ?case by simp
next
  case (Cons d ds)
  obtain b1 where b1: "put b d = Some b1" using write_total [OF Cons.prems] by blast
  with Cons.prems have "ok b1" "text_of b1 = text_of b @ d"
    by (auto intro: write_ok write_text)
  then show ?case using Cons.IH [of b1] b1 by auto
qed

end

text \<open>Storing \<open>d\<close> right behind the content, with the size counter moved on.\<close>

lemma karray_store:
  assumes "karray_ok 1 m" "bytesize m + length d \<le> bytemax m"
    and "buf = take (bytesize m) (bytebuf m) @ d @ rest"
    and "length buf = bytemax m"
  shows "karray_ok 1 (m\<lparr>bytebuf := buf, bytesize := bytesize m + length d\<rparr>)"
    and "content (m\<lparr>bytebuf := buf, bytesize := bytesize m + length d\<rparr>) = content m @ d"
  using assms by (auto simp: karray_ok_def content_def)

lemma Kwb_write_expands:
  assumes "karray_ok 1 m"
  shows "\<exists>m'. Kwb_write m data = Some m' \<and> karray_ok 1 m' \<and> content m' = content m @ data"
proof -
  define m1 where "m1 = (if \<not> (bytesize m + length data < bytemax m)
               then karray_expand 1 m (bytesize m + length data) else m)"
  have ok: "karray_ok 1 m1" using assms by (simp add: m1_def kinv)
  have sz: "bytesize m1 = bytesize m" using assms by (simp add: m1_def karray_expand_bytesize)
  have ct: "content m1 = content m"
    using assms by (simp add: m1_def karray_expand_content del: One_nat_def)
  have room: "bytesize m1 + length data \<le> bytemax m1"
  proof (cases "bytesize m + length data = 0")
    case True
    then show ?thesis using sz by simp
  next
    case False
    then show ?thesis using sz by (auto simp: m1_def karray_expand_bytemax)
  qed
  then have fit: "bytesize m1 + length data \<le> length (bytebuf m1)"
    using ok by (simp add: karray_ok_def)
  define buf where "buf = take (bytesize m1) (bytebuf m1) @ data
            @ drop (bytesize m1 + length data) (bytebuf m1)"
  have "Kwb_write m data = Some (m1\<lparr>bytebuf := buf, bytesize := bytesize m1 + length data\<rparr>)"
    using fit by (simp add: Kwb_write_def Let_def mem_simps buf_def flip: m1_def)
  moreover have "length buf = bytemax m1"
    using ok room by (simp add: buf_def karray_ok_def)
  ultimately show ?thesis
    using karray_store [OF ok room buf_def] ct by simp
qed

interpretation kwb: text_buffer "karray_ok 1" content Kwb_write
proof unfold_locales
  fix b :: "byte karray" and d b'
  assume b: "karray_ok 1 b"
  show "\<exists>b'. Kwb_write b d = Some b'" using Kwb_write_expands [OF b, of d] by blast
  assume w: "Kwb_write b d = Some b'"
  then show "karray_ok 1 b'" "content b' = content b @ d"
    using Kwb_write_expands [OF b, of d] by auto
qed

section \<open>Formatted output\<close>

lemma vsnprintf_Some:
  assumes "off + sz \<le> length buf" "0 < sz"
  shows "vsnprintf buf off sz out = Some (take off buf @ (take (sz - 1) out @ [0])
           @ drop (off + length (take (sz - 1) out @ [0])) buf, length out)"
proof -
  have "off + length (take (sz - 1) out @ [0]) \<le> length buf" using assms by simp
  from mem_write_Some [OF this] show ?thesis using assms by (simp add: vsnprintf_def)
qed

text \<open>One call of \<^verbatim>\<open>vsnprintf\<close> behind the content, whether or not the text fits.\<close>

lemma vsnprintf_behind:
  assumes "karray_ok 1 m"
  obtains buf where
    "vsnprintf (bytebuf m) (bytesize m) (bytemax m - bytesize m) out = Some (buf, length out)"
    and "length buf = bytemax m"
    and "take (bytesize m) buf = take (bytesize m) (bytebuf m)"
    and "bytesize m + length out < bytemax m \<Longrightarrow>
           \<exists>rest. buf = take (bytesize m) (bytebuf m) @ out @ rest"
proof (cases "bytemax m - bytesize m = 0")
  case True
  with assms show ?thesis by (intro that [of "bytebuf m"]) (auto simp: vsnprintf_def karray_ok_def)
next
  case False
  with assms have "bytesize m + (bytemax m - bytesize m) \<le> length (bytebuf m)"
    "0 < bytemax m - bytesize m" by (auto simp: karray_ok_def)
  note w = vsnprintf_Some [OF this, of out]
  show ?thesis by (rule that [OF w]) (use assms False in \<open>auto simp: karray_ok_def\<close>)
qed

lemma Kwb_vprintf_fits:
  assumes "karray_ok 1 m" "bytesize m + length out < bytemax m"
  shows "\<exists>m'. Kwb_vprintf m out = Some m' \<and> karray_ok 1 m' \<and> content m' = content m @ out"
proof -
  obtain buf rest where b:
    "vsnprintf (bytebuf m) (bytesize m) (bytemax m - bytesize m) out = Some (buf, length out)"
    "length buf = bytemax m" "buf = take (bytesize m) (bytebuf m) @ out @ rest"
    using assms by (metis vsnprintf_behind)
  have "\<not> bytemax m - bytesize m \<le> length out" using assms(2) by arith
  then have "Kwb_vprintf m out = Some (m\<lparr>bytebuf := buf, bytesize := bytesize m + length out\<rparr>)"
    using b(1) by (simp add: Kwb_vprintf_def Let_def)
  then show ?thesis
    using karray_store [OF assms(1) _ b(3) b(2)] assms(2) by simp
qed

text \<open>The retry: the array is expanded to \<open>n + 1\<close> bytes and the text is formatted again.\<close>

lemma Kwb_vprintf_retry:
  assumes "karray_ok 1 m" "bytemax m \<le> bytesize m + length out"
  obtains m2 buf where "karray_ok 1 m2" "content m2 = content m" "bytesize m2 = bytesize m"
    and "bytemax m2 = max (2 * bytemax m) (length out + 1)"
    and "Kwb_vprintf m out = Some (m2\<lparr>bytebuf := buf, bytesize := bytesize m + length out\<rparr>)"
    and "length buf = bytemax m2"
    and "bytesize m + length out < bytemax m2 \<longrightarrow>
           (\<exists>rest. buf = take (bytesize m2) (bytebuf m2) @ out @ rest)"
proof -
  obtain buf where b:
    "vsnprintf (bytebuf m) (bytesize m) (bytemax m - bytesize m) out = Some (buf, length out)"
    "length buf = bytemax m" "take (bytesize m) buf = take (bytesize m) (bytebuf m)"
    using assms(1) by (metis vsnprintf_behind)
  define m1 where "m1 = m\<lparr>bytebuf := buf\<rparr>"
  have m1: "karray_ok 1 m1" "content m1 = content m"
    using assms(1) b by (auto simp: m1_def karray_ok_def content_def)
  define m2 where "m2 = karray_expand 1 m1 (length out + 1)"
  have m2: "karray_ok 1 m2" "content m2 = content m" "bytesize m2 = bytesize m"
    "bytemax m2 = max (2 * bytemax m) (length out + 1)"
    using m1 karray_expand_content [OF m1(1)] karray_expand_bytesize [OF m1(1)]
    by (simp_all add: m2_def kinv karray_expand_bytemax) (simp_all add: m1_def)
  obtain buf' where b':
    "vsnprintf (bytebuf m2) (bytesize m2) (bytemax m2 - bytesize m2) out = Some (buf', length out)"
    "length buf' = bytemax m2"
    "bytesize m2 + length out < bytemax m2 \<longrightarrow>
       (\<exists>rest. buf' = take (bytesize m2) (bytebuf m2) @ out @ rest)"
    using vsnprintf_behind [OF m2(1), of out] by metis
  have "Kwb_vprintf m out = Some (m2\<lparr>bytebuf := buf', bytesize := bytesize m + length out\<rparr>)"
    using assms(2) b(1) b'(1) m2(3)
    by (simp add: Kwb_vprintf_def Let_def m1_def [symmetric] m2_def [symmetric] del: One_nat_def)
  then show ?thesis using m2 b' by (intro that [of m2 buf']) auto
qed

text \<open>Clearing the buffer at the position where it began gives back the content of that time.\<close>

lemma Kwb_free_back:
  assumes "karray_ok 1 m" "karray_ok 1 m1" "content m1 = content m @ t"
  shows "\<exists>m2. Kwb_free m1 (Kwb_init m) = Some m2 \<and> karray_ok 1 m2 \<and> content m2 = content m"
proof -
  have len: "length (content m) = bytesize m" "length (content m1) = bytesize m1"
    using assms(1,2) by (auto simp: content_def karray_ok_def)
  with assms(3) have le: "bytesize m \<le> bytesize m1" by simp
  have take: "take (bytesize m) (bytebuf m1) = content m"
    using assms(3) len le by (metis append_eq_conv_conj content_def min.absorb_iff1 take_take)
  have "bytesize m + length (replicate (bytesize m1 - bytesize m) (0::byte)) \<le> length (bytebuf m1)"
    using assms(2) le by (simp add: karray_ok_def)
  from mem_write_Some [OF this] show ?thesis
    using len take assms(2) le by (auto simp: Kwb_init_def Kwb_free_def karray_ok_def content_def)
qed

lemma Kwb_top_total:
  assumes "karray_ok 1 m"
  shows "\<exists>m'. Kwb_top m wb True = Some (m', pos wb) \<and> karray_ok 1 m' \<and> content m' = content m"
proof -
  define m1 where "m1 = (if \<not> (bytesize m + 1 < bytemax m)
                     then karray_expand 1 m (bytesize m + 1) else m)"
  have ok: "karray_ok 1 m1" using assms(1) by (simp add: m1_def kinv del: One_nat_def)
  have sz: "bytesize m1 = bytesize m" "content m1 = content m"
    using assms(1) by (simp_all add: m1_def karray_expand_bytesize karray_expand_content del: One_nat_def)
  have room: "bytesize m1 < bytemax m1" using sz by (auto simp: m1_def karray_expand_bytemax)
  then have lt: "bytesize m1 < length (bytebuf m1)" using ok by (simp add: karray_ok_def)
  have "Kwb_top m wb True = Some (m1\<lparr>bytebuf := (bytebuf m1)[bytesize m1 := 0]\<rparr>, pos wb)"
    using lt by (simp add: Kwb_top_def Let_def m1_def [symmetric] mem_put_Some
        del: One_nat_def)
  then show ?thesis using ok sz lt by (auto simp: karray_ok_def content_def)
qed

text \<open>C22: Writing any chunks to a write buffer never leaves its allocation, appends them in
  order, and clearing the buffer at its start position gives back the earlier content, so nested
  uses of the shared buffer do not disturb each other.\<close>

theorem kwb_scope:
  assumes "karray_ok 1 m"
  shows "\<exists>m1 m2. fold (\<lambda>d acc. Option.bind acc (\<lambda>b. Kwb_write b d)) ds (Some m) = Some m1
           \<and> kwb_text m1 (Kwb_init m) = concat ds
           \<and> Kwb_free m1 (Kwb_init m) = Some m2
           \<and> karray_ok 1 m2 \<and> content m2 = content m"
proof -
  obtain m1 where w: "fold (\<lambda>d acc. Option.bind acc (\<lambda>b. Kwb_write b d)) ds (Some m) = Some m1"
    and ok: "karray_ok 1 m1" and ct: "content m1 = content m @ concat ds"
    using kwb.write_all [OF assms] by blast
  have "length (content m) = bytesize m" using assms by (auto simp: content_def karray_ok_def)
  then have "kwb_text m1 (Kwb_init m) = concat ds" using ct by (simp add: kwb_text_def Kwb_init_def)
  with w Kwb_free_back [OF assms ok ct] show ?thesis by blast
qed

theorem kwb_scope_witness:
  "\<exists>m1 m2. fold (\<lambda>d acc. Option.bind acc (\<lambda>b. Kwb_write b d)) [[1, 2], [3]]
      (Some \<lparr>bytesize = 1, bytebuf = [7, 0], bytemax = 2\<rparr>) = Some m1
    \<and> kwb_text m1 (Kwb_init \<lparr>bytesize = 1, bytebuf = [7, 0], bytemax = 2\<rparr>) = concat [[1, 2], [3]]
    \<and> Kwb_free m1 (Kwb_init \<lparr>bytesize = 1, bytebuf = [7, 0], bytemax = 2\<rparr>) = Some m2
    \<and> karray_ok 1 m2 \<and> content m2 = content \<lparr>bytesize = 1, bytebuf = [7, 0], bytemax = 2\<rparr>"
  by (rule kwb_scope) (simp add: karray_ok_def)

text \<open>Formatted output is appended in full whenever the buffer is empty or twice its capacity
  holds the old content, the text and a terminator.\<close>

theorem Kwb_vprintf_appends:
  assumes "karray_ok 1 m" "bytesize m = 0 \<or> bytesize m + length out < 2 * bytemax m"
  shows "\<exists>m'. Kwb_vprintf m out = Some m' \<and> karray_ok 1 m' \<and> content m' = content m @ out"
proof (cases "bytesize m + length out < bytemax m")
  case True
  then show ?thesis using assms(1) by (rule Kwb_vprintf_fits [rotated])
next
  case False
  then have le: "bytemax m \<le> bytesize m + length out" by simp
  obtain m2 buf where m2: "karray_ok 1 m2" "content m2 = content m" "bytesize m2 = bytesize m"
      "bytemax m2 = max (2 * bytemax m) (length out + 1)"
    and run: "Kwb_vprintf m out = Some (m2\<lparr>bytebuf := buf, bytesize := bytesize m + length out\<rparr>)"
    and len: "length buf = bytemax m2"
    and fit: "bytesize m + length out < bytemax m2 \<longrightarrow>
           (\<exists>rest. buf = take (bytesize m2) (bytebuf m2) @ out @ rest)"
    by (rule Kwb_vprintf_retry [OF assms(1) le])
  have room: "bytesize m + length out < bytemax m2" using assms(2) m2(4) by auto
  with fit obtain rest where "buf = take (bytesize m2) (bytebuf m2) @ out @ rest" by blast
  with karray_store [OF m2(1) _ this len] show ?thesis using run room m2 by simp
qed

theorem Kwb_vprintf_appends_witness:
  "\<exists>m'. Kwb_vprintf \<lparr>bytesize = 1, bytebuf = [7, 0], bytemax = 2\<rparr> [8, 9] = Some m'
     \<and> karray_ok 1 m'
     \<and> content m' = content \<lparr>bytesize = 1, bytebuf = [7, 0], bytemax = 2\<rparr> @ [8, 9]"
  by (rule Kwb_vprintf_appends) (simp_all add: karray_ok_def)

text \<open>C38: When the buffer already holds two bytes and the text is at least twice its capacity,
  the retry reserves room for the text alone: the size counter ends up beyond the allocation, and
  clearing the buffer then writes outside it.\<close>

theorem Kwb_vprintf_overrun:
  assumes "karray_ok 1 m" "2 \<le> bytesize m" "2 * bytemax m \<le> length out"
  shows "\<exists>m'. Kwb_vprintf m out = Some m' \<and> bytemax m' < bytesize m' \<and> length (bytebuf m') = bytemax m'
           \<and> Kwb_free m' (Kwb_init m) = None"
proof -
  have le: "bytemax m \<le> bytesize m + length out" using assms(3) by simp
  obtain m2 buf where m2: "bytemax m2 = max (2 * bytemax m) (length out + 1)"
      "length buf = bytemax m2"
    and run: "Kwb_vprintf m out = Some (m2\<lparr>bytebuf := buf, bytesize := bytesize m + length out\<rparr>)"
    using Kwb_vprintf_retry [OF assms(1) le] by metis
  have "length out + 1 < bytesize m + length out" using assms(2) by simp
  with m2 assms(3) show ?thesis
    by (simp add: run Kwb_free_def Kwb_init_def mem_write_def max_def)
qed

theorem Kwb_vprintf_overrun_witness:
  "\<exists>m'. Kwb_vprintf \<lparr>bytesize = 2, bytebuf = [7, 7], bytemax = 2\<rparr> [1, 2, 3, 4] = Some m'
     \<and> bytemax m' < bytesize m' \<and> length (bytebuf m') = bytemax m'
     \<and> Kwb_free m' (Kwb_init \<lparr>bytesize = 2, bytebuf = [7, 7], bytemax = 2\<rparr>) = None"
  by (rule Kwb_vprintf_overrun) (simp_all add: karray_ok_def)

text \<open>\<^verbatim>\<open>Kwb_top\<close> with \<open>ensureZero\<close> yields a C string: the text of the buffer, terminated.\<close>

lemma Kwb_top_text:
  assumes "karray_ok 1 m" "pos wb \<le> bytesize m" "0 \<notin> set (kwb_text m wb)"
  shows "\<exists>m' p. Kwb_top m wb True = Some (m', p) \<and> karray_ok 1 m' \<and> content m' = content m
           \<and> cstring (drop p (bytebuf m')) = Some (kwb_text m wb)"
proof -
  define m1 where "m1 = (if \<not> (bytesize m + 1 < bytemax m)
                     then karray_expand 1 m (bytesize m + 1) else m)"
  have ok: "karray_ok 1 m1" using assms(1) by (simp add: m1_def kinv del: One_nat_def)
  have sz: "bytesize m1 = bytesize m" "content m1 = content m"
    using assms(1) by (simp_all add: m1_def karray_expand_bytesize karray_expand_content del: One_nat_def)
  have room: "bytesize m1 < bytemax m1" using sz by (auto simp: m1_def karray_expand_bytemax)
  then have lt: "bytesize m1 < length (bytebuf m1)" using ok by (simp add: karray_ok_def)
  define m' where "m' = m1\<lparr>bytebuf := (bytebuf m1)[bytesize m1 := 0]\<rparr>"
  have run: "Kwb_top m wb True = Some (m', pos wb)"
    using lt by (simp add: Kwb_top_def Let_def m1_def [symmetric] m'_def mem_put_Some
        del: One_nat_def)
  have "bytebuf m' = content m @ 0 # drop (Suc (bytesize m1)) (bytebuf m1)"
    using lt sz by (simp add: m'_def content_def upd_conv_take_nth_drop)
  moreover have "pos wb \<le> length (content m)"
    using assms(1,2) by (simp add: content_def karray_ok_def)
  ultimately have "cstring (drop (pos wb) (bytebuf m')) = Some (kwb_text m wb)"
    using assms(3) by (simp add: kwb_text_def cstring_append_zero)
  then show ?thesis using run ok sz room
    by (auto simp: m'_def karray_ok_def content_def)
qed

end
