(* ===== verification/Kmap.thy ===== *)
theory Kmap
  imports Prelude
begin

text \<open>
  \<^verbatim>\<open>kmap_t\<close> of \<^verbatim>\<open>src/konoha/klibexec.h\<close>: a chained hash table whose entries live in one
  arena, threaded into bucket chains and a free list.

  A pointer into the arena is the allocation it points into and the index of the entry, so an
  entry read through a pointer that was not rebased after the arena moved is undefined
  (\<open>None\<close>). Memory that the code reads before writing it is a parameter \<open>junk\<close>.
\<close>

section \<open>Data\<close>

datatype eptr = EP (blk: nat) (idx: nat)

record 'k kmape =
  hcode :: u64
  nxt :: "eptr option"
  ekey :: "'k option"
  uvalue :: u64

record 'k kmap =
  arena_blk :: nat
  arena :: "'k kmape list"
  unused :: "eptr option"
  hentry :: "eptr option list"
  arenasize :: nat
  ksize :: nat
  hmax :: nat

definition zero_entry :: "'k kmape" where
  "zero_entry = \<lparr>hcode = 0, nxt = None, ekey = None, uvalue = 0\<rparr>"

definition HMAP_INIT :: nat where
  "HMAP_INIT = 83"

definition deref :: "'k kmap \<Rightarrow> eptr \<Rightarrow> 'k kmape option" where
  "deref m p = (if blk p = arena_blk m then mem_get (arena m) (idx p) else None)"

definition store :: "'k kmap \<Rightarrow> eptr \<Rightarrow> 'k kmape \<Rightarrow> 'k kmap option" where
  "store m p x =
     (if blk p = arena_blk m
      then do { a \<leftarrow> mem_put (arena m) (idx p) x; Some (m\<lparr>arena := a\<rparr>) } else None)"

definition bucket_of :: "nat \<Rightarrow> u64 \<Rightarrow> nat" where
  "bucket_of n h = unat h mod n"

section \<open>Operations\<close>

definition kmap_makeFreeList :: "'k kmap \<Rightarrow> nat \<Rightarrow> nat \<Rightarrow> 'k kmap option" where
  "kmap_makeFreeList m s e = do {
     a \<leftarrow> mem_write (arena m) s (replicate (e - s) zero_entry);
     let a = update_each (\<lambda>i x. x\<lparr>hcode := -1, uvalue := 0, nxt := Some (EP (arena_blk m) (i + 1))\<rparr>)
               [s..<e - 1] a;
     x \<leftarrow> mem_get a (e - 1);
     a \<leftarrow> mem_put a (e - 1) (x\<lparr>hcode := -1, uvalue := 0\<rparr>);
     (if nxt x = None
      then Some (m\<lparr>arena := a, unused := Some (EP (arena_blk m) s)\<rparr>) else None)
   }"

definition rehash_step ::
    "nat \<Rightarrow> nat \<Rightarrow> nat \<Rightarrow> 'k kmape list \<times> eptr option list \<Rightarrow> 'k kmape list \<times> eptr option list" where
  "rehash_step b newhmax i = (\<lambda>(a, newhentry).
     let ni = bucket_of newhmax (hcode (a ! i))
     in (a[i := (a ! i)\<lparr>nxt := newhentry ! ni\<rparr>], newhentry[ni := Some (EP b i)]))"

definition kmap_rehash :: "'k kmap \<Rightarrow> 'k kmap" where
  "kmap_rehash m =
     (let newhmax = hmax m * 2 + 1;
          (a, newhentry) = fold (rehash_step (arena_blk m) newhmax) [0..<arenasize m div 2]
                             (arena m, replicate newhmax None)
      in m\<lparr>arena := a, hentry := newhentry, hmax := newhmax\<rparr>)"

text \<open>Adding the distance of the two arenas to a pointer into the old one.\<close>

definition shift_ptr :: "nat \<Rightarrow> nat \<Rightarrow> eptr \<Rightarrow> eptr" where
  "shift_ptr oblk nblk p = (if blk p = oblk then EP nblk (idx p) else p)"

definition kmap_shiftptr :: "'k kmap \<Rightarrow> nat \<Rightarrow> 'k kmap" where
  "kmap_shiftptr m oblk =
     m\<lparr>arena := update_each
         (\<lambda>i x. if nxt x \<noteq> None then x\<lparr>nxt := map_option (shift_ptr oblk (arena_blk m)) (nxt x)\<rparr> else x)
         [0..<arenasize m div 2] (arena m)\<rparr>"

text \<open>
  The growth step. \<^verbatim>\<open>memcpy\<close> copies \<^verbatim>\<open>arenasize\<close> entries after \<^verbatim>\<open>arenasize\<close> was doubled, so
  its second half reads behind the old arena: that half is \<open>junk\<close>.
\<close>

definition kmap_grow :: "(nat \<Rightarrow> 'k kmape) \<Rightarrow> 'k kmap \<Rightarrow> 'k kmap option" where
  "kmap_grow junk m =
     (let oarenasize = arenasize m;
          oblk = arena_blk m;
          m = m\<lparr>arenasize := arenasize m * 2, arena_blk := Suc oblk,
                arena := arena m @ map junk [oarenasize..<oarenasize * 2]\<rparr>;
          m = kmap_shiftptr m oblk
      in do {
        m \<leftarrow> kmap_makeFreeList m oarenasize (arenasize m);
        Some (kmap_rehash m)
      })"

definition Kmap_newentry ::
    "(nat \<Rightarrow> 'k kmape) \<Rightarrow> 'k kmap \<Rightarrow> u64 \<Rightarrow> ('k kmap \<times> eptr) option" where
  "Kmap_newentry junk m h = do {
     m \<leftarrow> (if unused m = None then kmap_grow junk m else Some m);
     e \<leftarrow> unused m;
     x \<leftarrow> deref m e;
     m \<leftarrow> store (m\<lparr>unused := nxt x\<rparr>) e (x\<lparr>hcode := h, nxt := None\<rparr>);
     Some (m\<lparr>ksize := ksize m + 1\<rparr>, e)
   }"

definition Kmap_init :: "(nat \<Rightarrow> 'k kmape) \<Rightarrow> nat \<Rightarrow> 'k kmap option" where
  "Kmap_init junk init =
     (let init = (if init < HMAP_INIT then HMAP_INIT else init);
          n = (init * 3) div 4;
          m = \<lparr>arena_blk = 0, arena = map junk [0..<n], unused = None, hentry = [],
               arenasize = n, ksize = 0, hmax = 0\<rparr>
      in do {
        m \<leftarrow> kmap_makeFreeList m 0 (arenasize m);
        Some (m\<lparr>hentry := replicate init None, hmax := init, ksize := 0\<rparr>)
      })"

partial_function (option) find_entry ::
    "'k kmap \<Rightarrow> ('k kmape \<Rightarrow> bool) \<Rightarrow> eptr option \<Rightarrow> eptr option option" where
  "find_entry m p e =
     (case e of None \<Rightarrow> Some None
      | Some q \<Rightarrow> do { x \<leftarrow> deref m q; if p x then Some (Some q) else find_entry m p (nxt x) })"

declare find_entry.simps [code]

definition Kmap_getentry :: "'k kmap \<Rightarrow> u64 \<Rightarrow> eptr option option" where
  "Kmap_getentry m h = do {
     e \<leftarrow> mem_get (hentry m) (bucket_of (hmax m) h);
     find_entry m (\<lambda>x. hcode x = h) e
   }"

definition Kmap_add :: "'k kmap \<Rightarrow> eptr \<Rightarrow> 'k kmap option" where
  "Kmap_add m ne = do {
     x \<leftarrow> deref m ne;
     (if nxt x = None then do {
        let i = bucket_of (hmax m) (hcode x);
        e \<leftarrow> mem_get (hentry m) i;
        m \<leftarrow> store m ne (x\<lparr>nxt := e\<rparr>);
        h \<leftarrow> mem_put (hentry m) i (Some ne);
        Some (m\<lparr>hentry := h\<rparr>)
      } else None)
   }"

definition kmap_unuse :: "'k kmap \<Rightarrow> eptr \<Rightarrow> 'k kmap option" where
  "kmap_unuse m e = do {
     x \<leftarrow> deref m e;
     m \<leftarrow> store m e (x\<lparr>nxt := unused m, hcode := -1, uvalue := 0\<rparr>);
     Some (m\<lparr>unused := Some e, ksize := ksize m - 1\<rparr>)
   }"

definition Kmap_remove :: "'k kmap \<Rightarrow> eptr \<Rightarrow> 'k kmap option" where
  "Kmap_remove m oe = do {
     ox \<leftarrow> deref m oe;
     let i = bucket_of (hmax m) (hcode ox);
     e \<leftarrow> mem_get (hentry m) i;
     r \<leftarrow> find_entry m (\<lambda>x. nxt x = Some oe) e;
     (case r of
        Some q \<Rightarrow> do {
          x \<leftarrow> deref m q;
          m \<leftarrow> store m q (x\<lparr>nxt := nxt ox\<rparr>);
          kmap_unuse m oe
        }
      | None \<Rightarrow> do {
          h \<leftarrow> mem_put (hentry m) i (nxt ox);
          kmap_unuse (m\<lparr>hentry := h\<rparr>) oe
        })
   }"

text \<open>\<^verbatim>\<open>Kmap_reftrace\<close> and \<^verbatim>\<open>Kmap_free\<close> call \<open>f\<close> on each entry; the model lists the entries in call order.\<close>

partial_function (option) chain_entries ::
    "'k kmap \<Rightarrow> eptr option \<Rightarrow> 'k kmape list option" where
  "chain_entries m e =
     (case e of None \<Rightarrow> Some []
      | Some q \<Rightarrow> do { x \<leftarrow> deref m q; xs \<leftarrow> chain_entries m (nxt x); Some (x # xs) })"

declare chain_entries.simps [code]

fun buckets_entries :: "'k kmap \<Rightarrow> eptr option list \<Rightarrow> 'k kmape list option" where
  "buckets_entries m [] = Some []"
| "buckets_entries m (e # es) =
     do { xs \<leftarrow> chain_entries m e; ys \<leftarrow> buckets_entries m es; Some (xs @ ys) }"

definition Kmap_reftrace :: "'k kmap \<Rightarrow> 'k kmape list option" where
  "Kmap_reftrace m = buckets_entries m (hentry m)"

definition Kmap_free :: "bool \<Rightarrow> 'k kmap \<Rightarrow> u64 list option" where
  "Kmap_free has_f m = (if has_f then map_option (map uvalue) (buckets_entries m (hentry m)) else Some [])"

text \<open>Entry creation as its clients do it: take a free entry, set key and value, link it.\<close>

definition map_addStringUnboxValue ::
    "(nat \<Rightarrow> 'k kmape) \<Rightarrow> 'k kmap \<Rightarrow> u64 \<Rightarrow> 'k \<Rightarrow> u64 \<Rightarrow> 'k kmap option" where
  "map_addStringUnboxValue junk m h skey v = do {
     (m, e) \<leftarrow> Kmap_newentry junk m h;
     x \<leftarrow> deref m e;
     m \<leftarrow> store m e (x\<lparr>ekey := Some skey, uvalue := v\<rparr>);
     Kmap_add m e
   }"

section \<open>Chains\<close>

text \<open>\<open>chain b a e is\<close>: from \<open>e\<close> the entries at \<open>is\<close> of arena \<open>a\<close>, allocated at \<open>b\<close>, are linked.\<close>

fun chain :: "nat \<Rightarrow> 'k kmape list \<Rightarrow> eptr option \<Rightarrow> nat list \<Rightarrow> bool" where
  "chain b a e [] \<longleftrightarrow> e = None"
| "chain b a e (i # is) \<longleftrightarrow> e = Some (EP b i) \<and> i < length a \<and> chain b a (nxt (a ! i)) is"

lemma chain_bound: "chain b a e is \<Longrightarrow> j \<in> set is \<Longrightarrow> j < length a"
  by (induction "is" arbitrary: e) auto

lemma chain_cong:
  assumes "chain b a e is" "length a' \<ge> length a" "\<And>j. j \<in> set is \<Longrightarrow> nxt (a' ! j) = nxt (a ! j)"
  shows "chain b a' e is"
  using assms(1,3) by (induction "is" arbitrary: e) (use assms(2) in auto)

lemma chain_update: "chain b a e is \<Longrightarrow> i \<notin> set is \<Longrightarrow> chain b (a[i := x]) e is"
  by (erule chain_cong) (auto, metis nth_list_update_neq)

lemma chain_append:
  "chain b a e (is @ j # js) \<Longrightarrow> chain b a (Some (EP b j)) (j # js)"
  by (induction "is" arbitrary: e) auto

lemma find_entry_chain:
  assumes "chain (arena_blk m) (arena m) e is"
  shows "find_entry m P e = Some (map_option (EP (arena_blk m)) (List.find (\<lambda>i. P (arena m ! i)) is))"
  using assms
  by (induction "is" arbitrary: e)
     (auto simp: find_entry.simps [of m P None] find_entry.simps [of m P "Some q" for q]
        deref_def mem_get_def)

lemma chain_entries_chain:
  assumes "chain (arena_blk m) (arena m) e is"
  shows "chain_entries m e = Some (map ((!) (arena m)) is)"
  using assms
  by (induction "is" arbitrary: e)
     (auto simp: chain_entries.simps [of m None] chain_entries.simps [of m "Some q" for q]
        deref_def mem_get_def)

lemma find_Some_nth: "List.find P xs = Some x \<Longrightarrow> x \<in> set xs \<and> P x"
  by (auto simp: find_Some_iff)

section \<open>Representation\<close>

text \<open>
  \<open>cs\<close> lists the arena indices of each bucket, \<open>fs\<close> those of the free list and \<open>ps\<close> entries
  that were handed out and not linked yet: together they are the whole arena, once each.
\<close>

definition kmap_rep :: "'k kmap \<Rightarrow> nat list list \<Rightarrow> nat list \<Rightarrow> nat list \<Rightarrow> bool" where
  "kmap_rep m cs fs ps \<longleftrightarrow>
     length (arena m) = arenasize m \<and> 0 < arenasize m \<and> 0 < hmax m
     \<and> length (hentry m) = hmax m \<and> length cs = hmax m
     \<and> (\<forall>i < hmax m. chain (arena_blk m) (arena m) (hentry m ! i) (cs ! i)
           \<and> (\<forall>j \<in> set (cs ! i). bucket_of (hmax m) (hcode (arena m ! j)) = i))
     \<and> chain (arena_blk m) (arena m) (unused m) fs
     \<and> mset (concat cs) + mset fs + mset ps = mset [0..<arenasize m]
     \<and> ksize m = length (concat cs) + length ps"

definition edata :: "'k kmape \<Rightarrow> u64 \<times> 'k option \<times> u64" where
  "edata x = (hcode x, ekey x, uvalue x)"

text \<open>The table stands for the multiset of (hash, key, value) of its linked entries.\<close>

definition kmap_models :: "'k kmap \<Rightarrow> (u64 \<times> 'k option \<times> u64) multiset \<Rightarrow> bool" where
  "kmap_models m M \<longleftrightarrow>
     (\<exists>cs fs. kmap_rep m cs fs [] \<and> M = image_mset (\<lambda>i. edata (arena m ! i)) (mset (concat cs)))"

lemma bucket_of_less: "0 < n \<Longrightarrow> bucket_of n h < n"
  by (simp add: bucket_of_def)

lemma kmap_rep_distinct:
  assumes "kmap_rep m cs fs ps"
  shows "distinct (concat cs @ fs @ ps)"
proof -
  have "mset (concat cs @ fs @ ps) = mset [0..<arenasize m]"
    using assms by (simp add: kmap_rep_def add.assoc)
  then show ?thesis by (metis distinct_upt mset_eq_imp_distinct_iff)
qed

lemma kmap_rep_set:
  assumes "kmap_rep m cs fs ps"
  shows "set (concat cs) \<union> set fs \<union> set ps = {..<arenasize m}"
proof -
  have "mset (concat cs @ fs @ ps) = mset [0..<arenasize m]"
    using assms by (simp add: kmap_rep_def add.assoc)
  then have "set (concat cs @ fs @ ps) = set [0..<arenasize m]" by (rule mset_eq_setD)
  then show ?thesis by (auto simp: atLeast0LessThan)
qed

lemma kmap_repD:
  assumes "kmap_rep m cs fs ps"
  shows "length (arena m) = arenasize m" "0 < arenasize m" "0 < hmax m"
    "length (hentry m) = hmax m" "length cs = hmax m"
    "chain (arena_blk m) (arena m) (unused m) fs"
    "mset (concat cs) + mset fs + mset ps = mset [0..<arenasize m]"
    "ksize m = length (concat cs) + length ps"
  using assms unfolding kmap_rep_def by blast+

lemma kmap_rep_bucket:
  assumes "kmap_rep m cs fs ps" "i < hmax m"
  shows "chain (arena_blk m) (arena m) (hentry m ! i) (cs ! i)"
    and "j \<in> set (cs ! i) \<Longrightarrow> bucket_of (hmax m) (hcode (arena m ! j)) = i"
  using assms unfolding kmap_rep_def by blast+

lemma kmap_rep_get:
  assumes "kmap_rep m cs fs ps"
  shows "Kmap_getentry m h
           = Some (map_option (EP (arena_blk m))
               (List.find (\<lambda>i. hcode (arena m ! i) = h) (cs ! bucket_of (hmax m) h)))"
proof -
  note D = kmap_repD [OF assms]
  have b: "bucket_of (hmax m) h < hmax m" using D by (simp add: bucket_of_less)
  show ?thesis
    using find_entry_chain [OF kmap_rep_bucket(1) [OF assms b]] b D
    by (simp add: Kmap_getentry_def mem_get_def)
qed

section \<open>The free list and growth\<close>

text \<open>What \<^verbatim>\<open>kmap_makeFreeList\<close> leaves in the cells \<open>s\<close> to \<open>e\<close> of the arena.\<close>

definition free_cell :: "nat \<Rightarrow> nat \<Rightarrow> nat \<Rightarrow> 'k kmape" where
  "free_cell b e i =
     zero_entry\<lparr>hcode := -1, nxt := (if i + 1 < e then Some (EP b (i + 1)) else None)\<rparr>"

lemma chain_free_cells:
  assumes "s < e" "e \<le> length a" "\<And>i. s \<le> i \<Longrightarrow> i < e \<Longrightarrow> a ! i = free_cell b e i"
  shows "chain b a (Some (EP b s)) [s..<e]"
  using assms
proof (induction "e - s" arbitrary: s)
  case 0
  then show ?case by simp
next
  case (Suc d)
  have upt: "[s..<e] = s # [Suc s..<e]" using Suc.prems by (simp add: upt_conv_Cons)
  have cell: "nxt (a ! s) = (if Suc s < e then Some (EP b (Suc s)) else None)"
    using Suc.prems(1) Suc.prems(3) [of s] by (simp add: free_cell_def)
  show ?case
  proof (cases "Suc s < e")
    case True
    have "chain b a (Some (EP b (Suc s))) [Suc s..<e]"
      using Suc.hyps Suc.prems True by (intro Suc.hyps) simp_all
    then show ?thesis using upt cell True Suc.prems by simp
  next
    case False
    then show ?thesis using upt cell Suc.prems by simp
  qed
qed

lemma kmap_makeFreeList_eq:
  assumes "s < e" "e \<le> length (arena m)"
  shows "kmap_makeFreeList m s e =
     Some (m\<lparr>arena := take s (arena m) @ map (free_cell (arena_blk m) e) [s..<e] @ drop e (arena m),
             unused := Some (EP (arena_blk m) s)\<rparr>)"
proof -
  let ?b = "arena_blk m"
  define a where "a = take s (arena m) @ replicate (e - s) zero_entry @ drop e (arena m)"
  define f where "f = (\<lambda>i (x :: 'a kmape). x\<lparr>hcode := -1, uvalue := 0, nxt := Some (EP ?b (i + 1))\<rparr>)"
  define a1 where "a1 = update_each f [s..<e - 1] a"
  have w: "mem_write (arena m) s (replicate (e - s) zero_entry) = Some a"
    using assms by (simp add: mem_write_def a_def)
  have len: "length a = length (arena m)" using assms by (simp add: a_def)
  have last: "a1 ! (e - 1) = zero_entry"
    using assms len by (simp add: a1_def nth_update_each) (simp add: a_def nth_append)
  have *: "a1[e - 1 := zero_entry\<lparr>hcode := -1, uvalue := 0\<rparr>]
      = take s (arena m) @ map (free_cell ?b e) [s..<e] @ drop e (arena m)"
  proof (rule nth_equalityI)
    fix i assume "i < length (a1[e - 1 := zero_entry\<lparr>hcode := -1, uvalue := 0\<rparr>])"
    then have i: "i < length (arena m)" using len by (simp add: a1_def)
    then have nth: "a1 ! i = (if i \<in> set [s..<e - 1] then f i (a ! i) else a ! i)"
      unfolding a1_def using len by (intro nth_update_each) simp_all
    consider "i < s" | "s \<le> i \<and> i < e - 1" | "i = e - 1" | "e \<le> i" using assms by linarith
    then show "a1[e - 1 := zero_entry\<lparr>hcode := -1, uvalue := 0\<rparr>] ! i
        = (take s (arena m) @ map (free_cell ?b e) [s..<e] @ drop e (arena m)) ! i"
    proof cases
      case 1
      then show ?thesis using assms nth by (simp add: nth_append a_def)
    next
      case 2
      then have "Suc i < e" "i - s < e - s" "s \<le> i" using assms by auto
      then show ?thesis
        using assms nth by (simp add: nth_append a_def f_def free_cell_def zero_entry_def)
    next
      case 3
      then show ?thesis
        using assms nth len by (simp add: nth_append a1_def free_cell_def zero_entry_def)
    next
      case 4
      then show ?thesis using assms nth i by (simp add: nth_append a_def)
    qed
  qed (use assms len in \<open>simp add: a1_def\<close>)
  show ?thesis
    using w last * assms len unfolding f_def a1_def
    by (simp add: kmap_makeFreeList_def mem_get_def mem_put_def zero_entry_def Let_def)
qed

text \<open>Rehashing the first \<open>k\<close> entries puts each of them in the chain of its new bucket.\<close>

definition rehashed ::
    "nat \<Rightarrow> 'k kmape list \<Rightarrow> nat \<Rightarrow> nat \<Rightarrow> 'k kmape list \<times> eptr option list \<Rightarrow> nat list list \<Rightarrow> bool" where
  "rehashed b a0 n k r cs \<longleftrightarrow>
     length (fst r) = length a0 \<and> map edata (fst r) = map edata a0
     \<and> (\<forall>i. k \<le> i \<longrightarrow> fst r ! i = a0 ! i)
     \<and> length (snd r) = n \<and> length cs = n \<and> mset (concat cs) = mset [0..<k]
     \<and> (\<forall>j < n. chain b (fst r) (snd r ! j) (cs ! j)
           \<and> (\<forall>i \<in> set (cs ! j). bucket_of n (hcode (fst r ! i)) = j))"

lemma edata_eqD: "edata x = edata y \<Longrightarrow> hcode x = hcode y"
  by (simp add: edata_def)

lemma rehashed_step:
  assumes r: "rehashed b a0 n k r cs" and k: "k < length a0" and n: "0 < n"
  shows "\<exists>cs'. rehashed b a0 n (Suc k) (rehash_step b n k r) cs'"
proof -
  obtain a he where [simp]: "r = (a, he)" by (cases r)
  define ni where "ni = bucket_of n (hcode (a ! k))"
  define x where "x = (a ! k)\<lparr>nxt := he ! ni\<rparr>"
  have ni: "ni < n" using n by (simp add: ni_def bucket_of_less)
  have D: "length a = length a0" "map edata a = map edata a0" "length he = n" "length cs = n"
    "mset (concat cs) = mset [0..<k]" "\<And>i. k \<le> i \<Longrightarrow> a ! i = a0 ! i"
    "\<And>j. j < n \<Longrightarrow> chain b a (he ! j) (cs ! j)"
    "\<And>i j. j < n \<Longrightarrow> i \<in> set (cs ! j) \<Longrightarrow> bucket_of n (hcode (a ! i)) = j"
    using r unfolding rehashed_def by auto
  have fresh: "k \<notin> set (cs ! j)" if "j < n" for j
    using nth_in_concat [of j cs k] mset_eq_setD [OF D(5)] that D(4) by auto
  have hx: "hcode x = hcode (a ! k)" "edata x = edata (a ! k)" by (simp_all add: x_def edata_def)
  define cs' where "cs' = cs[ni := k # cs ! ni]"
  have "mset (concat cs') = mset [0..<Suc k]"
    using mset_concat_Cons [of ni cs k] ni D by (simp add: cs'_def)
  moreover have "map edata (a[k := x]) = map edata a0"
    using D(2) hx(2) by (simp add: map_update_same)
  moreover have "chain b (a[k := x]) (he[ni := Some (EP b k)] ! j) (cs' ! j)
      \<and> (\<forall>i \<in> set (cs' ! j). bucket_of n (hcode (a[k := x] ! i)) = j)" if j: "j < n" for j
  proof (cases "j = ni")
    case True
    have "chain b (a[k := x]) (he ! ni) (cs ! ni)"
      using D(7) [OF ni] fresh [OF ni] by (rule chain_update)
    then show ?thesis using True ni D k fresh [OF ni] hx
      by (auto simp: cs'_def x_def nth_list_update ni_def)
  next
    case False
    have "a[k := x] ! i = a ! i" if "i \<in> set (cs ! j)" for i
      using fresh [OF j] that by (metis nth_list_update_neq)
    then show ?thesis using False D(7) [OF j] D(8) [OF j] fresh [OF j]
      by (auto simp: cs'_def chain_update)
  qed
  ultimately have "rehashed b a0 n (Suc k) (a[k := x], he[ni := Some (EP b k)]) cs'"
    using D unfolding rehashed_def by (auto simp: cs'_def)
  then show ?thesis by (auto simp: rehash_step_def Let_def x_def ni_def)
qed

lemma rehashed_fold:
  assumes "k \<le> length a0" "0 < n"
  shows "\<exists>cs. rehashed b a0 n k (fold (rehash_step b n) [0..<k] (a0, replicate n None)) cs"
  using assms(1)
proof (induction k)
  case 0
  have "mset (concat (replicate n ([] :: nat list))) = {#}" by (induction n) auto
  then have "rehashed b a0 n 0 (a0, replicate n None) (replicate n [])"
    by (auto simp: rehashed_def)
  then show ?case by auto
next
  case (Suc k)
  then obtain cs where "rehashed b a0 n k (fold (rehash_step b n) [0..<k] (a0, replicate n None)) cs"
    by auto
  from rehashed_step [OF this _ assms(2)] Suc.prems show ?case by simp
qed

text \<open>
  Growth keeps every entry's data, links all of them again and makes the new half of the
  arena the free list, whatever the copy read behind the old arena.
\<close>

lemma kmap_grow_rep:
  assumes rep: "kmap_rep m cs [] []"
  shows "\<exists>m' cs'. kmap_grow junk m = Some m'
           \<and> kmap_rep m' cs' [arenasize m..<arenasize m * 2] []
           \<and> arenasize m' = arenasize m * 2
           \<and> mset (concat cs') = mset (concat cs)
           \<and> (\<forall>i < arenasize m. edata (arena m' ! i) = edata (arena m ! i))"
proof -
  note D = kmap_repD [OF rep]
  define n b where "n = arenasize m" and "b = Suc (arena_blk m)"
  define m1 where "m1 = kmap_shiftptr (m\<lparr>arenasize := n * 2, arena_blk := b,
                arena := arena m @ map junk [n..<n * 2]\<rparr>) (arena_blk m)"
  have m1: "length (arena m1) = n * 2" "arena_blk m1 = b" "arenasize m1 = n * 2" "hmax m1 = hmax m"
    "ksize m1 = ksize m"
    using D by (simp_all add: m1_def kmap_shiftptr_def n_def)
  have data1: "edata (arena m1 ! i) = edata (arena m ! i)" if "i < n" for i
    using that D by (simp add: m1_def kmap_shiftptr_def nth_update_each nth_append n_def edata_def)
  define a0 where "a0 = take n (arena m1) @ map (free_cell b (n * 2)) [n..<n * 2]"
  define m2 where "m2 = m1\<lparr>arena := a0, unused := Some (EP b n)\<rparr>"
  have mk: "kmap_makeFreeList m1 n (n * 2) = Some m2"
    using kmap_makeFreeList_eq [of n "n * 2" m1] m1 D by (simp add: m2_def a0_def n_def)
  have a0: "length a0 = n * 2" "\<And>i. n \<le> i \<Longrightarrow> i < n * 2 \<Longrightarrow> a0 ! i = free_cell b (n * 2) i"
    "\<And>i. i < n \<Longrightarrow> a0 ! i = arena m1 ! i"
    using m1 by (simp_all add: a0_def nth_append)
  define h where "h = hmax m * 2 + 1"
  obtain a he cs' where fold: "fold (rehash_step b h) [0..<n] (a0, replicate h None) = (a, he)"
    and re: "rehashed b a0 h n (a, he) cs'"
    using rehashed_fold [of n a0 h b] a0 by (metis h_def le_add1 mult_2_right prod.collapse zero_less_Suc Suc_eq_plus1)
  have R: "length a = n * 2" "map edata a = map edata a0" "\<And>i. n \<le> i \<Longrightarrow> a ! i = a0 ! i"
    "length he = h" "length cs' = h" "mset (concat cs') = mset [0..<n]"
    "\<And>j. j < h \<Longrightarrow> chain b a (he ! j) (cs' ! j)
           \<and> (\<forall>i \<in> set (cs' ! j). bucket_of h (hcode (a ! i)) = j)"
    using re a0 unfolding rehashed_def by auto
  define m3 where "m3 = m2\<lparr>arena := a, hentry := he, hmax := h\<rparr>"
  have re3: "kmap_rehash m2 = m3"
    using fold m1 by (simp add: kmap_rehash_def m2_def m3_def h_def Let_def)
  have grow: "kmap_grow junk m = Some m3"
    using mk re3 m1 by (simp add: kmap_grow_def Let_def m1_def n_def b_def)
  have "chain b a (Some (EP b n)) [n..<n * 2]"
    using D R a0 by (intro chain_free_cells) (auto simp: n_def)
  moreover have "mset [0..<n] + mset [n..<n * 2] = mset [0..<n * 2]"
    by (metis add_0 mset_append mult_2_right upt_add_eq_append zero_le)
  moreover have cs: "mset (concat cs) = mset [0..<n]" using D by (simp add: n_def)
  moreover have "length (concat cs') = length (concat cs)"
    by (rule mset_eq_length) (simp only: R cs)
  ultimately have rep3: "kmap_rep m3 cs' [n..<n * 2] []"
    using D R m1 unfolding kmap_rep_def by (simp add: m3_def m2_def n_def h_def del: mset_upt)
  have "edata (arena m3 ! i) = edata (arena m ! i)" if "i < n" for i
  proof -
    have "edata (a ! i) = edata (a0 ! i)"
      using R that a0(1) by (metis nth_map trans_less_add1 mult_2_right)
    then show ?thesis using that a0(3) data1 by (simp add: m3_def)
  qed
  then show ?thesis using grow rep3 R(6) cs m1 by (auto simp: m3_def m2_def n_def)
qed

section \<open>Insertion\<close>

definition kdata :: "'k kmap \<Rightarrow> nat list list \<Rightarrow> (u64 \<times> 'k option \<times> u64) multiset" where
  "kdata m cs = image_mset (\<lambda>i. edata (arena m ! i)) (mset (concat cs))"

lemma kmap_models_iff:
  "kmap_models m M \<longleftrightarrow> (\<exists>cs fs. kmap_rep m cs fs [] \<and> M = kdata m cs)"
  by (simp add: kmap_models_def kdata_def)

lemma kdata_update: "i \<notin> set (concat cs) \<Longrightarrow> arena m' = (arena m)[i := x] \<Longrightarrow> kdata m' cs = kdata m cs"
  unfolding kdata_def by (rule image_mset_cong) (metis nth_list_update_neq set_mset_mset)

text \<open>Rewriting an entry that is in no chain.\<close>

lemma kmap_rep_rewrite:
  assumes "kmap_rep m cs fs ps" "i \<notin> set (concat cs)" "i \<notin> set fs"
  shows "kmap_rep (m\<lparr>arena := (arena m)[i := x]\<rparr>) cs fs ps"
proof -
  note D = kmap_repD [OF assms(1)]
  have "chain (arena_blk m) ((arena m)[i := x]) (hentry m ! j) (cs ! j)
      \<and> (\<forall>l \<in> set (cs ! j). bucket_of (hmax m) (hcode ((arena m)[i := x] ! l)) = j)"
    if j: "j < hmax m" for j
  proof -
    have fresh: "i \<notin> set (cs ! j)" using nth_in_concat [of j cs i] j D assms(2) by auto
    then have "(arena m)[i := x] ! l = arena m ! l" if "l \<in> set (cs ! j)" for l
      using that by (metis nth_list_update_neq)
    then show ?thesis
      using kmap_rep_bucket [OF assms(1) j] fresh by (auto intro: chain_update)
  qed
  then show ?thesis
    using D assms(3) unfolding kmap_rep_def by (simp add: chain_update)
qed

lemma kmap_rep_pop:
  fixes h :: u64
  assumes rep: "kmap_rep m cs (i # fs) []"
  defines "x \<equiv> arena m ! i"
  defines "m' \<equiv> m\<lparr>unused := nxt x, arena := (arena m)[i := x\<lparr>hcode := h, nxt := None\<rparr>],
                  ksize := ksize m + 1\<rparr>"
  shows "kmap_rep m' cs fs [i]" and "kdata m' cs = kdata m cs"
proof -
  note D = kmap_repD [OF rep]
  have fresh: "i \<notin> set (concat cs)" "i \<notin> set fs"
    using kmap_rep_distinct [OF rep] by auto
  have "kmap_rep (m\<lparr>unused := nxt x, ksize := ksize m + 1\<rparr>) cs fs [i]"
    using rep unfolding kmap_rep_def by (auto simp: x_def)
  from kmap_rep_rewrite [OF this fresh, of "x\<lparr>hcode := h, nxt := None\<rparr>"]
  show "kmap_rep m' cs fs [i]" unfolding m'_def by (cases m) simp
  show "kdata m' cs = kdata m cs" by (rule kdata_update [OF fresh(1)]) (simp add: m'_def)
qed

lemma Kmap_newentry_rep:
  assumes rep: "kmap_rep m cs fs []"
  shows "\<exists>m' i cs' fs'. Kmap_newentry junk m h = Some (m', EP (arena_blk m') i)
           \<and> kmap_rep m' cs' fs' [i] \<and> kdata m' cs' = kdata m cs
           \<and> hcode (arena m' ! i) = h \<and> nxt (arena m' ! i) = None"
proof -
  obtain m1 cs1 i fs1 where
    m1: "(if unused m = None then kmap_grow junk m else Some m) = Some m1"
    and rep1: "kmap_rep m1 cs1 (i # fs1) []" and data: "kdata m1 cs1 = kdata m cs"
  proof (cases fs)
    case Nil
    with rep have none: "unused m = None" using kmap_repD(6) [OF rep] by simp
    obtain m1 cs1 where g: "kmap_grow junk m = Some m1"
      and r: "kmap_rep m1 cs1 [arenasize m..<arenasize m * 2] []"
      and c: "mset (concat cs1) = mset (concat cs)"
      and d: "\<forall>i < arenasize m. edata (arena m1 ! i) = edata (arena m ! i)"
      using kmap_grow_rep rep Nil by metis
    have "kdata m1 cs1 = kdata m cs"
      unfolding kdata_def c
      by (rule image_mset_cong) (use d kmap_rep_set [OF rep] in auto)
    moreover have "[arenasize m..<arenasize m * 2] = arenasize m # [Suc (arenasize m)..<arenasize m * 2]"
      using kmap_repD(2) [OF rep] by (simp add: upt_conv_Cons)
    ultimately show ?thesis using that none g r by auto
  next
    case (Cons i fs1)
    then show ?thesis using that rep kmap_repD(6) [OF rep] by auto
  qed
  define x where "x = arena m1 ! i"
  define m' where "m' = m1\<lparr>unused := nxt x, arena := (arena m1)[i := x\<lparr>hcode := h, nxt := None\<rparr>],
                  ksize := ksize m1 + 1\<rparr>"
  note D1 = kmap_repD [OF rep1]
  have i: "i < length (arena m1)" "unused m1 = Some (EP (arena_blk m1) i)" using D1 by auto
  have "Kmap_newentry junk m h = Some (m', EP (arena_blk m') i)"
    using m1 i by (simp add: Kmap_newentry_def deref_def store_def mem_get_def mem_put_def m'_def x_def)
  moreover have "kmap_rep m' cs1 fs1 [i]" "kdata m' cs1 = kdata m cs"
    using kmap_rep_pop [OF rep1] data by (simp_all add: m'_def x_def)
  moreover have "hcode (arena m' ! i) = h" "nxt (arena m' ! i) = None"
    using i by (simp_all add: m'_def)
  ultimately show ?thesis by blast
qed

lemma Kmap_add_rep:
  assumes rep: "kmap_rep m cs fs [i]" and free: "nxt (arena m ! i) = None"
  shows "\<exists>m' cs'. Kmap_add m (EP (arena_blk m) i) = Some m' \<and> kmap_rep m' cs' fs []
           \<and> kdata m' cs' = add_mset (edata (arena m ! i)) (kdata m cs)"
proof -
  note D = kmap_repD [OF rep]
  define x k where "x = arena m ! i" and "k = bucket_of (hmax m) (hcode x)"
  have k: "k < hmax m" using D by (simp add: k_def bucket_of_less)
  have i: "i < length (arena m)" using kmap_rep_set [OF rep] D by auto
  have fresh: "i \<notin> set (concat cs)" "i \<notin> set fs" using kmap_rep_distinct [OF rep] by auto
  define x' where "x' = x\<lparr>nxt := hentry m ! k\<rparr>"
  define m1 where "m1 = m\<lparr>arena := (arena m)[i := x']\<rparr>"
  define m' where "m' = m1\<lparr>hentry := (hentry m)[k := Some (EP (arena_blk m) i)]\<rparr>"
  define cs' where "cs' = cs[k := i # cs ! k]"
  have rep1: "kmap_rep m1 cs fs [i]" unfolding m1_def by (rule kmap_rep_rewrite [OF rep fresh])
  have eval: "Kmap_add m (EP (arena_blk m) i) = Some m'"
    using i k free D by (simp add: Kmap_add_def deref_def store_def mem_get_def mem_put_def
        x_def [symmetric] k_def [symmetric] Let_def m'_def m1_def x'_def)
  have msc: "mset (concat cs') = add_mset i (mset (concat cs))"
    using mset_concat_Cons [of k cs i] k D by (simp add: cs'_def)
  have "chain (arena_blk m') (arena m') (hentry m' ! j) (cs' ! j)
      \<and> (\<forall>l \<in> set (cs' ! j). bucket_of (hmax m') (hcode (arena m' ! l)) = j)" if j: "j < hmax m" for j
    using kmap_rep_bucket [OF rep1, of j] j i k D
    by (cases "j = k") (auto simp: m'_def m1_def cs'_def x'_def k_def)
  moreover have "chain (arena_blk m') (arena m') (unused m') fs"
    using kmap_repD(6) [OF rep1] by (simp add: m'_def)
  moreover have "mset (concat cs') + mset fs = mset [0..<arenasize m]"
    using msc D(7) by simp
  moreover have "length (concat cs') = Suc (length (concat cs))"
    using msc by (metis size_mset size_add_mset)
  ultimately have "kmap_rep m' cs' fs []"
    using D unfolding kmap_rep_def by (simp add: m'_def m1_def cs'_def del: mset_upt)
  moreover have "kdata m' cs' = add_mset (edata x) (kdata m cs)"
  proof -
    have "kdata m' cs = kdata m cs"
      by (rule kdata_update [OF fresh(1)]) (simp add: m'_def m1_def)
    then show ?thesis using i by (simp add: kdata_def msc) (simp add: m'_def m1_def x'_def edata_def)
  qed
  ultimately show ?thesis using eval by (auto simp: x_def)
qed

lemma map_add_rep:
  assumes rep: "kmap_rep m cs fs []"
  shows "\<exists>m' cs' fs'. map_addStringUnboxValue junk m h key v = Some m'
           \<and> kmap_rep m' cs' fs' [] \<and> kdata m' cs' = add_mset (h, Some key, v) (kdata m cs)"
proof -
  obtain m1 i cs1 fs1 where n: "Kmap_newentry junk m h = Some (m1, EP (arena_blk m1) i)"
    and rep1: "kmap_rep m1 cs1 fs1 [i]" and data1: "kdata m1 cs1 = kdata m cs"
    and e: "hcode (arena m1 ! i) = h" "nxt (arena m1 ! i) = None"
    using Kmap_newentry_rep [OF rep] by blast
  have i: "i < length (arena m1)" using kmap_rep_set [OF rep1] kmap_repD [OF rep1] by auto
  have fresh: "i \<notin> set (concat cs1)" "i \<notin> set fs1" using kmap_rep_distinct [OF rep1] by auto
  define x where "x = (arena m1 ! i)\<lparr>ekey := Some key, uvalue := v\<rparr>"
  define m2 where "m2 = m1\<lparr>arena := (arena m1)[i := x]\<rparr>"
  have rep2: "kmap_rep m2 cs1 fs1 [i]" unfolding m2_def by (rule kmap_rep_rewrite [OF rep1 fresh])
  have x: "arena m2 ! i = x" "nxt (arena m2 ! i) = None" "edata x = (h, Some key, v)"
    using i e by (simp_all add: m2_def x_def edata_def)
  have data2: "kdata m2 cs1 = kdata m cs"
    using kdata_update [OF fresh(1), of m2 m1 x] data1 by (simp add: m2_def)
  have "map_addStringUnboxValue junk m h key v = Kmap_add m2 (EP (arena_blk m2) i)"
    using n i by (simp add: map_addStringUnboxValue_def deref_def store_def mem_get_def mem_put_def
        m2_def x_def)
  then show ?thesis using Kmap_add_rep [OF rep2 x(2)] x data2 by auto
qed

section \<open>Removal\<close>

lemma chain_nxt_in:
  assumes "chain b a e (j # js)" "l \<in> set (j # js)" "nxt (a ! l) = Some (EP b i)"
  shows "i \<in> set js"
  using assms
proof (induction js arbitrary: e j)
  case Nil
  then show ?case by auto
next
  case (Cons k ks)
  then have "chain b a (nxt (a ! j)) (k # ks)" by simp
  with Cons show ?case by (cases "l = j") auto
qed

lemma find_predecessor:
  assumes "chain b a e is" "distinct is" "i \<in> set is"
  shows "(\<exists>post. is = i # post \<and> List.find (\<lambda>j. nxt (a ! j) = Some (EP b i)) is = None)
       \<or> (\<exists>pre q post. is = pre @ q # i # post
            \<and> List.find (\<lambda>j. nxt (a ! j) = Some (EP b i)) is = Some q)"
  using assms
proof (induction "is" arbitrary: e)
  case Nil
  then show ?case by simp
next
  case (Cons j js)
  show ?case
  proof (cases "j = i")
    case True
    have "nxt (a ! l) \<noteq> Some (EP b i)" if "l \<in> set (j # js)" for l
      using chain_nxt_in [OF Cons.prems(1) that] Cons.prems(2) True by auto
    then have "List.find (\<lambda>j. nxt (a ! j) = Some (EP b i)) (j # js) = None"
      by (subst find_None_iff) blast
    with True show ?thesis by blast
  next
    case False
    with Cons.prems have tl: "chain b a (nxt (a ! j)) js" "distinct js" "i \<in> set js" by auto
    then obtain k ks where js: "js = k # ks" by (cases js) auto
    show ?thesis
    proof (cases "k = i")
      case True
      then have "j # js = [] @ j # i # ks"
        "List.find (\<lambda>j. nxt (a ! j) = Some (EP b i)) (j # js) = Some j" using tl js by auto
      then show ?thesis by blast
    next
      case False
      then obtain pre q post where p: "js = pre @ q # i # post"
        "List.find (\<lambda>j. nxt (a ! j) = Some (EP b i)) js = Some q"
        using Cons.IH [OF tl] js by (metis list.inject)
      have "nxt (a ! j) \<noteq> Some (EP b i)" using tl(1) js False by auto
      with p have "j # js = (j # pre) @ q # i # post"
        "List.find (\<lambda>j. nxt (a ! j) = Some (EP b i)) (j # js) = Some q" by auto
      then show ?thesis by blast
    qed
  qed
qed

lemma chain_unlink:
  assumes "chain b a e (pre @ q # i # post)" "distinct (pre @ q # i # post)"
  shows "chain b (a[q := (a ! q)\<lparr>nxt := nxt (a ! i)\<rparr>]) e (pre @ q # post)"
  using assms
proof (induction pre arbitrary: e)
  case Nil
  then have "chain b a (nxt (a ! i)) post" "q \<notin> set post" "q < length a" by auto
  with Nil show ?case by (auto intro: chain_update)
next
  case (Cons p pre)
  then have "chain b a (nxt (a ! p)) (pre @ q # i # post)" "p \<noteq> q" by auto
  with Cons show ?case by auto
qed

lemma kmap_unuse_rep:
  assumes rep: "kmap_rep m cs fs [i]"
  shows "\<exists>m'. kmap_unuse m (EP (arena_blk m) i) = Some m' \<and> kmap_rep m' cs (i # fs) []
           \<and> kdata m' cs = kdata m cs"
proof -
  note D = kmap_repD [OF rep]
  have i: "i < length (arena m)" using kmap_rep_set [OF rep] D by auto
  have fresh: "i \<notin> set (concat cs)" "i \<notin> set fs" using kmap_rep_distinct [OF rep] by auto
  define x where "x = (arena m ! i)\<lparr>nxt := unused m, hcode := -1, uvalue := 0\<rparr>"
  define m1 where "m1 = m\<lparr>arena := (arena m)[i := x]\<rparr>"
  define m' where "m' = m1\<lparr>unused := Some (EP (arena_blk m) i), ksize := ksize m - 1\<rparr>"
  have eval: "kmap_unuse m (EP (arena_blk m) i) = Some m'"
    using i by (simp add: kmap_unuse_def deref_def store_def mem_get_def mem_put_def m'_def m1_def x_def)
  have rep1: "kmap_rep m1 cs fs [i]" unfolding m1_def by (rule kmap_rep_rewrite [OF rep fresh])
  have "chain (arena_blk m) (arena m1) (unused m) fs"
    using kmap_repD(6) [OF rep1] by (simp add: m1_def)
  then have "kmap_rep m' cs (i # fs) []"
    using rep1 i unfolding kmap_rep_def by (auto simp: m'_def m1_def x_def)
  moreover have "kdata m' cs = kdata m cs"
    by (rule kdata_update [OF fresh(1)]) (simp add: m'_def m1_def)
  ultimately show ?thesis using eval by blast
qed

text \<open>Taking entry \<open>i\<close> out of bucket \<open>k\<close>, given new links in which that bucket is \<open>is\<close>.\<close>

lemma kmap_rep_unlinked:
  assumes rep: "kmap_rep m cs fs []" and k: "k < hmax m" and i: "i \<in> set (cs ! k)"
    and "is": "mset (cs ! k) = add_mset i (mset is)"
    and m1: "arenasize m1 = arenasize m" "hmax m1 = hmax m" "arena_blk m1 = arena_blk m"
      "unused m1 = unused m" "ksize m1 = ksize m" "length (arena m1) = length (arena m)"
      "length (hentry m1) = length (hentry m)" "map edata (arena m1) = map edata (arena m)"
    and ch: "chain (arena_blk m) (arena m1) (hentry m1 ! k) is"
    and frame: "\<And>j. j \<notin> set (cs ! k) \<Longrightarrow> arena m1 ! j = arena m ! j"
      "\<And>j. j \<noteq> k \<Longrightarrow> hentry m1 ! j = hentry m ! j"
  shows "kmap_rep m1 (cs[k := is]) fs [i]"
    and "kdata m1 (cs[k := is]) = kdata m cs - {#edata (arena m ! i)#}"
proof -
  note D = kmap_repD [OF rep]
  have dist: "distinct (concat cs @ fs)" using kmap_rep_distinct [OF rep] by simp
  have data: "edata (arena m1 ! j) = edata (arena m ! j)" if "j < length (arena m)" for j
    using m1(6,8) that by (metis nth_map)
  have msc: "add_mset i (mset (concat (cs[k := is]))) = mset (concat cs)"
    using mset_concat_update [of k cs "is"] k D "is" by simp
  have inb: "j < length (arena m)" if "j \<in> set (concat cs)" for j
    using kmap_rep_set [OF rep] that D by auto
  have disj: "j \<notin> set (cs ! k)" if "j \<in> set (cs ! l)" "l < hmax m" "l \<noteq> k" for j l
    using kmap_rep_bucket(2) [OF rep] that k by blast
  have "chain (arena_blk m) (arena m1) (hentry m1 ! l) (cs[k := is] ! l)
      \<and> (\<forall>j \<in> set (cs[k := is] ! l). bucket_of (hmax m) (hcode (arena m1 ! j)) = l)"
    if l: "l < hmax m" for l
  proof (cases "l = k")
    case True
    have sub: "set is \<subseteq> set (cs ! k)" using "is" by (metis set_mset_add_mset_insert set_mset_mset subset_insertI)
    have "bucket_of (hmax m) (hcode (arena m1 ! j)) = k" if "j \<in> set is" for j
    proof -
      have j: "j \<in> set (cs ! k)" using sub that by blast
      have "j < length (arena m)" using nth_in_concat [of k cs j] inb j k D by simp
      then have "hcode (arena m1 ! j) = hcode (arena m ! j)" using data edata_eqD by blast
      then show ?thesis using kmap_rep_bucket(2) [OF rep k j] by simp
    qed
    then show ?thesis using True ch k D by simp
  next
    case False
    have same: "arena m1 ! j = arena m ! j" if "j \<in> set (cs ! l)" for j
      using frame(1) disj that l False by blast
    have "chain (arena_blk m) (arena m1) (hentry m ! l) (cs ! l)"
      using kmap_rep_bucket(1) [OF rep l] by (rule chain_cong) (use m1 same in auto)
    then show ?thesis using False frame(2) same kmap_rep_bucket(2) [OF rep l] by auto
  qed
  moreover have "chain (arena_blk m) (arena m1) (unused m) fs"
  proof (rule chain_cong [OF D(6)])
    fix j assume "j \<in> set fs"
    then have "j \<notin> set (cs ! k)" using dist nth_in_concat [of k cs j] k D by auto
    then show "nxt (arena m1 ! j) = nxt (arena m ! j)" using frame(1) by simp
  qed (use m1 in simp)
  moreover have "length (concat cs) = Suc (length (concat (cs[k := is])))"
    using msc by (metis size_mset size_add_mset)
  moreover have "mset (concat (cs[k := is])) + mset fs + mset [i] = mset [0..<arenasize m]"
    using msc D(7) by (metis add_mset_add_single mset.simps mset_single_iff_right
        add.commute add.left_commute add_0 union_mset_add_mset_left)
  ultimately show "kmap_rep m1 (cs[k := is]) fs [i]"
    using D m1 unfolding kmap_rep_def by (simp del: mset_upt)
  have "kdata m1 cs = kdata m cs"
    unfolding kdata_def by (rule image_mset_cong) (use data inb in auto)
  moreover have "kdata m1 cs = add_mset (edata (arena m1 ! i)) (kdata m1 (cs[k := is]))"
    by (simp add: kdata_def flip: msc)
  moreover have "edata (arena m1 ! i) = edata (arena m ! i)"
    using data inb nth_in_concat [of k cs i] i k D by simp
  ultimately have "kdata m cs = add_mset (edata (arena m ! i)) (kdata m1 (cs[k := is]))" by simp
  then show "kdata m1 (cs[k := is]) = kdata m cs - {#edata (arena m ! i)#}"
    by (metis add_mset_remove_trivial)
qed

lemma Kmap_remove_rep:
  assumes rep: "kmap_rep m cs fs []" and i: "i \<in> set (concat cs)"
  shows "\<exists>m' cs'. Kmap_remove m (EP (arena_blk m) i) = Some m' \<and> kmap_rep m' cs' (i # fs) []
           \<and> kdata m' cs' = kdata m cs - {#edata (arena m ! i)#}"
proof -
  note D = kmap_repD [OF rep]
  obtain k where k: "k < hmax m" and ik: "i \<in> set (cs ! k)"
    using i D(5) by (metis concat_eq_concat_iff in_set_conv_nth set_concat UN_E)
  have ia: "i < length (arena m)" using kmap_rep_set [OF rep] D i by auto
  have ch: "chain (arena_blk m) (arena m) (hentry m ! k) (cs ! k)"
    and b: "bucket_of (hmax m) (hcode (arena m ! i)) = k"
    using kmap_rep_bucket [OF rep k] ik by auto
  have dk: "distinct (cs ! k)"
    using kmap_rep_distinct [OF rep] k D by (simp add: distinct_concat_iff)
  let ?P = "\<lambda>j. nxt (arena m ! j) = Some (EP (arena_blk m) i)"
  obtain m1 "is" where
    eval: "Kmap_remove m (EP (arena_blk m) i) = kmap_unuse m1 (EP (arena_blk m1) i)"
    and rep1: "kmap_rep m1 (cs[k := is]) fs [i]"
    and data1: "kdata m1 (cs[k := is]) = kdata m cs - {#edata (arena m ! i)#}"
  proof (cases "\<exists>post. cs ! k = i # post \<and> List.find ?P (cs ! k) = None")
    case True
    then obtain post where post: "cs ! k = i # post" "List.find ?P (cs ! k) = None" by blast
    define m1 where "m1 = m\<lparr>hentry := (hentry m)[k := nxt (arena m ! i)]\<rparr>"
    have eval: "Kmap_remove m (EP (arena_blk m) i) = kmap_unuse m1 (EP (arena_blk m1) i)"
      using find_entry_chain [OF ch, of "\<lambda>x. nxt x = Some (EP (arena_blk m) i)"] post ia k D b
      by (simp add: Kmap_remove_def deref_def mem_get_def mem_put_def Let_def m1_def)
    have "chain (arena_blk m) (arena m1) (hentry m1 ! k) post"
      using ch post k D by (simp add: m1_def)
    then have "kmap_rep m1 (cs[k := post]) fs [i]"
      "kdata m1 (cs[k := post]) = kdata m cs - {#edata (arena m ! i)#}"
      using kmap_rep_unlinked [OF rep k ik, of post m1] post by (simp_all add: m1_def)
    then show ?thesis by (rule that [OF eval])
  next
    case False
    then obtain pre q post where p: "cs ! k = pre @ q # i # post" "List.find ?P (cs ! k) = Some q"
      using find_predecessor [OF ch dk ik] by blast
    define x where "x = (arena m ! q)\<lparr>nxt := nxt (arena m ! i)\<rparr>"
    define m1 where "m1 = m\<lparr>arena := (arena m)[q := x]\<rparr>"
    have q: "q < length (arena m)" "q \<in> set (cs ! k)" using chain_bound [OF ch] p by auto
    have eval: "Kmap_remove m (EP (arena_blk m) i) = kmap_unuse m1 (EP (arena_blk m1) i)"
      using find_entry_chain [OF ch, of "\<lambda>x. nxt x = Some (EP (arena_blk m) i)"] p ia k D b q
      by (simp add: Kmap_remove_def deref_def store_def mem_get_def mem_put_def Let_def m1_def x_def)
    have "chain (arena_blk m) (arena m1) (hentry m1 ! k) (pre @ q # post)"
      using chain_unlink [of "arena_blk m" "arena m" "hentry m ! k" pre q i post] ch dk p
      by (simp add: m1_def x_def)
    moreover have "map edata (arena m1) = map edata (arena m)"
      by (simp add: m1_def map_update_same x_def edata_def)
    moreover have "arena m1 ! j = arena m ! j" if "j \<notin> set (cs ! k)" for j
      using that q by (simp add: m1_def) (metis nth_list_update_neq)
    ultimately have "kmap_rep m1 (cs[k := pre @ q # post]) fs [i]"
      "kdata m1 (cs[k := pre @ q # post]) = kdata m cs - {#edata (arena m ! i)#}"
      using kmap_rep_unlinked [OF rep k ik, of "pre @ q # post" m1] p by (simp_all add: m1_def)
    then show ?thesis by (rule that [OF eval])
  qed
  then show ?thesis using kmap_unuse_rep [OF rep1] by auto
qed

section \<open>Lookup with a key\<close>

text \<open>
  The loop its clients run on the result of \<^verbatim>\<open>kmap_get\<close>: follow the chain until an entry has
  the hash and a key accepted by \<open>P\<close>, and read its value.
\<close>

definition kmap_search :: "'k kmap \<Rightarrow> u64 \<Rightarrow> ('k \<Rightarrow> bool) \<Rightarrow> u64 option option" where
  "kmap_search m h P = do {
     e \<leftarrow> Kmap_getentry m h;
     r \<leftarrow> find_entry m (\<lambda>x. hcode x = h \<and> (\<exists>k \<in> set_option (ekey x). P k)) e;
     (case r of None \<Rightarrow> Some None
      | Some q \<Rightarrow> do { x \<leftarrow> deref m q; Some (Some (uvalue x)) })
   }"

definition kmap_holds :: "'k kmap \<Rightarrow> (u64 \<times> 'k \<times> u64) multiset \<Rightarrow> bool" where
  "kmap_holds m M \<longleftrightarrow> kmap_models m (image_mset (\<lambda>(h, k, v). (h, Some k, v)) M)"

lemma find_suffix:
  assumes "List.find P xs = Some x" "\<And>y. Q y \<Longrightarrow> P y"
  obtains pre post where "xs = pre @ x # post" "List.find Q (x # post) = List.find Q xs"
proof -
  obtain i where i: "i < length xs" "x = xs ! i" "\<forall>j<i. \<not> P (xs ! j)"
    using assms(1) by (auto simp: find_Some_iff)
  have xs: "xs = take i xs @ x # drop (Suc i) xs" using i by (simp add: id_take_nth_drop)
  have "\<not> Q y" if "y \<in> set (take i xs)" for y
    using that i assms(2) by (auto simp: in_set_conv_nth)
  then have "List.find Q (take i xs) = None" by (subst find_None_iff) blast
  then have "List.find Q (x # drop (Suc i) xs) = List.find Q (take i xs @ x # drop (Suc i) xs)"
    by (simp add: find_append)
  then show ?thesis using that xs by metis
qed

lemma kmap_search_rep:
  fixes h :: u64 and P :: "'k \<Rightarrow> bool" and m :: "'k kmap"
  assumes rep: "kmap_rep m cs fs []"
  defines "Q \<equiv> \<lambda>i. hcode (arena m ! i) = h \<and> (\<exists>k \<in> set_option (ekey (arena m ! i)). P k)"
  shows "kmap_search m h P = Some (map_option (\<lambda>i. uvalue (arena m ! i))
           (List.find Q (cs ! bucket_of (hmax m) h)))"
proof -
  note D = kmap_repD [OF rep]
  let ?is = "cs ! bucket_of (hmax m) h" and ?H = "\<lambda>i. hcode (arena m ! i) = h"
  have b: "bucket_of (hmax m) h < hmax m" using D by (simp add: bucket_of_less)
  note ch = kmap_rep_bucket(1) [OF rep b]
  show ?thesis
  proof (cases "List.find ?H ?is")
    case None
    then have "List.find Q ?is = None" unfolding Q_def by (auto simp: find_None_iff)
    then show ?thesis using kmap_rep_get [OF rep, of h] None
      by (simp add: kmap_search_def find_entry.simps [of m _ None])
  next
    case (Some i)
    obtain pre post where p: "?is = pre @ i # post" "List.find Q (i # post) = List.find Q ?is"
      using find_suffix [OF Some, of Q] unfolding Q_def by blast
    have "chain (arena_blk m) (arena m) (Some (EP (arena_blk m) i)) (i # post)"
      using ch p(1) chain_append by metis
    from find_entry_chain [OF this, of "\<lambda>x. hcode x = h \<and> (\<exists>k \<in> set_option (ekey x). P k)"]
    have f: "find_entry m (\<lambda>x. hcode x = h \<and> (\<exists>k \<in> set_option (ekey x). P k)) (Some (EP (arena_blk m) i))
        = Some (map_option (EP (arena_blk m)) (List.find Q ?is))"
      using p(2) by (simp add: Q_def)
    have "j < length (arena m)" if "List.find Q ?is = Some j" for j
      using find_Some_nth [OF that] chain_bound [OF ch] by blast
    then show ?thesis using kmap_rep_get [OF rep, of h] Some f
      by (cases "List.find Q ?is") (simp_all add: kmap_search_def deref_def mem_get_def)
  qed
qed

section \<open>Contract of an index\<close>

text \<open>What the tables of symbols, packages, names and parameters rely on.\<close>

locale entry_index =
  fixes holds :: "'m \<Rightarrow> (u64 \<times> 'k \<times> u64) multiset \<Rightarrow> bool"
    and insert_entry :: "'m \<Rightarrow> u64 \<Rightarrow> 'k \<Rightarrow> u64 \<Rightarrow> 'm option"
    and search :: "'m \<Rightarrow> u64 \<Rightarrow> ('k \<Rightarrow> bool) \<Rightarrow> u64 option option"
  assumes insert_holds:
      "holds m M \<Longrightarrow> \<exists>m'. insert_entry m h k v = Some m' \<and> holds m' (add_mset (h, k, v) M)"
    and search_miss:
      "holds m M \<Longrightarrow> (\<And>k v. (h, k, v) \<in># M \<Longrightarrow> \<not> P k) \<Longrightarrow> search m h P = Some None"
    and search_hit:
      "holds m M \<Longrightarrow> (h, k, v) \<in># M \<Longrightarrow> P k \<Longrightarrow>
         \<exists>k' v'. search m h P = Some (Some v') \<and> (h, k', v') \<in># M \<and> P k'"
begin

text \<open>A key that occurs once is found, with its own value.\<close>

lemma search_unique:
  assumes "holds m M" "(h, k, v) \<in># M" "\<And>k' v'. (h, k', v') \<in># M \<Longrightarrow> P k' \<longleftrightarrow> k' = k"
    and "\<And>v'. (h, k, v') \<in># M \<Longrightarrow> v' = v"
  shows "search m h P = Some (Some v)"
  using search_hit [OF assms(1,2), of P] assms by blast

end

lemma kmap_holds_iff:
  "kmap_holds m M \<longleftrightarrow>
     (\<exists>cs fs. kmap_rep m cs fs [] \<and> kdata m cs = image_mset (\<lambda>(h, k, v). (h, Some k, v)) M)"
  by (auto simp: kmap_holds_def kmap_models_iff)

lemma kmap_holds_mem:
  assumes "kdata m cs = image_mset (\<lambda>(h, k, v). (h, Some k, v)) M"
  shows "(h, k, v) \<in># M \<longleftrightarrow>
    (\<exists>i \<in> set (concat cs). hcode (arena m ! i) = h \<and> ekey (arena m ! i) = Some k \<and> uvalue (arena m ! i) = v)"
proof -
  have "(h, k, v) \<in># M \<longleftrightarrow> (h, Some k, v) \<in># image_mset (\<lambda>(h, k, v). (h, Some k, v)) M"
    by force
  also have "\<dots> \<longleftrightarrow> (h, Some k, v) \<in># kdata m cs" by (simp add: assms)
  also have "\<dots> \<longleftrightarrow> (\<exists>i \<in> set (concat cs). edata (arena m ! i) = (h, Some k, v))"
    by (simp add: kdata_def image_iff eq_commute [of "(h, Some k, v)"] del: set_concat)
  finally show ?thesis by (simp add: edata_def del: set_concat)
qed

interpretation kidx: entry_index kmap_holds "map_addStringUnboxValue junk" kmap_search for junk
proof unfold_locales
  fix m :: "'a kmap" and M h k v and P :: "'a \<Rightarrow> bool"
  assume "kmap_holds m M"
  then obtain cs fs where rep: "kmap_rep m cs fs []"
    and M: "kdata m cs = image_mset (\<lambda>(h, k, v). (h, Some k, v)) M"
    by (auto simp: kmap_holds_iff)
  note D = kmap_repD [OF rep] and mem = kmap_holds_mem [OF M]
  let ?is = "cs ! bucket_of (hmax m) h"
  let ?Q = "\<lambda>i. hcode (arena m ! i) = h \<and> (\<exists>k \<in> set_option (ekey (arena m ! i)). P k)"
  have b: "bucket_of (hmax m) h < hmax m" using D by (simp add: bucket_of_less)
  have sub: "i \<in> set (concat cs)" if "i \<in> set ?is" for i
    using that nth_in_concat b D by metis
  show "\<exists>m'. map_addStringUnboxValue junk m h k v = Some m' \<and> kmap_holds m' (add_mset (h, k, v) M)"
    using map_add_rep [OF rep, of junk h k v] M by (auto simp: kmap_holds_iff)
  show "kmap_search m h P = Some None" if "\<And>k v. (h, k, v) \<in># M \<Longrightarrow> \<not> P k"
  proof -
    have "List.find ?Q ?is = None"
    proof (subst find_None_iff, rule notI)
      assume "\<exists>x. x \<in> set ?is \<and> ?Q x"
      then show False using that mem sub by fastforce
    qed
    then show ?thesis using kmap_search_rep [OF rep, of h P] by simp
  qed
  show "\<exists>k' v'. kmap_search m h P = Some (Some v') \<and> (h, k', v') \<in># M \<and> P k'"
    if hk: "(h, k, v) \<in># M" and pk: "P k"
  proof -
    obtain i where i: "i \<in> set (concat cs)" "hcode (arena m ! i) = h" "ekey (arena m ! i) = Some k"
      using mem [THEN iffD1, OF hk] by blast
    then obtain l where l: "l < hmax m" "i \<in> set (cs ! l)"
      using D(5) by (metis UN_E in_set_conv_nth set_concat)
    then have "l = bucket_of (hmax m) h" using kmap_rep_bucket(2) [OF rep l] i(2) by simp
    then have "List.find ?Q ?is \<noteq> None"
      using l i pk by (subst find_None_iff) auto
    then obtain j where j: "List.find ?Q ?is = Some j" by blast
    have jc: "j \<in> set (concat cs)" and q: "?Q j" using find_Some_nth [OF j] sub by blast+
    then obtain k' where k': "ekey (arena m ! j) = Some k'" "P k'" by auto
    have "(h, k', uvalue (arena m ! j)) \<in># M"
      by (rule mem [THEN iffD2]) (use jc q k' in blast)
    moreover have "kmap_search m h P = Some (Some (uvalue (arena m ! j)))"
      using kmap_search_rep [OF rep, of h P] j by simp
    ultimately show ?thesis using k' by blast
  qed
qed

section \<open>Initial table, traversal and growth\<close>

lemma Kmap_init_rep:
  "\<exists>m. Kmap_init junk n = Some m \<and> kmap_rep m (replicate (hmax m) []) [0..<arenasize m] []
     \<and> arena_blk m = 0 \<and> arena m = map (free_cell 0 (arenasize m)) [0..<arenasize m]"
proof -
  define i where "i = (if n < HMAP_INIT then HMAP_INIT else n)"
  define s where "s = (i * 3) div 4"
  have i: "83 \<le> i" by (simp add: i_def HMAP_INIT_def)
  then have s: "0 < s" by (simp add: s_def)
  define m0 :: "'a kmap" where "m0 = \<lparr>arena_blk = 0, arena = map junk [0..<s], unused = None, hentry = [],
               arenasize = s, ksize = 0, hmax = 0\<rparr>"
  define m where "m = m0\<lparr>arena := map (free_cell 0 s) [0..<s], unused := Some (EP 0 0),
               hentry := replicate i None, hmax := i\<rparr>"
  have "kmap_makeFreeList m0 0 s
      = Some (m0\<lparr>arena := map (free_cell 0 s) [0..<s], unused := Some (EP 0 0)\<rparr>)"
    using kmap_makeFreeList_eq [of 0 s m0] s by (simp add: m0_def)
  then have run: "Kmap_init junk n = Some m"
    by (simp add: Kmap_init_def Let_def m_def m0_def flip: i_def s_def)
  have "chain 0 (map (free_cell 0 s) [0..<s]) (Some (EP 0 0)) [0..<s]"
    using s by (intro chain_free_cells) simp_all
  moreover have "concat (replicate i []) = []" by (induction i) auto
  ultimately have "kmap_rep m (replicate i []) [0..<s] []"
    using s i unfolding kmap_rep_def by (auto simp: m_def m0_def)
  then show ?thesis using run by (simp add: m_def m0_def)
qed

lemma Kmap_init_models: "\<exists>m. Kmap_init junk n = Some m \<and> kmap_models m {#}"
proof -
  obtain m where "Kmap_init junk n = Some m" "kmap_rep m (replicate (hmax m) []) [0..<arenasize m] []"
    using Kmap_init_rep by blast
  moreover have "concat (replicate (hmax m) []) = []" by (induction "hmax m") auto
  ultimately show ?thesis unfolding kmap_models_def by force
qed

lemma buckets_entries_rep:
  assumes "length es = length cs" "\<And>i. i < length cs \<Longrightarrow> chain (arena_blk m) (arena m) (es ! i) (cs ! i)"
  shows "buckets_entries m es = Some (map ((!) (arena m)) (concat cs))"
  using assms
proof (induction cs arbitrary: es)
  case Nil
  then show ?case by simp
next
  case (Cons c cs)
  then obtain e es' where es: "es = e # es'" by (cases es) auto
  have "chain (arena_blk m) (arena m) e c" using Cons.prems(2) [of 0] es by simp
  moreover have "buckets_entries m es' = Some (map ((!) (arena m)) (concat cs))"
    using Cons.prems es by (intro Cons.IH) (auto, metis Suc_less_eq nth_Cons_Suc length_Cons)
  ultimately show ?case by (simp add: es chain_entries_chain)
qed

lemma Kmap_reftrace_rep:
  assumes "kmap_rep m cs fs ps"
  shows "Kmap_reftrace m = Some (map ((!) (arena m)) (concat cs))"
  unfolding Kmap_reftrace_def
  using kmap_repD [OF assms] kmap_rep_bucket(1) [OF assms] by (intro buckets_entries_rep) simp_all

lemma kmap_grow_junk:
  assumes "kmap_rep m cs fs ps"
  shows "kmap_grow junk m = kmap_grow junk' m"
proof -
  note D = kmap_repD [OF assms]
  define n where "n = arenasize m"
  define m1 where "m1 = (\<lambda>junk. kmap_shiftptr (m\<lparr>arenasize := n * 2, arena_blk := Suc (arena_blk m),
                arena := arena m @ map junk [n..<n * 2]\<rparr>) (arena_blk m))"
  have take: "take n (arena (m1 junk)) = take n (arena (m1 junk'))"
    using D by (intro nth_equalityI)
      (simp_all add: m1_def kmap_shiftptr_def nth_update_each nth_append n_def)
  have len: "length (arena (m1 j)) = n * 2" for j
    using D by (simp add: m1_def kmap_shiftptr_def n_def)
  have m1: "(m1 junk)\<lparr>arena := a, unused := u\<rparr> = (m1 junk')\<lparr>arena := a, unused := u\<rparr>"
    "arena_blk (m1 junk) = arena_blk (m1 junk')" for a u
    by (simp_all add: m1_def kmap_shiftptr_def)
  have "kmap_makeFreeList (m1 junk) n (n * 2) = kmap_makeFreeList (m1 junk') n (n * 2)"
    using kmap_makeFreeList_eq [of n "n * 2" "m1 junk"] kmap_makeFreeList_eq [of n "n * 2" "m1 junk'"]
      len D take m1 by (simp add: n_def)
  moreover have "arenasize (m1 j) = n * 2" for j by (simp add: m1_def kmap_shiftptr_def)
  ultimately show ?thesis by (simp add: kmap_grow_def Let_def m1_def n_def)
qed

section \<open>Properties\<close>

lemma kmap_lookup_models:
  assumes "kmap_models m M"
  shows "Kmap_getentry m h = Some None \<and> (\<forall>d \<in># M. fst d \<noteq> h)
       \<or> (\<exists>p x. Kmap_getentry m h = Some (Some p) \<and> deref m p = Some x \<and> hcode x = h \<and> edata x \<in># M)"
proof -
  obtain cs fs where rep: "kmap_rep m cs fs []" and M: "M = kdata m cs"
    using assms by (auto simp: kmap_models_iff)
  note D = kmap_repD [OF rep] and get = kmap_rep_get [OF rep, of h]
  let ?b = "bucket_of (hmax m) h"
  have b: "?b < hmax m" using D by (simp add: bucket_of_less)
  show ?thesis
  proof (cases "List.find (\<lambda>i. hcode (arena m ! i) = h) (cs ! ?b)")
    case None
    have "hcode (arena m ! i) \<noteq> h" if ic: "i \<in> set c" "c \<in> set cs" for i c
    proof
      assume h: "hcode (arena m ! i) = h"
      obtain l where l: "l < hmax m" "c = cs ! l" using ic(2) D(5) by (auto simp: in_set_conv_nth)
      then have "l = ?b" using kmap_rep_bucket(2) [OF rep l(1), of i] ic(1) h by simp
      then show False using None ic(1) l h unfolding find_None_iff by blast
    qed
    then show ?thesis using get None M by (auto simp: kdata_def edata_def)
  next
    case (Some i)
    then have "i \<in> set (concat cs)" "hcode (arena m ! i) = h" "i < length (arena m)"
      using find_Some_nth [OF Some] nth_in_concat [of ?b cs i] b D
        chain_bound [OF kmap_rep_bucket(1) [OF rep b]] by auto
    moreover from this have "edata (arena m ! i) \<in># M" using M by (auto simp: kdata_def)
    ultimately show ?thesis using get Some by (auto simp: deref_def mem_get_def)
  qed
qed

lemma map_add_models:
  assumes "kmap_models m M"
  shows "\<exists>m'. map_addStringUnboxValue junk m h key v = Some m'
           \<and> kmap_models m' (add_mset (h, Some key, v) M) \<and> ksize m' = size M + 1"
proof -
  obtain cs fs where rep: "kmap_rep m cs fs []" "M = kdata m cs"
    using assms by (auto simp: kmap_models_iff)
  obtain m' cs' fs' where r: "map_addStringUnboxValue junk m h key v = Some m'"
    "kmap_rep m' cs' fs' []" "kdata m' cs' = add_mset (h, Some key, v) (kdata m cs)"
    using map_add_rep [OF rep(1)] by blast
  have "ksize m' = size (kdata m' cs')" using kmap_repD(8) [OF r(2)] by (simp add: kdata_def)
  then have "ksize m' = size M + 1" using r(3) rep(2) by simp
  then show ?thesis using r rep(2) unfolding kmap_models_iff by metis
qed

text \<open>A small concrete table for the witnesses.\<close>

lemma one_entry_table:
  "\<exists>m :: nat kmap. map_addStringUnboxValue (\<lambda>_. zero_entry) (the (Kmap_init (\<lambda>_. zero_entry) 0)) 84 1 7 = Some m
     \<and> kmap_models m {#(84, Some 1, 7)#}"
proof -
  obtain m0 :: "nat kmap" where "Kmap_init (\<lambda>_. zero_entry) 0 = Some m0" "kmap_models m0 {#}"
    using Kmap_init_models by blast
  then show ?thesis using map_add_models [of m0 "{#}" "\<lambda>_. zero_entry" 84 1 7] by auto
qed

text \<open>A new table holds nothing, whatever its uninitialised memory held: a lookup of any hash
  in it finds no entry.\<close>

theorem Kmap_init_lookup:
  "\<exists>m. Kmap_init junk n = Some m \<and> kmap_models m {#} \<and> Kmap_getentry m h = Some None"
proof -
  obtain m where m: "Kmap_init junk n = Some m" "kmap_models m {#}"
    using Kmap_init_models by blast
  then show ?thesis using kmap_lookup_models [OF m(2), of h] by auto
qed

text \<open>C7: Inserting into a table succeeds, also when the arena is full and has to move and rehash,
  and adds exactly the given entry.\<close>

theorem kmap_insert_adds:
  assumes "kmap_models m M"
  shows "\<exists>m'. map_addStringUnboxValue junk m h key v = Some m'
           \<and> kmap_models m' (add_mset (h, Some key, v) M) \<and> ksize m' = size M + 1"
  using map_add_models [OF assms] .

theorem kmap_insert_adds_witness:
  "\<exists>m m'. Kmap_init (\<lambda>_. zero_entry) 0 = Some m
     \<and> map_addStringUnboxValue (\<lambda>_. zero_entry) m 84 (1 :: nat) 7 = Some m'
     \<and> kmap_models m' {#(84, Some 1, 7)#} \<and> ksize m' = 1"
proof -
  obtain m :: "nat kmap" where m: "Kmap_init (\<lambda>_. zero_entry) 0 = Some m" "kmap_models m {#}"
    using Kmap_init_models by blast
  from kmap_insert_adds [OF m(2), of "\<lambda>_. zero_entry" 84 1 7] m(1) show ?thesis by auto
qed

text \<open>C5: A lookup always ends and follows no stale pointer; it finds an entry of the table with the
  hash if there is one.\<close>

theorem kmap_lookup_correct:
  assumes "kmap_models m M"
  shows "\<exists>r. Kmap_getentry m h = Some r
           \<and> (case r of None \<Rightarrow> \<forall>d \<in># M. fst d \<noteq> h
              | Some p \<Rightarrow> \<exists>x. deref m p = Some x \<and> hcode x = h \<and> edata x \<in># M)"
  using kmap_lookup_models [OF assms, of h] by (auto split: option.split)

theorem kmap_lookup_correct_witness:
  "\<exists>m r. map_addStringUnboxValue (\<lambda>_. zero_entry) (the (Kmap_init (\<lambda>_. zero_entry) 0)) 84 (1 :: nat) 7 = Some m
     \<and> Kmap_getentry m 84 = Some r \<and> r \<noteq> None"
proof -
  obtain m :: "nat kmap" where
    m: "map_addStringUnboxValue (\<lambda>_. zero_entry) (the (Kmap_init (\<lambda>_. zero_entry) 0)) 84 1 7 = Some m"
    "kmap_models m {#(84, Some 1, 7)#}" using one_entry_table by blast
  from kmap_lookup_correct [OF m(2), of 84] m(1) show ?thesis by (auto split: option.splits)
qed

text \<open>C8: Removing an entry that a lookup returned takes exactly that entry out of the table and
  recycles its cell.\<close>

theorem kmap_remove_correct:
  assumes "kmap_models m M" "Kmap_getentry m h = Some (Some p)"
  shows "\<exists>x m'. deref m p = Some x \<and> Kmap_remove m p = Some m' \<and> edata x \<in># M
           \<and> kmap_models m' (M - {#edata x#}) \<and> unused m' = Some p"
proof -
  obtain cs fs where rep: "kmap_rep m cs fs []" and M: "M = kdata m cs"
    using assms by (auto simp: kmap_models_iff)
  note D = kmap_repD [OF rep]
  let ?b = "bucket_of (hmax m) h"
  have b: "?b < hmax m" using D by (simp add: bucket_of_less)
  obtain i where i: "List.find (\<lambda>i. hcode (arena m ! i) = h) (cs ! ?b) = Some i" "p = EP (arena_blk m) i"
    using kmap_rep_get [OF rep, of h] assms(2)
    by (cases "List.find (\<lambda>i. hcode (arena m ! i) = h) (cs ! ?b)") auto
  have ic: "i \<in> set (concat cs)" "i < length (arena m)"
    using find_Some_nth [OF i(1)] nth_in_concat [of ?b cs i] b D
      chain_bound [OF kmap_rep_bucket(1) [OF rep b]] by auto
  obtain m' cs' where r: "Kmap_remove m p = Some m'" "kmap_rep m' cs' (i # fs) []"
    "kdata m' cs' = kdata m cs - {#edata (arena m ! i)#}"
    using Kmap_remove_rep [OF rep ic(1)] i(2) by blast
  have "unused m' = Some (EP (arena_blk m') i)" using kmap_repD(6) [OF r(2)] by simp
  moreover have "arena_blk m' = arena_blk m"
    using r(1) by (auto simp: Kmap_remove_def kmap_unuse_def store_def bind_Some_iff Let_def
        split: if_splits option.splits)
  moreover have "edata (arena m ! i) \<in># M" using ic M by (auto simp: kdata_def)
  ultimately show ?thesis
    using r i ic M by (auto simp: deref_def mem_get_def kmap_models_iff)
qed

theorem kmap_remove_correct_witness:
  "\<exists>m p x m'. map_addStringUnboxValue (\<lambda>_. zero_entry) (the (Kmap_init (\<lambda>_. zero_entry) 0)) 84 (1 :: nat) 7 = Some m
     \<and> deref m p = Some x \<and> Kmap_remove m p = Some m' \<and> kmap_models m' {#}"
proof -
  obtain m :: "nat kmap" where
    m: "map_addStringUnboxValue (\<lambda>_. zero_entry) (the (Kmap_init (\<lambda>_. zero_entry) 0)) 84 1 7 = Some m"
    "kmap_models m {#(84, Some 1, 7)#}" using one_entry_table by blast
  then obtain p where p: "Kmap_getentry m 84 = Some (Some p)"
    using kmap_lookup_models [OF m(2), of 84] by auto
  obtain x m' where r: "deref m p = Some x" "Kmap_remove m p = Some m'"
    "edata x \<in># {#(84, Some 1, 7)#}" "kmap_models m' ({#(84, Some 1, 7)#} - {#edata x#})"
    using kmap_remove_correct [OF m(2) p] by blast
  then have "kmap_models m' {#}" by simp
  with m(1) r show ?thesis by blast
qed

text \<open>Growth copies twice the old arena and so reads past its end; what it reads there never
  reaches the table.\<close>

theorem kmap_growth_ignores_overread:
  assumes "kmap_models m M"
  shows "map_addStringUnboxValue junk m h key v = map_addStringUnboxValue junk' m h key v"
proof -
  obtain cs fs where "kmap_rep m cs fs []" using assms by (auto simp: kmap_models_iff)
  then have "kmap_grow junk m = kmap_grow junk' m" by (rule kmap_grow_junk)
  then show ?thesis by (simp add: map_addStringUnboxValue_def Kmap_newentry_def)
qed

theorem kmap_growth_ignores_overread_witness:
  "\<exists>m. Kmap_init (\<lambda>_. zero_entry) 0 = Some m
     \<and> map_addStringUnboxValue (\<lambda>_. zero_entry) m 84 (1 :: nat) 7
       = map_addStringUnboxValue (\<lambda>_. zero_entry\<lparr>uvalue := 9\<rparr>) m 84 1 7"
proof -
  obtain m :: "nat kmap" where m: "Kmap_init (\<lambda>_. zero_entry) 0 = Some m" "kmap_models m {#}"
    using Kmap_init_models by blast
  from kmap_growth_ignores_overread [OF m(2)] m(1) show ?thesis by blast
qed

text \<open>Tracing the table for the garbage collector visits every entry exactly once.\<close>

theorem kmap_reftrace_complete:
  assumes "kmap_models m M"
  shows "\<exists>xs. Kmap_reftrace m = Some xs \<and> mset (map edata xs) = M \<and> length xs = ksize m"
proof -
  obtain cs fs where rep: "kmap_rep m cs fs []" and M: "M = kdata m cs"
    using assms by (auto simp: kmap_models_iff)
  then show ?thesis
    using Kmap_reftrace_rep [OF rep] kmap_repD(8) [OF rep]
    by (simp add: kdata_def image_mset.compositionality comp_def flip: mset_map)
qed

theorem kmap_reftrace_complete_witness:
  "\<exists>m xs. Kmap_init (\<lambda>_. zero_entry) 0 = Some (m :: nat kmap) \<and> Kmap_reftrace m = Some xs
     \<and> mset (map edata xs) = {#} \<and> length xs = ksize m"
proof -
  obtain m :: "nat kmap" where m: "Kmap_init (\<lambda>_. zero_entry) 0 = Some m" "kmap_models m {#}"
    using Kmap_init_models by blast
  from kmap_reftrace_complete [OF m(2)] m(1) show ?thesis by blast
qed

end
