(* ===== verification/Kvproto.thy ===== *)
theory Kvproto
  imports Prelude
begin

text \<open>
  The property table of an object (\<^verbatim>\<open>kvproto\<close> in \<^verbatim>\<open>src/konoha/klibexec.h\<close>): an open-addressing
  table whose probe window is \<^verbatim>\<open>KVPROTO_DELTA\<close> slots and never wraps around, so the
  allocation has \<^verbatim>\<open>KVPROTO_DELTA\<close> slots more than the part that keys hash into.
\<close>

section \<open>Data\<close>

record kvs =
  vkey :: u32
  vty :: u32
  uval :: u64

text \<open>
  A table is a \<^verbatim>\<open>karray_t\<close> of slots. \<open>psize\<close> is \<^verbatim>\<open>bytesize / sizeof(kvs_t)\<close>, the number of home
  positions, and \<open>pmax\<close> is \<^verbatim>\<open>bytemax / sizeof(kvs_t)\<close>, the number of slots allocated; the shared
  table of an object without properties has \<open>pmax = 0\<close>.
\<close>

record kvproto =
  psize :: nat
  pmax :: nat
  kvs :: "kvs list"

definition KVPROTO_INIT :: nat where
  "KVPROTO_INIT = 8"

definition KVPROTO_DELTA :: nat where
  "KVPROTO_DELTA = 7"

definition FN_BOXED :: u32 where
  "FN_BOXED = 0x80000000"

definition FN_isBOXED :: "u32 \<Rightarrow> bool" where
  "FN_isBOXED fn \<longleftrightarrow> and fn FN_BOXED = FN_BOXED"

definition kvs_zero :: kvs where
  "kvs_zero = \<lparr>vkey = 0, vty = 0, uval = 0\<rparr>"

definition kvproto_null :: kvproto where
  "kvproto_null = \<lparr>psize = 1, pmax = 0, kvs = replicate KVPROTO_DELTA kvs_zero\<rparr>"

definition new_kvproto :: kvproto where
  "new_kvproto = \<lparr>psize = KVPROTO_INIT - KVPROTO_DELTA, pmax = KVPROTO_INIT,
                  kvs = replicate KVPROTO_INIT kvs_zero\<rparr>"

section \<open>Operations\<close>

text \<open>A probe reads \<open>n\<close> slots from \<open>i\<close> on and stops at the first that satisfies \<open>P\<close>.\<close>

fun probe :: "(kvs \<Rightarrow> bool) \<Rightarrow> kvs list \<Rightarrow> nat \<Rightarrow> nat \<Rightarrow> nat option option" where
  "probe P ds i 0 = Some None"
| "probe P ds i (Suc n) = do {
     d \<leftarrow> mem_get ds i;
     (if P d then Some (Some i) else probe P ds (i + 1) n)
   }"

definition home :: "nat \<Rightarrow> u32 \<Rightarrow> nat" where
  "home n key = unat key mod n"

definition kvproto_get :: "kvproto \<Rightarrow> u32 \<Rightarrow> nat option option" where
  "kvproto_get p key = probe (\<lambda>d. vkey d = key) (kvs p) (home (psize p) key) (3 + (KVPROTO_DELTA - 3))"

definition kvproto_findset :: "kvs \<Rightarrow> kvs list \<Rightarrow> nat \<Rightarrow> kvs list option" where
  "kvproto_findset d newkvs i = do {
     r \<leftarrow> probe (\<lambda>newd. vkey newd = 0) newkvs i (KVPROTO_DELTA - 1);
     (case r of Some j \<Rightarrow> mem_put newkvs j d | None \<Rightarrow> Some newkvs)
   }"

definition rehash_slot :: "nat \<Rightarrow> kvs \<Rightarrow> kvs list \<Rightarrow> kvs list option" where
  "rehash_slot newpsize d newkvs =
     (if vkey d \<noteq> 0 then do {
        let i = home newpsize (vkey d);
        newd \<leftarrow> mem_get newkvs i;
        (if vkey newd = 0 then mem_put newkvs i d else kvproto_findset d newkvs (i + 1))
      } else Some newkvs)"

fun rehash_slots :: "nat \<Rightarrow> kvs list \<Rightarrow> kvs list \<Rightarrow> kvs list option" where
  "rehash_slots n [] newkvs = Some newkvs"
| "rehash_slots n (d # ds) newkvs = do { newkvs \<leftarrow> rehash_slot n d newkvs; rehash_slots n ds newkvs }"

definition kvproto_rehash :: "kvproto \<Rightarrow> kvproto option" where
  "kvproto_rehash p =
     (let newpmax = pmax p * 2; newpsize = newpmax - KVPROTO_DELTA in do {
        ds \<leftarrow> mem_read (kvs p) 0 (pmax p);
        newkvs \<leftarrow> rehash_slots newpsize ds (replicate newpmax kvs_zero);
        Some (p\<lparr>kvs := newkvs, pmax := newpmax, psize := newpsize\<rparr>)
      })"

text \<open>One round of the \<^verbatim>\<open>do ... while(1)\<close>: the slot the value goes to, or none and a rehash.\<close>

definition set_slot :: "kvproto \<Rightarrow> u32 \<Rightarrow> nat option option" where
  "set_slot p key = probe (\<lambda>d. vkey d = key \<or> vkey d = 0) (kvs p) (home (psize p) key) KVPROTO_DELTA"

partial_function (option) set_loop :: "kvproto \<Rightarrow> u32 \<Rightarrow> u32 \<Rightarrow> u64 \<Rightarrow> kvproto option" where
  "set_loop p key ty v = do {
     r \<leftarrow> set_slot p key;
     (case r of
        Some i \<Rightarrow> do {
          ds \<leftarrow> mem_put (kvs p) i \<lparr>vkey = key, vty = ty, uval = v\<rparr>;
          Some (p\<lparr>kvs := ds\<rparr>)
        }
      | None \<Rightarrow> do { p \<leftarrow> kvproto_rehash p; set_loop p key ty v })
   }"

declare set_loop.simps [code]

definition kvproto_set :: "kvproto \<Rightarrow> u32 \<Rightarrow> u32 \<Rightarrow> u64 \<Rightarrow> kvproto option" where
  "kvproto_set p key ty v =
     (let p = (if pmax p = 0 then new_kvproto else p) in set_loop p key ty v)"

text \<open>The slots \<^verbatim>\<open>KObject_protoEach\<close> hands to \<open>f\<close>, and those \<^verbatim>\<open>KONOHA_reftraceObject\<close> traces.\<close>

definition KObject_protoEach :: "kvproto \<Rightarrow> kvs list option" where
  "KObject_protoEach p = mem_read (kvs p) 0 (pmax p)"

definition reftrace_values :: "kvproto \<Rightarrow> u64 list option" where
  "reftrace_values p =
     (if pmax p > 0
      then map_option (\<lambda>ds. map uval (filter (\<lambda>d. FN_isBOXED (vkey d)) ds)) (mem_read (kvs p) 0 (pmax p))
      else Some [])"

text \<open>Reading through the slot pointer \<^verbatim>\<open>kvproto_get\<close> returned.\<close>

definition slot_value :: "kvproto \<Rightarrow> nat option option \<Rightarrow> u64 \<Rightarrow> u64 option" where
  "slot_value p r defval = do {
     r \<leftarrow> r;
     (case r of Some i \<Rightarrow> map_option uval (mem_get (kvs p) i) | None \<Rightarrow> Some defval)
   }"

definition KObject_getObjectNULL :: "kvproto \<Rightarrow> u32 \<Rightarrow> u64 \<Rightarrow> u64 option" where
  "KObject_getObjectNULL p key defval = slot_value p (kvproto_get p (or key FN_BOXED)) defval"

definition KObject_setObject :: "kvproto \<Rightarrow> u32 \<Rightarrow> u32 \<Rightarrow> u64 \<Rightarrow> kvproto option" where
  "KObject_setObject p key ty v = kvproto_set p (or key FN_BOXED) ty v"

definition KObject_getUnboxedValue :: "kvproto \<Rightarrow> u32 \<Rightarrow> u64 \<Rightarrow> u64 option" where
  "KObject_getUnboxedValue p key defval = slot_value p (kvproto_get p key) defval"

definition KObject_setUnboxedValue :: "kvproto \<Rightarrow> u32 \<Rightarrow> u32 \<Rightarrow> u64 \<Rightarrow> kvproto option" where
  "KObject_setUnboxedValue p key ty v = kvproto_set p key ty v"

definition clear_slot :: "kvproto \<Rightarrow> u32 \<Rightarrow> kvproto option" where
  "clear_slot p key = do {
     r \<leftarrow> kvproto_get p key;
     (case r of
        Some i \<Rightarrow> do { ds \<leftarrow> mem_put (kvs p) i kvs_zero; Some (p\<lparr>kvs := ds\<rparr>) }
      | None \<Rightarrow> Some p)
   }"

definition KObject_removeKey :: "kvproto \<Rightarrow> u32 \<Rightarrow> kvproto option" where
  "KObject_removeKey p key = do { p \<leftarrow> clear_slot p (or key FN_BOXED); clear_slot p key }"

text \<open>Freeing an object's fields: the table is freed and the shared empty one takes its place.\<close>

definition KONOHA_freeObjectField :: "kvproto \<Rightarrow> kvproto" where
  "KONOHA_freeObjectField p = (if pmax p > 0 then kvproto_null else p)"

section \<open>Invariant and abstraction\<close>

text \<open>
  \<open>kvs_inv n ds\<close>: slots for \<open>n\<close> home positions in which every key sits in its own probe window,
  behind no free slot of that window, and no key occurs twice.
\<close>

definition kvs_inv :: "nat \<Rightarrow> kvs list \<Rightarrow> bool" where
  "kvs_inv n ds \<longleftrightarrow> 0 < n \<and> length ds = n + KVPROTO_DELTA
     \<and> (\<forall>i < length ds. vkey (ds ! i) \<noteq> 0 \<longrightarrow>
          home n (vkey (ds ! i)) \<le> i \<and> i < home n (vkey (ds ! i)) + KVPROTO_DELTA
          \<and> (\<forall>j. home n (vkey (ds ! i)) \<le> j \<longrightarrow> j < i \<longrightarrow> vkey (ds ! j) \<noteq> 0))
     \<and> (\<forall>i < length ds. \<forall>j < length ds.
          vkey (ds ! i) \<noteq> 0 \<longrightarrow> vkey (ds ! i) = vkey (ds ! j) \<longrightarrow> i = j)"

definition kv_inv :: "kvproto \<Rightarrow> bool" where
  "kv_inv p \<longleftrightarrow> p = kvproto_null \<or> (pmax p = psize p + KVPROTO_DELTA \<and> kvs_inv (psize p) (kvs p))"

definition kv_map :: "kvproto \<Rightarrow> u32 \<Rightarrow> u64 option" where
  "kv_map p k = (if k = 0 then None else map_option uval (List.find (\<lambda>d. vkey d = k) (kvs p)))"

lemma home_less: "0 < n \<Longrightarrow> home n k < n"
  by (simp add: home_def)

lemma probe_eq:
  "i + n \<le> length ds \<Longrightarrow> probe P ds i n = Some (List.find (\<lambda>j. P (ds ! j)) [i..<i + n])"
proof (induction n arbitrary: i)
  case 0
  then show ?case by simp
next
  case (Suc n)
  have "[i..<i + Suc n] = i # [Suc i..<Suc i + n]" by (simp add: upt_conv_Cons)
  with Suc show ?case by (simp add: mem_get_def)
qed

lemma find_upt_Some:
  "List.find P [a..<b] = Some i \<longleftrightarrow> a \<le> i \<and> i < b \<and> P i \<and> (\<forall>j. a \<le> j \<longrightarrow> j < i \<longrightarrow> \<not> P j)"
proof (induction "b - a" arbitrary: a)
  case 0
  then show ?case by auto
next
  case (Suc n)
  then have ab: "a < b" by simp
  have IH: "List.find P [Suc a..<b] = Some i \<longleftrightarrow>
      Suc a \<le> i \<and> i < b \<and> P i \<and> (\<forall>j. Suc a \<le> j \<longrightarrow> j < i \<longrightarrow> \<not> P j)"
    using Suc by simp
  show ?case
  proof (cases "P a")
    case True
    then show ?thesis using ab by (auto simp: upt_conv_Cons dest: leD intro: le_antisym)
  next
    case False
    then have "List.find P [a..<b] = List.find P [Suc a..<b]" using ab by (simp add: upt_conv_Cons)
    then show ?thesis using IH False by (metis Suc_le_eq le_eq_less_or_eq)
  qed
qed

lemma find_upt_None: "List.find P [a..<b] = None \<longleftrightarrow> (\<forall>j. a \<le> j \<longrightarrow> j < b \<longrightarrow> \<not> P j)"
  by (auto simp: find_None_iff)

lemma kvs_invD:
  assumes "kvs_inv n ds"
  shows "0 < n" "length ds = n + KVPROTO_DELTA"
    and "\<And>i. i < length ds \<Longrightarrow> vkey (ds ! i) \<noteq> 0 \<Longrightarrow>
           home n (vkey (ds ! i)) \<le> i \<and> i < home n (vkey (ds ! i)) + KVPROTO_DELTA"
    and "\<And>i j. i < length ds \<Longrightarrow> vkey (ds ! i) \<noteq> 0 \<Longrightarrow> home n (vkey (ds ! i)) \<le> j \<Longrightarrow> j < i \<Longrightarrow>
           vkey (ds ! j) \<noteq> 0"
    and "\<And>i j. i < length ds \<Longrightarrow> j < length ds \<Longrightarrow> vkey (ds ! i) \<noteq> 0 \<Longrightarrow>
           vkey (ds ! i) = vkey (ds ! j) \<Longrightarrow> i = j"
  using assms unfolding kvs_inv_def by blast+

lemma window_fits: "kvs_inv n ds \<Longrightarrow> home n k + KVPROTO_DELTA \<le> length ds"
  using home_less [of n k] kvs_invD(1,2) [of n ds] by simp

text \<open>Writing a slot for \<open>key\<close>: the slot of the key, or the first free slot of its window.\<close>

lemma kvs_inv_put:
  assumes inv: "kvs_inv n ds" and d: "vkey d \<noteq> 0"
    and i: "home n (vkey d) \<le> i" "i < home n (vkey d) + KVPROTO_DELTA"
    and slot: "vkey (ds ! i) = vkey d \<or> vkey (ds ! i) = 0"
    and before: "\<And>j. home n (vkey d) \<le> j \<Longrightarrow> j < i \<Longrightarrow> vkey (ds ! j) \<noteq> 0 \<and> vkey (ds ! j) \<noteq> vkey d"
  shows "kvs_inv n (ds[i := d])"
proof -
  note D = kvs_invD [OF inv]
  have il: "i < length ds" using i window_fits [OF inv, of "vkey d"] by simp
  have other: "j = i" if "j < length ds" "vkey (ds ! j) = vkey d" for j
  proof (rule ccontr)
    assume ne: "j \<noteq> i"
    have w: "home n (vkey d) \<le> j" using D(3) [of j] that d by simp
    have "vkey (ds ! i) = 0"
      using slot D(5) [OF that(1) il] that ne d by auto
    moreover have "\<not> j < i" using before [OF w] that by blast
    ultimately show False using D(4) [OF that(1), of i] that d i ne by simp
  qed
  have win: "home n (vkey (ds[i := d] ! k)) \<le> k \<and> k < home n (vkey (ds[i := d] ! k)) + KVPROTO_DELTA"
    if "k < length ds" "vkey (ds[i := d] ! k) \<noteq> 0" for k
    using that i il D(3) [of k] by (cases "k = i") simp_all
  have full: "vkey (ds[i := d] ! j) \<noteq> 0"
    if "k < length ds" "vkey (ds[i := d] ! k) \<noteq> 0" "home n (vkey (ds[i := d] ! k)) \<le> j" "j < k" for j k
  proof (cases "j = i \<or> k = i")
    case True
    then show ?thesis using that il d before [of j] by (cases "j = i") simp_all
  next
    case False
    then show ?thesis using that D(4) [of k j] by simp
  qed
  have uniq: "k = j"
    if "k < length ds" "j < length ds" "vkey (ds[i := d] ! k) \<noteq> 0"
      "vkey (ds[i := d] ! k) = vkey (ds[i := d] ! j)" for k j
  proof -
    consider "k = i" "j = i" | "k = i" "j \<noteq> i" | "k \<noteq> i" "j = i" | "k \<noteq> i" "j \<noteq> i" by blast
    then show ?thesis
    proof cases
      case 2
      then have "vkey (ds ! j) = vkey d" using that(4) il by simp
      with other [OF that(2)] 2 show ?thesis by simp
    next
      case 3
      then have "vkey (ds ! k) = vkey d" using that(4) il by simp
      with other [OF that(1)] 3 show ?thesis by simp
    next
      case 4
      then have "vkey (ds ! k) = vkey (ds ! j)" "vkey (ds ! k) \<noteq> 0" using that(3,4) by simp_all
      then show ?thesis using D(5) [OF that(1,2)] by blast
    qed simp
  qed
  show ?thesis
    unfolding kvs_inv_def length_list_update
  proof (intro conjI)
    show "\<forall>k < length ds. \<forall>j < length ds. vkey (ds[i := d] ! k) \<noteq> 0 \<longrightarrow>
        vkey (ds[i := d] ! k) = vkey (ds[i := d] ! j) \<longrightarrow> k = j"
      using uniq by blast
  qed (use D(1,2) win full in blast)+
qed


text \<open>What a key's slot says of the whole table.\<close>

lemma find_key:
  assumes inv: "kvs_inv n ds" and i: "i < length ds" "vkey (ds ! i) = k" "k \<noteq> 0"
  shows "List.find (\<lambda>d. vkey d = k) ds = Some (ds ! i)"
proof -
  have "\<not> vkey (ds ! j) = k" if "j < i" for j
  proof
    assume "vkey (ds ! j) = k"
    then have "i = j" using kvs_invD(5) [OF inv i(1), of j] i that by simp
    with that show False by simp
  qed
  then show ?thesis unfolding find_Some_iff using i(1,2) by blast
qed

lemma find_no_key: "(\<forall>i < length ds. vkey (ds ! i) \<noteq> k) \<Longrightarrow> List.find (\<lambda>d. vkey d = k) ds = None"
  by (auto simp: find_None_iff in_set_conv_nth)

lemma probe_key:
  assumes inv: "kvs_inv n ds" and k: "k \<noteq> 0"
  shows "\<exists>r. probe (\<lambda>d. vkey d = k) ds (home n k) KVPROTO_DELTA = Some r
     \<and> (case r of Some i \<Rightarrow> i < length ds \<and> vkey (ds ! i) = k | None \<Rightarrow> \<forall>i < length ds. vkey (ds ! i) \<noteq> k)"
proof -
  let ?r = "List.find (\<lambda>j. vkey (ds ! j) = k) [home n k..<home n k + KVPROTO_DELTA]"
  have w: "home n k + KVPROTO_DELTA \<le> length ds" by (rule window_fits [OF inv])
  have "case ?r of Some i \<Rightarrow> i < length ds \<and> vkey (ds ! i) = k | None \<Rightarrow> \<forall>i < length ds. vkey (ds ! i) \<noteq> k"
  proof (cases ?r)
    case None
    then have none: "\<And>j. home n k \<le> j \<Longrightarrow> j < home n k + KVPROTO_DELTA \<Longrightarrow> vkey (ds ! j) \<noteq> k"
      unfolding find_upt_None by blast
    have "vkey (ds ! i) \<noteq> k" if "i < length ds" for i
      using none [of i] kvs_invD(3) [OF inv that] k by auto
    with None show ?thesis by simp
  next
    case (Some i)
    then have "i < home n k + KVPROTO_DELTA" "vkey (ds ! i) = k" unfolding find_upt_Some by blast+
    with Some w show ?thesis by simp
  qed
  with probe_eq [OF w] show ?thesis by blast
qed

lemma delta_split: "3 + (KVPROTO_DELTA - 3) = KVPROTO_DELTA"
  by (simp add: KVPROTO_DELTA_def)

lemma kvproto_get_spec:
  assumes "kv_inv p" "k \<noteq> 0"
  shows "\<exists>r. kvproto_get p k = Some r
     \<and> (case r of Some i \<Rightarrow> i < length (kvs p) \<and> vkey (kvs p ! i) = k \<and> kv_map p k = Some (uval (kvs p ! i))
         | None \<Rightarrow> kv_map p k = None)"
proof (cases "p = kvproto_null")
  case True
  then show ?thesis using assms(2)
    by (simp add: kvproto_get_def kvproto_null_def home_def KVPROTO_DELTA_def kv_map_def kvs_zero_def
        eval_nat_numeral mem_get_def)
next
  case False
  then have inv: "kvs_inv (psize p) (kvs p)" using assms(1) by (simp add: kv_inv_def)
  obtain r where r: "kvproto_get p k = Some r"
    "case r of Some i \<Rightarrow> i < length (kvs p) \<and> vkey (kvs p ! i) = k
       | None \<Rightarrow> \<forall>i < length (kvs p). vkey (kvs p ! i) \<noteq> k"
    using probe_key [OF inv assms(2)] unfolding kvproto_get_def delta_split by blast
  then show ?thesis
    using find_key [OF inv _ _ assms(2)] find_no_key [of "kvs p" k] assms(2)
    by (cases r) (auto simp: kv_map_def)
qed

lemma kvproto_get_lookup_aux:
  assumes "kv_inv p" "key \<noteq> 0"
  shows "KObject_getUnboxedValue p key defval = Some (case kv_map p key of Some v \<Rightarrow> v | None \<Rightarrow> defval)"
  using kvproto_get_spec [OF assms]
  by (auto simp: KObject_getUnboxedValue_def slot_value_def mem_get_def split: option.splits)

lemma boxed_nonzero: "or key FN_BOXED \<noteq> 0"
proof
  assume "or key FN_BOXED = 0"
  then have "bit (or key FN_BOXED) 31 = bit (0 :: u32) 31" by simp
  then show False by (simp add: bit_or_iff FN_BOXED_def)
qed

text \<open>
  C17: an object whose table is well formed (every key inside its probe window behind no hole,
  none twice) reads as a map: the getter returns the value stored under the key anywhere in the
  table, the default when there is none, and never touches memory outside the allocation.
\<close>

theorem kvproto_get_lookup:
  assumes "kv_inv p" "key \<noteq> 0"
  shows "KObject_getUnboxedValue p key defval = Some (case kv_map p key of Some v \<Rightarrow> v | None \<Rightarrow> defval)
     \<and> KObject_getObjectNULL p key defval
        = Some (case kv_map p (or key FN_BOXED) of Some v \<Rightarrow> v | None \<Rightarrow> defval)"
  using kvproto_get_lookup_aux [OF assms] kvproto_get_lookup_aux [OF assms(1) boxed_nonzero]
  by (simp add: KObject_getObjectNULL_def KObject_getUnboxedValue_def)

text \<open>The first slot of a key's window that satisfies \<open>P\<close>.\<close>

lemma probe_window:
  assumes inv: "kvs_inv n ds" and r: "probe P ds (home n k) KVPROTO_DELTA = Some (Some i)"
  shows "home n k \<le> i" "i < home n k + KVPROTO_DELTA" "i < length ds" "P (ds ! i)"
    "\<And>j. home n k \<le> j \<Longrightarrow> j < i \<Longrightarrow> \<not> P (ds ! j)"
proof -
  have w: "home n k + KVPROTO_DELTA \<le> length ds" by (rule window_fits [OF inv])
  have "List.find (\<lambda>j. P (ds ! j)) [home n k..<home n k + KVPROTO_DELTA] = Some i"
    using r probe_eq [OF w, of P] by simp
  then have f: "home n k \<le> i \<and> i < home n k + KVPROTO_DELTA \<and> P (ds ! i)
      \<and> (\<forall>j. home n k \<le> j \<longrightarrow> j < i \<longrightarrow> \<not> P (ds ! j))"
    unfolding find_upt_Some .
  then show "home n k \<le> i" "i < home n k + KVPROTO_DELTA" "P (ds ! i)"
    "\<And>j. home n k \<le> j \<Longrightarrow> j < i \<Longrightarrow> \<not> P (ds ! j)" by blast+
  with w show "i < length ds" by simp
qed

lemma find_put:
  assumes inv: "kvs_inv n (ds[i := d])" and il: "i < length ds" and d: "vkey d \<noteq> 0"
    and slot: "vkey (ds ! i) = vkey d \<or> vkey (ds ! i) = 0" and inv0: "kvs_inv n ds" and k: "k \<noteq> 0"
  shows "List.find (\<lambda>d. vkey d = k) (ds[i := d]) =
     (if k = vkey d then Some d else List.find (\<lambda>d. vkey d = k) ds)"
proof (cases "k = vkey d")
  case True
  then show ?thesis using find_key [OF inv, of i k] il d by simp
next
  case ne: False
  show ?thesis
  proof (cases "\<exists>j < length ds. vkey (ds ! j) = k")
    case True
    then obtain j where j: "j < length ds" "vkey (ds ! j) = k" by blast
    then have "j \<noteq> i" using slot ne k by auto
    then show ?thesis using find_key [OF inv, of j k] find_key [OF inv0, of j k] j k ne by simp
  next
    case False
    then have "\<forall>j < length (ds[i := d]). vkey (ds[i := d] ! j) \<noteq> k"
      using ne il by (auto simp: nth_list_update)
    then show ?thesis using find_no_key [of "ds[i := d]" k] find_no_key [of ds k] False ne by simp
  qed
qed

text \<open>Filling the slot the setter found.\<close>

lemma put_slot:
  assumes inv: "kvs_inv n ds" and d: "vkey d \<noteq> 0"
    and r: "probe (\<lambda>e. vkey e = vkey d \<or> vkey e = 0) ds (home n (vkey d)) KVPROTO_DELTA = Some (Some i)"
  shows "kvs_inv n (ds[i := d])" "i < length ds"
    "\<And>k. k \<noteq> 0 \<Longrightarrow> List.find (\<lambda>d. vkey d = k) (ds[i := d]) =
        (if k = vkey d then Some d else List.find (\<lambda>d. vkey d = k) ds)"
proof -
  note w = probe_window [OF inv r]
  have before: "\<And>j. home n (vkey d) \<le> j \<Longrightarrow> j < i \<Longrightarrow> vkey (ds ! j) \<noteq> 0 \<and> vkey (ds ! j) \<noteq> vkey d"
    using w(5) by blast
  show i: "kvs_inv n (ds[i := d])" by (rule kvs_inv_put [OF inv d w(1,2,4) before])
  show "i < length ds" by (rule w(3))
  show "\<And>k. k \<noteq> 0 \<Longrightarrow> List.find (\<lambda>d. vkey d = k) (ds[i := d]) =
        (if k = vkey d then Some d else List.find (\<lambda>d. vkey d = k) ds)"
    by (rule find_put [OF i w(3) d w(4) inv])
qed

lemma set_slot_in_bounds:
  assumes "kvs_inv (psize p) (kvs p)"
  shows "set_slot p k \<noteq> None"
  unfolding set_slot_def using probe_eq [OF window_fits [OF assms]] by simp

lemma set_found:
  fixes ty :: u32 and v :: u64
  assumes inv: "kv_inv p" and ne: "p \<noteq> kvproto_null" and k: "key \<noteq> 0" and r: "set_slot p key = Some (Some i)"
  defines "p' \<equiv> p\<lparr>kvs := (kvs p)[i := \<lparr>vkey = key, vty = ty, uval = v\<rparr>]\<rparr>"
  shows "set_loop p key ty v = Some p'" "kv_inv p'" "kv_map p' = (kv_map p)(key \<mapsto> v)"
proof -
  let ?d = "\<lparr>vkey = key, vty = ty, uval = v\<rparr>"
  have kinv: "pmax p = psize p + KVPROTO_DELTA" "kvs_inv (psize p) (kvs p)"
    using inv ne by (simp_all add: kv_inv_def)
  have r': "probe (\<lambda>e. vkey e = vkey ?d \<or> vkey e = 0) (kvs p) (home (psize p) (vkey ?d)) KVPROTO_DELTA = Some (Some i)"
    using r by (simp add: set_slot_def)
  have d: "vkey ?d \<noteq> 0" using k by simp
  note P = put_slot [OF kinv(2) d r']
  show "set_loop p key ty v = Some p'"
    by (subst set_loop.simps) (simp add: r mem_put_def P(2) p'_def)
  show "kv_inv p'" using kinv P(1) by (simp add: kv_inv_def p'_def)
  show "kv_map p' = (kv_map p)(key \<mapsto> v)"
    using P(3) k by (auto simp: kv_map_def p'_def fun_eq_iff)
qed

text \<open>A fresh table: one home position, all slots free.\<close>

lemma kvs_inv_zeros: "0 < n \<Longrightarrow> kvs_inv n (replicate (n + KVPROTO_DELTA) kvs_zero)"
  by (simp add: kvs_inv_def kvs_zero_def)

lemma new_kvproto_inv: "kv_inv new_kvproto"
  using kvs_inv_zeros [of 1]
  by (simp add: kv_inv_def new_kvproto_def KVPROTO_INIT_def KVPROTO_DELTA_def)

lemma kv_map_zeros: "kvs p = replicate n kvs_zero \<Longrightarrow> kv_map p = Map.empty"
  by (auto simp: kv_map_def kvs_zero_def find_None_iff fun_eq_iff)

lemma new_kvproto_map: "kv_map new_kvproto = kv_map kvproto_null"
  using kv_map_zeros [of new_kvproto KVPROTO_INIT] kv_map_zeros [of kvproto_null KVPROTO_DELTA]
  by (simp add: new_kvproto_def kvproto_null_def)


text \<open>Rehashing: an entry goes to the first free slot of its new window, or nowhere.\<close>

lemma probe_Suc_eq:
  "probe P ds i (Suc n) = Option.bind (mem_get ds i) (\<lambda>d. if P d then Some (Some i) else probe P ds (i + 1) n)"
  by simp

lemma rehash_slot_eq:
  assumes "vkey d \<noteq> 0"
  shows "rehash_slot n d new =
     Option.bind (probe (\<lambda>e. vkey e = 0) new (home n (vkey d)) KVPROTO_DELTA)
       (case_option (Some new) (\<lambda>j. mem_put new j d))"
proof -
  have delta: "KVPROTO_DELTA = Suc (KVPROTO_DELTA - 1)" by (simp add: KVPROTO_DELTA_def)
  have "probe (\<lambda>e. vkey e = 0) new (home n (vkey d)) KVPROTO_DELTA =
      Option.bind (mem_get new (home n (vkey d)))
        (\<lambda>e. if vkey e = 0 then Some (Some (home n (vkey d)))
             else probe (\<lambda>e. vkey e = 0) new (home n (vkey d) + 1) (KVPROTO_DELTA - 1))"
    by (subst delta, rule probe_Suc_eq)
  then show ?thesis using assms
    by (cases "mem_get new (home n (vkey d))")
      (auto simp: rehash_slot_def kvproto_findset_def Let_def
        intro!: arg_cong [of _ _ "Option.bind _"] split: option.splits)
qed

definition at_home :: "nat \<Rightarrow> kvs list \<Rightarrow> bool" where
  "at_home n ds \<longleftrightarrow> (\<forall>i < length ds. vkey (ds ! i) \<noteq> 0 \<longrightarrow> home n (vkey (ds ! i)) = i)"

definition has_key :: "kvs list \<Rightarrow> u32 \<Rightarrow> bool" where
  "has_key ds k \<longleftrightarrow> (\<exists>d \<in> set ds. vkey d = k)"

lemma has_key_nth: "i < length ds \<Longrightarrow> has_key ds (vkey (ds ! i))"
  by (auto simp: has_key_def)

lemma home_inj: "2 ^ 32 \<le> n \<Longrightarrow> home n k = home n l \<Longrightarrow> k = l"
proof -
  assume n: "2 ^ 32 \<le> n" and h: "home n k = home n l"
  have "unat k < n" "unat l < n"
    by (rule order_less_le_trans [OF unsigned_less], use n in simp)+
  with h show "k = l" by (simp add: home_def word_unat_eq_iff)
qed

lemma rehash_slot_ok:
  assumes inv: "kvs_inv n new" and d: "vkey d \<noteq> 0" and fresh: "\<not> has_key new (vkey d)"
  shows "\<exists>new'. rehash_slot n d new = Some new' \<and> kvs_inv n new' \<and> set new' \<subseteq> insert d (set new)
     \<and> (2 ^ 32 \<le> n \<longrightarrow> at_home n new \<longrightarrow> at_home n new')"
proof -
  let ?P = "\<lambda>e. vkey e = 0" and ?h = "home n (vkey d)"
  note W = window_fits [OF inv, of "vkey d"]
  obtain r where r: "probe ?P new ?h KVPROTO_DELTA = Some r" using probe_eq [OF W] by blast
  show ?thesis
  proof (cases r)
    case None
    then show ?thesis using r inv by (auto simp: rehash_slot_eq [OF d])
  next
    case (Some j)
    note w = probe_window [OF inv r [unfolded Some]]
    have before: "\<And>i. ?h \<le> i \<Longrightarrow> i < j \<Longrightarrow> vkey (new ! i) \<noteq> 0 \<and> vkey (new ! i) \<noteq> vkey d"
      using w(3,5) fresh has_key_nth [of _ new] by (metis less_trans)
    have inv': "kvs_inv n (new[j := d])"
      by (rule kvs_inv_put [OF inv d w(1,2) _ before]) (use w(4) in simp)
    have home': "at_home n (new[j := d])" if big: "2 ^ 32 \<le> n" and ah: "at_home n new"
    proof -
      have "vkey (new ! ?h) = 0"
      proof (rule ccontr)
        assume nz: "vkey (new ! ?h) \<noteq> 0"
        have hl: "?h < length new" using w(1,3) by simp
        then have "home n (vkey (new ! ?h)) = ?h" using ah nz by (simp add: at_home_def)
        then have "vkey (new ! ?h) = vkey d" by (rule home_inj [OF big])
        with has_key_nth [OF hl] fresh show False by simp
      qed
      then have "j = ?h" using w(5) [of ?h] w(1) by (cases "?h < j") auto
      moreover have "home n (vkey (new[?h := d] ! i)) = i"
        if "i < length new" "vkey (new[?h := d] ! i) \<noteq> 0" for i
        using that ah by (cases "i = ?h") (simp_all add: at_home_def)
      ultimately show ?thesis by (simp add: at_home_def)
    qed
    have "set (new[j := d]) \<subseteq> insert d (set new)" by (rule set_update_subset_insert)
    with inv' home' w(3) show ?thesis
      by (auto simp: rehash_slot_eq [OF d] r Some mem_put_def)
  qed
qed

definition keys_distinct :: "kvs list \<Rightarrow> bool" where
  "keys_distinct ds \<longleftrightarrow> distinct (map vkey (filter (\<lambda>d. vkey d \<noteq> 0) ds))"

lemma rehash_slots_ok:
  assumes "kvs_inv n new" "keys_distinct ds" "\<forall>d \<in> set ds. vkey d \<noteq> 0 \<longrightarrow> \<not> has_key new (vkey d)"
  shows "\<exists>new'. rehash_slots n ds new = Some new' \<and> kvs_inv n new' \<and> set new' \<subseteq> set ds \<union> set new
     \<and> (2 ^ 32 \<le> n \<longrightarrow> at_home n new \<longrightarrow> at_home n new')"
  using assms
proof (induction ds arbitrary: new)
  case Nil
  then show ?case by simp
next
  case (Cons d ds)
  show ?case
  proof (cases "vkey d = 0")
    case True
    then show ?thesis using Cons.IH [OF Cons.prems(1)] Cons.prems(2,3)
      by (auto simp: rehash_slot_def keys_distinct_def)
  next
    case False
    then obtain new1 where new1: "rehash_slot n d new = Some new1" "kvs_inv n new1"
      "set new1 \<subseteq> insert d (set new)" "2 ^ 32 \<le> n \<longrightarrow> at_home n new \<longrightarrow> at_home n new1"
      using rehash_slot_ok [OF Cons.prems(1), of d] Cons.prems(3) by auto
    have "keys_distinct ds" "vkey d \<notin> vkey ` {e \<in> set ds. vkey e \<noteq> 0}"
      using Cons.prems(2) False by (auto simp: keys_distinct_def)
    moreover from this(2) have "\<forall>e \<in> set ds. vkey e \<noteq> 0 \<longrightarrow> \<not> has_key new1 (vkey e)"
      using Cons.prems(3) new1(3) by (force simp: has_key_def)
    ultimately obtain new' where "rehash_slots n ds new1 = Some new'" "kvs_inv n new'"
      "set new' \<subseteq> set ds \<union> set new1" "2 ^ 32 \<le> n \<longrightarrow> at_home n new1 \<longrightarrow> at_home n new'"
      using Cons.IH [OF new1(2)] by blast
    then show ?thesis using new1 by auto
  qed
qed


text \<open>A rehash drops entries but never changes or invents one, and grows the home part.\<close>

lemma kvs_inv_distinct:
  assumes "kvs_inv n ds"
  shows "keys_distinct ds"
proof -
  have "distinct (map vkey (filter (\<lambda>d. vkey d \<noteq> 0) es))"
    if "\<forall>i < length es. \<forall>j < length es. vkey (es ! i) \<noteq> 0 \<longrightarrow> vkey (es ! i) = vkey (es ! j) \<longrightarrow> i = j" for es
    using that
  proof (induction es)
    case Nil
    then show ?case by simp
  next
    case (Cons e es)
    have tl: "\<forall>i < length es. \<forall>j < length es. vkey (es ! i) \<noteq> 0 \<longrightarrow> vkey (es ! i) = vkey (es ! j) \<longrightarrow> i = j"
      using Cons.prems by (metis Suc_less_eq length_Cons nth_Cons_Suc old.nat.inject)
    have "vkey d \<noteq> vkey e" if e: "vkey e \<noteq> 0" and d: "d \<in> set es" for d
    proof
      assume "vkey d = vkey e"
      moreover obtain j where "j < length es" "es ! j = d" using d unfolding in_set_conv_nth by blast
      ultimately show False using Cons.prems [rule_format, of 0 "Suc j"] e by simp
    qed
    then have "vkey e \<noteq> 0 \<Longrightarrow> vkey e \<notin> vkey ` {d \<in> set es. vkey d \<noteq> 0}" by fastforce
    then show ?case using Cons.IH [OF tl] by auto
  qed
  then show ?thesis using kvs_invD(5) [OF assms] unfolding keys_distinct_def by blast
qed

lemma rehash_ok:
  assumes inv: "kv_inv p" and ne: "p \<noteq> kvproto_null"
  shows "\<exists>p'. kvproto_rehash p = Some p' \<and> kv_inv p' \<and> p' \<noteq> kvproto_null \<and> psize p < psize p'
     \<and> kv_map p' \<subseteq>\<^sub>m kv_map p \<and> (2 ^ 32 \<le> psize p' \<longrightarrow> at_home (psize p') (kvs p'))"
proof -
  have kinv: "pmax p = psize p + KVPROTO_DELTA" "kvs_inv (psize p) (kvs p)"
    using inv ne by (simp_all add: kv_inv_def)
  note D = kvs_invD(1,2) [OF kinv(2)]
  let ?n = "pmax p * 2 - KVPROTO_DELTA"
  have n: "psize p < ?n" "pmax p * 2 = ?n + KVPROTO_DELTA"
    using kinv(1) D(1) by (simp_all add: KVPROTO_DELTA_def)
  let ?z = "replicate (?n + KVPROTO_DELTA) kvs_zero"
  have z: "kvs_inv ?n ?z" using kvs_inv_zeros [of ?n] n(1) by simp
  have "\<forall>d \<in> set (kvs p). vkey d \<noteq> 0 \<longrightarrow> \<not> has_key ?z (vkey d)" by (simp add: has_key_def kvs_zero_def)
  then obtain new where new: "rehash_slots ?n (kvs p) ?z = Some new" "kvs_inv ?n new"
    "set new \<subseteq> set (kvs p) \<union> set ?z" "2 ^ 32 \<le> ?n \<longrightarrow> at_home ?n ?z \<longrightarrow> at_home ?n new"
    using rehash_slots_ok [OF z kvs_inv_distinct [OF kinv(2)]] by blast
  let ?p = "p\<lparr>kvs := new, pmax := pmax p * 2, psize := ?n\<rparr>"
  have "kvproto_rehash p = Some ?p"
  proof -
    have rd: "mem_read (kvs p) 0 (pmax p) = Some (kvs p)" using kinv(1) D(2) by (simp add: mem_read_def)
    have "rehash_slots ?n (kvs p) (replicate (pmax p * 2) kvs_zero) = Some new"
      using new(1) unfolding n(2) [symmetric] .
    then show ?thesis by (simp only: kvproto_rehash_def Let_def rd Option.bind.simps)
  qed
  moreover have "kv_inv ?p" using new(2) n(2) by (simp add: kv_inv_def)
  moreover have "?p \<noteq> kvproto_null"
  proof
    assume "?p = kvproto_null"
    then have "pmax ?p = pmax kvproto_null" by simp
    then show False using n by (simp add: kvproto_null_def)
  qed
  moreover have "kv_map ?p \<subseteq>\<^sub>m kv_map p"
    unfolding map_le_def
  proof
    fix k assume "k \<in> dom (kv_map ?p)"
    then obtain v where k: "kv_map ?p k = Some v" by blast
    then obtain d where d: "List.find (\<lambda>d. vkey d = k) new = Some d" "v = uval d" "k \<noteq> 0"
      by (auto simp: kv_map_def split: if_splits)
    then have "d \<in> set new" "vkey d = k" by (auto simp: find_Some_iff)
    then have "d \<in> set (kvs p)" using new(3) d(3) by (auto simp: kvs_zero_def)
    then obtain i where "i < length (kvs p)" "kvs p ! i = d" by (metis in_set_conv_nth)
    then show "kv_map ?p k = kv_map p k"
      using find_key [OF kinv(2), of i k] \<open>vkey d = k\<close> d(2,3) k by (simp add: kv_map_def)
  qed
  moreover have "at_home ?n ?z" by (simp add: at_home_def kvs_zero_def)
  ultimately show ?thesis using new(4) n(1) by (intro exI [of _ ?p]) simp
qed


text \<open>Once the home part covers all keys, every window has room, so the setter's loop ends.\<close>

lemma at_home_slot:
  assumes inv: "kvs_inv (psize p) (kvs p)" and n: "2 ^ 32 \<le> psize p" and ah: "at_home (psize p) (kvs p)"
  shows "\<exists>i. set_slot p k = Some (Some i)"
proof -
  let ?h = "home (psize p) k"
  have h: "?h < length (kvs p)"
    using window_fits [OF inv, of k] by (simp add: KVPROTO_DELTA_def)
  have "vkey (kvs p ! ?h) = k \<or> vkey (kvs p ! ?h) = 0"
    using ah h home_inj [OF n, of "vkey (kvs p ! ?h)" k] by (auto simp: at_home_def)
  then have "probe (\<lambda>d. vkey d = k \<or> vkey d = 0) (kvs p) ?h (Suc 6) = Some (Some ?h)"
    using h by (simp only: probe.simps mem_get_def if_True Option.bind.simps)
  then show ?thesis by (simp add: set_slot_def KVPROTO_DELTA_def)
qed

lemma set_loop_rehash:
  "set_slot p key = Some None \<Longrightarrow> kvproto_rehash p = Some p1 \<Longrightarrow> set_loop p key ty v = set_loop p1 key ty v"
  by (subst set_loop.simps) simp

lemma set_loop_ok:
  assumes "kv_inv p" "p \<noteq> kvproto_null" "key \<noteq> 0"
  shows "\<exists>p'. set_loop p key ty v = Some p' \<and> kv_inv p' \<and> kv_map p' key = Some v
     \<and> kv_map p' \<subseteq>\<^sub>m (kv_map p)(key \<mapsto> v)"
  using assms
proof (induction "2 ^ 32 - psize p" arbitrary: p rule: less_induct)
  case less
  have inv: "kvs_inv (psize p) (kvs p)" using less.prems by (simp add: kv_inv_def)
  obtain r where r: "set_slot p key = Some r" using set_slot_in_bounds [OF inv, of key] by blast
  show ?case
  proof (cases r)
    case (Some i)
    then show ?thesis using set_found [OF less.prems, of i ty v] r by (simp add: map_le_def)
  next
    case None
    obtain p1 where p1: "kvproto_rehash p = Some p1" "kv_inv p1" "p1 \<noteq> kvproto_null" "psize p < psize p1"
      "kv_map p1 \<subseteq>\<^sub>m kv_map p" "2 ^ 32 \<le> psize p1 \<longrightarrow> at_home (psize p1) (kvs p1)"
      using rehash_ok [OF less.prems(1,2)] by blast
    have step: "set_loop p key ty v = set_loop p1 key ty v"
      using set_loop_rehash p1(1) r None by simp
    have le: "(kv_map p1)(key \<mapsto> v) \<subseteq>\<^sub>m (kv_map p)(key \<mapsto> v)" by (rule map_le_upd [OF p1(5)])
    show ?thesis
    proof (cases "2 ^ 32 \<le> psize p1")
      case True
      have "kvs_inv (psize p1) (kvs p1)" using p1(2,3) by (simp add: kv_inv_def)
      then obtain i where "set_slot p1 key = Some (Some i)"
        using at_home_slot [OF _ True] p1(6) True by blast
      then show ?thesis using set_found [OF p1(2,3) less.prems(3), of i ty v] step le by simp
    next
      case False
      then have "2 ^ 32 - psize p1 < 2 ^ 32 - psize p" using p1(4) by simp
      then obtain p' where "set_loop p1 key ty v = Some p'" "kv_inv p'" "kv_map p' key = Some v"
        "kv_map p' \<subseteq>\<^sub>m (kv_map p1)(key \<mapsto> v)"
        using less.hyps [of p1] p1(2,3) less.prems(3) by blast
      then show ?thesis using step map_le_trans [OF _ le] by auto
    qed
  qed
qed

text \<open>
  C16: while the probe window of the key has room, setting a property changes the table, read as a
  map, at that key only, and the table stays well formed.
\<close>

theorem kvproto_set_insert:
  assumes "kv_inv p" "pmax p \<noteq> 0" "key \<noteq> 0" "set_slot p key \<noteq> Some None"
  shows "\<exists>p'. KObject_setUnboxedValue p key ty v = Some p' \<and> kv_inv p' \<and> kv_map p' = (kv_map p)(key \<mapsto> v)"
proof -
  have ne: "p \<noteq> kvproto_null" using assms(2) by (auto simp: kvproto_null_def)
  have inv: "kvs_inv (psize p) (kvs p)" using assms(1) ne by (simp add: kv_inv_def)
  obtain i where "set_slot p key = Some (Some i)"
    using set_slot_in_bounds [OF inv, of key] assms(4) by (cases "set_slot p key") auto
  then show ?thesis using set_found [OF assms(1) ne assms(3)] assms(2)
    by (simp add: KObject_setUnboxedValue_def kvproto_set_def)
qed

lemma kvproto_set_ok:
  assumes "kv_inv p" "key \<noteq> 0"
  shows "\<exists>p'. kvproto_set p key ty v = Some p' \<and> kv_inv p' \<and> kv_map p' key = Some v
     \<and> kv_map p' \<subseteq>\<^sub>m (kv_map p)(key \<mapsto> v)"
proof -
  let ?p = "if pmax p = 0 then new_kvproto else p"
  have null: "pmax p = 0 \<Longrightarrow> p = kvproto_null"
    using assms(1) by (auto simp: kv_inv_def KVPROTO_DELTA_def)
  have "kv_inv ?p" "?p \<noteq> kvproto_null" "kv_map ?p = kv_map p"
    using assms(1) null new_kvproto_inv new_kvproto_map
    by (auto simp: kvproto_null_def new_kvproto_def KVPROTO_INIT_def)
  then show ?thesis
    using set_loop_ok [of ?p key ty v] assms(2) by (simp add: kvproto_set_def Let_def)
qed

text \<open>A value under a boxed key is traced by the collector.\<close>

lemma reftrace_boxed:
  assumes "kv_inv p" "kv_map p key = Some v" "FN_isBOXED key"
  shows "\<exists>vs. reftrace_values p = Some vs \<and> v \<in> set vs"
proof -
  have ne: "p \<noteq> kvproto_null" using assms(2) new_kvproto_map kv_map_zeros [of kvproto_null KVPROTO_DELTA]
    by (auto simp: kvproto_null_def)
  then have "pmax p = psize p + KVPROTO_DELTA" "kvs_inv (psize p) (kvs p)" using assms(1) by (simp_all add: kv_inv_def)
  then have rd: "mem_read (kvs p) 0 (pmax p) = Some (kvs p)" "0 < pmax p"
    using kvs_invD(1,2) [of "psize p" "kvs p"] by (simp_all add: mem_read_def)
  obtain d where "List.find (\<lambda>d. vkey d = key) (kvs p) = Some d" "uval d = v"
    using assms(2) by (auto simp: kv_map_def split: if_splits)
  then have "d \<in> set (kvs p)" "vkey d = key" "uval d = v" by (auto simp: find_Some_iff)
  with assms(3) rd show ?thesis by (auto simp: reftrace_values_def)
qed

text \<open>
  C18: setting a property always ends, whatever the keys: the table doubles until the window of the
  key has room, at the latest when the table covers all 32-bit keys. The key then reads back its
  value, the table is well formed, and no other key has acquired or changed a value (a rehash may
  lose entries, see \<open>kvproto_rehash_loses\<close> below).
\<close>

theorem kvproto_set_total:
  assumes "kv_inv p" "key \<noteq> 0"
  shows "\<exists>p'. KObject_setUnboxedValue p key ty v = Some p' \<and> kv_inv p'
     \<and> KObject_getUnboxedValue p' key defval = Some v \<and> kv_map p' \<subseteq>\<^sub>m (kv_map p)(key \<mapsto> v)"
  using kvproto_set_ok [OF assms, of ty v] kvproto_get_lookup_aux [of _ key defval] assms(2)
  by (auto simp: KObject_setUnboxedValue_def)

theorem kvproto_get_lookup_witness:
  "\<exists>p. KObject_setUnboxedValue kvproto_null 5 0 50 = Some p
     \<and> KObject_getUnboxedValue p 5 99 = Some (case kv_map p 5 of Some v \<Rightarrow> v | None \<Rightarrow> 99) \<and> kv_map p 5 = Some 50"
proof -
  let ?p = "\<lparr>psize = 1, pmax = 8, kvs = \<lparr>vkey = 5, vty = 0, uval = 50\<rparr> # replicate 7 kvs_zero\<rparr>"
  have "KObject_setUnboxedValue kvproto_null 5 0 50 = Some ?p" by code_simp
  moreover have "kv_inv ?p" 
    by (simp add: kv_inv_def kvs_inv_def home_def KVPROTO_DELTA_def kvs_zero_def kvproto_null_def nth_Cons' less_Suc_eq_0_disj)
  moreover have "kv_map ?p 5 = Some 50" by (simp add: kv_map_def)
  ultimately show ?thesis using kvproto_get_lookup [of ?p 5 99] by simp
qed

theorem kvproto_set_total_witness:
  "\<exists>p'. KObject_setUnboxedValue kvproto_null 5 0 50 = Some p' \<and> kv_inv p'
     \<and> KObject_getUnboxedValue p' 5 99 = Some 50 \<and> kv_map p' \<subseteq>\<^sub>m (kv_map kvproto_null)(5 \<mapsto> 50)"
  using kvproto_set_total [of kvproto_null 5 0 50 99] by (simp add: kv_inv_def)

theorem kvproto_set_insert_witness:
  "\<exists>p'. KObject_setUnboxedValue new_kvproto 5 0 50 = Some p' \<and> kv_inv p' \<and> kv_map p' = (kv_map new_kvproto)(5 \<mapsto> 50)"
proof -
  have "set_slot new_kvproto 5 = Some (Some 0)" "pmax new_kvproto \<noteq> 0" by code_simp+
  then show ?thesis using kvproto_set_insert [of new_kvproto 5 0 50] new_kvproto_inv by simp
qed

text \<open>Storing a sequence of keys.\<close>

fun set_keys :: "kvproto \<Rightarrow> (u32 \<times> u64) list \<Rightarrow> kvproto option" where
  "set_keys p [] = Some p"
| "set_keys p ((k, v) # kvl) = do { p \<leftarrow> KObject_setUnboxedValue p k 0 v; set_keys p kvl }"

definition dense_keys :: "(u32 \<times> u64) list" where
  "dense_keys = map (\<lambda>i. (word_of_nat (25 * i), word_of_nat i)) [1..<17]"

text \<open>
  a rehash can lose properties. When the new probe window of an entry is full the entry is
  dropped without an error: after storing sixteen distinct properties in an empty object, all in
  bounds and each readable right after it was stored, four of them read as absent.
\<close>

theorem kvproto_rehash_loses:
  "map_option (\<lambda>p. filter (\<lambda>(k, v). KObject_getUnboxedValue p k 0 \<noteq> Some v) dense_keys) (set_keys kvproto_null dense_keys)
     = Some [(25, 1), (125, 5), (250, 10), (275, 11)]"
  by code_simp


text \<open>
  removing a property can bring an old value back. \<open>KObject_removeKey\<close> leaves a hole that ends
  the setter's search but not the getter's: after setting \<open>a\<close> and \<open>b\<close> in an empty object, removing
  \<open>a\<close>, and setting \<open>b\<close> again, the key \<open>b\<close> is in two slots, and removing \<open>b\<close> makes its first value
  readable again.
\<close>

theorem kvproto_remove_resurrects:
  assumes "a \<noteq> b" "a \<noteq> 0" "b \<noteq> 0" "\<not> FN_isBOXED b"
  shows "do { p \<leftarrow> KObject_setUnboxedValue kvproto_null a ta va;
              p \<leftarrow> KObject_setUnboxedValue p b tb vb;
              p \<leftarrow> KObject_removeKey p a;
              p \<leftarrow> KObject_setUnboxedValue p b tb vb';
              p \<leftarrow> KObject_removeKey p b;
              KObject_getUnboxedValue p b defval } = Some vb"
proof -
  have ne: "or a FN_BOXED \<noteq> b" "or b FN_BOXED \<noteq> b"
  proof -
    have "and (or x FN_BOXED) FN_BOXED = FN_BOXED" for x :: u32
      by (rule bit_eqI) (auto simp: bit_and_iff bit_or_iff)
    with assms(4) show "or a FN_BOXED \<noteq> b" "or b FN_BOXED \<noteq> b" by (metis FN_isBOXED_def)+
  qed
  define T where "T d e = \<lparr>psize = 1, pmax = 8, kvs = d # e # replicate 6 kvs_zero\<rparr>" for d e
  note ev = set_slot_def home_def KVPROTO_DELTA_def kvs_zero_def mem_get_def mem_put_def numeral_eq_Suc T_def
  let ?A = "\<lparr>vkey = a, vty = ta, uval = va\<rparr>" and ?B = "\<lparr>vkey = b, vty = tb, uval = vb\<rparr>"
  let ?C = "\<lparr>vkey = b, vty = tb, uval = vb'\<rparr>"
  have new: "new_kvproto = T kvs_zero kvs_zero"
    by (simp add: new_kvproto_def KVPROTO_INIT_def KVPROTO_DELTA_def T_def numeral_eq_Suc)
  have "set_slot (T kvs_zero kvs_zero) a = Some (Some 0)" by (simp add: ev)
  then have s1: "KObject_setUnboxedValue kvproto_null a ta va = Some (T ?A kvs_zero)"
    by (simp add: KObject_setUnboxedValue_def kvproto_set_def new set_loop.simps [of "T kvs_zero kvs_zero"])
      (simp add: ev kvproto_null_def)
  have "set_slot (T ?A kvs_zero) b = Some (Some 1)" using assms by (simp add: ev)
  then have s2: "KObject_setUnboxedValue (T ?A kvs_zero) b tb vb = Some (T ?A ?B)"
    by (simp add: KObject_setUnboxedValue_def kvproto_set_def set_loop.simps [of "T ?A kvs_zero"]) (simp add: ev)
  have s3: "KObject_removeKey (T ?A ?B) a = Some (T kvs_zero ?B)"
    using assms(1-3) ne boxed_nonzero [of a]
    by (cases "or a FN_BOXED = a") (simp_all add: KObject_removeKey_def clear_slot_def kvproto_get_def ev)
  have "set_slot (T kvs_zero ?B) b = Some (Some 0)" by (simp add: ev)
  then have s4: "KObject_setUnboxedValue (T kvs_zero ?B) b tb vb' = Some (T ?C ?B)"
    by (simp add: KObject_setUnboxedValue_def kvproto_set_def set_loop.simps [of "T kvs_zero ?B"]) (simp add: ev)
  have s5: "KObject_removeKey (T ?C ?B) b = Some (T kvs_zero ?B)"
    using assms(3) ne(2) boxed_nonzero [of b]
    by (simp add: KObject_removeKey_def clear_slot_def kvproto_get_def ev)
  have s6: "KObject_getUnboxedValue (T kvs_zero ?B) b defval = Some vb"
    using assms(3) by (simp add: KObject_getUnboxedValue_def slot_value_def kvproto_get_def ev)
  show ?thesis by (simp add: s1 s2 s3 s4 s5 s6)
qed

theorem kvproto_remove_resurrects_witness:
  "do { p \<leftarrow> KObject_setUnboxedValue kvproto_null 5 0 50;
        p \<leftarrow> KObject_setUnboxedValue p 6 0 60;
        p \<leftarrow> KObject_removeKey p 5;
        p \<leftarrow> KObject_setUnboxedValue p 6 0 61;
        p \<leftarrow> KObject_removeKey p 6;
        KObject_getUnboxedValue p 6 99 } = Some 60"
  by (rule kvproto_remove_resurrects) (simp_all add: FN_isBOXED_def FN_BOXED_def)

end
