(* ===== verification/Symbols.thy ===== *)
theory Symbols
  imports Kmap Kvproto
begin

text \<open>
  Interned names: file ids, package ids, unique names and symbols
  (\<^verbatim>\<open>Kmap_getcode\<close>, \<^verbatim>\<open>Kfileid\<close>, \<^verbatim>\<open>Kpack\<close>, \<^verbatim>\<open>Kuname\<close>, \<^verbatim>\<open>ksymbol_norm\<close>, \<^verbatim>\<open>Ksymbol\<close> and
  \<^verbatim>\<open>KTsymbol\<close> of \<^verbatim>\<open>src/konoha/klibexec.h\<close>). Each kind of name has a hash map from names to
  numbers and the list of its names, and a number is the position of its name in the list.
\<close>

section \<open>Data\<close>

record symtab =
  smap :: "bytes kmap"
  slist :: "bytes list"

record kshare =
  fileids :: symtab
  packs :: symtab
  unames :: symtab
  symbols :: symtab

text \<open>Flags in the top bits of a symbol (\<^verbatim>\<open>KFLAG_H(N)\<close> is bit \<open>32 - N\<close>).\<close>

definition KFLAG_H :: "nat \<Rightarrow> u32" where
  "KFLAG_H n = push_bit (32 - n) 1"

definition FN_NONAME :: u32 where "FN_NONAME = -1"
definition FN_NEWID :: u32 where "FN_NEWID = -2"
definition MN_ISBOOL :: u32 where "MN_ISBOOL = KFLAG_H 1"
definition MN_GETTER :: u32 where "MN_GETTER = KFLAG_H 2"
definition MN_SETTER :: u32 where "MN_SETTER = KFLAG_H 3"
definition MN_TOCID :: u32 where "MN_TOCID = or (KFLAG_H 1) (KFLAG_H 2)"

definition MN_UNMASK :: "u32 \<Rightarrow> u32" where
  "MN_UNMASK fnq = and fnq (not (or (or (KFLAG_H 1) (KFLAG_H 2)) (KFLAG_H 3)))"

definition MN_is :: "u32 \<Rightarrow> u32 \<Rightarrow> bool" where
  "MN_is flag mn \<longleftrightarrow> and mn flag = flag"

datatype sympol = SYMPOL_RAW | SYMPOL_NAME | SYMPOL_METHOD

section \<open>Characters, comparison and hashing\<close>

definition toupper :: "byte \<Rightarrow> byte" where
  "toupper c = (if chr CHR ''a'' \<le> c \<and> c \<le> chr CHR ''z'' then c - 32 else c)"

definition tolower :: "byte \<Rightarrow> byte" where
  "tolower c = (if chr CHR ''A'' \<le> c \<and> c \<le> chr CHR ''Z'' then c + 32 else c)"

text \<open>Comparison of at most \<open>n\<close> bytes of two texts; the end of a list is the terminating zero.\<close>

fun strncmp :: "bytes \<Rightarrow> bytes \<Rightarrow> nat \<Rightarrow> int" where
  "strncmp s t 0 = 0"
| "strncmp s t (Suc n) =
     (let a = (case s of [] \<Rightarrow> 0 | c # _ \<Rightarrow> c); b = (case t of [] \<Rightarrow> 0 | c # _ \<Rightarrow> c)
      in if a \<noteq> b then uint a - uint b else if a = 0 then 0 else strncmp (tl s) (tl t) n)"

text \<open>A \<^verbatim>\<open>char\<close> added to a \<^verbatim>\<open>uintptr_t\<close> is sign-extended first.\<close>

definition hash_step :: "u64 \<Rightarrow> byte \<Rightarrow> u64" where
  "hash_step h ch = scast ch + 31 * h"

definition strhash :: "bytes \<Rightarrow> u64" where
  "strhash name = fold (\<lambda>ch h. hash_step h ch) name 0"

definition casehash :: "bytes \<Rightarrow> u64" where
  "casehash name = fold (\<lambda>ch h. hash_step h (tolower ch)) name 0"

section \<open>Interning\<close>

definition same_name :: "bytes \<Rightarrow> bytes \<Rightarrow> bool" where
  "same_name name skey \<longleftrightarrow> length name = length skey \<and> strncmp skey name (length name) = 0"

definition Kmap_getcode ::
    "(nat \<Rightarrow> bytes kmape) \<Rightarrow> symtab \<Rightarrow> bytes \<Rightarrow> u64 \<Rightarrow> u32 \<Rightarrow> (symtab \<times> u32) option" where
  "Kmap_getcode junk t name h def = do {
     r \<leftarrow> kmap_search (smap t) h (same_name name);
     (case r of
        Some v \<Rightarrow> Some (t, ucast v)
      | None \<Rightarrow>
          if def = FN_NEWID then do {
            let code = word_of_nat (length (slist t));
            m \<leftarrow> map_addStringUnboxValue junk (smap t) h name code;
            Some (t\<lparr>slist := slist t @ [name], smap := m\<rparr>, ucast code)
          } else Some (t, def))
   }"

definition Kfileid ::
    "(nat \<Rightarrow> bytes kmape) \<Rightarrow> kshare \<Rightarrow> bytes \<Rightarrow> u32 \<Rightarrow> (kshare \<times> u64) option" where
  "Kfileid junk share name def = do {
     (t, uline) \<leftarrow> Kmap_getcode junk (fileids share) name (strhash name) def;
     Some (share\<lparr>fileids := t\<rparr>, push_bit 32 (ucast uline))
   }"

definition Kpack ::
    "(nat \<Rightarrow> bytes kmape) \<Rightarrow> kshare \<Rightarrow> bytes \<Rightarrow> u32 \<Rightarrow> (kshare \<times> u32) option" where
  "Kpack junk share name def = do {
     (t, c) \<leftarrow> Kmap_getcode junk (packs share) name (strhash name) def;
     Some (share\<lparr>packs := t\<rparr>, c)
   }"

definition Kuname ::
    "(nat \<Rightarrow> bytes kmape) \<Rightarrow> kshare \<Rightarrow> bytes \<Rightarrow> u32 \<Rightarrow> (kshare \<times> u32) option" where
  "Kuname junk share name def = do {
     (t, c) \<leftarrow> Kmap_getcode junk (unames share) name (strhash name) def;
     Some (share\<lparr>unames := t\<rparr>, c)
   }"

section \<open>Symbols\<close>

text \<open>
  The copying loop of \<^verbatim>\<open>ksymbol_norm\<close>, over the bytes at \<open>t\<close> and the length left; reading
  past the last byte of the memory is \<open>None\<close>.
\<close>

fun norm_loop :: "nat \<Rightarrow> bytes \<Rightarrow> nat \<Rightarrow> bytes option" where
  "norm_loop toup t 0 = Some []"
| "norm_loop toup [] (Suc n) = None"
| "norm_loop toup (ch # t) (Suc n) =
     (if ch = 0 then Some []
      else if ch = chr CHR ''_'' then norm_loop (if toup > 0 then 2 else toup) t n
      else map_option ((#) (if toup = 2 then toupper ch else ch)) (norm_loop 1 t n))"

text \<open>
  The prefix tests. In the source the test for \<^verbatim>\<open>is\<close> is the \<^verbatim>\<open>else\<close> of the test for the
  method policy.
\<close>

definition split_prefix :: "sympol \<Rightarrow> bytes \<Rightarrow> bytes \<times> u32" where
  "split_prefix pol buf =
     (if pol = SYMPOL_METHOD then
        (if take 3 buf = lit ''get'' then (drop 3 buf, MN_GETTER)
         else if take 3 buf = lit ''set'' then (drop 3 buf, MN_SETTER)
         else (buf, 0))
      else if take 2 buf = lit ''is'' then (drop 2 buf, MN_ISBOOL)
      else (buf, 0))"

definition ksymbol_norm :: "bytes \<Rightarrow> nat \<Rightarrow> sympol \<Rightarrow> (bytes \<times> u64 \<times> u32) option" where
  "ksymbol_norm t len pol = do {
     buf \<leftarrow> norm_loop 0 t (if len > 128 then 128 else len);
     let (t, mk) = split_prefix pol buf;
     Some (t, casehash t, mk)
   }"

text \<open>The bytes of a raw symbol: all \<open>len\<close>, or those before a zero.\<close>

fun raw_scan :: "bytes \<Rightarrow> nat \<Rightarrow> bytes option" where
  "raw_scan t 0 = Some []"
| "raw_scan [] (Suc n) = None"
| "raw_scan (ch # t) (Suc n) = (if ch = 0 then Some [] else map_option ((#) ch) (raw_scan t n))"

definition Ksymbol ::
    "(nat \<Rightarrow> bytes kmape) \<Rightarrow> kshare \<Rightarrow> bytes \<Rightarrow> nat \<Rightarrow> u32 \<Rightarrow> sympol \<Rightarrow> (kshare \<times> u32) option" where
  "Ksymbol junk share name len def pol =
     (if pol = SYMPOL_RAW then do {
        name \<leftarrow> raw_scan name len;
        (t, c) \<leftarrow> Kmap_getcode junk (symbols share) name (strhash name) def;
        Some (share\<lparr>symbols := t\<rparr>, c)
      } else do {
        (name, h, mk) \<leftarrow> ksymbol_norm name len pol;
        (t, code) \<leftarrow> Kmap_getcode junk (symbols share) name h def;
        Some (share\<lparr>symbols := t\<rparr>, if def = code then def else or code mk)
      })"

text \<open>Printing a symbol into a buffer of \<open>bufsiz\<close> bytes; \<open>tcid\<close> gives the name of a class.\<close>

fun dec :: "nat \<Rightarrow> bytes" where
  "dec n = (if n < 10 then [] else dec (n div 10)) @ [chr CHR ''0'' + word_of_nat (n mod 10)]"

declare dec.simps [simp del]

definition snprintf :: "nat \<Rightarrow> bytes \<Rightarrow> bytes" where
  "snprintf bufsiz text = take (bufsiz - 1) text"

definition upper_at :: "nat \<Rightarrow> bytes \<Rightarrow> bytes" where
  "upper_at i buf = (if i < length buf then buf[i := toupper (buf ! i)] else buf)"

definition KTsymbol :: "(nat \<Rightarrow> bytes) \<Rightarrow> kshare \<Rightarrow> nat \<Rightarrow> u32 \<Rightarrow> bytes" where
  "KTsymbol tcid share bufsiz code =
     (let index = unat (MN_UNMASK code); names = slist (symbols share)
      in if MN_is MN_TOCID code then snprintf bufsiz (lit ''to'' @ tcid index)
         else if index < length names then
           (let name = names ! index
            in if MN_is MN_ISBOOL code then upper_at 2 (snprintf bufsiz (lit ''is'' @ name))
               else if MN_is MN_GETTER code then upper_at 3 (snprintf bufsiz (lit ''get'' @ name))
               else if MN_is MN_SETTER code then upper_at 3 (snprintf bufsiz (lit ''set'' @ name))
               else snprintf bufsiz name)
         else snprintf bufsiz (lit ''unknown symbol='' @ dec index @ lit '' !< '' @ dec (length names)))"

section \<open>The abstract interner\<close>

text \<open>
  What a table promises: a list of keys, each a hash and a name, without repetition; interning
  looks a key up and appends it when it is new. The number of a key is its position.
\<close>

definition position :: "'a list \<Rightarrow> 'a \<Rightarrow> nat option" where
  "position ks x = List.find (\<lambda>i. ks ! i = x) [0..<length ks]"

definition intern :: "'a list \<Rightarrow> 'a \<Rightarrow> 'a list \<times> nat" where
  "intern ks x = (case position ks x of Some i \<Rightarrow> (ks, i) | None \<Rightarrow> (ks @ [x], length ks))"

lemma position_Some: "position ks x = Some i \<Longrightarrow> i < length ks \<and> ks ! i = x"
  by (auto simp: position_def find_Some_iff)

lemma position_None: "position ks x = None \<longleftrightarrow> x \<notin> set ks"
  by (auto simp: position_def find_None_iff in_set_conv_nth)

lemma position_nth: "distinct ks \<Longrightarrow> i < length ks \<Longrightarrow> position ks (ks ! i) = Some i"
  using position_Some [of ks "ks ! i"] position_None [of ks "ks ! i"]
  by (cases "position ks (ks ! i)") (auto simp: nth_eq_iff_index_eq)

lemma position_append: "position ks x = Some i \<Longrightarrow> distinct (ks @ ls) \<Longrightarrow> position (ks @ ls) x = Some i"
  using position_Some [of ks x i] position_nth [of "ks @ ls" i] by (auto simp: nth_append)

lemma intern_spec:
  assumes "distinct ks" "intern ks x = (ks', i)"
  shows "distinct ks' \<and> i < length ks' \<and> ks' ! i = x \<and> (\<exists>ls. ks' = ks @ ls)"
  using assms position_Some [of ks x] position_None [of ks x]
  by (auto simp: intern_def nth_append split: option.splits)

section \<open>The tables implement the interner\<close>

definition key_entries :: "(u64 \<times> bytes) list \<Rightarrow> (u64 \<times> bytes \<times> u64) multiset" where
  "key_entries ks = mset (map (\<lambda>i. (fst (ks ! i), snd (ks ! i), word_of_nat i)) [0..<length ks])"

definition sym_holds :: "symtab \<Rightarrow> (u64 \<times> bytes) list \<Rightarrow> bool" where
  "sym_holds t ks \<longleftrightarrow> slist t = map snd ks \<and> distinct ks \<and> length ks < 2 ^ 32 - 1
     \<and> (\<forall>k \<in> set ks. 0 \<notin> set (snd k)) \<and> kmap_holds (smap t) (key_entries ks)"

lemma key_entries_mem:
  "(h, n, v) \<in># key_entries ks \<longleftrightarrow> (\<exists>i < length ks. ks ! i = (h, n) \<and> v = word_of_nat i)"
  unfolding key_entries_def set_mset_mset set_map by (force simp: image_iff)

lemma key_entries_snoc:
  "key_entries (ks @ [(h, n)]) = add_mset (h, n, word_of_nat (length ks)) (key_entries ks)"
proof -
  have "map (\<lambda>i. (fst ((ks @ [(h, n)]) ! i), snd ((ks @ [(h, n)]) ! i), word_of_nat i :: u64)) [0..<length ks]
      = map (\<lambda>i. (fst (ks ! i), snd (ks ! i), word_of_nat i)) [0..<length ks]"
    by (rule map_cong) (simp_all add: nth_append)
  moreover have "[0..<length (ks @ [(h, n)])] = [0..<length ks] @ [length ks]" by simp
  ultimately show ?thesis unfolding key_entries_def by (simp only: map_append mset_append) simp
qed

lemma strncmp_eq:
  "length s = n \<Longrightarrow> length t = n \<Longrightarrow> 0 \<notin> set t \<Longrightarrow> strncmp s t n = 0 \<longleftrightarrow> s = t"
proof (induction n arbitrary: s t)
  case 0
  then show ?case by simp
next
  case (Suc n)
  then obtain a s' b t' where "s = a # s'" "t = b # t'" "length s' = n" "length t' = n"
    by (metis length_Suc_conv)
  then show ?case using Suc.IH [of s' t'] Suc.prems(3) by (auto simp: Let_def dest: unsigned_word_eqI)
qed

lemma same_name_iff: "0 \<notin> set name \<Longrightarrow> same_name name k \<longleftrightarrow> k = name"
  using strncmp_eq [of k "length name" name] unfolding same_name_def by metis

lemma sym_holdsD:
  assumes "sym_holds t ks"
  shows "slist t = map snd ks" "distinct ks" "length ks < 2 ^ 32 - 1"
    "\<And>k. k \<in> set ks \<Longrightarrow> 0 \<notin> set (snd k)" "kmap_holds (smap t) (key_entries ks)"
  using assms by (auto simp: sym_holds_def)

lemma ucast_nat: "ucast (word_of_nat i :: u64) = (word_of_nat i :: u32)"
  by (rule bit_word_eqI) (simp add: bit_simps)

lemma getcode_found:
  assumes t: "sym_holds t ks" and name: "0 \<notin> set name" and p: "position ks (h, name) = Some i"
  shows "Kmap_getcode junk t name h def = Some (t, word_of_nat i)"
proof -
  note D = sym_holdsD [OF t]
  note i = position_Some [OF p]
  have "kmap_search (smap t) h (same_name name) = Some (Some (word_of_nat i))"
  proof (rule kidx.search_unique [OF D(5)])
    show "(h, name, word_of_nat i) \<in># key_entries ks" using i by (auto simp: key_entries_mem)
    show "same_name name k \<longleftrightarrow> k = name" for k by (rule same_name_iff [OF name])
    show "v = word_of_nat i" if v: "(h, name, v) \<in># key_entries ks" for v
    proof -
      obtain j where j: "j < length ks" "ks ! j = (h, name)" "v = word_of_nat j"
        using v unfolding key_entries_mem by blast
      then have "j = i" using i nth_eq_iff_index_eq [OF D(2), of j i] by simp
      with j show ?thesis by simp
    qed
  qed
  then show ?thesis by (simp add: Kmap_getcode_def ucast_nat)
qed

lemma getcode_absent:
  assumes t: "sym_holds t ks" and name: "0 \<notin> set name" and p: "position ks (h, name) = None"
  shows "kmap_search (smap t) h (same_name name) = Some None"
proof (rule kidx.search_miss [OF sym_holdsD(5) [OF t]])
  fix k v assume "(h, k, v) \<in># key_entries ks"
  then have "(h, k) \<in> set ks" unfolding key_entries_mem by (metis nth_mem)
  with p show "\<not> same_name name k" by (auto simp: position_None same_name_iff [OF name])
qed

lemma getcode_refines:
  assumes t: "sym_holds t ks" and name: "0 \<notin> set name" and room: "length ks < 2 ^ 32 - 2"
    and i: "intern ks (h, name) = (ks', i)"
  shows "\<exists>t'. Kmap_getcode junk t name h FN_NEWID = Some (t', word_of_nat i) \<and> sym_holds t' ks'"
proof (cases "position ks (h, name)")
  case (Some j)
  then show ?thesis using getcode_found [OF t name Some] t i by (simp add: intern_def)
next
  case None
  note D = sym_holdsD [OF t]
  have ks': "ks' = ks @ [(h, name)]" "i = length ks" using i None by (simp_all add: intern_def)
  obtain m where m: "map_addStringUnboxValue junk (smap t) h name (word_of_nat (length ks)) = Some m"
    "kmap_holds m (key_entries ks')"
    using kidx.insert_holds [OF D(5), of junk h name "word_of_nat (length ks)"]
    unfolding ks' key_entries_snoc by blast
  have "Kmap_getcode junk t name h FN_NEWID = Some (t\<lparr>slist := slist t @ [name], smap := m\<rparr>, word_of_nat i)"
    using getcode_absent [OF t name None] m(1) D(1)
    by (simp add: Kmap_getcode_def ks'(2) Let_def ucast_nat)
  moreover have "sym_holds (t\<lparr>slist := slist t @ [name], smap := m\<rparr>) ks'"
    using m(2) D name None room by (auto simp: sym_holds_def ks'(1) position_None)
  ultimately show ?thesis by blast
qed


section \<open>Sequences of names\<close>

fun Kuname_all ::
    "(nat \<Rightarrow> bytes kmape) \<Rightarrow> kshare \<Rightarrow> bytes list \<Rightarrow> (kshare \<times> u32 list) option" where
  "Kuname_all junk share [] = Some (share, [])"
| "Kuname_all junk share (name # names) = do {
     (share, c) \<leftarrow> Kuname junk share name FN_NEWID;
     (share, cs) \<leftarrow> Kuname_all junk share names;
     Some (share, c # cs)
   }"

fun intern_all :: "'a list \<Rightarrow> 'a list \<Rightarrow> 'a list \<times> nat list" where
  "intern_all ks [] = (ks, [])"
| "intern_all ks (x # xs) =
     (let (ks, i) = intern ks x; (ks, is) = intern_all ks xs in (ks, i # is))"

lemma intern_length: "intern ks x = (ks', i) \<Longrightarrow> length ks' \<le> Suc (length ks)"
  by (auto simp: intern_def split: option.splits)

lemma intern_all_spec:
  assumes "distinct ks" "intern_all ks xs = (ks', is)"
  shows "distinct ks' \<and> length is = length xs \<and> (\<exists>ls. ks' = ks @ ls) \<and> length ks' \<le> length ks + length xs
     \<and> (\<forall>j < length xs. is ! j < length ks' \<and> ks' ! (is ! j) = xs ! j)"
  using assms
proof (induction xs arbitrary: ks ks' "is")
  case Nil
  then show ?case by simp
next
  case (Cons x xs)
  obtain ks1 i where 1: "intern ks x = (ks1, i)" by fastforce
  obtain ks2 js where 2: "intern_all ks1 xs = (ks2, js)" by fastforce
  have out: "ks' = ks2" "is = i # js" using Cons.prems(2) 1 2 by simp_all
  note S = intern_spec [OF Cons.prems(1) 1]
  have IH: "distinct ks2 \<and> length js = length xs \<and> (\<exists>ls. ks2 = ks1 @ ls) \<and> length ks2 \<le> length ks1 + length xs
     \<and> (\<forall>j < length xs. js ! j < length ks2 \<and> ks2 ! (js ! j) = xs ! j)"
    by (rule Cons.IH [OF _ 2]) (use S in simp)
  obtain l1 l2 where l: "ks1 = ks @ l1" "ks2 = ks1 @ l2" using S IH by blast
  have "ks2 ! i = x" "i < length ks2" using S l by (auto simp: nth_append)
  then have "is ! j < length ks' \<and> ks' ! (is ! j) = (x # xs) ! j" if "j < length (x # xs)" for j
    using that IH out by (cases j) auto
  moreover have "length ks' \<le> length ks + length (x # xs)" using IH out intern_length [OF 1] by simp
  ultimately show ?case using IH out l by auto
qed

lemma Kuname_refines:
  assumes "sym_holds (unames share) ks" "0 \<notin> set name" "length ks < 2 ^ 32 - 2"
    "intern ks (strhash name, name) = (ks', i)"
  shows "\<exists>share'. Kuname junk share name FN_NEWID = Some (share', word_of_nat i) \<and> sym_holds (unames share') ks'"
proof -
  obtain t' where "Kmap_getcode junk (unames share) name (strhash name) FN_NEWID = Some (t', word_of_nat i)"
    "sym_holds t' ks'"
    using getcode_refines [OF assms] by blast
  then show ?thesis by (simp add: Kuname_def)
qed

lemma Kuname_all_refines:
  assumes "sym_holds (unames share) ks" "\<forall>n \<in> set names. 0 \<notin> set n" "length ks + length names < 2 ^ 32 - 1"
    "intern_all ks (map (\<lambda>n. (strhash n, n)) names) = (ks', is)"
  shows "\<exists>share'. Kuname_all junk share names = Some (share', map word_of_nat is) \<and> sym_holds (unames share') ks'"
  using assms
proof (induction names arbitrary: share ks ks' "is")
  case Nil
  then show ?case by simp
next
  case (Cons n names)
  obtain ks1 i where 1: "intern ks (strhash n, n) = (ks1, i)" by fastforce
  obtain ks2 js where 2: "intern_all ks1 (map (\<lambda>n. (strhash n, n)) names) = (ks2, js)" by fastforce
  have out: "ks' = ks2" "is = i # js" using Cons.prems(4) 1 2 by simp_all
  obtain share1 where s1: "Kuname junk share n FN_NEWID = Some (share1, word_of_nat i)" "sym_holds (unames share1) ks1"
    using Kuname_refines [OF Cons.prems(1) _ _ 1, of junk] Cons.prems(2,3) by auto
  obtain share2 where "Kuname_all junk share1 names = Some (share2, map word_of_nat js)" "sym_holds (unames share2) ks2"
    using Cons.IH [OF s1(2) _ _ 2] Cons.prems(2,3) intern_length [OF 1] by auto
  then show ?case using s1(1) out by simp
qed

text \<open>A fresh table of names.\<close>

definition symtab_init :: "(nat \<Rightarrow> bytes kmape) \<Rightarrow> symtab option" where
  "symtab_init junk = do { m \<leftarrow> Kmap_init junk 0; Some \<lparr>smap = m, slist = []\<rparr> }"

text \<open>
  C19: interning numbers names faithfully. From a well-formed table, whatever uninitialised memory
  holds and however often the hash map has to grow, interning any sequence of names succeeds, two
  of them get the same number exactly if they are the same name, and each number is the position
  of its name in the list of names. The names must not contain a zero byte, and the numbers fit
  the 32 bits of an id.
\<close>

theorem Kuname_numbers_names:
  assumes "sym_holds (unames share) ks" "\<forall>n \<in> set names. 0 \<notin> set n"
    and "length ks + length names < 2 ^ 32 - 1"
  shows "\<exists>share' cs. Kuname_all junk share names = Some (share', cs) \<and> length cs = length names
     \<and> (\<forall>i < length names. unat (cs ! i) < length (slist (unames share'))
                          \<and> slist (unames share') ! unat (cs ! i) = names ! i)
     \<and> (\<forall>i < length names. \<forall>j < length names. cs ! i = cs ! j \<longleftrightarrow> names ! i = names ! j)"
proof -
  let ?xs = "map (\<lambda>n. (strhash n, n)) names"
  obtain ks' js where ks': "intern_all ks ?xs = (ks', js)" by fastforce
  have S: "distinct ks'" "length js = length names" "length ks' \<le> length ks + length names"
    "\<And>j. j < length names \<Longrightarrow> js ! j < length ks' \<and> ks' ! (js ! j) = (strhash (names ! j), names ! j)"
    using intern_all_spec [OF sym_holdsD(2) [OF assms(1)] ks'] by auto
  obtain share' where sh: "Kuname_all junk share names = Some (share', map word_of_nat js)"
    "sym_holds (unames share') ks'"
    using Kuname_all_refines [OF assms ks'] by blast
  let ?cs = "map word_of_nat js :: u32 list"
  have code: "unat (?cs ! i) = js ! i" if "i < length names" for i
    using S(2,3) S(4) [OF that] assms(3) that
    by (simp add: unsigned_of_nat take_bit_nat_eq_self)
  have pos: "js ! i = js ! j \<longleftrightarrow> names ! i = names ! j" if "i < length names" "j < length names" for i j
    using S(4) [OF that(1)] S(4) [OF that(2)] nth_eq_iff_index_eq [OF S(1), of "js ! i" "js ! j"] by auto
  have "?cs ! i = ?cs ! j \<longleftrightarrow> names ! i = names ! j" if "i < length names" "j < length names" for i j
    using code [OF that(1)] code [OF that(2)] pos [OF that] word_unat_eq_iff by metis
  moreover have "unat (?cs ! i) < length (slist (unames share')) \<and> slist (unames share') ! unat (?cs ! i) = names ! i"
    if "i < length names" for i
    using code [OF that] S(4) [OF that] sym_holdsD(1) [OF sh(2)] by simp
  ultimately show ?thesis using sh(1) S(2) by (intro exI [of _ share'] exI [of _ ?cs]) simp
qed


lemma symtab_init_ok: "\<exists>t. symtab_init junk = Some t \<and> sym_holds t []"
proof -
  obtain m where m: "Kmap_init junk 0 = Some m" "kmap_models m {#}"
    using Kmap_init_models by blast
  then have "kmap_holds m (key_entries [])" by (simp add: kmap_holds_def key_entries_def)
  with m(1) show ?thesis by (simp add: symtab_init_def sym_holds_def)
qed


theorem Kuname_numbers_names_witness:
  "\<exists>t share share' cs. symtab_init (\<lambda>_. zero_entry) = Some t \<and> unames share = t
     \<and> Kuname_all (\<lambda>_. zero_entry) share [lit ''int'', lit ''void'', lit ''int''] = Some (share', cs)
     \<and> cs ! 0 = cs ! 2 \<and> cs ! 0 \<noteq> cs ! 1"
proof -
  obtain t where t: "symtab_init (\<lambda>_. zero_entry) = Some t" "sym_holds t []"
    using symtab_init_ok by blast
  define share where "share = \<lparr>fileids = t, packs = t, unames = t, symbols = t\<rparr>"
  let ?names = "[lit ''int'', lit ''void'', lit ''int'']"
  have nz: "\<forall>n \<in> set ?names. 0 \<notin> set n" by code_simp
  have ne: "lit ''int'' \<noteq> lit ''void''" by code_simp
  obtain share' cs where *: "Kuname_all (\<lambda>_. zero_entry) share ?names = Some (share', cs)"
    "\<forall>i < length ?names. \<forall>j < length ?names. cs ! i = cs ! j \<longleftrightarrow> ?names ! i = ?names ! j"
    using Kuname_numbers_names [of share "[]" ?names "\<lambda>_. zero_entry"] t nz by (auto simp: share_def)
  have "cs ! 0 = cs ! 2" using *(2) [rule_format, of 0 2] by simp
  moreover have "cs ! 0 \<noteq> cs ! 1" using *(2) [rule_format, of 0 1] ne by simp
  moreover have "unames share = t" by (simp add: share_def)
  ultimately show ?thesis using t(1) *(1) by blast
qed


section \<open>Normalised symbols\<close>

text \<open>What the copying loop leaves: no underscore and no zero, and a text that it maps to itself.\<close>

definition plain :: "bytes \<Rightarrow> bool" where
  "plain w \<longleftrightarrow> 0 \<notin> set w \<and> chr CHR ''_'' \<notin> set w"

lemma toupper_plain: "c \<noteq> 0 \<Longrightarrow> c \<noteq> chr CHR ''_'' \<Longrightarrow> toupper c \<noteq> 0 \<and> toupper c \<noteq> chr CHR ''_''"
proof -
  have *: "\<forall>i \<in> set [0..<256]. (word_of_nat i :: byte) \<noteq> 0 \<longrightarrow> word_of_nat i \<noteq> chr CHR ''_'' \<longrightarrow>
      toupper (word_of_nat i) \<noteq> 0 \<and> toupper (word_of_nat i) \<noteq> chr CHR ''_''"
    by code_simp
  have "c = word_of_nat (unat c)" "unat c < 256" using unsigned_less [of c] by simp_all
  then show "c \<noteq> 0 \<Longrightarrow> c \<noteq> chr CHR ''_'' \<Longrightarrow> toupper c \<noteq> 0 \<and> toupper c \<noteq> chr CHR ''_''"
    using * by (metis atLeastLessThan_iff set_upt zero_le)
qed

lemma norm_loop_plain: "norm_loop toup t n = Some w \<Longrightarrow> plain w \<and> length w \<le> n"
proof (induction toup t n arbitrary: w rule: norm_loop.induct)
  case (3 toup ch t n)
  show ?case
  proof (cases "ch = 0 \<or> ch = chr CHR ''_''")
    case True
    then show ?thesis using 3 by (fastforce simp: plain_def split: if_splits)
  next
    case False
    then obtain w' where "norm_loop 1 t n = Some w'" "w = (if toup = 2 then toupper ch else ch) # w'"
      using "3.prems" by (auto split: if_splits)
    then show ?thesis using "3.IH"(2) [of w'] False toupper_plain [of ch] by (auto simp: plain_def)
  qed
qed (auto simp: plain_def)

lemma norm_loop_id:
  "plain w \<Longrightarrow> toup < 2 \<Longrightarrow> length w \<le> n \<Longrightarrow> (length w = n \<or> rest \<noteq> [] \<and> hd rest = 0) \<Longrightarrow>
     norm_loop toup (w @ rest) n = Some w"
proof (induction w arbitrary: toup n)
  case Nil
  then show ?case by (cases n; cases rest) auto
next
  case (Cons c w)
  then obtain n' where "n = Suc n'" by (cases n) auto
  then show ?case using Cons by (auto simp: plain_def)
qed

text \<open>The flags of a symbol sit above its number.\<close>

lemma small_bits: "(x :: u32) < 2 ^ 29 \<Longrightarrow> 29 \<le> n \<Longrightarrow> \<not> bit x n"
  using less_mask_eq [of x 29] by (metis bit_and_iff bit_mask_iff leD)

lemma bit_KFLAG: "0 < k \<Longrightarrow> bit (KFLAG_H k) n \<longleftrightarrow> n = 32 - k \<and> n < 32"
  unfolding KFLAG_H_def bit_push_bit_iff bit_1_iff by auto

lemmas flag_bits = MN_ISBOOL_def MN_GETTER_def MN_SETTER_def MN_TOCID_def bit_KFLAG

lemma mk_bits:
  assumes "x < 2 ^ 29" "mk \<in> {0, MN_ISBOOL, MN_GETTER, MN_SETTER}"
  shows "MN_UNMASK (or x mk) = x" "\<not> MN_is MN_TOCID (or x mk)"
    "f \<in> {MN_ISBOOL, MN_GETTER, MN_SETTER} \<Longrightarrow> MN_is f (or x mk) \<longleftrightarrow> f = mk"
proof -
  have x: "\<not> bit x n" if "29 \<le> n" for n using small_bits [OF assms(1) that] .
  show "MN_UNMASK (or x mk) = x"
    by (rule bit_word_eqI) (use assms(2) x in \<open>auto simp: MN_UNMASK_def flag_bits bit_simps\<close>)
  have b: "bit (and (or x mk) f) n \<longleftrightarrow> bit mk n \<and> bit f n" if "29 \<le> n" for f n
    using x [OF that] by (auto simp: bit_simps)
  show "\<not> MN_is MN_TOCID (or x mk)"
  proof
    assume "MN_is MN_TOCID (or x mk)"
    then have "bit mk 31 \<and> bit mk 30" using b [of 31 MN_TOCID] b [of 30 MN_TOCID]
      by (simp add: MN_is_def flag_bits bit_simps)
    then show False using assms(2) by (auto simp: flag_bits bit_simps)
  qed
  show "MN_is f (or x mk) \<longleftrightarrow> f = mk" if f: "f \<in> {MN_ISBOOL, MN_GETTER, MN_SETTER}"
  proof
    assume "MN_is f (or x mk)"
    then have "and (or x mk) f = f" by (simp add: MN_is_def)
    then have "bit mk n" if "29 \<le> n" "bit f n" for n using b [OF that(1), of f] that(2) by simp
    then show "f = mk" using f assms(2) by (auto simp: flag_bits bit_simps)
  next
    assume "f = mk"
    then show "MN_is f (or x mk)" by (auto simp: MN_is_def bit_eq_iff bit_simps)
  qed
qed


lemma flags_distinct:
  "MN_ISBOOL \<noteq> 0" "MN_GETTER \<noteq> 0" "MN_SETTER \<noteq> 0"
  "MN_ISBOOL \<noteq> MN_GETTER" "MN_ISBOOL \<noteq> MN_SETTER" "MN_GETTER \<noteq> MN_SETTER"
  by code_simp+

lemma split_prefix_props:
  assumes "split_prefix pol w = (base, mk)"
  shows "mk \<in> {0, MN_ISBOOL, MN_GETTER, MN_SETTER}" "plain w \<Longrightarrow> plain base" "length base \<le> length w"
    "w = (if mk = MN_GETTER then lit ''get'' else if mk = MN_SETTER then lit ''set''
          else if mk = MN_ISBOOL then lit ''is'' else []) @ base"
proof -
  have t: "take n w = x \<Longrightarrow> w = x @ drop n w" for n x by (metis append_take_drop_id)
  show "mk \<in> {0, MN_ISBOOL, MN_GETTER, MN_SETTER}" "length base \<le> length w"
    using assms by (auto simp: split_prefix_def split: if_splits)
  show "plain w \<Longrightarrow> plain base"
    using assms by (auto simp: split_prefix_def plain_def dest: in_set_dropD split: if_splits)
  show "w = (if mk = MN_GETTER then lit ''get'' else if mk = MN_SETTER then lit ''set''
          else if mk = MN_ISBOOL then lit ''is'' else []) @ base"
    using assms flags_distinct by (auto simp: split_prefix_def dest: t split: if_splits)
qed

definition normal :: "bytes \<Rightarrow> nat \<Rightarrow> bytes option" where
  "normal name len = norm_loop 0 name (min len 128)"

lemma ksymbol_norm_normal:
  "ksymbol_norm name len pol =
     map_option (\<lambda>w. (fst (split_prefix pol w), casehash (fst (split_prefix pol w)), snd (split_prefix pol w))) (normal name len)"
proof -
  have "(if len > 128 then 128 else len) = min len 128" by simp
  then show ?thesis
    by (cases "normal name len") (simp_all add: ksymbol_norm_def normal_def case_prod_unfold Let_def)
qed

lemma code_not_newid: "i < 2 ^ 32 - 2 \<Longrightarrow> FN_NEWID \<noteq> (word_of_nat i :: u32)"
proof
  assume i: "i < 2 ^ 32 - 2" and e: "FN_NEWID = (word_of_nat i :: u32)"
  have "unat FN_NEWID = 2 ^ 32 - 2" by (simp add: FN_NEWID_def)
  moreover have "unat (word_of_nat i :: u32) = i" using i by (simp add: unsigned_of_nat take_bit_nat_eq_self)
  ultimately show False using i e by simp
qed

lemma Ksymbol_refines:
  assumes "sym_holds (symbols share) ks" "length ks < 2 ^ 29" "pol \<noteq> SYMPOL_RAW"
    and w: "normal name len = Some w" and sp: "split_prefix pol w = (base, mk)"
    and i: "intern ks (casehash base, base) = (ks', i)"
  shows "\<exists>share'. Ksymbol junk share name len FN_NEWID pol = Some (share', or (word_of_nat i) mk)
     \<and> sym_holds (symbols share') ks' \<and> i < 2 ^ 29"
proof -
  have "plain w" using w norm_loop_plain unfolding normal_def by blast
  then have base: "0 \<notin> set base" using split_prefix_props(2) [OF sp] by (simp add: plain_def)
  obtain t' where t': "Kmap_getcode junk (symbols share) base (casehash base) FN_NEWID = Some (t', word_of_nat i)"
    "sym_holds t' ks'"
    using getcode_refines [OF assms(1) base _ i, of junk] assms(2) by auto
  have il: "i < 2 ^ 29" using intern_spec [OF sym_holdsD(2) [OF assms(1)] i] i assms(2) position_Some [of ks]
    by (fastforce simp: intern_def split: option.splits)
  then have "FN_NEWID \<noteq> (word_of_nat i :: u32)" by (intro code_not_newid) simp
  then show ?thesis using assms(3) t' w sp il
    by (simp add: Ksymbol_def ksymbol_norm_normal)
qed

lemma small_code: "i < 2 ^ 29 \<Longrightarrow> (word_of_nat i :: u32) < 2 ^ 29"
  by (simp add: word_less_nat_alt unsigned_of_nat take_bit_nat_eq_self)




definition display :: "sympol \<Rightarrow> bytes \<Rightarrow> bytes" where
  "display pol w =
     (let (base, mk) = split_prefix pol w in if mk = 0 then w else upper_at (length w - length base) w)"

lemma intern_slist:
  assumes "sym_holds t ks" "intern ks0 k = (ks, i)" "distinct ks0"
  shows "i < length (slist t)" "slist t ! i = snd k"
  using intern_spec [OF assms(3,2)] sym_holdsD(1) [OF assms(1)] by auto




section \<open>Test prefixes and boxed keys\<close>

lemma boxed_isbool: "FN_BOXED = MN_ISBOOL"
  by code_simp

text \<open>
  A field whose name begins with \<open>is\<close> makes the collector follow an unboxed value. The test for
  the prefix is attached to the wrong \<^verbatim>\<open>if\<close>, so it applies to variables and fields and not to
  methods; the flag it sets is the one that marks a key as boxed, so an unboxed value stored under
  the symbol of such a field is handed to the tracer as a pointer.
\<close>

theorem is_field_traced:
  assumes "sym_holds (symbols share) ks" "length ks < 2 ^ 29"
    and "normal name len = Some (lit ''is'' @ base)" and "kv_inv p"
  shows "(\<exists>share' c p' vs. Ksymbol junk share name len FN_NEWID SYMPOL_NAME = Some (share', c)
       \<and> KObject_setUnboxedValue p c ty v = Some p' \<and> reftrace_values p' = Some vs \<and> v \<in> set vs)
     \<and> (\<exists>share' c. Ksymbol junk share name len FN_NEWID SYMPOL_METHOD = Some (share', c) \<and> \<not> MN_is MN_ISBOOL c)"
proof (rule conjI)
  have sp: "split_prefix SYMPOL_NAME (lit ''is'' @ base) = (base, MN_ISBOOL)"
    by (simp add: split_prefix_def lit_def)
  obtain ks' i where i: "intern ks (casehash base, base) = (ks', i)" by fastforce
  obtain share' where s: "Ksymbol junk share name len FN_NEWID SYMPOL_NAME = Some (share', or (word_of_nat i) MN_ISBOOL)"
    "i < 2 ^ 29"
    using Ksymbol_refines [OF assms(1,2) _ assms(3) sp i] by blast
  let ?c = "or (word_of_nat i) MN_ISBOOL :: u32"
  have boxed: "FN_isBOXED ?c"
    using mk_bits(3) [OF small_code [OF s(2)], of MN_ISBOOL MN_ISBOOL] by (simp add: FN_isBOXED_def MN_is_def boxed_isbool)
  have "?c \<noteq> 0" using boxed_nonzero [of "word_of_nat i"] by (simp add: boxed_isbool)
  then obtain p' where p': "kvproto_set p ?c ty v = Some p'" "kv_inv p'" "kv_map p' ?c = Some v"
    using kvproto_set_ok [OF assms(4)] by blast
  show "\<exists>share' c p' vs. Ksymbol junk share name len FN_NEWID SYMPOL_NAME = Some (share', c)
     \<and> KObject_setUnboxedValue p c ty v = Some p' \<and> reftrace_values p' = Some vs \<and> v \<in> set vs"
    using s(1) p'(1) reftrace_boxed [OF p'(2,3) boxed] by (auto simp: KObject_setUnboxedValue_def)
next
  have spm: "split_prefix SYMPOL_METHOD (lit ''is'' @ base) = (lit ''is'' @ base, 0)"
    by (simp add: split_prefix_def lit_def chr_def)
  let ?b = "lit ''is'' @ base"
  obtain ks'' j where j: "intern ks (casehash ?b, ?b) = (ks'', j)" by fastforce
  obtain share'' where m: "Ksymbol junk share name len FN_NEWID SYMPOL_METHOD = Some (share'', or (word_of_nat j) 0)"
    "j < 2 ^ 29"
    using Ksymbol_refines [OF assms(1,2) _ assms(3) spm j] by blast
  then show "\<exists>share' c. Ksymbol junk share name len FN_NEWID SYMPOL_METHOD = Some (share', c) \<and> \<not> MN_is MN_ISBOOL c"
    using mk_bits(3) [OF small_code [OF m(2)], of 0 MN_ISBOOL] flags_distinct by auto
qed


theorem is_field_traced_witness:
  "\<exists>t share' c p' vs. symtab_init (\<lambda>_. zero_entry) = Some t
     \<and> Ksymbol (\<lambda>_. zero_entry) \<lparr>fileids = t, packs = t, unames = t, symbols = t\<rparr> (lit ''island'') 6 FN_NEWID SYMPOL_NAME
         = Some (share', c)
     \<and> KObject_setUnboxedValue kvproto_null c 0 42 = Some p' \<and> reftrace_values p' = Some vs \<and> 42 \<in> set vs"
proof -
  obtain t where t: "symtab_init (\<lambda>_. zero_entry) = Some t" "sym_holds t []"
    using symtab_init_ok by blast
  have n: "normal (lit ''island'') 6 = Some (lit ''is'' @ lit ''land'')" by code_simp
  show ?thesis
    using is_field_traced [of "\<lparr>fileids = t, packs = t, unames = t, symbols = t\<rparr>" "[]"
        "lit ''island''" 6 "lit ''land''" kvproto_null "\<lambda>_. zero_entry" 0 42] t n
    by (auto simp: kv_inv_def)
qed

end
