(* ===== verification/Tokenizer.thy ===== *)
theory Tokenizer
  imports Symbols Karray
begin

text \<open>
  The tokenizer of scripts (\<^verbatim>\<open>src/sugar/token.h\<close>) and the error messages it reports
  (\<^verbatim>\<open>vperrorf\<close> of \<^verbatim>\<open>src/sugar/perror.h\<close>). A source is the memory of a C string: its
  bytes with the terminating zero, and reading behind it is \<open>None\<close>, as is a failed assertion.
\<close>

section \<open>Tokens\<close>

datatype ktoken =
    TK_NONE | TK_INDENT | TK_SYMBOL | TK_USYMBOL | TK_TEXT | TK_INT | TK_FLOAT | TK_TYPE
  | AST_PARENTHESIS | AST_BRACKET | AST_BRACE
  | TK_OPERATOR | TK_MSYMBOL | TK_ERR | TK_CODE | TK_WHITESPACE | TK_METANAME | TK_MN
  | AST_OPTIONAL

text \<open>
  The fields of \<^verbatim>\<open>struct _kToken\<close>. \<open>ttext\<close> is the union of a text and a list of tokens,
  \<open>lpos\<close> the union with \<^verbatim>\<open>closech\<close> and \<^verbatim>\<open>nameid\<close>, \<open>topch\<close> the union with \<^verbatim>\<open>ty\<close> and \<^verbatim>\<open>mn\<close>.
\<close>

datatype token = Token (tt: ktoken) (tkw: u32) (ttext: tbody) (tline: u64) (lpos: u32) (topch: u32)
  and tbody = Text bytes | Sub "token list"

definition Token_init :: token where
  "Token_init = Token TK_NONE 0 (Text []) 0 (-1) 0"

definition set_tt :: "ktoken \<Rightarrow> token \<Rightarrow> token" where
  "set_tt t tk = Token t (tkw tk) (ttext tk) (tline tk) (lpos tk) (topch tk)"

definition set_text :: "bytes \<Rightarrow> token \<Rightarrow> token" where
  "set_text s tk = Token (tt tk) (tkw tk) (Text s) (tline tk) (lpos tk) (topch tk)"

definition set_line :: "u64 \<Rightarrow> token \<Rightarrow> token" where
  "set_line l tk = Token (tt tk) (tkw tk) (ttext tk) l (lpos tk) (topch tk)"

definition set_lpos :: "u32 \<Rightarrow> token \<Rightarrow> token" where
  "set_lpos p tk = Token (tt tk) (tkw tk) (ttext tk) (tline tk) p (topch tk)"

definition set_topch :: "u32 \<Rightarrow> token \<Rightarrow> token" where
  "set_topch c tk = Token (tt tk) (tkw tk) (ttext tk) (tline tk) (lpos tk) c"

text \<open>
  The environment (\<^verbatim>\<open>tenv_t\<close>) with what the functions reach through the context: the token they
  fill in, the shared null token, the error messages and their count, the write buffer of the
  stack, and the short file name of a line, which error messages quote.
\<close>

record tenv =
  uline :: u64
  toks :: "token list"
  bol :: "nat option"
  indent_tab :: nat
  curtk :: token
  nulltk :: token
  errors :: "bytes list"
  err_count :: nat
  cwb :: "byte karray"
  sfile :: "u64 \<Rightarrow> bytes"

text \<open>\<^verbatim>\<open>IS_NOTNULL(tk)\<close>: a function is given the token to fill in or the null token.\<close>

definition upd_tk :: "bool \<Rightarrow> (token \<Rightarrow> token) \<Rightarrow> tenv \<Rightarrow> tenv" where
  "upd_tk notnull f env = (if notnull then env\<lparr>curtk := f (curtk env)\<rparr> else env)"

section \<open>Error messages\<close>

datatype perror = PE_CRIT | PE_ERR | PE_WARN | PE_INFO | PE_DEBUG

definition T_emsg :: "bool \<Rightarrow> perror \<Rightarrow> bytes option" where
  "T_emsg verbose pe =
     (case pe of PE_CRIT \<Rightarrow> Some (lit ''(error)'') | PE_ERR \<Rightarrow> Some (lit ''(error)'')
      | PE_WARN \<Rightarrow> Some (lit ''(warning)'') | PE_INFO \<Rightarrow> Some (lit ''(info)'')
      | PE_DEBUG \<Rightarrow> if verbose then Some (lit ''(debug)'') else None)"

definition vperrorf :: "perror \<Rightarrow> u64 \<Rightarrow> bytes \<Rightarrow> tenv \<Rightarrow> tenv \<times> nat option" where
  "vperrorf pe line msg env =
     (case T_emsg False pe of
        None \<Rightarrow> (env, None)
      | Some k \<Rightarrow>
          let emsg = (if line > 0
                then k @ lit '' ('' @ sfile env line @ lit '':'' @ dec (unat (ucast line :: u32)) @ lit '') ''
                else k @ lit '' '') @ msg;
              errref = length (errors env)
          in (env\<lparr>errors := errors env @ [emsg],
                  err_count := (if pe = PE_ERR \<or> pe = PE_CRIT then err_count env + 1 else err_count env)\<rparr>,
              Some errref))"

definition Token_toERR :: "bytes \<Rightarrow> token \<Rightarrow> token" where
  "Token_toERR msg tk = set_text msg (set_tt TK_ERR tk)"

text \<open>Reporting an error at the token and turning the token into an error token.\<close>

definition err_tk :: "bool \<Rightarrow> bytes \<Rightarrow> tenv \<Rightarrow> tenv" where
  "err_tk notnull msg env =
     (if notnull then
        (case vperrorf PE_ERR (tline (curtk env)) msg env of
           (env, Some errref) \<Rightarrow> upd_tk True (Token_toERR (errors env ! errref)) env
         | (env, None) \<Rightarrow> env)
      else env)"

section \<open>Scanning\<close>

definition isdigit :: "byte \<Rightarrow> bool" where
  "isdigit c \<longleftrightarrow> chr CHR ''0'' \<le> c \<and> c \<le> chr CHR ''9''"

definition isalnum :: "byte \<Rightarrow> bool" where
  "isalnum c \<longleftrightarrow> isdigit c \<or> (chr CHR ''a'' \<le> c \<and> c \<le> chr CHR ''z'')
     \<or> (chr CHR ''A'' \<le> c \<and> c \<le> chr CHR ''Z'')"

text \<open>
  The loops run over the bytes from the current position on. \<open>scan_run P\<close> is the number of
  bytes a loop passes that goes on while \<open>P\<close> holds and stops at a zero.
\<close>

fun scan_run :: "(byte \<Rightarrow> bool) \<Rightarrow> bytes \<Rightarrow> nat option" where
  "scan_run P [] = None"
| "scan_run P (ch # t) = (if ch \<noteq> 0 \<and> P ch then map_option Suc (scan_run P t) else Some 0)"

definition symbol_char :: "byte \<Rightarrow> bool" where
  "symbol_char ch \<longleftrightarrow> ch = chr CHR ''_'' \<or> isalnum ch"

definition op_char :: "byte \<Rightarrow> bool" where
  "op_char ch \<longleftrightarrow> ch \<in> set (lit ''<>@$#+-*%/=&?:.^!~|'')"

definition substr :: "bytes \<Rightarrow> nat \<Rightarrow> nat \<Rightarrow> bytes" where
  "substr src s n = take n (drop s src)"

definition parseINDENT :: "bool \<Rightarrow> bytes \<Rightarrow> tenv \<Rightarrow> nat \<Rightarrow> (tenv \<times> nat) option" where
  "parseINDENT notnull src env p = do {
     ch \<leftarrow> mem_get src p;
     Some (upd_tk notnull (set_lpos 0 \<circ> set_tt TK_INDENT) env, p + 1 - 1)
   }"

definition parseNL :: "bool \<Rightarrow> bytes \<Rightarrow> tenv \<Rightarrow> nat \<Rightarrow> (tenv \<times> nat) option" where
  "parseNL notnull src env p =
     parseINDENT notnull src (env\<lparr>uline := uline env + 1, bol := Some (p + 1)\<rparr>) (p + 1)"

text \<open>The number loop: the bytes passed, and how many of them were decimal points.\<close>

fun num_run :: "bytes \<Rightarrow> (nat \<times> nat) option" where
  "num_run [] = None"
| "num_run (ch # t) =
     (if ch = 0 then Some (0, 0)
      else if ch = chr CHR ''_'' then map_option (\<lambda>(n, dot). (n + 1, dot)) (num_run t)
      else if ch = chr CHR ''.'' then
        (case t of [] \<Rightarrow> None
         | c # _ \<Rightarrow> if \<not> isdigit c then Some (0, 0)
                   else map_option (\<lambda>(n, dot). (n + 1, dot + 1)) (num_run t))
      else if (ch = chr CHR ''e'' \<or> ch = chr CHR ''E'') \<and> t = [] then None
      else if (ch = chr CHR ''e'' \<or> ch = chr CHR ''E'') \<and> (hd t = chr CHR ''+'' \<or> hd t = chr CHR ''-'')
        then map_option (\<lambda>(n, dot). (n + 2, dot)) (num_run (tl t))
      else if \<not> isalnum ch then Some (0, 0)
      else map_option (\<lambda>(n, dot). (n + 1, dot)) (num_run t))"

definition parseNUM :: "bool \<Rightarrow> bytes \<Rightarrow> tenv \<Rightarrow> nat \<Rightarrow> (tenv \<times> nat) option" where
  "parseNUM notnull src env tok_start = do {
     (n, dot) \<leftarrow> num_run (drop tok_start src);
     Some (upd_tk notnull (set_tt (if dot = 0 then TK_INT else TK_FLOAT) \<circ> set_text (substr src tok_start n)) env,
           tok_start + n)
   }"

definition parseSYMBOL :: "bool \<Rightarrow> bytes \<Rightarrow> tenv \<Rightarrow> nat \<Rightarrow> (tenv \<times> nat) option" where
  "parseSYMBOL notnull src env tok_start = do {
     n \<leftarrow> scan_run symbol_char (drop tok_start src);
     Some (upd_tk notnull (set_tt TK_SYMBOL \<circ> set_text (substr src tok_start n)) env, tok_start + n)
   }"

definition parseUSYMBOL :: "bool \<Rightarrow> bytes \<Rightarrow> tenv \<Rightarrow> nat \<Rightarrow> (tenv \<times> nat) option" where
  "parseUSYMBOL notnull src env tok_start = do {
     n \<leftarrow> scan_run symbol_char (drop tok_start src);
     Some (upd_tk notnull (set_tt TK_USYMBOL \<circ> set_text (substr src tok_start n)) env, tok_start + n)
   }"

definition parseMSYMBOL :: "bool \<Rightarrow> bytes \<Rightarrow> tenv \<Rightarrow> nat \<Rightarrow> (tenv \<times> nat) option" where
  "parseMSYMBOL notnull src env tok_start = do {
     n \<leftarrow> scan_run (\<lambda>ch. sint ch < 0) (drop tok_start src);
     Some (upd_tk notnull (set_tt TK_MSYMBOL \<circ> set_text (substr src tok_start n)) env, tok_start + n)
   }"

definition parseOP1 :: "bool \<Rightarrow> bytes \<Rightarrow> tenv \<Rightarrow> nat \<Rightarrow> (tenv \<times> nat) option" where
  "parseOP1 notnull src env tok_start =
     (if notnull then do {
        ch \<leftarrow> mem_get src tok_start;
        Some (upd_tk True (set_topch (scast ch) \<circ> set_tt TK_OPERATOR \<circ> set_text [ch]) env, tok_start + 1)
      } else Some (env, tok_start + 1))"

definition parseOP :: "bool \<Rightarrow> bytes \<Rightarrow> tenv \<Rightarrow> nat \<Rightarrow> (tenv \<times> nat) option" where
  "parseOP notnull src env tok_start = do {
     n \<leftarrow> scan_run op_char (drop tok_start src);
     let s = substr src tok_start n;
     Some (upd_tk notnull ((if length s = 1 then set_topch (scast (s ! 0)) else id)
             \<circ> set_tt TK_OPERATOR \<circ> set_text s) env, tok_start + n)
   }"

definition parseLINE :: "bool \<Rightarrow> bytes \<Rightarrow> tenv \<Rightarrow> nat \<Rightarrow> (tenv \<times> nat) option" where
  "parseLINE notnull src env tok_start = do {
     n \<leftarrow> scan_run (\<lambda>ch. ch \<noteq> chr CHR 0x0A) (drop tok_start src);
     Some (env, tok_start + n)
   }"

text \<open>
  The comment loop: the line afterwards, and the number of bytes passed with whether the comment
  was closed.
\<close>

fun comment_run :: "bytes \<Rightarrow> byte \<Rightarrow> nat \<Rightarrow> u64 \<Rightarrow> (u64 \<times> nat \<times> bool) option" where
  "comment_run [] prev level line = None"
| "comment_run (ch # t) prev level line =
     (if ch = 0 then Some (line, 0, False)
      else let line = (if ch = chr CHR 0x0A then line + 1 else line) in
        if prev = chr CHR ''*'' \<and> ch = chr CHR ''/'' then
          (if level - 1 = 0 then Some (line, 1, True)
           else map_option (\<lambda>(l, n, c). (l, n + 1, c)) (comment_run t ch (level - 1) line))
        else map_option (\<lambda>(l, n, c). (l, n + 1, c))
               (comment_run t ch (if prev = chr CHR ''/'' \<and> ch = chr CHR ''*'' then level + 1 else level) line))"

text \<open>
  \<^verbatim>\<open>strtoll\<close> on a text that begins with a digit, and the line a marker \<^verbatim>\<open>@#n\<close> sets: the file id
  of the line with the number, which is a \<^verbatim>\<open>kshort_t\<close>, or-ed into it.
\<close>

fun digits :: "nat \<Rightarrow> bytes \<Rightarrow> nat option" where
  "digits acc [] = None"
| "digits acc (c # t) = (if isdigit c then digits (10 * acc + unat (c - chr CHR ''0'')) t else Some acc)"

definition strtoll :: "bytes \<Rightarrow> nat option" where
  "strtoll t = map_option (\<lambda>n. min n (2 ^ 63 - 1)) (digits 0 t)"

definition mark_line :: "bytes \<Rightarrow> nat \<Rightarrow> u64 \<Rightarrow> u64 option" where
  "mark_line src p line = do {
     c0 \<leftarrow> mem_get src p;
     (if c0 = chr CHR ''@'' then do {
        c1 \<leftarrow> mem_get src (p + 1);
        (if c1 = chr CHR ''#'' then do {
           c2 \<leftarrow> mem_get src (p + 2);
           (if isdigit c2 then do {
              n \<leftarrow> strtoll (drop (p + 2) src);
              Some (or (push_bit 32 (drop_bit 32 line)) (scast (word_of_nat n :: 32 word)))
            } else Some line)
         } else Some line)
      } else Some line)
   }"

definition parseCOMMENT :: "bool \<Rightarrow> bytes \<Rightarrow> tenv \<Rightarrow> nat \<Rightarrow> (tenv \<times> nat) option" where
  "parseCOMMENT notnull src env tok_start = do {
     line \<leftarrow> mark_line src (tok_start + 2) (uline env);
     (line, n, closed) \<leftarrow> comment_run (drop (tok_start + 2) src) 0 1 line;
     let env = env\<lparr>uline := line\<rparr>;
     Some (if closed then env else err_tk notnull (lit ''must close with */'') env, tok_start + 2 + n)
   }"

definition parseSLASH :: "bool \<Rightarrow> bytes \<Rightarrow> tenv \<Rightarrow> nat \<Rightarrow> (tenv \<times> nat) option" where
  "parseSLASH notnull src env tok_start = do {
     c \<leftarrow> mem_get src (tok_start + 1);
     (if c = chr CHR ''/'' then parseLINE notnull src env tok_start
      else if c = chr CHR ''*'' then parseCOMMENT notnull src env tok_start
      else parseOP notnull src env tok_start)
   }"

text \<open>
  The text loop, writing to the stack's buffer: the buffer, the bytes passed, and whether the text
  was closed. A line end or a zero ends an open text, and neither is passed.
\<close>

fun dquote_run :: "bytes \<Rightarrow> byte \<Rightarrow> byte karray \<Rightarrow> (byte karray \<times> nat \<times> bool) option" where
  "dquote_run [] prev m = None"
| "dquote_run (ch # t) prev m =
     (if ch = 0 \<or> ch = chr CHR 0x0A then Some (m, 0, False)
      else if ch = chr CHR 0x22 \<and> prev \<noteq> chr CHR 0x5C then Some (m, 1, True)
      else if ch = chr CHR 0x5C \<and> t = [] then None
      else if ch = chr CHR 0x5C \<and> hd t \<in> {chr CHR ''n'', chr CHR ''t'', chr CHR ''r''} then
        (let c = (if hd t = chr CHR ''n'' then chr CHR 0x0A else if hd t = chr CHR ''t'' then chr CHR 0x09 else chr CHR 0x0D)
         in do {
           m \<leftarrow> Kwb_putc m [sint c, -1];
           (m, n, closed) \<leftarrow> dquote_run (tl t) c m;
           Some (m, n + 2, closed)
         })
      else do {
        m \<leftarrow> Kwb_putc m [sint ch, -1];
        (m, n, closed) \<leftarrow> dquote_run t ch m;
        Some (m, n + 1, closed)
      })"

definition parseDQUOTE :: "bool \<Rightarrow> bytes \<Rightarrow> tenv \<Rightarrow> nat \<Rightarrow> (tenv \<times> nat) option" where
  "parseDQUOTE notnull src env tok_start =
     (let wb = Kwb_init (cwb env) in do {
        (m, n, closed) \<leftarrow> dquote_run (drop (tok_start + 1) src) (chr CHR 0x22) (cwb env);
        (if closed then do {
           let size = bytesize m - kwb.pos wb;
           (m, s) \<leftarrow> (if notnull then do {
                (m, p) \<leftarrow> Kwb_top m wb True;
                s \<leftarrow> mem_read (bytebuf m) p size;
                Some (m, s)
              } else Some (m, []));
           m \<leftarrow> Kwb_free m wb;
           Some (upd_tk notnull (set_tt TK_TEXT \<circ> set_text s) (env\<lparr>cwb := m\<rparr>), tok_start + 1 + n)
         } else do {
           m \<leftarrow> Kwb_free m wb;
           Some (err_tk notnull (lit ''must close with '' @ [chr CHR 0x22]) (env\<lparr>cwb := m\<rparr>), tok_start + 1 + n)
         })
      })"

definition parseSKIP :: "bool \<Rightarrow> bytes \<Rightarrow> tenv \<Rightarrow> nat \<Rightarrow> (tenv \<times> nat) option" where
  "parseSKIP notnull src env tok_start = Some (env, tok_start + 1)"

definition parseUNDEF :: "bool \<Rightarrow> bytes \<Rightarrow> tenv \<Rightarrow> nat \<Rightarrow> (tenv \<times> nat) option" where
  "parseUNDEF notnull src env tok_start = do {
     ch \<leftarrow> mem_get src tok_start;
     n \<leftarrow> scan_run (\<lambda>_. True) (drop (tok_start + 1) src);
     Some (err_tk notnull (lit ''undefined token character: '' @ [ch]) env, tok_start + 1 + n)
   }"

section \<open>The token matrix\<close>

text \<open>The tokenizer functions that a matrix can hold; \<open>F_Ext\<close> is one a package installs.\<close>

datatype ftokenizer =
    F_SKIP | F_NUM | F_USYMBOL | F_SYMBOL | F_MSYMBOL | F_NL | F_OP1 | F_OP | F_BLOCK | F_UNDEF
  | F_DQUOTE | F_SLASH | F_Ext "bool \<Rightarrow> bytes \<Rightarrow> tenv \<Rightarrow> nat \<Rightarrow> (tenv \<times> nat) option"

abbreviation (input) KC_UNDEF :: nat where "KC_UNDEF \<equiv> 1"
abbreviation (input) KC_DIGIT :: nat where "KC_DIGIT \<equiv> 2"
abbreviation (input) KC_UALPHA :: nat where "KC_UALPHA \<equiv> 3"
abbreviation (input) KC_LALPHA :: nat where "KC_LALPHA \<equiv> 4"
abbreviation (input) KC_MULTI :: nat where "KC_MULTI \<equiv> 5"
abbreviation (input) KC_LBR :: nat where "KC_LBR \<equiv> 13"
abbreviation (input) KC_RBR :: nat where "KC_RBR \<equiv> 14"

definition MiniKonohaTokenMatrix :: "ftokenizer list" where
  "MiniKonohaTokenMatrix =
     [F_SKIP, F_SKIP, F_NUM, F_USYMBOL, F_SYMBOL, F_MSYMBOL, F_NL, F_SKIP, F_SKIP,
      F_OP1, F_OP1, F_OP1, F_OP1, F_BLOCK, F_OP1, F_OP, F_OP, F_UNDEF, F_DQUOTE, F_UNDEF,
      F_OP, F_OP, F_OP, F_OP, F_OP, F_OP, F_OP, F_OP1, F_OP, F_OP, F_SLASH, F_OP, F_OP1,
      F_OP, F_OP, F_OP1, F_OP, F_OP, F_UNDEF, F_OP, F_SYMBOL]"

definition cMatrix :: "nat list" where
  "cMatrix =
     [0, 1, 1, 1, 1, 1, 1, 1,
      1, 7, 6, 1, 1, 1, 1, 1,
      1, 1, 1, 1, 1, 1, 1, 1,
      1, 1, 1, 1, 1, 1, 1, 1,
      8, 20, 18, 21, 22, 23, 24, 17,
      9, 10, 25, 26, 27, 28, 29, 30,
      2, 2, 2, 2, 2, 2, 2, 2,
      2, 2, 31, 32, 15, 33, 16, 34,
      35, 3, 3, 3, 3, 3, 3, 3,
      3, 3, 3, 3, 3, 3, 3, 3,
      3, 3, 3, 3, 3, 3, 3, 3,
      3, 3, 3, 11, 38, 12, 39, 40,
      19, 4, 4, 4, 4, 4, 4, 4,
      4, 4, 4, 4, 4, 4, 4, 4,
      4, 4, 4, 4, 4, 4, 4, 4,
      4, 4, 4, 13, 36, 14, 37, 1]"

definition kchar_of :: "byte \<Rightarrow> nat" where
  "kchar_of ch = (if sint ch < 0 then KC_MULTI else cMatrix ! unat ch)"

definition kchar :: "bytes \<Rightarrow> nat \<Rightarrow> nat option" where
  "kchar src p = map_option kchar_of (mem_get src p)"

text \<open>Calling an entry of the matrix other than \<^verbatim>\<open>parseBLOCK\<close>.\<close>

definition call_flat :: "ftokenizer \<Rightarrow> bool \<Rightarrow> bytes \<Rightarrow> tenv \<Rightarrow> nat \<Rightarrow> (tenv \<times> nat) option" where
  "call_flat f =
     (case f of F_SKIP \<Rightarrow> parseSKIP | F_NUM \<Rightarrow> parseNUM | F_USYMBOL \<Rightarrow> parseUSYMBOL | F_SYMBOL \<Rightarrow> parseSYMBOL
      | F_MSYMBOL \<Rightarrow> parseMSYMBOL | F_NL \<Rightarrow> parseNL | F_OP1 \<Rightarrow> parseOP1 | F_OP \<Rightarrow> parseOP
      | F_UNDEF \<Rightarrow> parseUNDEF | F_DQUOTE \<Rightarrow> parseDQUOTE | F_SLASH \<Rightarrow> parseSLASH | F_Ext g \<Rightarrow> g
      | F_BLOCK \<Rightarrow> (\<lambda>_ _ _ _. None))"

text \<open>
  \<^verbatim>\<open>parseBLOCK\<close> first moves the position of its token, without asking whether it is the null token.
\<close>

definition bump_lpos :: "bool \<Rightarrow> tenv \<Rightarrow> tenv" where
  "bump_lpos notnull env =
     (if notnull then env\<lparr>curtk := set_lpos (lpos (curtk env) + 1) (curtk env)\<rparr>
      else env\<lparr>nulltk := set_lpos (lpos (nulltk env) + 1) (nulltk env)\<rparr>)"

partial_function (option) block_loop ::
    "ftokenizer list \<Rightarrow> bool \<Rightarrow> bytes \<Rightarrow> nat \<Rightarrow> nat \<Rightarrow> tenv \<Rightarrow> nat \<Rightarrow> (tenv \<times> nat) option" where
  "block_loop fmat notnull src tok_start level env p = do {
     ch \<leftarrow> kchar src p;
     (if ch = 0 then Some (err_tk notnull (lit ''must close with }'') env, p - 1)
      else if ch = KC_RBR then
        (if level - 1 = 0
         then Some (upd_tk notnull (set_tt TK_CODE \<circ> set_text (substr src (tok_start + 1) (p - tok_start - 1))) env, p + 1)
         else block_loop fmat notnull src tok_start (level - 1) env (p + 1))
      else if ch = KC_LBR then block_loop fmat notnull src tok_start (level + 1) env (p + 1)
      else do {
        f \<leftarrow> mem_get fmat ch;
        (env, p) \<leftarrow> (case f of
             F_BLOCK \<Rightarrow> block_loop fmat False src p 1 (bump_lpos False env) (p + 1)
           | _ \<Rightarrow> call_flat f False src env p);
        block_loop fmat notnull src tok_start level env p
      })
   }"

declare block_loop.simps [code]

definition parseBLOCK :: "ftokenizer list \<Rightarrow> bool \<Rightarrow> bytes \<Rightarrow> tenv \<Rightarrow> nat \<Rightarrow> (tenv \<times> nat) option" where
  "parseBLOCK fmat notnull src env tok_start =
     block_loop fmat notnull src tok_start 1 (bump_lpos notnull env) (tok_start + 1)"

definition call_tokenizer ::
    "ftokenizer list \<Rightarrow> ftokenizer \<Rightarrow> bool \<Rightarrow> bytes \<Rightarrow> tenv \<Rightarrow> nat \<Rightarrow> (tenv \<times> nat) option" where
  "call_tokenizer fmat f =
     (case f of F_BLOCK \<Rightarrow> parseBLOCK fmat | _ \<Rightarrow> call_flat f)"

section \<open>Tokenizing\<close>

definition lpos_at :: "tenv \<Rightarrow> nat \<Rightarrow> u32" where
  "lpos_at env s = (case bol env of None \<Rightarrow> -1 | Some b \<Rightarrow> word_of_int (int s - int b))"

definition new_token :: "tenv \<Rightarrow> nat \<Rightarrow> tenv" where
  "new_token env p = env\<lparr>curtk := set_lpos (lpos_at env p) (set_line (uline env) Token_init)\<rparr>"

text \<open>
  A token is filled in when its kind is set; it then goes to the list before the next character is
  read. A step that does not advance fails the assertion \<^verbatim>\<open>pos2 > pos\<close>.
\<close>

definition flush_token :: "tenv \<Rightarrow> nat \<Rightarrow> tenv" where
  "flush_token env p =
     (if tt (curtk env) \<noteq> TK_NONE then new_token (env\<lparr>toks := toks env @ [curtk env]\<rparr>) p else env)"

partial_function (option) tokenize_loop ::
    "ftokenizer list \<Rightarrow> bytes \<Rightarrow> tenv \<Rightarrow> nat \<Rightarrow> tenv option" where
  "tokenize_loop fmat src env p = do {
     ch \<leftarrow> kchar src p;
     (if ch = 0 then Some (if tt (curtk env) \<noteq> TK_NONE then env\<lparr>toks := toks env @ [curtk env]\<rparr> else env)
      else do {
        f \<leftarrow> mem_get fmat ch;
        (env, pos2) \<leftarrow> call_tokenizer fmat f True src (flush_token env p) p;
        (if pos2 > p then tokenize_loop fmat src env pos2 else None)
      })
   }"

declare tokenize_loop.simps [code]

definition tokenize :: "ftokenizer list \<Rightarrow> bytes \<Rightarrow> tenv \<Rightarrow> tenv option" where
  "tokenize fmat src env = do {
     (env, p) \<leftarrow> parseINDENT True src (new_token env 0) 0;
     tokenize_loop fmat src env p
   }"

text \<open>The matrices of a name space and its parent, and the one it uses, made on first use.\<close>

record namespace =
  parent_fmat :: "ftokenizer list option"
  fmat :: "ftokenizer list option"

definition KonohaSpace_tokenizerMatrix :: "namespace \<Rightarrow> namespace \<times> ftokenizer list" where
  "KonohaSpace_tokenizerMatrix ks =
     (case fmat ks of
        Some m \<Rightarrow> (ks, m)
      | None \<Rightarrow> let m = (case parent_fmat ks of Some m \<Rightarrow> m | None \<Rightarrow> MiniKonohaTokenMatrix)
                in (ks\<lparr>fmat := Some m\<rparr>, m))"

definition KonohaSpace_setTokenizer :: "namespace \<Rightarrow> byte \<Rightarrow> ftokenizer \<Rightarrow> namespace" where
  "KonohaSpace_setTokenizer ks ch f =
     (let (ks, m) = KonohaSpace_tokenizerMatrix ks in ks\<lparr>fmat := Some (m[kchar_of ch := f])\<rparr>)"

text \<open>The parts of the context that outlive one call, and the environment of a call.\<close>

definition KonohaSpace_tokenize ::
    "namespace option \<Rightarrow> bytes \<Rightarrow> u64 \<Rightarrow> tenv \<Rightarrow> (namespace option \<times> tenv) option" where
  "KonohaSpace_tokenize ks src line env =
     (let (ks, m) = (case ks of None \<Rightarrow> (None, MiniKonohaTokenMatrix)
                      | Some k \<Rightarrow> let (k, m) = KonohaSpace_tokenizerMatrix k in (Some k, m));
          n = length (toks env)
      in do {
        env \<leftarrow> tokenize m src (env\<lparr>uline := line, bol := Some 0, indent_tab := 4\<rparr>);
        Some (ks, if line = 0 then env\<lparr>toks := take n (toks env) @ map (set_line 0) (drop n (toks env))\<rparr> else env)
      })"

section \<open>Syntax rules\<close>

text \<open>
  A syntax rule is tokenized and then turned into a tree in place. The state is the list of tokens,
  the table of keywords and the environment for error messages.
\<close>

record rules =
  rtls :: "token list"
  kws :: symtab
  renv :: tenv

definition kw_of :: "ktoken \<Rightarrow> u32" where
  "kw_of t = word_of_nat (the (position
     [TK_NONE, TK_INDENT, TK_SYMBOL, TK_USYMBOL, TK_TEXT, TK_INT, TK_FLOAT, TK_TYPE,
      AST_PARENTHESIS, AST_BRACKET, AST_BRACE, TK_OPERATOR, TK_MSYMBOL, TK_ERR, TK_CODE,
      TK_WHITESPACE, TK_METANAME, TK_MN, AST_OPTIONAL] t))"

definition text_of :: "token \<Rightarrow> bytes option" where
  "text_of tk = (case ttext tk of Text s \<Rightarrow> Some s | Sub _ \<Rightarrow> None)"

definition byte_at :: "bytes \<Rightarrow> nat \<Rightarrow> byte" where
  "byte_at s i = (if i < length s then s ! i else 0)"

definition kToken_s :: "token \<Rightarrow> bytes option" where
  "kToken_s tk =
     (case tt tk of TK_INDENT \<Rightarrow> Some (lit ''end of line'')
      | TK_CODE \<Rightarrow> Some (lit ''{... }'') | AST_BRACE \<Rightarrow> Some (lit ''{... }'')
      | AST_PARENTHESIS \<Rightarrow> Some (lit ''(... )'') | AST_BRACKET \<Rightarrow> Some (lit ''[... ]'')
      | _ \<Rightarrow> text_of tk)"

definition keyword ::
    "(nat \<Rightarrow> bytes kmape) \<Rightarrow> rules \<Rightarrow> bytes \<Rightarrow> u32 \<Rightarrow> (rules \<times> u32) option" where
  "keyword junk st name def = do {
     (t, c) \<leftarrow> Kmap_getcode junk (kws st) name (strhash name) def;
     Some (st\<lparr>kws := t\<rparr>, c)
   }"

text \<open>The position of the closing token; not finding it fails an assertion.\<close>

definition findTopCh :: "token list \<Rightarrow> nat \<Rightarrow> nat \<Rightarrow> ktoken \<Rightarrow> byte \<Rightarrow> nat option" where
  "findTopCh tls s e t closech =
     List.find (\<lambda>i. i < length tls \<and> tt (tls ! i) = t
                  \<and> (\<exists>x \<in> set_option (text_of (tls ! i)). byte_at x 0 = closech)) [s..<e]"

text \<open>
  The part of \<^verbatim>\<open>checkNestedSyntax\<close> before its recursive call: if the token opens a group, mark
  it and find where the group ends.
\<close>

definition checkNestedSyntax ::
    "rules \<Rightarrow> nat \<Rightarrow> nat \<Rightarrow> ktoken \<Rightarrow> byte \<Rightarrow> byte \<Rightarrow> (rules \<times> nat) option option" where
  "checkNestedSyntax st i e t opench closech = do {
     tk \<leftarrow> mem_get (rtls st) i;
     s \<leftarrow> text_of tk;
     (if byte_at s 0 = opench \<and> byte_at s 1 = 0 then do {
        ne \<leftarrow> findTopCh (rtls st) (i + 1) e (tt tk) closech;
        tls \<leftarrow> mem_put (rtls st) i (Token t (kw_of t) (Sub []) (tline tk) (scast closech) (scast opench));
        Some (Some (st\<lparr>rtls := tls\<rparr>, ne))
      } else Some None)
   }"

text \<open>The first of several kinds of group that the token opens.\<close>

fun first_nested ::
    "rules \<Rightarrow> nat \<Rightarrow> nat \<Rightarrow> (ktoken \<times> byte \<times> byte) list \<Rightarrow> (rules \<times> nat) option option" where
  "first_nested st i e [] = Some None"
| "first_nested st i e ((t, opench, closech) # ks) = do {
     r \<leftarrow> checkNestedSyntax st i e t opench closech;
     (case r of None \<Rightarrow> first_nested st i e ks | Some x \<Rightarrow> Some (Some x))
   }"

definition text_groups :: "(ktoken \<times> byte \<times> byte) list" where
  "text_groups = [(AST_PARENTHESIS, chr CHR ''('', chr CHR '')''), (AST_BRACKET, chr CHR ''['', chr CHR '']''),
                  (AST_BRACE, chr CHR ''{'', chr CHR ''}'')]"

text \<open>Filing the tree of a group under its token.\<close>

definition set_sub :: "nat \<Rightarrow> rules \<times> bool \<times> token list \<Rightarrow> rules \<times> token" where
  "set_sub i = (\<lambda>(st, ok, sub).
     let tk = rtls st ! i; tk = Token (tt tk) (tkw tk) (Sub sub) (tline tk) (lpos tk) (topch tk)
      in (st\<lparr>rtls := (rtls st)[i := tk]\<rparr>, tk))"

text \<open>Steps of the loop on a name behind \<open>$\<close> and on any other text.\<close>

definition meta_name ::
    "(nat \<Rightarrow> bytes kmape) \<Rightarrow> rules \<Rightarrow> nat \<Rightarrow> u32 \<Rightarrow> (rules \<times> token) option" where
  "meta_name junk st i nameid = do {
     tk \<leftarrow> mem_get (rtls st) i;
     s \<leftarrow> text_of tk;
     (st, kw) \<leftarrow> keyword junk st (snprintf 80 (lit ''$'' @ s)) FN_NEWID;
     let tk = Token TK_METANAME kw (Text s) (tline tk) (if nameid = 0 then kw else nameid) (topch tk);
     Some (st\<lparr>rtls := (rtls st)[i := tk]\<rparr>, tk)
   }"

definition code_token ::
    "(nat \<Rightarrow> bytes kmape) \<Rightarrow> rules \<Rightarrow> nat \<Rightarrow> (rules \<times> token) option" where
  "code_token junk st i = do {
     tk \<leftarrow> mem_get (rtls st) i;
     s \<leftarrow> text_of tk;
     (st, kw) \<leftarrow> keyword junk st s FN_NEWID;
     let tk = Token TK_CODE kw (Text s) (tline tk) (lpos tk) (topch tk);
     Some (st\<lparr>rtls := (rtls st)[i := tk]\<rparr>, tk)
   }"

definition topch_at :: "rules \<Rightarrow> nat \<Rightarrow> byte \<Rightarrow> bool" where
  "topch_at st i ch \<longleftrightarrow> i < length (rtls st) \<and> topch (rtls st ! i) = scast ch"

definition rule_error :: "rules \<Rightarrow> token \<Rightarrow> rules option" where
  "rule_error st tk = do {
     s \<leftarrow> kToken_s tk;
     Some (st\<lparr>renv := fst (vperrorf PE_ERR (tline tk) (lit ''illegal sugar syntax: '' @ s) (renv st))\<rparr>)
   }"

text \<open>
  One round of the loop of \<^verbatim>\<open>makeSyntaxRule\<close>: go on at a position with a pending name, or descend
  into a group that ends at a position, or give up.
\<close>

datatype rule_action =
    Go_on rules nat u32 "token list" | Descend rules nat | Give_up rules

definition rule_step ::
    "(nat \<Rightarrow> bytes kmape) \<Rightarrow> rules \<Rightarrow> nat \<Rightarrow> nat \<Rightarrow> u32 \<Rightarrow> token list \<Rightarrow> rule_action option" where
  "rule_step junk st i e nameid adst = do {
     tk \<leftarrow> mem_get (rtls st) i;
     let name = (tt tk = TK_SYMBOL \<or> tt tk = TK_USYMBOL);
     (if tt tk = TK_INDENT then Some (Go_on st (i + 1) nameid adst)
      else if tt tk = TK_TEXT then do {
        r \<leftarrow> first_nested st i e text_groups;
        (case r of
           Some (st, ne) \<Rightarrow> Some (Descend st ne)
         | None \<Rightarrow> do {
             (st, tk) \<leftarrow> code_token junk st i;
             Some (Go_on st (i + 1) nameid (adst @ [tk]))
           })
      }
      else if name \<and> 0 < i \<and> topch_at st (i - 1) (chr CHR ''$'') then do {
        (st, tk) \<leftarrow> meta_name junk st i nameid;
        Some (Go_on st (i + 1) 0 (adst @ [tk]))
      }
      else if name \<and> i + 1 < e \<and> topch_at st (i + 1) (chr CHR '':'') then do {
        s \<leftarrow> text_of tk;
        (st, nameid) \<leftarrow> keyword junk st s FN_NEWID;
        Some (Go_on st (i + 2) nameid adst)
      }
      else if tt tk = TK_OPERATOR then do {
        r \<leftarrow> checkNestedSyntax st i e AST_OPTIONAL (chr CHR ''['') (chr CHR '']'');
        (case r of
           Some (st, ne) \<Rightarrow> Some (Descend st ne)
         | None \<Rightarrow>
             if topch tk = scast (chr CHR ''$'') then Some (Go_on st (i + 1) nameid adst)
             else map_option Give_up (rule_error st tk))
      }
      else map_option Give_up (rule_error st tk))
   }"

partial_function (option) makeSyntaxRule ::
    "(nat \<Rightarrow> bytes kmape) \<Rightarrow> rules \<Rightarrow> nat \<Rightarrow> nat \<Rightarrow> u32 \<Rightarrow> token list \<Rightarrow> (rules \<times> bool \<times> token list) option" where
  "makeSyntaxRule junk st i e nameid adst =
     (if i \<ge> e then Some (st, True, adst) else do {
        a \<leftarrow> rule_step junk st i e nameid adst;
        (case a of
           Go_on st i nameid adst \<Rightarrow> makeSyntaxRule junk st i e nameid adst
         | Give_up st \<Rightarrow> Some (st, False, adst)
         | Descend st ne \<Rightarrow> do {
             y \<leftarrow> makeSyntaxRule junk st (i + 1) ne 0 [];
             makeSyntaxRule junk (fst (set_sub i y)) (ne + 1) e nameid (adst @ [snd (set_sub i y)])
           })
      })"

declare makeSyntaxRule.simps [code]

definition parseSyntaxRule ::
    "(nat \<Rightarrow> bytes kmape) \<Rightarrow> rules \<Rightarrow> bytes \<Rightarrow> u64 \<Rightarrow> token list \<Rightarrow> (rules \<times> token list) option" where
  "parseSyntaxRule junk st rule line a = do {
     let n = length (rtls st);
     (ks, env) \<leftarrow> KonohaSpace_tokenize None rule line ((renv st)\<lparr>toks := rtls st\<rparr>);
     let st = st\<lparr>rtls := toks env, renv := env\<rparr>;
     (st, ok, a) \<leftarrow> makeSyntaxRule junk st n (length (rtls st)) 0 a;
     Some (st\<lparr>rtls := take n (rtls st)\<rparr>, a)
   }"

end
