(* ===== verification/Lexing.thy ===== *)
theory Lexing
  imports Tokenizer
begin

text \<open>
  Properties of the tokenizer: it is total and stays in bounds on every source, what each kind of
  token matches, and the round trip of printing and tokenizing.
\<close>

section \<open>Character classes\<close>

text \<open>A property of bytes is checked on the 256 of them.\<close>

lemma all_bytes:
  assumes "\<forall>i \<in> set [0..<256]. P (word_of_nat i :: byte)"
  shows "P c"
proof -
  have "c = word_of_nat (unat c)" "unat c < 256" using unsigned_less [of c] by simp_all
  then show ?thesis using assms by (metis atLeastLessThan_iff set_upt zero_le)
qed

lemma kchar_zero: "kchar_of c = 0 \<longleftrightarrow> c = 0"
  by (rule all_bytes [of "\<lambda>c. kchar_of c = 0 \<longleftrightarrow> c = 0"]) code_simp

text \<open>What a function of the matrix may rely on for the first byte it sees.\<close>

definition starts :: "ftokenizer \<Rightarrow> byte \<Rightarrow> bool" where
  "starts f c =
     (case f of F_NUM \<Rightarrow> isdigit c | F_USYMBOL \<Rightarrow> symbol_char c | F_SYMBOL \<Rightarrow> symbol_char c
      | F_MSYMBOL \<Rightarrow> sint c < 0 | F_OP \<Rightarrow> op_char c | F_NL \<Rightarrow> c = chr CHR 0x0A
      | F_DQUOTE \<Rightarrow> c = chr CHR 0x22 | F_SLASH \<Rightarrow> c = chr CHR ''/''
      | F_BLOCK \<Rightarrow> c = chr CHR ''{'' | F_Ext g \<Rightarrow> False | _ \<Rightarrow> True)"

lemma matrix_starts: "kchar_of c < 41 \<and> (c \<noteq> 0 \<longrightarrow> starts (MiniKonohaTokenMatrix ! kchar_of c) c)"
  by (rule all_bytes [of "\<lambda>c. kchar_of c < 41 \<and> (c \<noteq> 0 \<longrightarrow> starts (MiniKonohaTokenMatrix ! kchar_of c) c)"]) code_simp

lemma brace_chars: "(kchar_of c = 13 \<longleftrightarrow> c = chr CHR ''{'') \<and> (kchar_of c = 14 \<longleftrightarrow> c = chr CHR ''}'')"
  by (rule all_bytes [of "\<lambda>c. (kchar_of c = 13 \<longleftrightarrow> c = chr CHR ''{'') \<and> (kchar_of c = 14 \<longleftrightarrow> c = chr CHR ''}'')"]) code_simp

lemma matrix_flat: "c \<noteq> chr CHR ''{'' \<Longrightarrow> MiniKonohaTokenMatrix ! kchar_of c \<noteq> F_BLOCK"
  using matrix_starts [of c] by (cases "c = 0") (auto simp: starts_def kchar_of_def MiniKonohaTokenMatrix_def cMatrix_def)

section \<open>Every function stays in bounds and advances\<close>

lemma scan_run_eq: "0 \<notin> set w \<Longrightarrow> scan_run P (w @ 0 # rest) = Some (length (takeWhile P w))"
  by (induction w) auto

declare num_run.simps(2) [simp del]

lemma num_run_ok:
  "0 \<notin> set w \<Longrightarrow> \<exists>n d. num_run (w @ [0]) = Some (n, d) \<and> n \<le> length w \<and> (w \<noteq> [] \<longrightarrow> isdigit (hd w) \<longrightarrow> 0 < n)"
proof (induction "length w" arbitrary: w rule: less_induct)
  case less
  show ?case
  proof (cases w)
    case Nil
    then show ?thesis by (simp add: num_run.simps(2) [of 0])
  next
    case (Cons c t)
    have nz: "c \<noteq> 0" "0 \<notin> set t" using less.prems Cons by auto
    have "length t < length w" using Cons by simp
    from less.hyps [OF this nz(2)] obtain n d where
      t: "num_run (t @ [0]) = Some (n, d)" "n \<le> length t" by blast
    have digit: "isdigit c \<Longrightarrow> isalnum c \<and> c \<noteq> chr CHR ''_'' \<and> c \<noteq> chr CHR ''.'' \<and> c \<noteq> chr CHR ''e'' \<and> c \<noteq> chr CHR ''E''"
      by (auto simp: isalnum_def isdigit_def chr_def)
    consider (exp) "c = chr CHR ''e'' \<or> c = chr CHR ''E''" "t \<noteq> []" "hd t = chr CHR ''+'' \<or> hd t = chr CHR ''-''"
      | (other) "\<not> ((c = chr CHR ''e'' \<or> c = chr CHR ''E'') \<and> t \<noteq> [] \<and> (hd t = chr CHR ''+'' \<or> hd t = chr CHR ''-''))"
      by blast
    then show ?thesis
    proof cases
      case exp
      then obtain c' t' where t': "t = c' # t'" by (cases t) auto
      have "length t' < length w" "0 \<notin> set t'" using Cons nz t' by auto
      from less.hyps [OF this] obtain n' d' where
        "num_run (t' @ [0]) = Some (n', d')" "n' \<le> length t'" by blast
      moreover have "c \<noteq> chr CHR ''_''" "c \<noteq> chr CHR ''.''" "\<not> isdigit c"
        using exp(1) by (auto simp: chr_def isdigit_def)
      ultimately show ?thesis using Cons t' nz exp by (auto simp: num_run.simps(2) [of c])
    next
      case other
      obtain h r where h: "t @ [0] = h # r" by (cases "t @ [0]") auto
      have "h = (if t = [] then 0 else hd t)" using h by (cases t) auto
      moreover have "(0 :: byte) \<noteq> chr CHR ''+''" "(0 :: byte) \<noteq> chr CHR ''-''" by (simp_all add: chr_def)
      ultimately have ne: "\<not> ((c = chr CHR ''e'' \<or> c = chr CHR ''E'') \<and> (h = chr CHR ''+'' \<or> h = chr CHR ''-''))"
        using other by auto
      have "num_run (w @ [0]) =
          (if c = chr CHR ''_'' then map_option (\<lambda>(n, dot). (n + 1, dot)) (num_run (h # r))
           else if c = chr CHR ''.'' then
             (if \<not> isdigit h then Some (0, 0) else map_option (\<lambda>(n, dot). (n + 1, dot + 1)) (num_run (h # r)))
           else if \<not> isalnum c then Some (0, 0)
           else map_option (\<lambda>(n, dot). (n + 1, dot)) (num_run (h # r)))"
        using nz(1) ne unfolding Cons append_Cons h num_run.simps(2) [of c] list.sel list.case
        by (cases "c = chr CHR ''e'' \<or> c = chr CHR ''E''") (simp_all only: simp_thms if_True if_False list.distinct if_cancel)
      also have "num_run (h # r) = Some (n, d)" using t(1) h by simp
      finally show ?thesis using Cons t(2) digit by auto
    qed
  qed
qed

lemma comment_run_ok:
  "0 \<notin> set w \<Longrightarrow> \<exists>l n c. comment_run (w @ [0]) prev level line = Some (l, n, c) \<and> n \<le> length w"
proof (induction w arbitrary: prev level line)
  case Nil
  then show ?case by (intro exI [of _ line] exI [of _ 0] exI [of _ False]) simp
next
  case (Cons c t)
  have IH: "\<exists>l n b. comment_run (t @ [0]) c lev lin = Some (l, n, b) \<and> n \<le> length t" for lev lin
    using Cons by simp
  have c: "c \<noteq> 0" using Cons.prems by auto
  let ?line = "if c = chr CHR 0x0A then line + 1 else line"
  show ?case
  proof (cases "prev = chr CHR ''*'' \<and> c = chr CHR ''/'' \<and> level - 1 = 0")
    case True
    then show ?thesis using c
      by (intro exI [of _ ?line] exI [of _ 1] exI [of _ True]) (simp add: Let_def)
  next
    case False
    define lev where "lev = (if prev = chr CHR ''*'' \<and> c = chr CHR ''/'' then level - 1
      else if prev = chr CHR ''/'' \<and> c = chr CHR ''*'' then level + 1 else level)"
    obtain l n b where r: "comment_run (t @ [0]) c lev ?line = Some (l, n, b)" "n \<le> length t"
      using IH by blast
    have "comment_run ((c # t) @ [0]) prev level line = map_option (\<lambda>(l, n, c). (l, n + 1, c)) (comment_run (t @ [0]) c lev ?line)"
      using c False by (simp add: Let_def lev_def)
    then show ?thesis using r by (intro exI [of _ l] exI [of _ "n + 1"] exI [of _ b]) simp
  qed
qed

lemma digits_ok: "0 \<notin> set w \<Longrightarrow> \<exists>n. digits acc (w @ [0]) = Some n"
proof (induction w arbitrary: acc)
  case Nil
  have "\<not> isdigit 0" by code_simp
  then show ?case by simp
next
  case (Cons c w)
  then show ?case by simp
qed

lemma drop_src: "p \<le> length s \<Longrightarrow> drop p (s @ [0]) = drop p s @ [0]"
  by simp

lemma get_src: "p \<le> length s \<Longrightarrow> mem_get (s @ [0]) p = Some (if p < length s then s ! p else 0)"
  by (auto simp: mem_get_def nth_append)

lemma no_zero_drop: "0 \<notin> set s \<Longrightarrow> 0 \<notin> set (drop p s)"
  using in_set_dropD by fast

lemma mark_line_ok: "0 \<notin> set s \<Longrightarrow> p \<le> length s \<Longrightarrow> \<exists>l. mark_line (s @ [0]) p line = Some l"
proof -
  assume s: "0 \<notin> set s" and p: "p \<le> length s"
  obtain n where n: "strtoll (drop (p + 2) s @ [0]) = Some n"
    using digits_ok [OF no_zero_drop [OF s, of "p + 2"], of 0] by (auto simp: strtoll_def)
  show ?thesis
    using p n get_src [of p s] get_src [of "p + 1" s] get_src [of "p + 2" s]
    by (cases "p + 2 \<le> length s"; cases "p + 1 \<le> length s")
      (auto simp: mark_line_def chr_def isdigit_def)
qed

text \<open>
  The text loop only appends to the stack's buffer, so the buffer is well formed afterwards and
  its earlier content is untouched.
\<close>

lemma Kwb_putc_ok:
  assumes "karray_ok 1 m" "c \<noteq> -1"
  shows "\<exists>m'. Kwb_putc m [sint (c :: byte), -1] = Some m' \<and> karray_ok 1 m' \<and> content m' = content m @ [c]"
proof -
  have "sint c = -1 \<longleftrightarrow> c = -1"
    by (rule all_bytes [of "\<lambda>c. sint c = -1 \<longleftrightarrow> c = -1"]) code_simp
  with assms(2) have "sint c \<noteq> -1" by simp
  then have "Kwb_putc m [sint c, -1] = Kwb_write m [c]"
    by (simp add: Kwb_putc_def)
  then show ?thesis using kwb.write_total [OF assms(1), of "[c]"] kwb.write_ok [OF assms(1)] kwb.write_text [OF assms(1)]
    by auto
qed

lemma Kwb_putc_eof:
  assumes "karray_ok 1 m"
  shows "\<exists>m'. Kwb_putc m [sint (-1 :: byte), -1] = Some m' \<and> karray_ok 1 m' \<and> content m' = content m"
  using kwb.write_total [OF assms, of "[]"] kwb.write_ok [OF assms] kwb.write_text [OF assms]
  by (fastforce simp: Kwb_putc_def)

text \<open>What one byte adds to the buffer: a byte 255 is the end marker of \<^verbatim>\<open>kwb_putc\<close> and adds nothing.\<close>

definition put_byte :: "byte \<Rightarrow> bytes" where
  "put_byte c = (if c = -1 then [] else [c])"

lemma Kwb_putc_byte:
  assumes "karray_ok 1 m"
  shows "\<exists>m'. Kwb_putc m [sint (c :: byte), -1] = Some m' \<and> karray_ok 1 m' \<and> content m' = content m @ put_byte c"
  using Kwb_putc_ok [OF assms, of c] Kwb_putc_eof [OF assms] by (cases "c = -1") (auto simp: put_byte_def)

text \<open>The text, the bytes passed and whether the text was closed, without the buffer.\<close>

definition unescape :: "byte \<Rightarrow> byte option" where
  "unescape c = (if c = chr CHR ''n'' then Some (chr CHR 0x0A) else if c = chr CHR ''t'' then Some (chr CHR 0x09)
                 else if c = chr CHR ''r'' then Some (chr CHR 0x0D) else None)"

fun dquoted :: "bytes \<Rightarrow> byte \<Rightarrow> bytes \<times> nat \<times> bool" where
  "dquoted [] prev = ([], 0, False)"
| "dquoted (ch # t) prev =
     (if ch = chr CHR 0x0A then ([], 0, False)
      else if ch = chr CHR 0x22 \<and> prev \<noteq> chr CHR 0x5C then ([], 1, True)
      else if ch = chr CHR 0x5C \<and> t \<noteq> [] \<and> unescape (hd t) \<noteq> None then
        (let c = the (unescape (hd t)); (s, n, closed) = dquoted (tl t) c in (put_byte c @ s, n + 2, closed))
      else (let (s, n, closed) = dquoted t ch in (put_byte ch @ s, n + 1, closed)))"

lemma dquote_run_dquoted:
  "0 \<notin> set w \<Longrightarrow> karray_ok 1 m \<Longrightarrow> dquoted w prev = (s, n, closed) \<Longrightarrow>
     \<exists>m'. dquote_run (w @ [0]) prev m = Some (m', n, closed) \<and> karray_ok 1 m' \<and> content m' = content m @ s
        \<and> n \<le> length w"
proof (induction w prev arbitrary: m s n closed rule: dquoted.induct)
  case (1 prev)
  then show ?case by simp
next
  case (2 ch t prev)
  have nz: "ch \<noteq> 0" "0 \<notin> set t" using "2.prems"(1) by auto
  consider (stop) "ch = chr CHR 0x0A \<or> (ch = chr CHR 0x22 \<and> prev \<noteq> chr CHR 0x5C)"
    | (esc) "\<not> (ch = chr CHR 0x0A \<or> (ch = chr CHR 0x22 \<and> prev \<noteq> chr CHR 0x5C))"
        "ch = chr CHR 0x5C" "t \<noteq> []" "unescape (hd t) \<noteq> None"
    | (plain) "\<not> (ch = chr CHR 0x0A \<or> (ch = chr CHR 0x22 \<and> prev \<noteq> chr CHR 0x5C))"
        "\<not> (ch = chr CHR 0x5C \<and> t \<noteq> [] \<and> unescape (hd t) \<noteq> None)" by blast
  then show ?case
  proof cases
    case stop
    then show ?thesis using 2 nz by (auto split: if_splits)
  next
    case esc
    obtain d t' where t: "t = d # t'" using esc(3) by (cases t) auto
    obtain c where c: "unescape d = Some c" using esc(4) t by auto
    obtain s' n' b where r: "dquoted t' c = (s', n', b)" by (metis prod_cases3)
    have out: "s = put_byte c @ s'" "n = n' + 2" "closed = b" using "2.prems"(3) esc(1,2) t c r by auto
    obtain m1 where m1: "Kwb_putc m [sint c, -1] = Some m1" "karray_ok 1 m1" "content m1 = content m @ put_byte c"
      using Kwb_putc_byte [OF "2.prems"(2), of c] by blast
    have "\<exists>m'. dquote_run (t' @ [0]) c m1 = Some (m', n', b) \<and> karray_ok 1 m' \<and> content m' = content m1 @ s' \<and> n' \<le> length t'"
      using "2.IH"(1) [OF _ _ esc(2) [THEN conjI [OF _ conjI [OF esc(3,4)]]], of c m1 s' n' b] esc(1,2,3,4) t c r m1(2) nz(2)
      by auto
    then obtain m' where m': "dquote_run (t' @ [0]) c m1 = Some (m', n', b)" "karray_ok 1 m'"
      "content m' = content m1 @ s'" "n' \<le> length t'" by blast
    have d: "d \<in> {chr CHR ''n'', chr CHR ''t'', chr CHR ''r''}"
      "(if d = chr CHR ''n'' then chr CHR 0x0A else if d = chr CHR ''t'' then chr CHR 0x09 else chr CHR 0x0D) = c"
      using c by (auto simp: unescape_def split: if_splits)
    have "dquote_run ((ch # t) @ [0]) prev m = Some (m', n' + 2, b)"
      using d(1) esc(1,2) nz(1) d(2) m1(1) m'(1) by (elim insertE) (auto simp: t Let_def)
    then show ?thesis using out m' m1(3) t by simp
  next
    case plain
    obtain s' n' b where r: "dquoted t ch = (s', n', b)" by (metis prod_cases3)
    have out: "s = put_byte ch @ s'" "n = n' + 1" "closed = b" using "2.prems"(3) plain r by auto
    obtain m1 where m1: "Kwb_putc m [sint ch, -1] = Some m1" "karray_ok 1 m1" "content m1 = content m @ put_byte ch"
      using Kwb_putc_byte [OF "2.prems"(2), of ch] by blast
    obtain m' where m': "dquote_run (t @ [0]) ch m1 = Some (m', n', b)" "karray_ok 1 m'"
      "content m' = content m1 @ s'" "n' \<le> length t"
      using "2.IH"(2) [OF _ _ plain(2), of m1 s' n' b] plain(1) nz(2) m1(2) r by auto
    obtain h q where h: "t @ [0] = h # q" by (cases "t @ [0]") auto
    have hh: "h = (if t = [] then 0 else hd t)" using h by (cases t) auto
    have "\<not> (ch = chr CHR 0x5C \<and> h \<in> {chr CHR ''n'', chr CHR ''t'', chr CHR ''r''})"
      using plain(2) hh by (auto simp: unescape_def chr_def)
    then have "dquote_run (ch # h # q) prev m = Some (m', n' + 1, b)"
      using plain(1) nz(1) m1(1) m'(1) unfolding h dquote_run.simps(2) [of ch] list.sel
      by (cases "ch = chr CHR 0x5C"; cases "ch = chr CHR 0x22") (simp_all del: dquote_run.simps)
    then show ?thesis using out m' m1(3) h by simp
  qed
qed

definition buf_kept :: "tenv \<Rightarrow> tenv \<Rightarrow> bool" where
  "buf_kept env env' \<longleftrightarrow> karray_ok 1 (cwb env') \<and> content (cwb env') = content (cwb env)"

lemma cwb_upd_tk [simp]: "cwb (upd_tk b f env) = cwb env"
  by (simp add: upd_tk_def)

lemma cwb_vperrorf [simp]: "cwb (fst (vperrorf pe l msg env)) = cwb env"
  by (auto simp: vperrorf_def Let_def split: option.splits)

lemma cwb_err_tk [simp]: "cwb (err_tk b msg env) = cwb env"
proof -
  obtain e r where "vperrorf PE_ERR (tline (curtk env)) msg env = (e, r)" by fastforce
  then show ?thesis using cwb_vperrorf [of PE_ERR "tline (curtk env)" msg env]
    by (cases r) (simp_all add: err_tk_def)
qed

lemma cwb_bump [simp]: "cwb (bump_lpos b env) = cwb env"
  by (simp add: bump_lpos_def)

text \<open>The double-quoted text: what it stores in the token and what it leaves in the buffer.\<close>

lemma parseDQUOTE_ok:
  assumes s: "0 \<notin> set s" "p < length s" and env: "karray_ok 1 (cwb env)"
    and r: "dquoted (drop (Suc p) s) (chr CHR 0x22) = (t, n, closed)"
  shows "\<exists>m. karray_ok 1 m \<and> content m = content (cwb env) \<and> n \<le> length s - Suc p
     \<and> parseDQUOTE notnull (s @ [0]) env p =
        Some (if closed then upd_tk notnull (set_tt TK_TEXT \<circ> set_text t) (env\<lparr>cwb := m\<rparr>)
              else err_tk notnull (lit ''must close with '' @ [chr CHR 0x22]) (env\<lparr>cwb := m\<rparr>), p + 1 + n)"
proof -
  obtain m1 where m1: "dquote_run (drop (Suc p) s @ [0]) (chr CHR 0x22) (cwb env) = Some (m1, n, closed)"
    "karray_ok 1 m1" "content m1 = content (cwb env) @ t" "n \<le> length s - Suc p"
    using dquote_run_dquoted [OF no_zero_drop [OF s(1)] env r] by auto
  have len: "length (content (cwb env)) = bytesize (cwb env)" "length (content m1) = bytesize m1"
    using env m1(2) by (auto simp: content_def karray_ok_def)
  obtain m2 where m2: "Kwb_top m1 (Kwb_init (cwb env)) True = Some (m2, bytesize (cwb env))" "karray_ok 1 m2"
    "content m2 = content m1"
    using Kwb_top_total [OF m1(2), of "Kwb_init (cwb env)"] by (auto simp: Kwb_init_def)
  have len2: "length (content m2) = bytesize m2" using m2(2) by (auto simp: content_def karray_ok_def)
  then have sz: "bytesize m2 = bytesize (cwb env) + length t" using m2(3) m1(3) len by simp
  have rd: "mem_read (bytebuf m2) (bytesize (cwb env)) (length t) = Some t"
  proof -
    have "take (bytesize m2) (bytebuf m2) = content (cwb env) @ t" using m2(3) m1(3) by (simp add: content_def)
    then have "drop (bytesize (cwb env)) (take (bytesize m2) (bytebuf m2)) = t" using len(1) by simp
    then have "take (length t) (drop (bytesize (cwb env)) (bytebuf m2)) = t" by (simp add: drop_take sz)
    moreover have "bytesize (cwb env) + length t \<le> length (bytebuf m2)"
      using m2(2) sz by (simp add: karray_ok_def)
    ultimately show ?thesis by (simp add: mem_read_def)
  qed
  have size: "bytesize m1 - kwb.pos (Kwb_init (cwb env)) = length t"
    using len m1(3) by (simp add: Kwb_init_def)
  have src: "drop (Suc p) (s @ [0]) = drop (Suc p) s @ [0]" using s(2) by simp
  obtain f1 where f1: "Kwb_free m1 (Kwb_init (cwb env)) = Some f1" "karray_ok 1 f1" "content f1 = content (cwb env)"
    using Kwb_free_back [OF env m1(2,3)] by blast
  obtain f2 where f2: "Kwb_free m2 (Kwb_init (cwb env)) = Some f2" "karray_ok 1 f2" "content f2 = content (cwb env)"
    using Kwb_free_back [OF env m2(2)] m2(3) m1(3) by metis
  show ?thesis
  proof (cases closed)
    case True
    show ?thesis
    proof (intro exI [of _ "if notnull then f2 else f1"] conjI)
      show "parseDQUOTE notnull (s @ [0]) env p = Some (if closed
          then upd_tk notnull (set_tt TK_TEXT \<circ> set_text t) (env\<lparr>cwb := if notnull then f2 else f1\<rparr>)
          else err_tk notnull (lit ''must close with '' @ [chr CHR 0x22]) (env\<lparr>cwb := if notnull then f2 else f1\<rparr>), p + 1 + n)"
        using True m1(1) m2(1) rd size f1(1) f2(1)
        by (simp add: parseDQUOTE_def Let_def src upd_tk_def del: drop_append)
    qed (use f1 f2 m1(4) in auto)
  next
    case False
    then have "parseDQUOTE notnull (s @ [0]) env p =
        Some (err_tk notnull (lit ''must close with '' @ [chr CHR 0x22]) (env\<lparr>cwb := f1\<rparr>), p + 1 + n)"
      using m1(1) f1(1) by (simp add: parseDQUOTE_def Let_def src del: drop_append)
    then show ?thesis using False f1 m1(4) by auto
  qed
qed

section \<open>The functions of the matrix\<close>

text \<open>\<open>advances f\<close>: at a byte it can begin with, the function moves on, within the source.\<close>

definition advances :: "(bool \<Rightarrow> bytes \<Rightarrow> tenv \<Rightarrow> nat \<Rightarrow> (tenv \<times> nat) option) \<Rightarrow> (byte \<Rightarrow> bool) \<Rightarrow> bool" where
  "advances f P \<longleftrightarrow> (\<forall>notnull s env p. 0 \<notin> set s \<longrightarrow> p < length s \<longrightarrow> P (s ! p) \<longrightarrow> karray_ok 1 (cwb env) \<longrightarrow>
     (\<exists>env' n. f notnull (s @ [0]) env p = Some (env', n) \<and> p < n \<and> n \<le> length s \<and> buf_kept env env'))"

lemma advancesI:
  assumes "\<And>notnull s env p. 0 \<notin> set s \<Longrightarrow> p < length s \<Longrightarrow> P (s ! p) \<Longrightarrow> karray_ok 1 (cwb env) \<Longrightarrow>
     \<exists>env' n. f notnull (s @ [0]) env p = Some (env', n) \<and> p < n \<and> n \<le> length s \<and> buf_kept env env'"
  shows "advances f P"
  using assms by (simp add: advances_def)

lemma scan_src:
  assumes "0 \<notin> set s" "p \<le> length s"
  shows "scan_run P (drop p (s @ [0])) = Some (length (takeWhile P (drop p s)))"
    "p + length (takeWhile P (drop p s)) \<le> length s"
    "p < length s \<Longrightarrow> P (s ! p) \<Longrightarrow> 0 < length (takeWhile P (drop p s))"
proof -
  show "scan_run P (drop p (s @ [0])) = Some (length (takeWhile P (drop p s)))"
    using scan_run_eq [OF no_zero_drop [OF assms(1)], of P p "[]"] assms(2) by simp
  show "p + length (takeWhile P (drop p s)) \<le> length s"
    using length_takeWhile_le [of P "drop p s"] assms(2) by simp
  show "p < length s \<Longrightarrow> P (s ! p) \<Longrightarrow> 0 < length (takeWhile P (drop p s))"
    by (cases "drop p s") (auto simp: nth_via_drop)
qed

lemma buf_kept_self: "karray_ok 1 (cwb env) \<Longrightarrow> cwb env' = cwb env \<Longrightarrow> buf_kept env env'"
  by (simp add: buf_kept_def)

lemma parseSKIP_adv: "advances parseSKIP P"
  by (rule advancesI) (auto simp: parseSKIP_def buf_kept_def)

lemma parseNUM_adv: "advances parseNUM isdigit"
proof (rule advancesI)
  fix notnull p and s :: bytes and env :: tenv
  assume s: "0 \<notin> set s" "p < length s" "isdigit (s ! p)" and env: "karray_ok 1 (cwb env)"
  obtain n d where n: "num_run (drop p s @ [0]) = Some (n, d)" "n \<le> length s - p"
    "drop p s \<noteq> [] \<longrightarrow> isdigit (hd (drop p s)) \<longrightarrow> 0 < n"
    using num_run_ok [OF no_zero_drop [OF s(1), of p]] by auto
  moreover have "isdigit (hd (drop p s))" using s(2,3) by (simp add: hd_drop_conv_nth)
  ultimately show "\<exists>env' n. parseNUM notnull (s @ [0]) env p = Some (env', n) \<and> p < n \<and> n \<le> length s \<and> buf_kept env env'"
    using s(2) env by (auto simp: parseNUM_def buf_kept_def)
qed

lemma parseSYMBOL_adv: "advances parseSYMBOL symbol_char"
  using scan_src [of _ _ symbol_char] by (intro advancesI) (fastforce simp: parseSYMBOL_def buf_kept_def)

lemma parseUSYMBOL_adv: "advances parseUSYMBOL symbol_char"
  using scan_src [of _ _ symbol_char] by (intro advancesI) (fastforce simp: parseUSYMBOL_def buf_kept_def)

lemma parseMSYMBOL_adv: "advances parseMSYMBOL (\<lambda>c. sint c < 0)"
  using scan_src [of _ _ "\<lambda>c. sint c < 0"] by (intro advancesI) (fastforce simp: parseMSYMBOL_def buf_kept_def)

lemma parseOP_adv: "advances parseOP op_char"
  using scan_src [of _ _ op_char] by (intro advancesI) (fastforce simp: parseOP_def buf_kept_def Let_def)

lemma parseOP1_adv: "advances parseOP1 P"
  by (rule advancesI) (auto simp: parseOP1_def buf_kept_def mem_get_def)

lemma parseNL_adv: "advances parseNL P"
  by (rule advancesI) (auto simp: parseNL_def parseINDENT_def buf_kept_def mem_get_def)

lemma parseUNDEF_adv: "advances parseUNDEF P"
proof (rule advancesI)
  fix notnull p and s :: bytes and env :: tenv
  assume s: "0 \<notin> set s" "p < length s" and env: "karray_ok 1 (cwb env)"
  then show "\<exists>env' n. parseUNDEF notnull (s @ [0]) env p = Some (env', n) \<and> p < n \<and> n \<le> length s \<and> buf_kept env env'"
    using scan_src [OF s(1), of "Suc p" "\<lambda>_. True"] by (auto simp: parseUNDEF_def buf_kept_def mem_get_def)
qed

lemma parseLINE_adv: "advances parseLINE (\<lambda>c. c \<noteq> chr CHR 0x0A)"
  using scan_src [of _ _ "\<lambda>c. c \<noteq> chr CHR 0x0A"] by (intro advancesI) (fastforce simp: parseLINE_def buf_kept_def)

lemma parseDQUOTE_adv: "advances parseDQUOTE P"
proof (rule advancesI)
  fix notnull p and s :: bytes and env :: tenv
  assume s: "0 \<notin> set s" "p < length s" and env: "karray_ok 1 (cwb env)"
  obtain t n c where r: "dquoted (drop (Suc p) s) (chr CHR 0x22) = (t, n, c)" by (metis prod_cases3)
  then show "\<exists>env' n. parseDQUOTE notnull (s @ [0]) env p = Some (env', n) \<and> p < n \<and> n \<le> length s \<and> buf_kept env env'"
    using parseDQUOTE_ok [OF s env r, of notnull] s(2) by (auto simp: buf_kept_def)
qed

lemma parseCOMMENT_ok:
  assumes s: "0 \<notin> set s" "p + 2 \<le> length s" and env: "karray_ok 1 (cwb env)"
  shows "\<exists>env' n. parseCOMMENT notnull (s @ [0]) env p = Some (env', n) \<and> p < n \<and> n \<le> length s \<and> buf_kept env env'"
proof -
  obtain l where l: "mark_line (s @ [0]) (p + 2) (uline env) = Some l" using mark_line_ok [OF s] by blast
  obtain l' n c where r: "comment_run (drop (p + 2) s @ [0]) 0 1 l = Some (l', n, c)" "n \<le> length (drop (p + 2) s)"
    using comment_run_ok [OF no_zero_drop [OF s(1)]] by blast
  have "drop (p + 2) (s @ [0]) = drop (p + 2) s @ [0]" using s(2) by simp
  then show ?thesis using l r s(2) env
    by (auto simp: parseCOMMENT_def Let_def buf_kept_def simp del: drop_append)
qed

lemma parseSLASH_adv: "advances parseSLASH (\<lambda>c. c = chr CHR ''/'')"
proof (rule advancesI)
  fix notnull p and s :: bytes and env :: tenv
  assume s: "0 \<notin> set s" "p < length s" "s ! p = chr CHR ''/''" and env: "karray_ok 1 (cwb env)"
  let ?c = "if p + 1 < length s then s ! (p + 1) else 0"
  have c: "mem_get (s @ [0]) (p + 1) = Some ?c" using s(2) get_src [of "p + 1" s] by simp
  consider "?c = chr CHR ''/''" | "?c = chr CHR ''*''" "p + 2 \<le> length s" | "?c \<noteq> chr CHR ''/''" "?c \<noteq> chr CHR ''*''"
    using chr_eq_zero [of "CHR ''*''"] by (cases "p + 1 < length s") auto
  then show "\<exists>env' n. parseSLASH notnull (s @ [0]) env p = Some (env', n) \<and> p < n \<and> n \<le> length s \<and> buf_kept env env'"
  proof cases
    case 1
    then have "parseSLASH notnull (s @ [0]) env p = parseLINE notnull (s @ [0]) env p"
      by (simp add: parseSLASH_def c [simplified] flip: Suc_eq_plus1)
    then show ?thesis using parseLINE_adv s env unfolding advances_def by simp
  next
    case 2
    then have "parseSLASH notnull (s @ [0]) env p = parseCOMMENT notnull (s @ [0]) env p"
      by (simp add: parseSLASH_def c [simplified] flip: Suc_eq_plus1)
    then show ?thesis using parseCOMMENT_ok [OF s(1) 2(2) env] by simp
  next
    case 3
    then have "parseSLASH notnull (s @ [0]) env p = parseOP notnull (s @ [0]) env p"
      by (simp add: parseSLASH_def c [simplified] flip: Suc_eq_plus1)
    moreover have "op_char (s ! p)" using s(3) by (simp add: op_char_def lit_def)
    ultimately show ?thesis using parseOP_adv s env unfolding advances_def by simp
  qed
qed

lemmas flat_advances = parseSKIP_adv parseNUM_adv parseSYMBOL_adv parseUSYMBOL_adv parseMSYMBOL_adv parseOP_adv
  parseOP1_adv parseNL_adv parseUNDEF_adv parseDQUOTE_adv parseSLASH_adv

lemma call_flat_adv: "f \<noteq> F_BLOCK \<Longrightarrow> advances (call_flat f) (starts f)"
  using flat_advances by (cases f) (simp_all add: call_flat_def starts_def advances_def)

section \<open>Blocks and the main loop\<close>

lemma kchar_src: "p \<le> length s \<Longrightarrow> kchar (s @ [0]) p = Some (if p < length s then kchar_of (s ! p) else 0)"
  using kchar_zero [of 0] by (simp add: kchar_def get_src)

lemma buf_kept_trans: "buf_kept e1 e2 \<Longrightarrow> buf_kept e2 e3 \<Longrightarrow> buf_kept e1 e3"
  by (simp add: buf_kept_def)

lemma matrix_get: "mem_get MiniKonohaTokenMatrix (kchar_of c) = Some (MiniKonohaTokenMatrix ! kchar_of c)"
  using matrix_starts [of c] by (simp add: mem_get_def MiniKonohaTokenMatrix_def)

text \<open>One character inside a block that is neither brace.\<close>

lemma block_loop_flat:
  assumes s: "0 \<notin> set s" "p < length s" and c: "s ! p \<noteq> chr CHR ''{''" "s ! p \<noteq> chr CHR ''}''"
    and env: "karray_ok 1 (cwb env)"
  shows "\<exists>env' n. p < n \<and> n \<le> length s \<and> buf_kept env env'
     \<and> call_flat (MiniKonohaTokenMatrix ! kchar_of (s ! p)) False (s @ [0]) env p = Some (env', n)
     \<and> block_loop MiniKonohaTokenMatrix notnull (s @ [0]) ts level env p
       = block_loop MiniKonohaTokenMatrix notnull (s @ [0]) ts level env' n"
proof -
  let ?f = "MiniKonohaTokenMatrix ! kchar_of (s ! p)"
  have nz: "s ! p \<noteq> 0" using s nth_mem by metis
  have f: "?f \<noteq> F_BLOCK" "starts ?f (s ! p)" using matrix_flat [OF c(1)] matrix_starts [of "s ! p"] nz by auto
  then obtain env' n where r: "call_flat ?f False (s @ [0]) env p = Some (env', n)" "p < n" "n \<le> length s" "buf_kept env env'"
    using call_flat_adv [OF f(1)] s env unfolding advances_def by blast
  have k: "kchar_of (s ! p) \<noteq> 0" "kchar_of (s ! p) \<noteq> 13" "kchar_of (s ! p) \<noteq> 14"
    using nz c brace_chars [of "s ! p"] kchar_zero [of "s ! p"] by auto
  have "block_loop MiniKonohaTokenMatrix notnull (s @ [0]) ts level env p
       = block_loop MiniKonohaTokenMatrix notnull (s @ [0]) ts level env' n"
    using k f(1) r(1) s(2) kchar_src [of p s]
    by (cases ?f) (simp_all add: matrix_get
        block_loop.simps [of MiniKonohaTokenMatrix notnull "s @ [0]" ts level env p])
  then show ?thesis using r by blast
qed

lemma block_loop_ok:
  assumes s: "0 \<notin> set s" and p: "p \<le> length s" and env: "karray_ok 1 (cwb env)"
  shows "\<exists>env' n. block_loop MiniKonohaTokenMatrix notnull (s @ [0]) ts level env p = Some (env', n)
     \<and> buf_kept env env' \<and> n \<le> length s \<and> (p < n \<or> n = length s - 1)"
  using p env
proof (induction "length s - p" arbitrary: p env level rule: less_induct)
  case less
  note step = block_loop.simps [of MiniKonohaTokenMatrix notnull "s @ [0]" ts level env p]
  show ?case
  proof (cases "p < length s")
    case False
    then show ?thesis using less.prems step kchar_src [of p s] buf_kept_self by simp
  next
    case True
    have IH: "\<exists>e n'. block_loop MiniKonohaTokenMatrix notnull (s @ [0]) ts lev env' n = Some (e, n')
        \<and> buf_kept env' e \<and> n' \<le> length s \<and> (n < n' \<or> n' = length s - 1)"
      if "p < n" "n \<le> length s" "karray_ok 1 (cwb env')" for lev env' n
      using less.hyps [of n env' lev] that True by simp
    have k: "kchar (s @ [0]) p = Some (kchar_of (s ! p))" using kchar_src [of p s] True by simp
    consider (close) "s ! p = chr CHR ''}''" | (opn) "s ! p = chr CHR ''{''"
      | (other) "s ! p \<noteq> chr CHR ''{''" "s ! p \<noteq> chr CHR ''}''" by blast
    then show ?thesis
    proof cases
      case close
      then have "kchar_of (s ! p) = 14" using brace_chars by blast
      then show ?thesis using step k IH [of "p + 1" env "level - 1"] True less.prems buf_kept_self [of env]
        by (cases "level - 1 = 0") fastforce+
    next
      case opn
      then have "kchar_of (s ! p) = 13" using brace_chars by blast
      then show ?thesis using step k IH [of "p + 1" env "level + 1"] True less.prems by fastforce
    next
      case other
      obtain env' n where r: "p < n" "n \<le> length s" "buf_kept env env'"
        "block_loop MiniKonohaTokenMatrix notnull (s @ [0]) ts level env p
       = block_loop MiniKonohaTokenMatrix notnull (s @ [0]) ts level env' n"
        using block_loop_flat [OF s True other less.prems(2)] by blast
      then show ?thesis using IH [of n env' level] buf_kept_trans [of env env'] less.prems(2)
        by (fastforce simp: buf_kept_def)
    qed
  qed
qed

lemma call_tokenizer_ok:
  assumes s: "0 \<notin> set s" "p < length s" and env: "karray_ok 1 (cwb env)"
  shows "\<exists>env' n. call_tokenizer MiniKonohaTokenMatrix (MiniKonohaTokenMatrix ! kchar_of (s ! p)) notnull (s @ [0]) env p
       = Some (env', n) \<and> n \<le> length s \<and> buf_kept env env'
     \<and> (p < n \<or> (s ! p = chr CHR ''{'' \<and> n = length s - 1))"
proof (cases "s ! p = chr CHR ''{''")
  case True
  then have "MiniKonohaTokenMatrix ! kchar_of (s ! p) = F_BLOCK"
    using brace_chars [of "s ! p"] by (simp add: MiniKonohaTokenMatrix_def)
  moreover obtain env' n where "block_loop MiniKonohaTokenMatrix notnull (s @ [0]) p 1 (bump_lpos notnull env) (p + 1) = Some (env', n)"
    "buf_kept (bump_lpos notnull env) env'" "n \<le> length s" "p + 1 < n \<or> n = length s - 1"
    using block_loop_ok [OF s(1), of "p + 1" "bump_lpos notnull env" notnull p 1] s(2) env by auto
  ultimately show ?thesis using True by (auto simp: call_tokenizer_def parseBLOCK_def buf_kept_def)
next
  case False
  let ?f = "MiniKonohaTokenMatrix ! kchar_of (s ! p)"
  have nz: "s ! p \<noteq> 0" using s nth_mem by metis
  have f: "?f \<noteq> F_BLOCK" "starts ?f (s ! p)" using matrix_flat [OF False] matrix_starts [of "s ! p"] nz by auto
  then obtain env' n where "call_flat ?f notnull (s @ [0]) env p = Some (env', n)" "p < n" "n \<le> length s" "buf_kept env env'"
    using call_flat_adv [OF f(1)] s env unfolding advances_def by blast
  moreover have "call_tokenizer MiniKonohaTokenMatrix ?f = call_flat ?f" using f(1)
    by (cases ?f) (simp_all add: call_tokenizer_def)
  ultimately show ?thesis by auto
qed

lemma cwb_flush [simp]: "cwb (flush_token env p) = cwb env"
  by (simp add: flush_token_def new_token_def)

lemma tokenize_loop_ok:
  assumes s: "0 \<notin> set s" "s = [] \<or> last s \<noteq> chr CHR ''{''" and "p \<le> length s" "karray_ok 1 (cwb env)"
  shows "\<exists>env'. tokenize_loop MiniKonohaTokenMatrix (s @ [0]) env p = Some env' \<and> buf_kept env env'"
  using assms(3,4)
proof (induction "length s - p" arbitrary: p env rule: less_induct)
  case less
  note step = tokenize_loop.simps [of MiniKonohaTokenMatrix "s @ [0]" env p]
  show ?case
  proof (cases "p < length s")
    case False
    then show ?thesis using step kchar_src [of p s] less.prems by (simp add: buf_kept_def)
  next
    case True
    have nz: "s ! p \<noteq> 0" using s(1) True nth_mem by metis
    obtain env' n where r: "call_tokenizer MiniKonohaTokenMatrix (MiniKonohaTokenMatrix ! kchar_of (s ! p)) True (s @ [0]) (flush_token env p) p
        = Some (env', n)" "n \<le> length s" "buf_kept (flush_token env p) env'"
      "p < n \<or> (s ! p = chr CHR ''{'' \<and> n = length s - 1)"
      using call_tokenizer_ok [OF s(1) True, of "flush_token env p" True] less.prems(2) by auto
    have "p < n"
    proof (rule ccontr)
      assume "\<not> p < n"
      then have "s ! p = chr CHR ''{''" "p = length s - 1" using r(4) True by auto
      moreover have "s \<noteq> []" using True by auto
      ultimately show False using s(2) last_conv_nth [of s] by simp
    qed
    then have lt: "length s - n < length s - p" using True by simp
    have "karray_ok 1 (cwb env')" using r(3) by (simp add: buf_kept_def)
    then obtain e where e: "tokenize_loop MiniKonohaTokenMatrix (s @ [0]) env' n = Some e" "buf_kept env' e"
      using less.hyps [OF lt r(2)] by blast
    then show ?thesis
      using step kchar_src [of p s] True r(1,3) \<open>p < n\<close> nz kchar_zero [of "s ! p"]
      by (simp add: matrix_get buf_kept_def)
  qed
qed

text \<open>
  C6: tokenizing is total. Whatever bytes a script consists of, the tokenizer of a fresh name space
  reads nothing behind the terminating zero, never stops advancing, ends, and leaves the shared
  write buffer as it found it; the one exception is a script whose last character opens a block.
\<close>

theorem tokenize_total:
  assumes "0 \<notin> set script" "script = [] \<or> last script \<noteq> chr CHR ''{''" "karray_ok 1 (cwb env)"
  shows "\<exists>ks' env'. KonohaSpace_tokenize None (script @ [0]) line env = Some (ks', env')
     \<and> karray_ok 1 (cwb env') \<and> content (cwb env') = content (cwb env)"
proof -
  let ?e = "env\<lparr>uline := line, bol := Some 0, indent_tab := 4\<rparr>"
  obtain e1 where e1: "parseINDENT True (script @ [0]) (new_token ?e 0) 0 = Some (e1, 0)" "cwb e1 = cwb env"
    by (auto simp: parseINDENT_def mem_get_def new_token_def)
  then obtain e2 where "tokenize_loop MiniKonohaTokenMatrix (script @ [0]) e1 0 = Some e2" "buf_kept e1 e2"
    using tokenize_loop_ok [OF assms(1,2), of 0 e1] assms(3) by auto
  with e1 show ?thesis by (auto simp: KonohaSpace_tokenize_def tokenize_def Let_def buf_kept_def)
qed

definition env_of :: "byte karray \<Rightarrow> tenv" where
  "env_of m = \<lparr>uline = 1, toks = [], bol = None, indent_tab = 4, curtk = Token_init, nulltk = Token_init,
     errors = [], err_count = 0, cwb = m, sfile = (\<lambda>_. [])\<rparr>"

theorem tokenize_total_witness:
  "\<exists>ks' env'. KonohaSpace_tokenize None (lit ''f(x) { g(); }'' @ [0]) 1 (env_of (karray_init 1 \<lparr>bytesize = 0, bytebuf = [], bytemax = 0\<rparr> 8))
       = Some (ks', env')
     \<and> karray_ok 1 (cwb env')"
proof -
  have "0 \<notin> set (lit ''f(x) { g(); }'')" "last (lit ''f(x) { g(); }'') \<noteq> chr CHR ''{''" by (simp_all add: lit_def)
  then show ?thesis
    using tokenize_total [of "lit ''f(x) { g(); }''" "env_of (karray_init 1 \<lparr>bytesize = 0, bytebuf = [], bytemax = 0\<rparr> 8)" 1]
      karray_init_ok [of 1 "\<lparr>bytesize = 0, bytebuf = [], bytemax = 0\<rparr>" 8]
    by (auto simp: env_of_def)
qed

text \<open>
  a script that consists of an opening brace stops the tokenizer: \<^verbatim>\<open>parseBLOCK\<close> reports the
  missing brace and returns the position before the end, which is the brace itself, so the
  assertion that every step advances fails.
\<close>

theorem tokenize_open_brace: "KonohaSpace_tokenize None (lit ''{'' @ [0]) line env = None"
proof -
  let ?src = "lit ''{'' @ [0]"
  have k: "kchar ?src 0 = Some 13" "kchar ?src 1 = Some 0" by code_simp+
  have m: "mem_get MiniKonohaTokenMatrix 13 = Some F_BLOCK"
    by (simp add: MiniKonohaTokenMatrix_def mem_get_def)
  have "tokenize_loop MiniKonohaTokenMatrix ?src e 0 = None" for e
    using k m
    by (subst tokenize_loop.simps)
      (simp add: call_tokenizer_def parseBLOCK_def block_loop.simps [of _ _ _ _ _ _ 1] del: One_nat_def)
  then show ?thesis
    by (simp add: KonohaSpace_tokenize_def tokenize_def parseINDENT_def mem_get_def Let_def lit_def)
qed

section \<open>Printing and tokenizing\<close>

text \<open>Lexemes, how they are written, and the token each stands for.\<close>

datatype lexeme = L_name bytes | L_uname bytes | L_int bytes | L_op bytes | L_text bytes

definition escape_byte :: "byte \<Rightarrow> bytes" where
  "escape_byte c =
     (if c = chr CHR 0x0A then [chr CHR 0x5C, chr CHR ''n''] else if c = chr CHR 0x09 then [chr CHR 0x5C, chr CHR ''t'']
      else if c = chr CHR 0x0D then [chr CHR 0x5C, chr CHR ''r''] else [c])"

fun show_lexeme :: "lexeme \<Rightarrow> bytes" where
  "show_lexeme (L_name w) = w"
| "show_lexeme (L_uname w) = w"
| "show_lexeme (L_int w) = w"
| "show_lexeme (L_op w) = w"
| "show_lexeme (L_text t) = chr CHR 0x22 # concat (map escape_byte t) @ [chr CHR 0x22]"

definition text_byte :: "byte \<Rightarrow> bool" where
  "text_byte c \<longleftrightarrow> c \<notin> {0, -1, chr CHR 0x22, chr CHR 0x5C}"

fun valid_lexeme :: "lexeme \<Rightarrow> bool" where
  "valid_lexeme (L_name w) \<longleftrightarrow> w \<noteq> [] \<and> list_all symbol_char w \<and> MiniKonohaTokenMatrix ! kchar_of (hd w) = F_SYMBOL"
| "valid_lexeme (L_uname w) \<longleftrightarrow> w \<noteq> [] \<and> list_all symbol_char w \<and> MiniKonohaTokenMatrix ! kchar_of (hd w) = F_USYMBOL"
| "valid_lexeme (L_int w) \<longleftrightarrow> w \<noteq> [] \<and> list_all isdigit w"
| "valid_lexeme (L_op w) \<longleftrightarrow> w \<noteq> [] \<and> list_all op_char w \<and> MiniKonohaTokenMatrix ! kchar_of (hd w) = F_OP"
| "valid_lexeme (L_text t) \<longleftrightarrow> list_all text_byte t"

fun token_of :: "lexeme \<Rightarrow> ktoken \<times> tbody" where
  "token_of (L_name w) = (TK_SYMBOL, Text w)"
| "token_of (L_uname w) = (TK_USYMBOL, Text w)"
| "token_of (L_int w) = (TK_INT, Text w)"
| "token_of (L_op w) = (TK_OPERATOR, Text w)"
| "token_of (L_text t) = (TK_TEXT, Text t)"

definition tsig :: "token \<Rightarrow> ktoken \<times> tbody" where
  "tsig tk = (tt tk, ttext tk)"

definition show_script :: "lexeme list \<Rightarrow> bytes" where
  "show_script ls = concat (map (\<lambda>l. show_lexeme l @ [chr CHR '' '']) ls)"

lemma space_chars: "\<not> symbol_char (chr CHR '' '')" "\<not> op_char (chr CHR '' '')" "\<not> isalnum (chr CHR '' '')" "kchar_of (chr CHR '' '') = 8"
  by code_simp+

lemma takeWhile_word: "list_all P w \<Longrightarrow> \<not> P c \<Longrightarrow> takeWhile P (w @ c # r) = w"
  by (simp add: takeWhile_append list_all_iff)

lemma substr_word: "substr (pre @ w @ r) (length pre) (length w) = w"
  by (simp add: substr_def)

lemma num_run_digits:
  assumes "list_all isdigit w" "w \<noteq> []"
  shows "num_run (w @ chr CHR '' '' # r) = Some (length w, 0)"
  using assms
proof (induction w)
  case Nil
  then show ?case by simp
next
  case (Cons c w)
  have c: "isdigit c" "isalnum c" "c \<noteq> 0" "c \<noteq> chr CHR ''_''" "c \<noteq> chr CHR ''.''" "c \<noteq> chr CHR ''e''" "c \<noteq> chr CHR ''E''"
    using Cons.prems(1) by (auto simp: isdigit_def isalnum_def chr_le_iff word_le_nat_alt unat_chr)
  show ?case
  proof (cases w)
    case Nil
    then show ?thesis using c space_chars(3) by (simp add: num_run.simps(2))
  next
    case (Cons d w')
    then show ?thesis using Cons.IH Cons.prems c by (simp add: num_run.simps(2) [of c])
  qed
qed

lemma dquoted_escape_append:
  "list_all text_byte t \<Longrightarrow> prev \<noteq> chr CHR 0x5C \<Longrightarrow> dquoted r (last (prev # t)) = (u, n, closed) \<Longrightarrow>
     dquoted (concat (map escape_byte t) @ r) prev = (t @ u, length (concat (map escape_byte t)) + n, closed)"
proof (induction t arbitrary: prev)
  case Nil
  then show ?case by simp
next
  case (Cons c t)
  then have "text_byte c" "list_all text_byte t" by simp_all
  then have c: "c \<noteq> 0" "put_byte c = [c]" "c \<noteq> chr CHR 0x22" "c \<noteq> chr CHR 0x5C" "list_all text_byte t"
    by (auto simp: put_byte_def text_byte_def [of c])
  have "dquoted r (last (c # t)) = (u, n, closed)" using Cons.prems(3) by simp
  note IH = Cons.IH [OF c(5,4) this]
  consider "c = chr CHR 0x0A" | "c = chr CHR 0x09" | "c = chr CHR 0x0D"
    | "c \<noteq> chr CHR 0x0A" "c \<noteq> chr CHR 0x09" "c \<noteq> chr CHR 0x0D" by blast
  then show ?case
    using IH c(2-4) by cases (simp_all add: escape_byte_def unescape_def Let_def)
qed

lemma text_last: "list_all text_byte t \<Longrightarrow> prev \<noteq> chr CHR 0x5C \<Longrightarrow> last (prev # t) \<noteq> chr CHR 0x5C"
  by (auto simp: list_all_iff text_byte_def)

lemma dquoted_escape:
  assumes "list_all text_byte t" "prev \<noteq> chr CHR 0x5C"
  shows "dquoted (concat (map escape_byte t) @ chr CHR 0x22 # r) prev = (t, length (concat (map escape_byte t)) + 1, True)"
  using dquoted_escape_append [OF assms, of "chr CHR 0x22 # r" "[]" 1 True] text_last [OF assms] by simp

lemma matrix_rbrace: "MiniKonohaTokenMatrix ! kchar_of (chr CHR ''}'') = F_OP1"
  using brace_chars [of "chr CHR ''}''"] by (simp add: MiniKonohaTokenMatrix_def)

text \<open>Each lexeme, followed by a space, becomes its token.\<close>

lemma lexeme_start:
  assumes "valid_lexeme l"
  shows "show_lexeme l \<noteq> [] \<and> hd (show_lexeme l) \<noteq> 0 \<and> hd (show_lexeme l) \<noteq> chr CHR ''{''
     \<and> MiniKonohaTokenMatrix ! kchar_of (hd (show_lexeme l)) =
       (case l of L_name _ \<Rightarrow> F_SYMBOL | L_uname _ \<Rightarrow> F_USYMBOL | L_int _ \<Rightarrow> F_NUM | L_op _ \<Rightarrow> F_OP | L_text _ \<Rightarrow> F_DQUOTE)"
proof -
  have zero: "MiniKonohaTokenMatrix ! kchar_of 0 = F_SKIP"
    using kchar_zero [of 0] by (simp add: MiniKonohaTokenMatrix_def)
  have brace: "MiniKonohaTokenMatrix ! kchar_of (chr CHR ''{'') = F_BLOCK"
    using brace_chars [of "chr CHR ''{''"] by (simp add: MiniKonohaTokenMatrix_def)
  have kdigit: "isdigit c \<longrightarrow> kchar_of c = 2" for c
    by (rule all_bytes [of "\<lambda>c. isdigit c \<longrightarrow> kchar_of c = 2"]) code_simp
  have quote: "kchar_of (chr CHR 0x22) = 18" by code_simp
  have num: "MiniKonohaTokenMatrix ! 2 = F_NUM" "MiniKonohaTokenMatrix ! 18 = F_DQUOTE"
    by (simp_all add: MiniKonohaTokenMatrix_def)
  show ?thesis
  proof (cases l)
    case (L_int w)
    then have "isdigit (hd w)" "w \<noteq> []" using assms by (cases w; auto)+
    moreover from this have "MiniKonohaTokenMatrix ! kchar_of (hd w) = F_NUM" using kdigit num by simp
    ultimately show ?thesis using L_int zero brace by auto
  qed (use assms zero brace quote num in auto)
qed

lemma space_drop: "drop (length pre) ((pre @ w @ chr CHR '' '' # post) @ [0]) = w @ chr CHR '' '' # post @ [0]"
  by simp

lemma lexeme_token:
  assumes l: "valid_lexeme l" and nz: "0 \<notin> set (pre @ show_lexeme l @ chr CHR '' '' # post)"
    and env: "karray_ok 1 (cwb env)"
  defines "s \<equiv> pre @ show_lexeme l @ chr CHR '' '' # post"
  shows "\<exists>env'. call_tokenizer MiniKonohaTokenMatrix (MiniKonohaTokenMatrix ! kchar_of (hd (show_lexeme l))) notnull (s @ [0]) env (length pre)
       = Some (env', length pre + length (show_lexeme l)) \<and> buf_kept env env' \<and> toks env' = toks env
     \<and> (notnull \<longrightarrow> tsig (curtk env') = token_of l)"
proof -
  have tw: "takeWhile P (drop (length pre) s) = w" if "show_lexeme l = w" "list_all P w" "\<not> P (chr CHR '' '')" for P w
    using that by (simp add: s_def takeWhile_word)
  have sub: "substr (s @ [0]) (length pre) (length w) = w" if "show_lexeme l = w" for w
    using that by (simp add: s_def substr_def)
  note sc = scan_src(1) [OF nz [folded s_def], of "length pre"]
  have le: "length pre \<le> length s" by (simp add: s_def)
  note scan = sc [OF le]
  note upd = upd_tk_def set_tt_def set_text_def tsig_def
  show ?thesis
  proof (cases l)
    case (L_name w)
    then have "scan_run symbol_char (drop (length pre) (s @ [0])) = Some (length w)"
      using l scan [of symbol_char] tw [of w symbol_char] space_chars by simp
    then show ?thesis using L_name l lexeme_start [OF l] sub [of w] buf_kept_self [OF env]
      by (simp add: call_tokenizer_def call_flat_def parseSYMBOL_def upd)
  next
    case (L_uname w)
    then have "scan_run symbol_char (drop (length pre) (s @ [0])) = Some (length w)"
      using l scan [of symbol_char] tw [of w symbol_char] space_chars by simp
    then show ?thesis using L_uname l lexeme_start [OF l] sub [of w] buf_kept_self [OF env]
      by (simp add: call_tokenizer_def call_flat_def parseUSYMBOL_def upd)
  next
    case (L_op w)
    then have "scan_run op_char (drop (length pre) (s @ [0])) = Some (length w)"
      using l scan [of op_char] tw [of w op_char] space_chars by simp
    then show ?thesis using L_op l lexeme_start [OF l] sub [of w] buf_kept_self [OF env]
      by (simp add: call_tokenizer_def call_flat_def parseOP_def upd set_topch_def Let_def)
  next
    case (L_int w)
    have "num_run (drop (length pre) (s @ [0])) = Some (length w, 0)"
      using L_int l num_run_digits [of w "post @ [0]"] by (simp add: s_def)
    then show ?thesis using L_int l lexeme_start [OF l] sub [of w] buf_kept_self [OF env]
      by (simp add: call_tokenizer_def call_flat_def parseNUM_def upd)
  next
    case (L_text t)
    have q: "chr CHR 0x22 \<noteq> chr CHR 0x5C" by simp
    have lt: "length pre < length s" using L_text by (simp add: s_def)
    have "drop (Suc (length pre)) s = concat (map escape_byte t) @ chr CHR 0x22 # chr CHR '' '' # post"
      by (simp add: s_def L_text)
    then have d: "dquoted (drop (Suc (length pre)) s) (chr CHR 0x22) = (t, length (concat (map escape_byte t)) + 1, True)"
      using dquoted_escape [of t "chr CHR 0x22" "chr CHR '' '' # post"] l L_text by simp
    obtain m where "karray_ok 1 m" "content m = content (cwb env)" "parseDQUOTE notnull (s @ [0]) env (length pre) =
        Some (upd_tk notnull (set_tt TK_TEXT \<circ> set_text t) (env\<lparr>cwb := m\<rparr>),
              length pre + 1 + (length (concat (map escape_byte t)) + 1))"
      using parseDQUOTE_ok [OF nz [folded s_def] lt env d, of notnull] by auto
    then show ?thesis using L_text lexeme_start [OF l]
      by (simp add: call_tokenizer_def call_flat_def upd buf_kept_def)
  qed
qed

text \<open>The token under construction, when it has been filled in.\<close>

definition pending :: "tenv \<Rightarrow> token list" where
  "pending env = (if tt (curtk env) \<noteq> TK_NONE then [curtk env] else [])"

lemma toks_flush: "toks (flush_token env p) = toks env @ pending env"
  by (simp add: flush_token_def pending_def new_token_def)

lemma curtk_flush: "tt (curtk (flush_token env p)) = TK_NONE"
  by (simp add: flush_token_def new_token_def Token_init_def set_lpos_def set_line_def)

lemma tokenize_step:
  assumes "p < length s" "s ! p \<noteq> 0"
    and "call_tokenizer MiniKonohaTokenMatrix (MiniKonohaTokenMatrix ! kchar_of (s ! p)) True (s @ [0]) (flush_token env p) p
       = Some (env', n)" "p < n"
  shows "tokenize_loop MiniKonohaTokenMatrix (s @ [0]) env p = tokenize_loop MiniKonohaTokenMatrix (s @ [0]) env' n"
  using assms kchar_src [of p s] kchar_zero [of "s ! p"]
  by (subst tokenize_loop.simps) (simp add: matrix_get)

lemma token_of_kind: "fst (token_of l) \<noteq> TK_NONE"
  by (cases l) simp_all

lemma tokenize_lexemes:
  assumes "list_all valid_lexeme ls" "0 \<notin> set (pre @ show_script ls)" "karray_ok 1 (cwb env)"
  shows "\<exists>env'. tokenize_loop MiniKonohaTokenMatrix ((pre @ show_script ls) @ [0]) env (length pre) = Some env'
     \<and> map tsig (toks env') = map tsig (toks env @ pending env) @ map token_of ls"
  using assms
proof (induction ls arbitrary: pre env)
  case Nil
  have "kchar ((pre @ show_script []) @ [0]) (length pre) = Some 0"
    using kchar_src [of "length pre" pre] by (simp add: show_script_def)
  then show ?case by (subst tokenize_loop.simps) (simp add: pending_def)
next
  case (Cons l ls)
  let ?s = "pre @ show_script (l # ls)" and ?p = "length pre" and ?q = "length pre + length (show_lexeme l)"
  have s: "?s = pre @ show_lexeme l @ chr CHR '' '' # show_script ls" by (simp add: show_script_def)
  note st = lexeme_start [of l]
  have l: "valid_lexeme l" using Cons.prems(1) by simp
  have hd: "?p < length ?s" "?s ! ?p = hd (show_lexeme l)"
    using st [OF l] by (auto simp: s nth_append hd_conv_nth)
  obtain e1 where e1: "call_tokenizer MiniKonohaTokenMatrix (MiniKonohaTokenMatrix ! kchar_of (hd (show_lexeme l))) True
        (?s @ [0]) (flush_token env ?p) ?p = Some (e1, ?q)"
    "buf_kept (flush_token env ?p) e1" "toks e1 = toks env @ pending env" "tsig (curtk e1) = token_of l"
    using lexeme_token [OF l, of pre "show_script ls" "flush_token env ?p" True] Cons.prems(2,3)
    unfolding s by (auto simp: toks_flush)
  have loop1: "tokenize_loop MiniKonohaTokenMatrix (?s @ [0]) env ?p = tokenize_loop MiniKonohaTokenMatrix (?s @ [0]) e1 ?q"
    by (rule tokenize_step [OF hd(1)]) (use e1(1) hd st [OF l] in auto)
  have sp: "?q < length ?s" "?s ! ?q = chr CHR '' ''" by (simp_all add: s nth_append)
  have skip: "MiniKonohaTokenMatrix ! 8 = F_SKIP" by (simp add: MiniKonohaTokenMatrix_def)
  have loop2: "tokenize_loop MiniKonohaTokenMatrix (?s @ [0]) e1 ?q
      = tokenize_loop MiniKonohaTokenMatrix (?s @ [0]) (flush_token e1 ?q) (?q + 1)"
    by (rule tokenize_step [OF sp(1)], unfold sp(2) space_chars(4) skip)
      (simp_all add: call_tokenizer_def call_flat_def parseSKIP_def)
  have pend: "pending e1 = [curtk e1]" using e1(4) token_of_kind [of l] by (metis fst_conv pending_def tsig_def)
  let ?pre = "pre @ show_lexeme l @ [chr CHR '' '']"
  have eq: "?pre @ show_script ls = ?s" "length ?pre = ?q + 1" by (simp_all add: s)
  have IH: "\<exists>env'. tokenize_loop MiniKonohaTokenMatrix ((?pre @ show_script ls) @ [0]) (flush_token e1 ?q) (length ?pre) = Some env'
     \<and> map tsig (toks env') = map tsig (toks (flush_token e1 ?q) @ pending (flush_token e1 ?q)) @ map token_of ls"
  proof (rule Cons.IH)
    show "list_all valid_lexeme ls" using Cons.prems(1) by simp
    show "0 \<notin> set (?pre @ show_script ls)" using Cons.prems(2) unfolding s by simp
    show "karray_ok 1 (cwb (flush_token e1 ?q))" using e1(2) by (simp add: buf_kept_def)
  qed
  have "pending (flush_token e1 ?q) = []" by (simp add: pending_def curtk_flush)
  then obtain env' where "tokenize_loop MiniKonohaTokenMatrix (?s @ [0]) (flush_token e1 ?q) (?q + 1) = Some env'"
    "map tsig (toks env') = map tsig (toks env @ pending env) @ [token_of l] @ map token_of ls"
    using IH [unfolded eq] e1(3,4) pend by (auto simp: toks_flush)
  then show ?case using loop1 loop2 by auto
qed

lemma show_no_zero: "list_all valid_lexeme ls \<Longrightarrow> 0 \<notin> set (show_script ls)"
proof -
  have sym: "\<not> symbol_char 0" "\<not> op_char 0" "\<not> isdigit 0" by code_simp+
  have word: "\<not> P 0 \<Longrightarrow> list_all P w \<Longrightarrow> 0 \<notin> set w" for P :: "byte \<Rightarrow> bool" and w
    by (auto simp: list_all_iff)
  have esc: "c \<noteq> 0 \<Longrightarrow> 0 \<notin> set (escape_byte c)" for c by (simp add: escape_byte_def)
  have "0 \<notin> set (show_lexeme l)" if "valid_lexeme l" for l
  proof (cases l)
    case (L_text t)
    then have "\<forall>c \<in> set t. c \<noteq> 0" using that by (auto simp: list_all_iff text_byte_def)
    then show ?thesis using L_text esc by auto
  qed (use that word sym in auto)
  then show "list_all valid_lexeme ls \<Longrightarrow> 0 \<notin> set (show_script ls)"
    by (induction ls) (auto simp: show_script_def)
qed

text \<open>
  C3: tokenizing is the inverse of writing lexemes. Any sequence of names, numbers, operators and
  texts (with any bytes but a zero, a quote, a backslash and 255, line ends and tabs written as
  escapes), separated by single spaces, is tokenized into exactly the tokens it was written from,
  behind the token for the indentation that every script begins with.
\<close>

theorem tokenize_roundtrip:
  assumes "list_all valid_lexeme ls" "karray_ok 1 (cwb env)" "toks env = []"
  shows "\<exists>ks' env'. KonohaSpace_tokenize None (show_script ls @ [0]) line env = Some (ks', env')
     \<and> map tsig (toks env') = (TK_INDENT, Text []) # map token_of ls"
proof -
  let ?e = "env\<lparr>uline := line, bol := Some 0, indent_tab := 4\<rparr>"
  obtain e1 where e1: "parseINDENT True (show_script ls @ [0]) (new_token ?e 0) 0 = Some (e1, 0)"
    "cwb e1 = cwb env" "toks e1 = []" "map tsig (pending e1) = [(TK_INDENT, Text [])]"
    using assms(3)
    by (auto simp: parseINDENT_def mem_get_def new_token_def upd_tk_def pending_def tsig_def set_tt_def set_lpos_def
        set_line_def Token_init_def)
  obtain e2 where e2: "tokenize_loop MiniKonohaTokenMatrix (show_script ls @ [0]) e1 0 = Some e2"
    "map tsig (toks e2) = (TK_INDENT, Text []) # map token_of ls"
    using tokenize_lexemes [OF assms(1), of "[]" e1] show_no_zero [OF assms(1)] assms(2) e1 by auto
  have sig: "tsig \<circ> set_line l = tsig" for l by (simp add: tsig_def set_line_def fun_eq_iff)
  show ?thesis using e1(1) e2 assms(3)
    by (cases "line = 0") (simp_all add: KonohaSpace_tokenize_def tokenize_def Let_def sig del: map_eq_Cons_conv)
qed

theorem tokenize_roundtrip_witness:
  "\<exists>ks' env'. KonohaSpace_tokenize None (show_script [L_uname (lit ''Person''), L_name (lit ''p''), L_op (lit ''=''), L_int (lit ''42''),
         L_text [chr CHR ''a'', chr CHR 0x0A]] @ [0]) 1 (env_of (karray_init 1 \<lparr>bytesize = 0, bytebuf = [], bytemax = 0\<rparr> 8)) = Some (ks', env')
     \<and> map tsig (toks env') = [(TK_INDENT, Text []), (TK_USYMBOL, Text (lit ''Person'')), (TK_SYMBOL, Text (lit ''p'')),
         (TK_OPERATOR, Text (lit ''='')), (TK_INT, Text (lit ''42'')), (TK_TEXT, Text [chr CHR ''a'', chr CHR 0x0A])]"
proof -
  have k: "kchar_of (chr CHR ''P'') = 3" "kchar_of (chr CHR ''p'') = 4" "kchar_of (chr CHR ''='') = 33" by code_simp+
  have c: "list_all symbol_char (lit ''Person'')" "list_all symbol_char (lit ''p'')" "list_all op_char (lit ''='')"
    "list_all isdigit (lit ''42'')" "list_all text_byte [chr CHR ''a'', chr CHR 0x0A]"
    by code_simp+
  have "list_all valid_lexeme [L_uname (lit ''Person''), L_name (lit ''p''), L_op (lit ''=''), L_int (lit ''42''), L_text [chr CHR ''a'', chr CHR 0x0A]]"
    using c k by (simp add: lit_def MiniKonohaTokenMatrix_def)
  then show ?thesis
    using tokenize_roundtrip [of _ "env_of (karray_init 1 \<lparr>bytesize = 0, bytebuf = [], bytemax = 0\<rparr> 8)" 1]
      karray_init_ok [of 1 "\<lparr>bytesize = 0, bytebuf = [], bytemax = 0\<rparr>" 8]
    by (fastforce simp: env_of_def)
qed

section \<open>Blocks and texts\<close>

lemma block_lexemes:
  assumes "list_all valid_lexeme ls" "0 \<notin> set (pre @ show_script ls @ chr CHR ''}'' # post)" "karray_ok 1 (cwb env)"
  shows "\<exists>env'. buf_kept env env' \<and> toks env' = toks env \<and>
     block_loop MiniKonohaTokenMatrix notnull ((pre @ show_script ls @ chr CHR ''}'' # post) @ [0]) ts level env (length pre)
     = block_loop MiniKonohaTokenMatrix notnull ((pre @ show_script ls @ chr CHR ''}'' # post) @ [0]) ts level env'
         (length pre + length (show_script ls))"
  using assms
proof (induction ls arbitrary: pre env)
  case Nil
  then show ?case by (auto simp: show_script_def buf_kept_def)
next
  case (Cons l ls)
  let ?post = "show_script ls @ chr CHR ''}'' # post"
  let ?s = "pre @ show_script (l # ls) @ chr CHR ''}'' # post" and ?p = "length pre" and ?q = "length pre + length (show_lexeme l)"
  have s: "?s = pre @ show_lexeme l @ chr CHR '' '' # ?post" by (simp add: show_script_def)
  have l: "valid_lexeme l" using Cons.prems(1) by simp
  note st = lexeme_start [OF l]
  have hd: "?p < length ?s" "?s ! ?p = hd (show_lexeme l)"
    using st by (auto simp: s nth_append hd_conv_nth)
  obtain e1 where e1: "call_tokenizer MiniKonohaTokenMatrix (MiniKonohaTokenMatrix ! kchar_of (hd (show_lexeme l))) False
        (?s @ [0]) env ?p = Some (e1, ?q)" "buf_kept env e1" "toks e1 = toks env"
    using lexeme_token [OF l, of pre ?post env False] Cons.prems(2,3) unfolding s by auto
  have f: "MiniKonohaTokenMatrix ! kchar_of (hd (show_lexeme l)) \<noteq> F_BLOCK" using st by (cases l) auto
  have nrb: "hd (show_lexeme l) \<noteq> chr CHR ''}''" using st by (cases l) (auto simp: matrix_rbrace)
  let ?f = "MiniKonohaTokenMatrix ! kchar_of (hd (show_lexeme l))"
  have "call_tokenizer MiniKonohaTokenMatrix ?f = call_flat ?f"
    using f by (cases ?f) (simp_all add: call_tokenizer_def)
  then have c1: "call_flat ?f False (?s @ [0]) env ?p = Some (e1, ?q)" using e1(1) by simp
  have b1: "block_loop MiniKonohaTokenMatrix notnull (?s @ [0]) ts level env ?p
      = block_loop MiniKonohaTokenMatrix notnull (?s @ [0]) ts level e1 ?q"
    using block_loop_flat [OF Cons.prems(2) hd(1), of env notnull ts level] st nrb Cons.prems(3) c1 unfolding hd(2) by auto
  have sp: "?q < length ?s" "?s ! ?q = chr CHR '' ''" by (simp_all add: s nth_append)
  have skip: "MiniKonohaTokenMatrix ! 8 = F_SKIP" by (simp add: MiniKonohaTokenMatrix_def)
  have c2: "call_flat (MiniKonohaTokenMatrix ! kchar_of (chr CHR '' '')) False (?s @ [0]) e1 ?q = Some (e1, ?q + 1)"
    unfolding space_chars(4) skip by (simp add: call_flat_def parseSKIP_def)
  have b2: "block_loop MiniKonohaTokenMatrix notnull (?s @ [0]) ts level e1 ?q
      = block_loop MiniKonohaTokenMatrix notnull (?s @ [0]) ts level e1 (?q + 1)"
    using block_loop_flat [OF Cons.prems(2) sp(1), of e1 notnull ts level] e1(2) c2 unfolding sp(2) by (auto simp: buf_kept_def)
  let ?pre = "pre @ show_lexeme l @ [chr CHR '' '']"
  have eq: "?pre @ show_script ls @ chr CHR ''}'' # post = ?s" "length ?pre = ?q + 1" by (simp_all add: s)
  have IH: "\<exists>env'. buf_kept e1 env' \<and> toks env' = toks e1 \<and>
     block_loop MiniKonohaTokenMatrix notnull ((?pre @ show_script ls @ chr CHR ''}'' # post) @ [0]) ts level e1 (length ?pre)
     = block_loop MiniKonohaTokenMatrix notnull ((?pre @ show_script ls @ chr CHR ''}'' # post) @ [0]) ts level env'
         (length ?pre + length (show_script ls))"
  proof (rule Cons.IH)
    show "list_all valid_lexeme ls" using Cons.prems(1) by simp
    show "0 \<notin> set (?pre @ show_script ls @ chr CHR ''}'' # post)" using Cons.prems(2) unfolding eq .
    show "karray_ok 1 (cwb e1)" using e1(2) by (simp add: buf_kept_def)
  qed
  have "length (show_script (l # ls)) = length (show_lexeme l) + 1 + length (show_script ls)" by (simp add: show_script_def)
  then show ?case using IH [unfolded eq] b1 b2 e1(2,3) buf_kept_trans [OF e1(2)] by (auto simp: add.assoc)
qed



text \<open>
  A text whose last character is an escaped backslash cannot be written. The tokenizer looks
  only at the character before a quote, so the two characters that stand for one backslash keep
  the quote from closing the text: the token is an error, and both backslashes would have been kept.
\<close>

theorem parseDQUOTE_backslash:
  assumes "list_all text_byte t" "karray_ok 1 (cwb env)"
  shows "\<exists>env' n. parseDQUOTE True (chr CHR 0x22 # concat (map escape_byte t) @ [chr CHR 0x5C, chr CHR 0x5C, chr CHR 0x22, 0]) env 0
       = Some (env', n) \<and> tt (curtk env') = TK_ERR \<and> err_count env' = err_count env + 1"
proof -
  let ?s = "chr CHR 0x22 # concat (map escape_byte t) @ [chr CHR 0x5C, chr CHR 0x5C, chr CHR 0x22]"
  have nz: "0 \<notin> set ?s"
    using assms(1) by (auto simp: list_all_iff text_byte_def escape_byte_def split: if_splits)
  have tail: "dquoted [chr CHR 0x5C, chr CHR 0x5C, chr CHR 0x22] prev = ([chr CHR 0x5C, chr CHR 0x5C, chr CHR 0x22], 3, False)" for prev
  proof -
    have "unescape (chr CHR 0x5C) = None" "unescape (chr CHR 0x22) = None" "put_byte (chr CHR 0x5C) = [chr CHR 0x5C]"
      "put_byte (chr CHR 0x22) = [chr CHR 0x22]" by code_simp+
    then show ?thesis by simp
  qed
  have drop: "drop (Suc 0) ?s = concat (map escape_byte t) @ [chr CHR 0x5C, chr CHR 0x5C, chr CHR 0x22]" by simp
  have "dquoted (drop (Suc 0) ?s) (chr CHR 0x22) = (t @ [chr CHR 0x5C, chr CHR 0x5C, chr CHR 0x22], length (concat (map escape_byte t)) + 3, False)"
    unfolding drop by (rule dquoted_escape_append [OF assms(1) _ tail]) simp
  from parseDQUOTE_ok [OF nz _ assms(2) this, of True] obtain m n where
    "parseDQUOTE True (?s @ [0]) env 0 = Some (err_tk True (lit ''must close with '' @ [chr CHR 0x22]) (env\<lparr>cwb := m\<rparr>), n)"
    by auto
  moreover have "tt (curtk (err_tk True msg e)) = TK_ERR \<and> err_count (err_tk True msg e) = err_count e + 1" for msg e
    by (simp add: err_tk_def vperrorf_def T_emsg_def Let_def upd_tk_def Token_toERR_def set_text_def set_tt_def)
  ultimately show ?thesis by simp
qed

theorem parseDQUOTE_backslash_witness:
  "\<exists>env' n. parseDQUOTE True (chr CHR 0x22 # concat (map escape_byte (lit ''c:'')) @ [chr CHR 0x5C, chr CHR 0x5C, chr CHR 0x22, 0])
       (env_of (karray_init 1 \<lparr>bytesize = 0, bytebuf = [], bytemax = 0\<rparr> 8)) 0 = Some (env', n)
     \<and> tt (curtk env') = TK_ERR \<and> err_count env' = 1"
proof -
  have "list_all text_byte (lit ''c:'')" by code_simp
  then show ?thesis
    using parseDQUOTE_backslash [of "lit ''c:''" "env_of (karray_init 1 \<lparr>bytesize = 0, bytebuf = [], bytemax = 0\<rparr> 8)"]
      karray_init_ok [of 1 "\<lparr>bytesize = 0, bytebuf = [], bytemax = 0\<rparr>" 8]
    by (simp add: env_of_def)
qed

end
