(* ===== verification/Vm.thy ===== *)
theory Vm
  imports Prelude
begin

text \<open>
  The virtual machine of \<^verbatim>\<open>src/vm/minivm.h\<close> and the macros of \<^verbatim>\<open>src/vm/vm.h\<close> that give its
  instructions their meaning.

  A register is a machine word or a code pointer (\<^verbatim>\<open>krbp_t\<close> is a union; every member the
  machine uses other than \<^verbatim>\<open>pc\<close> is a word). Addresses of objects, methods and classes are words,
  a code pointer is an index into a code array. Reading a code pointer as a number, calling
  through an address that is no method, leaving a code array and jumping to NULL are undefined.
\<close>

section \<open>Instructions\<close>

type_synonym codeptr = "nat \<times> nat"

datatype klr_Fth = Fth_THCODE

datatype kop =
    klr_NOP
  | klr_THCODE klr_Fth
  | klr_ENTER
  | klr_EXIT
  | klr_NSET int u64 u64
  | klr_NMOV int int u64
  | klr_NMOVx int int u64 u64
  | klr_XNMOV int u64 int u64
  | klr_NEW int u64 u64
  | klr_NULL int u64
  | klr_BOX int int u64
  | klr_UNBOX int int u64
  | klr_CALL u64 int int u64
  | klr_SCALL u64 int int u64 u64
  | klr_RET
  | klr_NCALL
  | klr_BNOT int int
  | klr_JMP "codeptr option"
  | klr_JMPF "codeptr option" int
  | klr_SAFEPOINT int
  | klr_ERROR int u64
  | klr_VCALL u64 int int u64 u64

text \<open>The number of an instruction, its position in the tables.\<close>

fun opcode :: "kop \<Rightarrow> nat" where
  "opcode klr_NOP = 0"
| "opcode (klr_THCODE _) = 1"
| "opcode klr_ENTER = 2"
| "opcode klr_EXIT = 3"
| "opcode (klr_NSET _ _ _) = 4"
| "opcode (klr_NMOV _ _ _) = 5"
| "opcode (klr_NMOVx _ _ _ _) = 6"
| "opcode (klr_XNMOV _ _ _ _) = 7"
| "opcode (klr_NEW _ _ _) = 8"
| "opcode (klr_NULL _ _) = 9"
| "opcode (klr_BOX _ _ _) = 10"
| "opcode (klr_UNBOX _ _ _) = 11"
| "opcode (klr_CALL _ _ _ _) = 12"
| "opcode (klr_SCALL _ _ _ _ _) = 13"
| "opcode klr_RET = 14"
| "opcode klr_NCALL = 15"
| "opcode (klr_BNOT _ _) = 16"
| "opcode (klr_JMP _) = 17"
| "opcode (klr_JMPF _ _) = 18"
| "opcode (klr_SAFEPOINT _) = 19"
| "opcode (klr_ERROR _ _) = 20"
| "opcode (klr_VCALL _ _ _ _ _) = 21"

definition KOPCODE_MAX :: nat where
  "KOPCODE_MAX = 22"

text \<open>The slot of an instruction in a code array, \<^verbatim>\<open>kopl_t\<close>, with \<^verbatim>\<open>K_USING_THCODE_\<close>.\<close>

record kopl =
  codeaddr :: "nat option"
  count :: nat
  line :: u32
  body :: kop

section \<open>The table of instructions\<close>

text \<open>
  An operand as the union member of \<^verbatim>\<open>kopl_t\<close> a dump would read, and the operands of an
  instruction in the order of its struct.
\<close>

datatype operand =
    Oth klr_Fth
  | Oaddr "codeptr option"
  | Oreg int
  | Ouint u64
  | Oint u64
  | Oclass u64
  | Oobject u64
  | Ostring u64
  | Omethod u64

fun operands :: "kop \<Rightarrow> operand list" where
  "operands klr_NOP = []"
| "operands (klr_THCODE th) = [Oth th]"
| "operands klr_ENTER = []"
| "operands klr_EXIT = []"
| "operands (klr_NSET a n ty) = [Oreg a, Oint n, Oclass ty]"
| "operands (klr_NMOV a b ty) = [Oreg a, Oreg b, Oclass ty]"
| "operands (klr_NMOVx a b bx ty) = [Oreg a, Oreg b, Ouint bx, Oclass ty]"
| "operands (klr_XNMOV a ax b ty) = [Oreg a, Ouint ax, Oreg b, Oclass ty]"
| "operands (klr_NEW a p ty) = [Oreg a, Ouint p, Oclass ty]"
| "operands (klr_NULL a ty) = [Oreg a, Oclass ty]"
| "operands (klr_BOX a b ty) = [Oreg a, Oreg b, Oclass ty]"
| "operands (klr_UNBOX a b ty) = [Oreg a, Oreg b, Oclass ty]"
| "operands (klr_CALL ul this espshift tyo) = [Ouint ul, Oreg this, Oreg espshift, Oobject tyo]"
| "operands (klr_SCALL ul this espshift mtd tyo) =
     [Ouint ul, Oreg this, Oreg espshift, Omethod mtd, Oobject tyo]"
| "operands klr_RET = []"
| "operands klr_NCALL = []"
| "operands (klr_BNOT c a) = [Oreg c, Oreg a]"
| "operands (klr_JMP pc) = [Oaddr pc]"
| "operands (klr_JMPF pc a) = [Oaddr pc, Oreg a]"
| "operands (klr_SAFEPOINT espshift) = [Oreg espshift]"
| "operands (klr_ERROR start msg) = [Oreg start, Ostring msg]"
| "operands (klr_VCALL ul this espshift mtd tyo) =
     [Ouint ul, Oreg this, Oreg espshift, Omethod mtd, Oobject tyo]"

definition VMT_VOID :: nat where "VMT_VOID = 0"
definition VMT_ADDR :: nat where "VMT_ADDR = 1"
definition VMT_R :: nat where "VMT_R = 2"
definition VMT_RN :: nat where "VMT_RN = 2"
definition VMT_RO :: nat where "VMT_RO = 2"
definition VMT_U :: nat where "VMT_U = 3"
definition VMT_I :: nat where "VMT_I = 4"
definition VMT_CID :: nat where "VMT_CID = 5"
definition VMT_CO :: nat where "VMT_CO = 6"
definition VMT_INT :: nat where "VMT_INT = 7"
definition VMT_F :: nat where "VMT_F = 10"
definition VMT_STRING :: nat where "VMT_STRING = 11"
definition VMT_METHOD :: nat where "VMT_METHOD = 12"

lemmas VMT_defs = VMT_VOID_def VMT_ADDR_def VMT_R_def VMT_RN_def VMT_RO_def VMT_U_def VMT_I_def
  VMT_CID_def VMT_CO_def VMT_INT_def VMT_F_def VMT_STRING_def VMT_METHOD_def

record kOPDATA =
  opname :: string
  opflag :: u32
  opsize :: nat
  optypes :: "nat list"

definition opdata :: "string \<Rightarrow> nat \<Rightarrow> nat list \<Rightarrow> kOPDATA" where
  "opdata n s ts = \<lparr>opname = n, opflag = 0, opsize = s, optypes = ts\<rparr>"

definition OPDATA :: "kOPDATA list" where
  "OPDATA =
    [opdata ''NOP'' 0 [VMT_VOID],
     opdata ''THCODE'' 1 [VMT_F, VMT_VOID],
     opdata ''ENTER'' 0 [VMT_VOID],
     opdata ''EXIT'' 0 [VMT_VOID],
     opdata ''NSET'' 3 [VMT_RN, VMT_INT, VMT_CID, VMT_VOID],
     opdata ''NMOV'' 3 [VMT_RN, VMT_RN, VMT_CID, VMT_VOID],
     opdata ''NMOVx'' 4 [VMT_RN, VMT_RO, VMT_U, VMT_CID, VMT_VOID],
     opdata ''XNMOV'' 4 [VMT_RO, VMT_U, VMT_RN, VMT_CID, VMT_VOID],
     opdata ''NEW'' 3 [VMT_RO, VMT_U, VMT_CID, VMT_VOID],
     opdata ''NULL'' 2 [VMT_RO, VMT_CID, VMT_VOID],
     opdata ''BOX'' 3 [VMT_RO, VMT_RN, VMT_CID, VMT_VOID],
     opdata ''UNBOX'' 3 [VMT_RN, VMT_RO, VMT_CID, VMT_VOID],
     opdata ''CALL'' 4 [VMT_U, VMT_RO, VMT_RO, VMT_CO, VMT_VOID],
     opdata ''SCALL'' 5 [VMT_U, VMT_RO, VMT_RO, VMT_METHOD, VMT_CO, VMT_VOID],
     opdata ''RET'' 0 [VMT_VOID],
     opdata ''NCALL'' 0 [VMT_VOID],
     opdata ''BNOT'' 2 [VMT_RN, VMT_RN, VMT_VOID],
     opdata ''JMP'' 1 [VMT_ADDR, VMT_VOID],
     opdata ''JMPF'' 2 [VMT_ADDR, VMT_RN, VMT_VOID],
     opdata ''SAFEPOINT'' 1 [VMT_RO, VMT_VOID],
     opdata ''ERROR'' 2 [VMT_RO, VMT_STRING, VMT_VOID],
     opdata ''VCALL'' 5 [VMT_U, VMT_RO, VMT_RO, VMT_METHOD, VMT_CO, VMT_VOID]]"

text \<open>The sizes \<^verbatim>\<open>opcode_check\<close> compares, in bytes of the LP64 build.\<close>

definition sizeof_KCODE_HEAD :: nat where
  "sizeof_KCODE_HEAD = 8 + 8 + 4 + 4"

definition sizeof_kopl :: nat where
  "sizeof_kopl = sizeof_KCODE_HEAD + 5 * 8"

definition sizeof_klr :: "kop \<Rightarrow> nat" where
  "sizeof_klr k = sizeof_KCODE_HEAD + 8 * length (operands k)"

definition opcode_check :: "bool" where
  "opcode_check \<longleftrightarrow>
     list_all (\<lambda>k. sizeof_klr k \<le> sizeof_kopl)
       [klr_NOP, klr_THCODE Fth_THCODE, klr_ENTER, klr_EXIT, klr_NSET 0 0 0, klr_NMOV 0 0 0,
        klr_NMOVx 0 0 0 0, klr_XNMOV 0 0 0 0, klr_NEW 0 0 0, klr_NULL 0 0, klr_BOX 0 0 0,
        klr_UNBOX 0 0 0, klr_CALL 0 0 0 0, klr_SCALL 0 0 0 0 0, klr_RET, klr_NCALL, klr_BNOT 0 0,
        klr_JMP None, klr_JMPF None 0, klr_SAFEPOINT 0, klr_ERROR 0 0, klr_VCALL 0 0 0 0 0]"

definition T_opcode :: "nat \<Rightarrow> string" where
  "T_opcode n = (if n < KOPCODE_MAX then opname (OPDATA ! n) else ''OPCODE_??'')"

section \<open>The state of the machine\<close>

definition K_CALLDELTA :: int where "K_CALLDELTA = 4"
definition K_RTNIDX :: int where "K_RTNIDX = -4"
definition K_SHIFTIDX :: int where "K_SHIFTIDX = -3"
definition K_PCIDX :: int where "K_PCIDX = -2"
definition K_MTDIDX :: int where "K_MTDIDX = -1"
definition K_ULINEIDX2 :: int where "K_ULINEIDX2 = -7"
definition K_SHIFTIDX2 :: int where "K_SHIFTIDX2 = -5"
definition K_PCIDX2 :: int where "K_PCIDX2 = -3"
definition K_MTDIDX2 :: int where "K_MTDIDX2 = -1"

lemmas K_idx_defs = K_CALLDELTA_def K_RTNIDX_def K_SHIFTIDX_def K_PCIDX_def K_MTDIDX_def
  K_ULINEIDX2_def K_SHIFTIDX2_def K_PCIDX2_def K_MTDIDX2_def

text \<open>
  Register \<open>2i\<close> is the object half of stack slot \<open>i\<close>, register \<open>2i + 1\<close> its number half; a
  stack pointer (\<^verbatim>\<open>ksfp_t *\<close>) is the even register it starts at.
\<close>

definition NC :: "int \<Rightarrow> int" where
  "NC sfpidx = sfpidx * 2 + 1"

definition OC :: "int \<Rightarrow> int" where
  "OC sfpidx = sfpidx * 2"

definition SFP :: "int \<Rightarrow> int" where
  "SFP sfpidx = sfpidx * 2"

lemmas reg_defs = NC_def OC_def SFP_def

datatype krbp = Word u64 | Pc "codeptr option"

record kobj =
  ct :: u64
  ofields :: "u64 list"

datatype fmethod = Fmethod_abstract | Fmethod_runVM | Fmethod_native nat

definition kMethod_Virtual :: u64 where "kMethod_Virtual = 2"
definition kMethod_Static :: u64 where "kMethod_Static = 16"

record kMethod =
  fcall_1 :: fmethod
  pc_start :: "codeptr option"
  flag :: u64
  cid :: u32
  mn :: u32
  kcode :: "nat option"

definition kMethod_isVirtual :: "kMethod \<Rightarrow> bool" where
  "kMethod_isVirtual m \<longleftrightarrow> and (flag m) kMethod_Virtual = kMethod_Virtual"

definition kMethod_isStatic :: "kMethod \<Rightarrow> bool" where
  "kMethod_isStatic m \<longleftrightarrow> and (flag m) kMethod_Static = kMethod_Static"

text \<open>The code of a method, \<^verbatim>\<open>kKonohaCode\<close>.\<close>

record kKonohaCode =
  kc_code :: "kopl list"
  codesize :: nat
  fileid :: u64

type_synonym heap = "u64 \<Rightarrow> kobj option"

record vm =
  regs :: "int \<Rightarrow> krbp"
  esp :: int
  stack_uplimit :: int
  objs :: heap
  mtds :: "u64 \<Rightarrow> kMethod option"
  codes :: "kKonohaCode list"
  PRECOMPILED_ENTER :: "codeptr option"
  PRECOMPILED_NCALL :: "codeptr option"
  konoha_AssertResult :: bool

text \<open>What makes the machine stop with \<^verbatim>\<open>kraise\<close>, a long jump to the top level.\<close>

datatype verr = Stack_overflow u64 | Script_error u64 | Zero_divided u64 | Assert_failed u64

text \<open>
  Code the machine calls through function pointers: the constructors of classes, their null
  values, and the native methods by number.
\<close>

record venv =
  new_kObject :: "u64 \<Rightarrow> u64 \<Rightarrow> heap \<Rightarrow> (u64 \<times> heap) option"
  knull :: "u64 \<Rightarrow> heap \<Rightarrow> (u64 \<times> heap) option"
  native :: "nat \<Rightarrow> vm \<Rightarrow> int \<Rightarrow> ((vm \<times> verr) + vm) option"

section \<open>Registers\<close>

definition rset :: "int \<Rightarrow> krbp \<Rightarrow> vm \<Rightarrow> vm" where
  "rset i v s = s\<lparr>regs := (regs s)(i := v)\<rparr>"

definition ndata :: "vm \<Rightarrow> int \<Rightarrow> u64 option" where
  "ndata s i = (case regs s i of Word w \<Rightarrow> Some w | Pc _ \<Rightarrow> None)"

definition rpc :: "vm \<Rightarrow> int \<Rightarrow> codeptr option option" where
  "rpc s i = (case regs s i of Word _ \<Rightarrow> None | Pc p \<Rightarrow> Some p)"

text \<open>\<^verbatim>\<open>bvalue\<close> is the low byte of its word.\<close>

definition truth :: "u64 \<Rightarrow> bool" where
  "truth w \<longleftrightarrow> take_bit 8 w \<noteq> 0"

definition set_truth :: "bool \<Rightarrow> u64 \<Rightarrow> u64" where
  "set_truth b w = or (and w (not 0xFF)) (if b then 1 else 0)"

definition rmtd :: "vm \<Rightarrow> int \<Rightarrow> kMethod option" where
  "rmtd s i = do { w \<leftarrow> ndata s i; mtds s w }"

definition code_at :: "vm \<Rightarrow> codeptr \<Rightarrow> kopl option" where
  "code_at s pc = do {
     c \<leftarrow> mem_get (codes s) (fst pc);
     mem_get (kc_code c) (snd pc)
   }"

definition PC_NEXT :: "codeptr \<Rightarrow> codeptr" where
  "PC_NEXT pc = (fst pc, snd pc + 1)"

section \<open>The instructions' effects\<close>

text \<open>
  One instruction ends in a jump to a code pointer (with the register base it runs on), in the
  machine's own return, or in a long jump out of it.
\<close>

datatype vmstep =
    Goto vm int "codeptr option"
  | Leave vm "codeptr option"
  | Longjmp vm verr

definition OPEXEC_NSET :: "int \<Rightarrow> int \<Rightarrow> u64 \<Rightarrow> vm \<Rightarrow> vm option" where
  "OPEXEC_NSET rbp a n s = Some (rset (rbp + a) (Word n) s)"

definition OPEXEC_NMOV :: "int \<Rightarrow> int \<Rightarrow> int \<Rightarrow> vm \<Rightarrow> vm option" where
  "OPEXEC_NMOV rbp a b s = Some (rset (rbp + a) (regs s (rbp + b)) s)"

definition OPEXEC_NMOVx :: "int \<Rightarrow> int \<Rightarrow> int \<Rightarrow> u64 \<Rightarrow> vm \<Rightarrow> vm option" where
  "OPEXEC_NMOVx rbp a b bx s = do {
     w \<leftarrow> ndata s (rbp + b);
     ob \<leftarrow> objs s w;
     x \<leftarrow> mem_get (ofields ob) (unat bx);
     Some (rset (rbp + a) (Word x) s)
   }"

definition OPEXEC_XNMOV :: "int \<Rightarrow> int \<Rightarrow> u64 \<Rightarrow> int \<Rightarrow> vm \<Rightarrow> vm option" where
  "OPEXEC_XNMOV rbp a ax b s = do {
     w \<leftarrow> ndata s (rbp + a);
     ob \<leftarrow> objs s w;
     x \<leftarrow> ndata s (rbp + b);
     fs \<leftarrow> mem_put (ofields ob) (unat ax) x;
     Some (s\<lparr>objs := (objs s)(w := Some (ob\<lparr>ofields := fs\<rparr>))\<rparr>)
   }"

definition OPEXEC_NEW :: "venv \<Rightarrow> int \<Rightarrow> int \<Rightarrow> u64 \<Rightarrow> u64 \<Rightarrow> vm \<Rightarrow> vm option" where
  "OPEXEC_NEW env rbp a p ty s = do {
     (w, h) \<leftarrow> new_kObject env ty p (objs s);
     Some (rset (rbp + a) (Word w) (s\<lparr>objs := h\<rparr>))
   }"

definition OPEXEC_NULL :: "venv \<Rightarrow> int \<Rightarrow> int \<Rightarrow> u64 \<Rightarrow> vm \<Rightarrow> vm option" where
  "OPEXEC_NULL env rbp a ty s = do {
     (w, h) \<leftarrow> knull env ty (objs s);
     Some (rset (rbp + a) (Word w) (s\<lparr>objs := h\<rparr>))
   }"

definition OPEXEC_BOX :: "venv \<Rightarrow> int \<Rightarrow> int \<Rightarrow> int \<Rightarrow> u64 \<Rightarrow> vm \<Rightarrow> vm option" where
  "OPEXEC_BOX env rbp a b ty s = do {
     n \<leftarrow> ndata s (rbp + b);
     OPEXEC_NEW env rbp a n ty s
   }"

definition N_toint :: "vm \<Rightarrow> u64 \<Rightarrow> u64 option" where
  "N_toint s w = do { ob \<leftarrow> objs s w; mem_get (ofields ob) 0 }"

definition OPEXEC_UNBOX :: "int \<Rightarrow> int \<Rightarrow> int \<Rightarrow> vm \<Rightarrow> vm option" where
  "OPEXEC_UNBOX rbp a b s = do {
     w \<leftarrow> ndata s (rbp + b);
     n \<leftarrow> N_toint s w;
     Some (rset (rbp + a) (Word n) s)
   }"

definition OPEXEC_BNOT :: "int \<Rightarrow> int \<Rightarrow> int \<Rightarrow> vm \<Rightarrow> vm option" where
  "OPEXEC_BNOT rbp c a s = do {
     w \<leftarrow> ndata s (rbp + a);
     old \<leftarrow> ndata s (rbp + c);
     Some (rset (rbp + c) (Word (set_truth (\<not> truth w) old)) s)
   }"

definition OPEXEC_SAFEPOINT :: "int \<Rightarrow> int \<Rightarrow> vm \<Rightarrow> vm option" where
  "OPEXEC_SAFEPOINT rbp rs s = Some (s\<lparr>esp := rbp + rs\<rparr>)"

text \<open>Calls. The stack check comes after the stack pointer has moved.\<close>

definition stack_overflow :: "vm \<Rightarrow> bool" where
  "stack_overflow s \<longleftrightarrow> esp s > stack_uplimit s"

definition call_frame :: "int \<Rightarrow> int \<Rightarrow> u64 \<Rightarrow> u64 \<Rightarrow> codeptr \<Rightarrow> vm \<Rightarrow> vm" where
  "call_frame rbp this ul cto pc s =
     rset (rbp + K_PCIDX2) (Pc (Some (PC_NEXT pc)))
       (rset (rbp + K_SHIFTIDX2) (Word (word_of_int this))
         (rset (rbp + K_ULINEIDX2) (Word ul)
           (rset (rbp + K_ULINEIDX2 - 1) (Word cto) s)))"

definition OPEXEC_VCALL ::
    "int \<Rightarrow> u64 \<Rightarrow> int \<Rightarrow> int \<Rightarrow> u64 \<Rightarrow> u64 \<Rightarrow> codeptr \<Rightarrow> vm \<Rightarrow> vmstep option" where
  "OPEXEC_VCALL rbp ul this espshift mtd cto pc s = (
     let s = s\<lparr>esp := rbp + espshift\<rparr>
     in if stack_overflow s then Some (Longjmp s (Stack_overflow ul))
        else let rbp = rbp + this;
                 s = call_frame rbp this ul cto pc s
             in do { m \<leftarrow> mtds s mtd; Some (Goto s rbp (pc_start m)) })"

definition OPEXEC_CALL ::
    "int \<Rightarrow> u64 \<Rightarrow> int \<Rightarrow> int \<Rightarrow> u64 \<Rightarrow> codeptr \<Rightarrow> vm \<Rightarrow> vmstep option" where
  "OPEXEC_CALL rbp ul this espshift cto pc s = do {
     mtd \<leftarrow> ndata s (rbp + (this + K_MTDIDX2));
     OPEXEC_VCALL rbp ul this espshift mtd cto pc s
   }"

definition OPEXEC_RET :: "int \<Rightarrow> vm \<Rightarrow> vmstep option" where
  "OPEXEC_RET rbp s = do {
     vshift \<leftarrow> ndata s (rbp + K_SHIFTIDX2);
     vpc \<leftarrow> rpc s (rbp + K_PCIDX2);
     Some (Goto (rset (rbp + K_MTDIDX2) (Word 0) s) (rbp - sint vshift) vpc)
   }"

type_synonym fcall = "kMethod \<Rightarrow> vm \<Rightarrow> int \<Rightarrow> ((vm \<times> verr) + vm) option"

definition OPEXEC_SCALL ::
    "fcall \<Rightarrow> int \<Rightarrow> u64 \<Rightarrow> int \<Rightarrow> int \<Rightarrow> u64 \<Rightarrow> u64 \<Rightarrow> codeptr \<Rightarrow> vm \<Rightarrow> vmstep option" where
  "OPEXEC_SCALL call rbp ul thisidx espshift mtd cto pc s = (
     let sfp = rbp + thisidx;
         s = call_frame sfp thisidx ul cto pc s;
         s = rset (sfp + K_MTDIDX2) (Word mtd) s;
         s = s\<lparr>esp := rbp + espshift\<rparr>
     in do {
       m \<leftarrow> mtds s mtd;
       r \<leftarrow> call m s sfp;
       Some (case r of Inl (s, e) \<Rightarrow> Longjmp s e
             | Inr s \<Rightarrow> Goto (rset (sfp + K_MTDIDX2) (Word 0) s) rbp (Some (PC_NEXT pc)))
     })"

definition OPEXEC_ENTER :: "int \<Rightarrow> codeptr \<Rightarrow> vm \<Rightarrow> vmstep option" where
  "OPEXEC_ENTER rbp pc s = do {
     m \<leftarrow> rmtd s (rbp + K_MTDIDX2);
     Some (Goto (rset (rbp + K_PCIDX2) (Pc (Some (PC_NEXT pc)))
                  (rset (rbp + K_SHIFTIDX2) (Word 0) s)) rbp (pc_start m))
   }"

definition OPEXEC_NCALL :: "fcall \<Rightarrow> int \<Rightarrow> vm \<Rightarrow> vmstep option" where
  "OPEXEC_NCALL call rbp s = do {
     m \<leftarrow> rmtd s (rbp + K_MTDIDX2);
     r \<leftarrow> call m s rbp;
     (case r of Inl (s, e) \<Rightarrow> Some (Longjmp s e) | Inr s \<Rightarrow> OPEXEC_RET rbp s)
   }"

definition OPEXEC_JMPF :: "int \<Rightarrow> codeptr option \<Rightarrow> int \<Rightarrow> codeptr \<Rightarrow> vm \<Rightarrow> vmstep option" where
  "OPEXEC_JMPF rbp jumppc n pc s = do {
     w \<leftarrow> ndata s (rbp + n);
     Some (Goto s rbp (if \<not> truth w then jumppc else Some (PC_NEXT pc)))
   }"

text \<open>
  \<^verbatim>\<open>_THCODE\<close> gives every instruction up to the first \<^verbatim>\<open>RET\<close> the label of its opcode; the machine
  then returns the pointer behind the \<^verbatim>\<open>THCODE\<close>.
\<close>

fun THCODE_fill :: "kopl list \<Rightarrow> kopl list option" where
  "THCODE_fill [] = None"
| "THCODE_fill (k # ks) =
     (let k = k\<lparr>codeaddr := Some (opcode (body k))\<rparr>
      in if body k = klr_RET then Some (k # ks)
         else do { ks \<leftarrow> THCODE_fill ks; Some (k # ks) })"

definition OPEXEC_THCODE :: "codeptr \<Rightarrow> vm \<Rightarrow> vmstep option" where
  "OPEXEC_THCODE pc s = do {
     c \<leftarrow> mem_get (codes s) (fst pc);
     ks \<leftarrow> THCODE_fill (drop (snd pc) (kc_code c));
     let c = c\<lparr>kc_code := take (snd pc) (kc_code c) @ ks\<rparr>;
     Some (Leave (s\<lparr>codes := (codes s)[fst pc := c]\<rparr>) (Some (PC_NEXT pc)))
   }"

section \<open>The loop of the machine\<close>

definition plain :: "int \<Rightarrow> codeptr \<Rightarrow> vm option \<Rightarrow> vmstep option" where
  "plain rbp pc r = do { s \<leftarrow> r; Some (Goto s rbp (Some (PC_NEXT pc))) }"

fun VirtualMachine_step ::
    "fcall \<Rightarrow> venv \<Rightarrow> vm \<Rightarrow> int \<Rightarrow> codeptr \<Rightarrow> kop \<Rightarrow> vmstep option" where
  "VirtualMachine_step call env s rbp pc klr_NOP = plain rbp pc (Some s)"
| "VirtualMachine_step call env s rbp pc (klr_THCODE th) = OPEXEC_THCODE pc s"
| "VirtualMachine_step call env s rbp pc klr_ENTER = OPEXEC_ENTER rbp pc s"
| "VirtualMachine_step call env s rbp pc klr_EXIT = Some (Leave s None)"
| "VirtualMachine_step call env s rbp pc (klr_NSET a n ty) = plain rbp pc (OPEXEC_NSET rbp a n s)"
| "VirtualMachine_step call env s rbp pc (klr_NMOV a b ty) = plain rbp pc (OPEXEC_NMOV rbp a b s)"
| "VirtualMachine_step call env s rbp pc (klr_NMOVx a b bx ty) =
     plain rbp pc (OPEXEC_NMOVx rbp a b bx s)"
| "VirtualMachine_step call env s rbp pc (klr_XNMOV a ax b ty) =
     plain rbp pc (OPEXEC_XNMOV rbp a ax b s)"
| "VirtualMachine_step call env s rbp pc (klr_NEW a p ty) = plain rbp pc (OPEXEC_NEW env rbp a p ty s)"
| "VirtualMachine_step call env s rbp pc (klr_NULL a ty) = plain rbp pc (OPEXEC_NULL env rbp a ty s)"
| "VirtualMachine_step call env s rbp pc (klr_BOX a b ty) = plain rbp pc (OPEXEC_BOX env rbp a b ty s)"
| "VirtualMachine_step call env s rbp pc (klr_UNBOX a b ty) = plain rbp pc (OPEXEC_UNBOX rbp a b s)"
| "VirtualMachine_step call env s rbp pc (klr_CALL ul this espshift tyo) =
     OPEXEC_CALL rbp ul this espshift tyo pc s"
| "VirtualMachine_step call env s rbp pc (klr_SCALL ul this espshift mtd tyo) =
     OPEXEC_SCALL call rbp ul this espshift mtd tyo pc s"
| "VirtualMachine_step call env s rbp pc klr_RET = OPEXEC_RET rbp s"
| "VirtualMachine_step call env s rbp pc klr_NCALL = OPEXEC_NCALL call rbp s"
| "VirtualMachine_step call env s rbp pc (klr_BNOT c a) = plain rbp pc (OPEXEC_BNOT rbp c a s)"
| "VirtualMachine_step call env s rbp pc (klr_JMP jumppc) = Some (Goto s rbp jumppc)"
| "VirtualMachine_step call env s rbp pc (klr_JMPF jumppc a) = OPEXEC_JMPF rbp jumppc a pc s"
| "VirtualMachine_step call env s rbp pc (klr_SAFEPOINT espshift) =
     plain rbp pc (OPEXEC_SAFEPOINT rbp espshift s)"
| "VirtualMachine_step call env s rbp pc (klr_ERROR start msg) =
     Some (Longjmp s (Script_error msg))"
| "VirtualMachine_step call env s rbp pc (klr_VCALL ul this espshift mtd tyo) =
     OPEXEC_VCALL rbp ul this espshift mtd tyo pc s"

text \<open>
  How a run ends. The first dispatch goes through the table \<^verbatim>\<open>OPJUMP\<close> of the opcode, every later
  one jumps to the label stored in the instruction, which is undefined as long as
  \<^verbatim>\<open>_THCODE\<close> has not written it. \<open>fuel\<close> bounds the number of instructions and of nested calls;
  a run that exhausts it has no result.
\<close>

datatype vmend = Returned vm "codeptr option" | Raised vm verr

fun exec :: "nat \<Rightarrow> venv \<Rightarrow> bool \<Rightarrow> vm \<Rightarrow> int \<Rightarrow> codeptr option \<Rightarrow> vmend option"
and fcall :: "nat \<Rightarrow> venv \<Rightarrow> fcall" where
  "exec 0 env first s rbp pc = None"
| "exec (Suc fuel) env first s rbp pc = do {
     pc \<leftarrow> pc;
     k \<leftarrow> code_at s pc;
     if first \<or> codeaddr k = Some (opcode (body k)) then do {
       r \<leftarrow> VirtualMachine_step (fcall fuel env) env s rbp pc (body k);
       (case r of Goto s rbp pc \<Rightarrow> exec fuel env False s rbp pc
                | Leave s pc \<Rightarrow> Some (Returned s pc)
                | Longjmp s e \<Rightarrow> Some (Raised s e))
     } else None
   }"
| "fcall 0 env m s sfp = None"
| "fcall (Suc fuel) env m s sfp =
     (case fcall_1 m of
        Fmethod_abstract \<Rightarrow> Some (Inr (rset (sfp + NC K_RTNIDX) (Word 0) s))
      | Fmethod_native n \<Rightarrow> native env n s sfp
      | Fmethod_runVM \<Rightarrow> do {
          _ \<leftarrow> rmtd s (sfp + K_MTDIDX2);
          r \<leftarrow> exec fuel env True s sfp (PRECOMPILED_ENTER s);
          Some (case r of Returned s _ \<Rightarrow> Inr s | Raised s e \<Rightarrow> Inl (s, e))
        })"

definition VirtualMachine_run :: "nat \<Rightarrow> venv \<Rightarrow> vm \<Rightarrow> int \<Rightarrow> codeptr option \<Rightarrow> vmend option" where
  "VirtualMachine_run fuel env s sfp0 pc = exec fuel env True s sfp0 pc"

end
