(* ===== verification/Codegen.thy ===== *)
theory Codegen
  imports Vm
begin

text \<open>
  Code generation, the first half of \<^verbatim>\<open>src/vm/asm.c\<close>: typed expressions and statements become
  basic blocks of instructions.

  Basic blocks live in an arena and refer to each other by index; \<open>None\<close> is NULL. Every function
  threads the generator's state \<^verbatim>\<open>ctxcode_t\<close>; it is undefined where the code would add to the
  current block while there is none, follow a missing label or fail an assertion.
\<close>

section \<open>Typed trees\<close>

text \<open>
  \<^verbatim>\<open>kExpr\<close> by its \<^verbatim>\<open>build\<close>, with the type and the members of its unions that this build
  uses. The operands of a call, an AND and an OR are the elements of \<^verbatim>\<open>cons\<close> from index 1 on. A
  loop carries its address, and a jump statement the address of the loop it belongs to and its
  keyword.
\<close>

datatype jumpkw = KW_continue | KW_break

datatype kexpr =
    TEXPR_CONST u32 u64
  | TEXPR_NEW u32 u64
  | TEXPR_NULL u32
  | TEXPR_NCONST u32 u64
  | TEXPR_LOCAL u32 int
  | TEXPR_BLOCK u32 kblock
  | TEXPR_FIELD u32 u64
  | TEXPR_BOX u32 kexpr
  | TEXPR_UNBOX u32 kexpr
  | TEXPR_CALL u32 u64 "kexpr list"
  | TEXPR_AND u32 "kexpr list"
  | TEXPR_OR u32 "kexpr list"
  | TEXPR_LET u32 kexpr kexpr
  | TEXPR_STACKTOP u32 int
and kbuild =
    TSTMT_UNDEFINED
  | TSTMT_ERR u64
  | TSTMT_EXPR "kexpr option"
  | TSTMT_BLOCK kblock
  | TSTMT_RETURN "kexpr option"
  | TSTMT_IF kexpr kblock kblock
  | TSTMT_LOOP nat kexpr kblock
  | TSTMT_JUMP nat jumpkw
and kstmt = kStmt u64 bool kbuild
and kblock = kBlock bool int "kstmt list"

primrec expr_ty :: "kexpr \<Rightarrow> u32" where
  "expr_ty (TEXPR_CONST ty _) = ty"
| "expr_ty (TEXPR_NEW ty _) = ty"
| "expr_ty (TEXPR_NULL ty) = ty"
| "expr_ty (TEXPR_NCONST ty _) = ty"
| "expr_ty (TEXPR_LOCAL ty _) = ty"
| "expr_ty (TEXPR_BLOCK ty _) = ty"
| "expr_ty (TEXPR_FIELD ty _) = ty"
| "expr_ty (TEXPR_BOX ty _) = ty"
| "expr_ty (TEXPR_UNBOX ty _) = ty"
| "expr_ty (TEXPR_CALL ty _ _) = ty"
| "expr_ty (TEXPR_AND ty _) = ty"
| "expr_ty (TEXPR_OR ty _) = ty"
| "expr_ty (TEXPR_LET ty _ _) = ty"
| "expr_ty (TEXPR_STACKTOP ty _) = ty"

section \<open>Basic blocks and the generator's state\<close>

text \<open>\<open>op\<close> is the array of instructions, \<open>opmax\<close> its capacity in instructions.\<close>

record kBasicBlock =
  bbid :: u32
  incoming :: u32
  ops :: "kopl list"
  opmax :: nat
  nextNC :: "nat option"
  jumpNC :: "nat option"
  bcode :: "nat option"
  opjmp :: "nat option"
  visited :: bool

definition BasicBlock_init :: kBasicBlock where
  "BasicBlock_init = \<lparr>bbid = 0, incoming = 0, ops = [], opmax = 0, nextNC = None, jumpNC = None,
     bcode = None, opjmp = None, visited = False\<rparr>"

record ctxcode =
  uline :: u64
  insts :: "nat list"
  lbEND :: "nat option"
  constPools :: "u64 list"
  curbb :: "nat option"
  bbs :: "kBasicBlock list"
  labels :: "nat \<times> jumpkw \<Rightarrow> nat option"

text \<open>What the generator asks of classes, objects and methods.\<close>

record cenv =
  TY_isUnbox :: "u32 \<Rightarrow> bool"
  CT_of :: "u32 \<Rightarrow> u64"
  null_of :: "u64 \<Rightarrow> u64"
  const_objs :: heap
  cmtds :: "u64 \<Rightarrow> kMethod option"
  CT_Boolean :: u64
  CT_Method :: u64
  TY_void :: u32

definition bb_set :: "nat \<Rightarrow> (kBasicBlock \<Rightarrow> kBasicBlock) \<Rightarrow> ctxcode \<Rightarrow> ctxcode option" where
  "bb_set n f st = do {
     b \<leftarrow> mem_get (bbs st) n;
     Some (st\<lparr>bbs := (bbs st)[n := f b]\<rparr>)
   }"

definition new_BasicBlockLABEL :: "ctxcode \<Rightarrow> nat \<times> ctxcode" where
  "new_BasicBlockLABEL st =
     (let n = length (bbs st);
          b = BasicBlock_init\<lparr>bbid := of_nat (length (insts st))\<rparr>
      in (n, st\<lparr>bbs := bbs st @ [b], insts := insts st @ [n]\<rparr>))"

definition kopl_of :: "kop \<Rightarrow> kopl" where
  "kopl_of k = \<lparr>codeaddr = None, count = 0, line = 0, body = k\<rparr>"

definition op_room :: "kBasicBlock \<Rightarrow> kBasicBlock" where
  "op_room b =
     (if opmax b = 0 then b\<lparr>ops := [], opmax := 1\<rparr>
      else if length (ops b) = opmax b then b\<lparr>opmax := max (2 * opmax b) 4\<rparr>
      else b)"

definition BasicBlock_add :: "nat \<Rightarrow> u32 \<Rightarrow> kop \<Rightarrow> ctxcode \<Rightarrow> ctxcode option" where
  "BasicBlock_add n ln k st = do {
     b \<leftarrow> mem_get (bbs st) n;
     let b = op_room b;
     if length (ops b) < opmax b
     then Some (st\<lparr>bbs := (bbs st)[n := b\<lparr>ops := ops b @ [(kopl_of k)\<lparr>line := ln\<rparr>]\<rparr>]\<rparr>)
     else None
   }"

definition is_JMPF :: "kop \<Rightarrow> bool" where
  "is_JMPF k \<longleftrightarrow> opcode k = 18"

definition BUILD_asm :: "kop \<Rightarrow> ctxcode \<Rightarrow> ctxcode option" where
  "BUILD_asm k st =
     (if is_JMPF k then None
      else do { n \<leftarrow> curbb st; BasicBlock_add n (ucast (uline st)) k st })"

definition BUILD_asmJMPF :: "kop \<Rightarrow> ctxcode \<Rightarrow> (bool \<times> ctxcode) option" where
  "BUILD_asmJMPF k st = do {
     n \<leftarrow> curbb st;
     st \<leftarrow> BasicBlock_add n (ucast (uline st)) k st;
     Some (False, st)
   }"

definition ASM_LABEL :: "nat \<Rightarrow> ctxcode \<Rightarrow> ctxcode option" where
  "ASM_LABEL label st = do {
     st \<leftarrow> (case curbb st of
              None \<Rightarrow> Some st
            | Some bb \<Rightarrow> do {
                st \<leftarrow> bb_set bb (\<lambda>b. b\<lparr>nextNC := Some label, jumpNC := None\<rparr>) st;
                bb_set label (\<lambda>b. b\<lparr>incoming := incoming b + 1\<rparr>) st
              });
     Some (st\<lparr>curbb := Some label\<rparr>)
   }"

definition ASM_JMP :: "nat \<Rightarrow> ctxcode \<Rightarrow> ctxcode option" where
  "ASM_JMP label st = do {
     st \<leftarrow> (case curbb st of
              None \<Rightarrow> Some st
            | Some bb \<Rightarrow> do {
                st \<leftarrow> bb_set bb (\<lambda>b. b\<lparr>nextNC := None, jumpNC := Some label\<rparr>) st;
                bb_set label (\<lambda>b. b\<lparr>incoming := incoming b + 1\<rparr>) st
              });
     Some (st\<lparr>curbb := None\<rparr>)
   }"

definition ASM_JMPF :: "int \<Rightarrow> nat \<Rightarrow> ctxcode \<Rightarrow> ctxcode option" where
  "ASM_JMPF flocal lbJUMP st = do {
     let bb = curbb st;
     let (lbNEXT, st) = new_BasicBlockLABEL st;
     (swap, st) \<leftarrow> BUILD_asmJMPF (klr_JMPF None (NC flocal)) st;
     bb \<leftarrow> bb;
     st \<leftarrow> (if swap
            then bb_set bb (\<lambda>b. b\<lparr>jumpNC := Some lbNEXT, nextNC := Some lbJUMP\<rparr>) st
            else bb_set bb (\<lambda>b. b\<lparr>jumpNC := Some lbJUMP, nextNC := Some lbNEXT\<rparr>) st);
     st \<leftarrow> bb_set lbNEXT (\<lambda>b. b\<lparr>incoming := incoming b + 1\<rparr>) st;
     bb_set lbJUMP (\<lambda>b. b\<lparr>incoming := incoming b + 1\<rparr>) (st\<lparr>curbb := Some lbNEXT\<rparr>)
   }"

definition ESP :: "int \<Rightarrow> int \<Rightarrow> int" where
  "ESP sfpidx args = SFP (sfpidx + args + K_CALLDELTA + 1)"

definition BUILD_addConstPool :: "u64 \<Rightarrow> ctxcode \<Rightarrow> ctxcode" where
  "BUILD_addConstPool v st = st\<lparr>constPools := constPools st @ [v]\<rparr>"

section \<open>Expressions\<close>

definition NMOV_asm :: "cenv \<Rightarrow> int \<Rightarrow> u32 \<Rightarrow> int \<Rightarrow> ctxcode \<Rightarrow> ctxcode option" where
  "NMOV_asm env a ty b st =
     (if TY_isUnbox env ty then BUILD_asm (klr_NMOV (NC a) (NC b) (CT_of env ty)) st
      else BUILD_asm (klr_NMOV (OC a) (OC b) (CT_of env ty)) st)"

text \<open>A field expression packs the slot and the field number into one word.\<close>

definition field_index :: "u64 \<Rightarrow> int" where
  "field_index w = sint (ucast w :: 32 word)"

definition field_xindex :: "u64 \<Rightarrow> u64" where
  "field_xindex w = scast (ucast (drop_bit 32 w) :: 32 word)"

definition CONST_asm :: "cenv \<Rightarrow> int \<Rightarrow> u32 \<Rightarrow> u64 \<Rightarrow> ctxcode \<Rightarrow> ctxcode option" where
  "CONST_asm env a ty v st =
     (if TY_isUnbox env ty
      then do {
        ob \<leftarrow> const_objs env v;
        n \<leftarrow> mem_get (ofields ob) 0;
        BUILD_asm (klr_NSET (NC a) n (CT_of env ty)) st
      }
      else BUILD_asm (klr_NSET (OC a) v (CT_of env ty)) (BUILD_addConstPool v st))"

definition FIELD_asm :: "cenv \<Rightarrow> int \<Rightarrow> u32 \<Rightarrow> u64 \<Rightarrow> ctxcode \<Rightarrow> ctxcode option" where
  "FIELD_asm env a ty ix st =
     (if TY_isUnbox env ty
      then BUILD_asm (klr_NMOVx (NC a) (OC (field_index ix)) (field_xindex ix) (CT_of env ty)) st
      else BUILD_asm (klr_NMOVx (OC a) (OC (field_index ix)) (field_xindex ix) (CT_of env ty)) st)"

text \<open>The call instruction after the arguments of \<^verbatim>\<open>CALL_asm\<close> are in place.\<close>

definition call_emit ::
    "cenv \<Rightarrow> u64 \<Rightarrow> kMethod \<Rightarrow> u32 \<Rightarrow> int \<Rightarrow> int \<Rightarrow> ctxcode \<Rightarrow> ctxcode option" where
  "call_emit env mtd m ty espidx argc st =
     (let thisidx = espidx + K_CALLDELTA; tyo = null_of env (CT_of env ty)
      in if kMethod_isVirtual m
         then do {
           st \<leftarrow> BUILD_asm (klr_NSET (NC (thisidx - 1)) mtd (CT_Method env)) st;
           BUILD_asm (klr_CALL (uline st) (SFP thisidx) (ESP espidx argc) tyo) st
         }
         else if fcall_1 m \<noteq> Fmethod_runVM
         then BUILD_asm (klr_SCALL (uline st) (SFP thisidx) (ESP espidx argc) mtd tyo) st
         else BUILD_asm (klr_VCALL (uline st) (SFP thisidx) (ESP espidx argc) mtd tyo) st)"

text \<open>
  A subtree takes part in the code of its parent as its own generator: a function of the
  destination, of the shift of the block and of the first free stack slot.
\<close>

type_synonym gen = "ctxcode \<Rightarrow> ctxcode option"
type_synonym egen = "int \<Rightarrow> int \<Rightarrow> int \<Rightarrow> gen"

definition EXPR_asmJMPIF :: "int \<Rightarrow> egen \<Rightarrow> bool \<Rightarrow> nat \<Rightarrow> int \<Rightarrow> int \<Rightarrow> gen" where
  "EXPR_asmJMPIF a e isTRUE label shift espidx st = do {
     st \<leftarrow> e a shift espidx st;
     st \<leftarrow> (if isTRUE then BUILD_asm (klr_BNOT (NC a) (NC a)) st else Some st);
     ASM_JMPF a label st
   }"

primrec CALL_args :: "int \<Rightarrow> egen list \<Rightarrow> int \<Rightarrow> gen" where
  "CALL_args i [] shift st = Some st"
| "CALL_args i (e # es) shift st = do {
     st \<leftarrow> e i shift i st;
     CALL_args (i + 1) es shift st
   }"

definition CALL_asm :: "cenv \<Rightarrow> u64 \<Rightarrow> u32 \<Rightarrow> egen list \<Rightarrow> int \<Rightarrow> int \<Rightarrow> gen" where
  "CALL_asm env mtd ty es shift espidx st = do {
     m \<leftarrow> cmtds env mtd;
     st \<leftarrow> (if kMethod_isStatic m
            then CALL_args (espidx + K_CALLDELTA + 1) (drop 1 es) shift st
            else CALL_args (espidx + K_CALLDELTA) es shift st);
     call_emit env mtd m ty espidx (int (length es) - 1) st
   }"

primrec COND_asm :: "int \<Rightarrow> egen list \<Rightarrow> bool \<Rightarrow> nat \<Rightarrow> int \<Rightarrow> int \<Rightarrow> gen" where
  "COND_asm a [] isTRUE label shift espidx st = Some st"
| "COND_asm a (e # es) isTRUE label shift espidx st = do {
     st \<leftarrow> EXPR_asmJMPIF a e isTRUE label shift espidx st;
     COND_asm a es isTRUE label shift espidx st
   }"

definition OR_asm :: "cenv \<Rightarrow> int \<Rightarrow> egen list \<Rightarrow> int \<Rightarrow> int \<Rightarrow> gen" where
  "OR_asm env a es shift espidx st = do {
     let (lbTRUE, st) = new_BasicBlockLABEL st;
     let (lbFALSE, st) = new_BasicBlockLABEL st;
     st \<leftarrow> COND_asm a es True lbTRUE shift espidx st;
     st \<leftarrow> BUILD_asm (klr_NSET (NC a) 0 (CT_Boolean env)) st;
     st \<leftarrow> ASM_JMP lbFALSE st;
     st \<leftarrow> ASM_LABEL lbTRUE st;
     st \<leftarrow> BUILD_asm (klr_NSET (NC a) 1 (CT_Boolean env)) st;
     ASM_LABEL lbFALSE st
   }"

definition AND_asm :: "cenv \<Rightarrow> int \<Rightarrow> egen list \<Rightarrow> int \<Rightarrow> int \<Rightarrow> gen" where
  "AND_asm env a es shift espidx st = do {
     let (lbTRUE, st) = new_BasicBlockLABEL st;
     let (lbFALSE, st) = new_BasicBlockLABEL st;
     st \<leftarrow> COND_asm a es False lbFALSE shift espidx st;
     st \<leftarrow> BUILD_asm (klr_NSET (NC a) 1 (CT_Boolean env)) st;
     st \<leftarrow> ASM_JMP lbTRUE st;
     st \<leftarrow> ASM_LABEL lbFALSE st;
     st \<leftarrow> BUILD_asm (klr_NSET (NC a) 0 (CT_Boolean env)) st;
     ASM_LABEL lbTRUE st
   }"

definition LETEXPR_asm :: "cenv \<Rightarrow> int \<Rightarrow> kexpr \<Rightarrow> u32 \<Rightarrow> egen \<Rightarrow> int \<Rightarrow> int \<Rightarrow> gen" where
  "LETEXPR_asm env a exprL tyR exprR shift espidx st =
     (case exprL of
        TEXPR_LOCAL ty index \<Rightarrow> do {
          st \<leftarrow> exprR index shift espidx st;
          if a \<noteq> espidx then NMOV_asm env a ty espidx st else Some st
        }
      | TEXPR_STACKTOP ty index \<Rightarrow> do {
          st \<leftarrow> exprR (index + shift) shift espidx st;
          if a \<noteq> espidx then NMOV_asm env a ty (index + espidx) st else Some st
        }
      | TEXPR_FIELD ty ix \<Rightarrow> do {
          st \<leftarrow> exprR espidx shift espidx st;
          st \<leftarrow> (if TY_isUnbox env tyR
                 then BUILD_asm (klr_XNMOV (OC (field_index ix)) (field_xindex ix) (NC espidx)
                                   (CT_of env ty)) st
                 else BUILD_asm (klr_XNMOV (OC (field_index ix)) (field_xindex ix) (OC espidx)
                                   (CT_of env ty)) st);
          if a \<noteq> espidx then NMOV_asm env a ty espidx st else Some st
        }
      | _ \<Rightarrow> None)"

section \<open>Statements\<close>

definition ASM_SAFEPOINT :: "int \<Rightarrow> gen" where
  "ASM_SAFEPOINT espidx st = do {
     n \<leftarrow> curbb st;
     b \<leftarrow> mem_get (bbs st) n;
     if list_ex (\<lambda>k. opcode (body k) = 19) (ops b) then Some st
     else BUILD_asm (klr_SAFEPOINT (SFP espidx)) st
   }"

definition ErrStmt_asm :: "u64 \<Rightarrow> int \<Rightarrow> gen" where
  "ErrStmt_asm msg espidx st = BUILD_asm (klr_ERROR (SFP espidx) msg) st"

definition ExprStmt_asm :: "egen option \<Rightarrow> int \<Rightarrow> int \<Rightarrow> gen" where
  "ExprStmt_asm e shift espidx st = do { e \<leftarrow> e; e espidx shift espidx st }"

type_synonym bgen = "int \<Rightarrow> gen"

definition BlockStmt_asm :: "bgen \<Rightarrow> int \<Rightarrow> gen" where
  "BlockStmt_asm bk shift st = bk shift st"

definition IfStmt_asm :: "egen \<Rightarrow> bgen \<Rightarrow> bgen \<Rightarrow> int \<Rightarrow> int \<Rightarrow> gen" where
  "IfStmt_asm c bkThen bkElse shift espidx st = do {
     let (lbELSE, st) = new_BasicBlockLABEL st;
     let (lbEND, st) = new_BasicBlockLABEL st;
     st \<leftarrow> EXPR_asmJMPIF espidx c False lbELSE shift espidx st;
     st \<leftarrow> bkThen shift st;
     st \<leftarrow> ASM_JMP lbEND st;
     st \<leftarrow> ASM_LABEL lbELSE st;
     st \<leftarrow> bkElse shift st;
     ASM_LABEL lbEND st
   }"

definition ReturnStmt_asm :: "cenv \<Rightarrow> (u32 \<times> egen) option \<Rightarrow> int \<Rightarrow> int \<Rightarrow> gen" where
  "ReturnStmt_asm env e shift espidx st = do {
     st \<leftarrow> (case e of
              None \<Rightarrow> Some st
            | Some (ty, e) \<Rightarrow> if ty \<noteq> TY_void env then e K_RTNIDX shift espidx st else Some st);
     lb \<leftarrow> lbEND st;
     ASM_JMP lb st
   }"

definition LoopStmt_asm :: "nat \<Rightarrow> egen \<Rightarrow> bgen \<Rightarrow> int \<Rightarrow> int \<Rightarrow> gen" where
  "LoopStmt_asm stmt c bk shift espidx st = do {
     let (lbCONTINUE, st) = new_BasicBlockLABEL st;
     let (lbBREAK, st) = new_BasicBlockLABEL st;
     let st = st\<lparr>labels := (labels st)((stmt, KW_continue) := Some lbCONTINUE,
                                       (stmt, KW_break) := Some lbBREAK)\<rparr>;
     st \<leftarrow> ASM_LABEL lbCONTINUE st;
     st \<leftarrow> ASM_SAFEPOINT espidx st;
     st \<leftarrow> EXPR_asmJMPIF espidx c False lbBREAK shift espidx st;
     st \<leftarrow> bk shift st;
     st \<leftarrow> ASM_JMP lbCONTINUE st;
     ASM_LABEL lbBREAK st
   }"

definition JumpStmt_asm :: "nat \<Rightarrow> jumpkw \<Rightarrow> gen" where
  "JumpStmt_asm jump kw st = do { lbJUMP \<leftarrow> labels st (jump, kw); ASM_JMP lbJUMP st }"

definition UndefinedStmt_asm :: gen where
  "UndefinedStmt_asm st = None"

text \<open>
  The loop of \<^verbatim>\<open>BLOCK_asm\<close> over statements: their line, whether they have a syntax (a finished
  one has none), whether the loop returns behind them, and their generator.
\<close>

type_synonym sgen = "int \<Rightarrow> int \<Rightarrow> gen"

primrec STMTS_asm :: "(u64 \<times> bool \<times> bool \<times> sgen) list \<Rightarrow> int \<Rightarrow> int \<Rightarrow> gen" where
  "STMTS_asm [] shift espidx st = Some st"
| "STMTS_asm (s # ss) shift espidx st =
     (case s of (ln, syn, returns, g) \<Rightarrow>
        if \<not> syn then STMTS_asm ss shift espidx st
        else do {
          st \<leftarrow> g shift espidx (st\<lparr>uline := ln\<rparr>);
          if returns then Some st else STMTS_asm ss shift espidx st
        })"

definition block_espidx :: "int \<Rightarrow> bool \<Rightarrow> int \<Rightarrow> int" where
  "block_espidx shift stacktop index = (if stacktop then shift + index else index)"

fun stmt_returns :: "kbuild \<Rightarrow> bool" where
  "stmt_returns (TSTMT_ERR _) = True"
| "stmt_returns (TSTMT_RETURN _) = True"
| "stmt_returns _ = False"

section \<open>The tree\<close>

primrec EXPR_asm :: "kexpr \<Rightarrow> cenv \<Rightarrow> egen"
and STMT_asm :: "kbuild \<Rightarrow> cenv \<Rightarrow> sgen"
and BLOCK_stmt :: "kstmt \<Rightarrow> cenv \<Rightarrow> u64 \<times> bool \<times> bool \<times> sgen"
and BLOCK_asm :: "kblock \<Rightarrow> cenv \<Rightarrow> bgen"
where
  "EXPR_asm (TEXPR_CONST ty v) env = (\<lambda>a shift espidx. CONST_asm env a ty v)"
| "EXPR_asm (TEXPR_NEW ty index) env = (\<lambda>a shift espidx.
     BUILD_asm (klr_NEW (OC a) index (CT_of env ty)))"
| "EXPR_asm (TEXPR_NULL ty) env = (\<lambda>a shift espidx.
     if TY_isUnbox env ty then BUILD_asm (klr_NSET (NC a) 0 (CT_of env ty))
     else BUILD_asm (klr_NULL (OC a) (CT_of env ty)))"
| "EXPR_asm (TEXPR_NCONST ty n) env = (\<lambda>a shift espidx.
     BUILD_asm (klr_NSET (NC a) n (CT_of env ty)))"
| "EXPR_asm (TEXPR_LOCAL ty index) env = (\<lambda>a shift espidx. NMOV_asm env a ty index)"
| "EXPR_asm (TEXPR_BLOCK ty bk) env = (\<lambda>a shift espidx st. do {
     st \<leftarrow> BLOCK_asm bk env espidx st;
     NMOV_asm env a ty espidx st
   })"
| "EXPR_asm (TEXPR_FIELD ty ix) env = (\<lambda>a shift espidx. FIELD_asm env a ty ix)"
| "EXPR_asm (TEXPR_BOX ty e) env = (\<lambda>a shift espidx st. do {
     st \<leftarrow> EXPR_asm e env a shift espidx st;
     BUILD_asm (klr_BOX (OC a) (NC a) (CT_of env (expr_ty e))) st
   })"
| "EXPR_asm (TEXPR_UNBOX ty e) env = (\<lambda>a shift espidx.
     BUILD_asm (klr_UNBOX (NC a) (OC a) (CT_of env ty)))"
| "EXPR_asm (TEXPR_CALL ty mtd args) env = (\<lambda>a shift espidx st. do {
     st \<leftarrow> CALL_asm env mtd ty (map (\<lambda>e. EXPR_asm e env) args) shift espidx st;
     if a \<noteq> espidx then NMOV_asm env a ty espidx st else Some st
   })"
| "EXPR_asm (TEXPR_AND ty es) env = (\<lambda>a. AND_asm env a (map (\<lambda>e. EXPR_asm e env) es))"
| "EXPR_asm (TEXPR_OR ty es) env = (\<lambda>a. OR_asm env a (map (\<lambda>e. EXPR_asm e env) es))"
| "EXPR_asm (TEXPR_LET ty l r) env = (\<lambda>a. LETEXPR_asm env a l (expr_ty r) (EXPR_asm r env))"
| "EXPR_asm (TEXPR_STACKTOP ty index) env = (\<lambda>a shift espidx st.
     if index + shift < espidx then NMOV_asm env a ty (index + shift) st else None)"
| "STMT_asm TSTMT_UNDEFINED env = (\<lambda>shift espidx. UndefinedStmt_asm)"
| "STMT_asm (TSTMT_ERR msg) env = (\<lambda>shift espidx. ErrStmt_asm msg espidx)"
| "STMT_asm (TSTMT_EXPR e) env = ExprStmt_asm (map_option (\<lambda>e. EXPR_asm e env) e)"
| "STMT_asm (TSTMT_BLOCK bk) env = (\<lambda>shift espidx. BlockStmt_asm (BLOCK_asm bk env) shift)"
| "STMT_asm (TSTMT_RETURN e) env =
     ReturnStmt_asm env (map_option (\<lambda>e. (expr_ty e, EXPR_asm e env)) e)"
| "STMT_asm (TSTMT_IF c bkThen bkElse) env =
     IfStmt_asm (EXPR_asm c env) (BLOCK_asm bkThen env) (BLOCK_asm bkElse env)"
| "STMT_asm (TSTMT_LOOP stmt c bk) env = LoopStmt_asm stmt (EXPR_asm c env) (BLOCK_asm bk env)"
| "STMT_asm (TSTMT_JUMP jump kw) env = (\<lambda>shift espidx. JumpStmt_asm jump kw)"
| "BLOCK_stmt (kStmt ln syn b) env = (ln, syn, stmt_returns b, STMT_asm b env)"
| "BLOCK_asm (kBlock stacktop index ss) env = (\<lambda>shift st.
     STMTS_asm (map (\<lambda>s. BLOCK_stmt s env) ss) shift (block_espidx shift stacktop index) st)"

end
