(* ===== verification/Layout.thy ===== *)
theory Layout
  imports Codegen
begin

text \<open>
  From basic blocks to a code array, the second half of \<^verbatim>\<open>src/vm/asm.c\<close>: the two strip passes,
  the sizing and copying of blocks, the patching of jumps, and the compilation of a method.

  A pass that follows the graph with \<^verbatim>\<open>goto\<close> and recursion is a step function, which says
  where control goes next, under a partial function that repeats it; a pass that would never end
  has no result.
\<close>

section \<open>Blocks\<close>

definition bb_get :: "ctxcode \<Rightarrow> nat \<Rightarrow> kBasicBlock option" where
  "bb_get st n = mem_get (bbs st) n"

definition BasicBlock_opcode :: "kBasicBlock \<Rightarrow> nat" where
  "BasicBlock_opcode b = (case ops b of [] \<Rightarrow> 0 | k # _ \<Rightarrow> opcode (body k))"

text \<open>Where a pass goes on: at a label with a block, or into a recursive call and then to a label.\<close>

datatype pass_label = L_TAIL | L_JUMP | L_AFTER | L_NEXT

datatype pass_act =
    Finish
  | Continue pass_label nat
  | Recurse nat pass_label nat

section \<open>The first strip pass\<close>

text \<open>
  Redirects one edge of \<open>bb\<close> around an empty block and keeps the counts of incoming edges:
  \<open>old\<close> loses one, \<open>new\<close> gains one.
\<close>

definition redirect ::
    "nat \<Rightarrow> nat \<Rightarrow> nat \<Rightarrow> (kBasicBlock \<Rightarrow> kBasicBlock) \<Rightarrow> ctxcode \<Rightarrow> ctxcode option" where
  "redirect bb old new f st = do {
     st \<leftarrow> bb_set old (\<lambda>b. b\<lparr>incoming := incoming b - 1\<rparr>) st;
     st \<leftarrow> bb_set bb f st;
     bb_set new (\<lambda>b. b\<lparr>incoming := incoming b + 1\<rparr>) st
   }"

definition strip0_tail :: "nat \<Rightarrow> ctxcode \<Rightarrow> (pass_act \<times> ctxcode) option" where
  "strip0_tail bb st = do {
     b \<leftarrow> bb_get st bb;
     if visited b then Some (Finish, st)
     else do {
       st \<leftarrow> bb_set bb (\<lambda>b. b\<lparr>visited := True\<rparr>) st;
       Some (Continue (if jumpNC b \<noteq> None then L_JUMP else L_AFTER) bb, st)
     }
   }"

definition strip0_jump :: "nat \<Rightarrow> ctxcode \<Rightarrow> (pass_act \<times> ctxcode) option" where
  "strip0_jump bb st = do {
     b \<leftarrow> bb_get st bb;
     j \<leftarrow> jumpNC b;
     bJ \<leftarrow> bb_get st j;
     (case (ops bJ, jumpNC bJ, nextNC bJ) of
        ([], Some t, None) \<Rightarrow> do {
          st \<leftarrow> redirect bb j t (\<lambda>b. b\<lparr>jumpNC := Some t\<rparr>) st;
          Some (Continue L_JUMP bb, st)
        }
      | ([], None, Some t) \<Rightarrow> do {
          st \<leftarrow> redirect bb j t (\<lambda>b. b\<lparr>jumpNC := Some t\<rparr>) st;
          Some (Continue L_JUMP bb, st)
        }
      | _ \<Rightarrow>
          if nextNC b = None \<and> incoming bJ = 1
          then do {
            st \<leftarrow> bb_set bb (\<lambda>b. b\<lparr>nextNC := Some j, jumpNC := None\<rparr>) st;
            Some (Continue L_NEXT bb, st)
          }
          else Some (Recurse j L_AFTER bb, st))
   }"

definition strip0_after :: "nat \<Rightarrow> ctxcode \<Rightarrow> (pass_act \<times> ctxcode) option" where
  "strip0_after bb st = do {
     b \<leftarrow> bb_get st bb;
     (case (jumpNC b, nextNC b) of
        (Some _, Some n) \<Rightarrow> Some (Continue L_TAIL n, st)
      | _ \<Rightarrow> Some (Continue L_NEXT bb, st))
   }"

definition strip0_next :: "nat \<Rightarrow> ctxcode \<Rightarrow> (pass_act \<times> ctxcode) option" where
  "strip0_next bb st = do {
     b \<leftarrow> bb_get st bb;
     (case nextNC b of
        None \<Rightarrow> Some (Finish, st)
      | Some n \<Rightarrow> do {
          bN \<leftarrow> bb_get st n;
          (case (ops bN, nextNC bN, jumpNC bN) of
             ([], Some t, None) \<Rightarrow> do {
               st \<leftarrow> redirect bb n t (\<lambda>b. b\<lparr>nextNC := Some t\<rparr>) st;
               Some (Continue L_NEXT bb, st)
             }
           | ([], None, Some t) \<Rightarrow> do {
               st \<leftarrow> redirect bb n t (\<lambda>b. b\<lparr>nextNC := None, jumpNC := Some t\<rparr>) st;
               Some (Continue L_JUMP bb, st)
             }
           | _ \<Rightarrow> Some (Continue L_TAIL n, st))
        })
   }"

definition strip0_act :: "pass_label \<Rightarrow> nat \<Rightarrow> ctxcode \<Rightarrow> (pass_act \<times> ctxcode) option" where
  "strip0_act l = (case l of L_TAIL \<Rightarrow> strip0_tail | L_JUMP \<Rightarrow> strip0_jump
                           | L_AFTER \<Rightarrow> strip0_after | L_NEXT \<Rightarrow> strip0_next)"

partial_function (option) BasicBlock_strip0 ::
    "pass_label \<Rightarrow> nat \<Rightarrow> ctxcode \<Rightarrow> ctxcode option" where
  "BasicBlock_strip0 l bb st = do {
     (act, st) \<leftarrow> strip0_act l bb st;
     (case act of
        Finish \<Rightarrow> Some st
      | Continue l bb \<Rightarrow> BasicBlock_strip0 l bb st
      | Recurse j l bb \<Rightarrow> do {
          st \<leftarrow> BasicBlock_strip0 L_TAIL j st;
          BasicBlock_strip0 l bb st
        })
   }"

declare BasicBlock_strip0.simps [code]

section \<open>The second strip pass\<close>

definition KARRAY_FREE_op :: "kBasicBlock \<Rightarrow> kBasicBlock" where
  "KARRAY_FREE_op b = b\<lparr>ops := [], opmax := 0\<rparr>"

definition BasicBlock_join :: "nat \<Rightarrow> nat \<Rightarrow> ctxcode \<Rightarrow> ctxcode option" where
  "BasicBlock_join bb n st = do {
     bN \<leftarrow> bb_get st n;
     st \<leftarrow> bb_set bb (\<lambda>b. b\<lparr>nextNC := nextNC bN, jumpNC := jumpNC bN\<rparr>) st;
     b \<leftarrow> bb_get st bb;
     if ops bN = [] then Some st
     else if ops b = [] then
       (if opmax b = 0
        then do {
          st \<leftarrow> bb_set bb (\<lambda>b. b\<lparr>ops := ops bN, opmax := opmax bN\<rparr>) st;
          bb_set n KARRAY_FREE_op st
        }
        else None)
     else do {
       let size = length (ops b) + length (ops bN);
       let mx = (if opmax b < size then max (2 * opmax b) size else opmax b);
       st \<leftarrow> (if size \<le> mx
              then bb_set bb (\<lambda>b. b\<lparr>ops := ops b @ ops bN, opmax := mx\<rparr>) st else None);
       bb_set n KARRAY_FREE_op st
     }
   }"

definition strip1_act :: "nat \<Rightarrow> ctxcode \<Rightarrow> (pass_act \<times> ctxcode) option" where
  "strip1_act bb st = do {
     b \<leftarrow> bb_get st bb;
     if \<not> visited b then Some (Finish, st)
     else do {
       st \<leftarrow> bb_set bb (\<lambda>b. b\<lparr>visited := False\<rparr>) st;
       (case (jumpNC b, nextNC b) of
          (Some j, None) \<Rightarrow> Some (Continue L_TAIL j, st)
        | (Some j, Some n) \<Rightarrow> Some (Recurse j L_TAIL n, st)
        | (None, None) \<Rightarrow> Some (Finish, st)
        | (None, Some n) \<Rightarrow> do {
            bN \<leftarrow> bb_get st n;
            if incoming bN = 1 \<and> BasicBlock_opcode bN \<noteq> 14
            then do {
              st \<leftarrow> BasicBlock_join bb n st;
              st \<leftarrow> bb_set bb (\<lambda>b. b\<lparr>visited := True\<rparr>) st;
              Some (Continue L_TAIL bb, st)
            }
            else Some (Continue L_TAIL n, st)
          })
     }
   }"

partial_function (option) BasicBlock_strip1 :: "nat \<Rightarrow> ctxcode \<Rightarrow> ctxcode option" where
  "BasicBlock_strip1 bb st = do {
     (act, st) \<leftarrow> strip1_act bb st;
     (case act of
        Finish \<Rightarrow> Some st
      | Continue l bb \<Rightarrow> BasicBlock_strip1 bb st
      | Recurse j l bb \<Rightarrow> do {
          st \<leftarrow> BasicBlock_strip1 j st;
          BasicBlock_strip1 bb st
        })
   }"

declare BasicBlock_strip1.simps [code]

section \<open>Sizes\<close>

definition peephole :: "kBasicBlock \<Rightarrow> kBasicBlock" where
  "peephole b = b\<lparr>ops := filter (\<lambda>k. body k \<noteq> klr_NOP) (ops b)\<rparr>"

definition BasicBlock_peephole :: "nat \<Rightarrow> ctxcode \<Rightarrow> (nat \<times> ctxcode) option" where
  "BasicBlock_peephole bb st = do {
     st \<leftarrow> bb_set bb peephole st;
     b \<leftarrow> bb_get st bb;
     Some (length (ops b), st)
   }"

text \<open>
  A block with a successor always gets a fresh block between the two, because the test
  \<^verbatim>\<open>BasicBlock_isVisited(bb)\<close> asks for the block that has just been marked.
\<close>

definition size_split :: "nat \<Rightarrow> ctxcode \<Rightarrow> ctxcode option" where
  "size_split bb st = do {
     b \<leftarrow> bb_get st bb;
     (case nextNC b of
        None \<Rightarrow> Some st
      | Some n \<Rightarrow> do {
          bN \<leftarrow> bb_get st n;
          if visited b \<or> BasicBlock_opcode bN = 14
          then do {
            let (bb2, st) = new_BasicBlockLABEL st;
            st \<leftarrow> bb_set bb2 (\<lambda>x. x\<lparr>jumpNC := Some n\<rparr>) st;
            bb_set bb (\<lambda>x. x\<lparr>nextNC := Some bb2\<rparr>) st
          }
          else Some st
        })
   }"

datatype size_act = Size_done | Size_tail "nat option" nat | Size_branch nat nat nat

definition size_act :: "nat option \<Rightarrow> nat \<Rightarrow> ctxcode \<Rightarrow> (size_act \<times> ctxcode) option" where
  "size_act bb c st = (case bb of
     None \<Rightarrow> Some (Size_done, st)
   | Some bb \<Rightarrow> do {
       b \<leftarrow> bb_get st bb;
       if visited b then Some (Size_done, st)
       else do {
         st \<leftarrow> bb_set bb (\<lambda>b. b\<lparr>visited := True\<rparr>) st;
         st \<leftarrow> size_split bb st;
         b \<leftarrow> bb_get st bb;
         (case (jumpNC b, nextNC b) of
            (Some j, Some n) \<Rightarrow>
              if j = n then None
              else do {
                (k, st) \<leftarrow> BasicBlock_peephole bb st;
                Some (Size_branch n (c + k) j, st)
              }
          | (Some j, None) \<Rightarrow> do {
              st \<leftarrow> BasicBlock_add bb 0 (klr_JMP None) st;
              (k, st) \<leftarrow> BasicBlock_peephole bb st;
              Some (Size_tail (Some j) (k + c), st)
            }
          | (None, n) \<Rightarrow> do {
              (k, st) \<leftarrow> BasicBlock_peephole bb st;
              Some (Size_tail n (k + c), st)
            })
       }
     })"

partial_function (option) BasicBlock_size ::
    "nat option \<Rightarrow> nat \<Rightarrow> ctxcode \<Rightarrow> (nat \<times> ctxcode) option" where
  "BasicBlock_size bb c st = do {
     (act, st) \<leftarrow> size_act bb c st;
     (case act of
        Size_done \<Rightarrow> Some (c, st)
      | Size_tail bb c \<Rightarrow> BasicBlock_size bb c st
      | Size_branch n c j \<Rightarrow> do {
          (c, st) \<leftarrow> BasicBlock_size (Some n) c st;
          BasicBlock_size (Some j) c st
        })
   }"

declare BasicBlock_size.simps [code]

section \<open>Copying blocks and patching jumps\<close>

text \<open>
  The copy works on the code array, the pointer behind the last instruction written and the last
  block written (\<^verbatim>\<open>prev\<close>). Pointers into the array are indices.
\<close>

record copyst =
  cp_dst :: nat
  cp_prev :: "nat option"
  cp_ctx :: ctxcode
  cp_code :: "kopl list"

definition remove_jmp :: "nat \<Rightarrow> copyst \<Rightarrow> copyst option" where
  "remove_jmp bb c = (case cp_prev c of
     None \<Rightarrow> Some c
   | Some p \<Rightarrow> do {
       bP \<leftarrow> bb_get (cp_ctx c) p;
       if nextNC bP = None \<and> jumpNC bP = Some bb
       then do {
         k \<leftarrow> (if cp_dst c > 0 then mem_get (cp_code c) (cp_dst c - 1) else None);
         if opcode (body k) = 17
         then do {
           st \<leftarrow> bb_set p (\<lambda>b. b\<lparr>jumpNC := None, nextNC := Some bb\<rparr>) (cp_ctx c);
           Some (c\<lparr>cp_dst := cp_dst c - 1, cp_ctx := st\<rparr>)
         }
         else None
       }
       else Some c
     })"

definition copy_ops :: "nat \<Rightarrow> copyst \<Rightarrow> copyst option" where
  "copy_ops bb c = do {
     st \<leftarrow> bb_set bb (\<lambda>b. b\<lparr>bcode := Some (cp_dst c)\<rparr>) (cp_ctx c);
     b \<leftarrow> bb_get st bb;
     if length (ops b) > 0
     then do {
       code \<leftarrow> mem_write (cp_code c) (cp_dst c) (ops b);
       st \<leftarrow> bb_set bb (\<lambda>x. KARRAY_FREE_op
                (if jumpNC x \<noteq> None then x\<lparr>opjmp := Some (cp_dst c + (length (ops b) - 1))\<rparr> else x)) st;
       Some \<lparr>cp_dst = cp_dst c + length (ops b), cp_prev = Some bb, cp_ctx = st, cp_code = code\<rparr>
     }
     else Some (c\<lparr>cp_ctx := st\<rparr>)
   }"

definition copy_block :: "nat \<Rightarrow> copyst \<Rightarrow> (bool \<times> copyst) option" where
  "copy_block bb c = do {
     st \<leftarrow> bb_set bb (\<lambda>b. b\<lparr>visited := False\<rparr>) (cp_ctx c);
     let c = c\<lparr>cp_ctx := st\<rparr>;
     b \<leftarrow> bb_get st bb;
     if bcode b \<noteq> None then Some (False, c)
     else do {
       c \<leftarrow> remove_jmp bb c;
       c \<leftarrow> copy_ops bb c;
       Some (True, c)
     }
   }"

partial_function (option) BasicBlock_copy :: "nat \<Rightarrow> copyst \<Rightarrow> copyst option" where
  "BasicBlock_copy bb c = do {
     (go, c) \<leftarrow> copy_block bb c;
     if \<not> go then Some c
     else do {
       b \<leftarrow> bb_get (cp_ctx c) bb;
       c \<leftarrow> (case nextNC b of
               None \<Rightarrow> Some c
             | Some n \<Rightarrow> do {
                 bN \<leftarrow> bb_get (cp_ctx c) n;
                 if bcode bN = None then BasicBlock_copy n c else None
               });
       b \<leftarrow> bb_get (cp_ctx c) bb;
       (case jumpNC b of None \<Rightarrow> Some c | Some j \<Rightarrow> BasicBlock_copy j c)
     }
   }"

declare BasicBlock_copy.simps [code]

fun set_jumppc :: "codeptr option \<Rightarrow> kop \<Rightarrow> kop option" where
  "set_jumppc p (klr_JMP _) = Some (klr_JMP p)"
| "set_jumppc p (klr_JMPF _ a) = Some (klr_JMPF p a)"
| "set_jumppc p _ = None"

text \<open>
  One round of the loop of \<^verbatim>\<open>BasicBlock_setjump\<close>: the jump of the block is patched; the result
  says whether its target has to be patched in a recursive call. \<open>arr\<close> names the code array.
\<close>

definition setjump_block ::
    "nat \<Rightarrow> nat \<Rightarrow> ctxcode \<Rightarrow> kopl list \<Rightarrow> (nat option \<times> ctxcode \<times> kopl list) option" where
  "setjump_block arr bb st code = do {
     st \<leftarrow> bb_set bb (\<lambda>b. b\<lparr>visited := True\<rparr>) st;
     b \<leftarrow> bb_get st bb;
     (case jumpNC b of
        None \<Rightarrow> Some (None, st, code)
      | Some j \<Rightarrow> do {
          bJ \<leftarrow> bb_get st j;
          i \<leftarrow> opjmp b;
          k \<leftarrow> mem_get code i;
          op \<leftarrow> set_jumppc (map_option (Pair arr) (bcode bJ)) (body k);
          let code = code[i := k\<lparr>body := op\<rparr>];
          st \<leftarrow> bb_set bb (\<lambda>b. b\<lparr>jumpNC := None\<rparr>) st;
          bJ \<leftarrow> bb_get st j;
          if \<not> visited bJ
          then do {
            st \<leftarrow> bb_set j (\<lambda>b. b\<lparr>visited := True\<rparr>) st;
            Some (Some j, st, code)
          }
          else Some (None, st, code)
        })
   }"

partial_function (option) BasicBlock_setjump ::
    "nat \<Rightarrow> nat option \<Rightarrow> ctxcode \<Rightarrow> kopl list \<Rightarrow> (ctxcode \<times> kopl list) option" where
  "BasicBlock_setjump arr bb st code = (case bb of
     None \<Rightarrow> Some (st, code)
   | Some bb \<Rightarrow> do {
       (j, st, code) \<leftarrow> setjump_block arr bb st code;
       (st, code) \<leftarrow> (if j = None then Some (st, code) else BasicBlock_setjump arr j st code);
       b \<leftarrow> bb_get st bb;
       BasicBlock_setjump arr (nextNC b) st code
     })"

section \<open>Code objects\<close>

text \<open>A cleared instruction slot, as \<^verbatim>\<open>KCALLOC\<close> leaves it.\<close>

definition zero_kopl :: kopl where
  "zero_kopl = kopl_of klr_NOP"

definition KonohaCode_init :: kKonohaCode where
  "KonohaCode_init = \<lparr>kc_code = [], codesize = 0, fileid = 0\<rparr>"

definition new_KonohaCode ::
    "nat \<Rightarrow> nat \<Rightarrow> nat \<Rightarrow> ctxcode \<Rightarrow> (kKonohaCode \<times> ctxcode) option" where
  "new_KonohaCode arr bb bbRET st = do {
     let kc = KonohaCode_init\<lparr>fileid := uline st\<rparr>;
     (n, st) \<leftarrow> BasicBlock_size (Some bb) 0 st;
     let kc = kc\<lparr>codesize := n * sizeof_kopl, kc_code := replicate n zero_kopl\<rparr>;
     st \<leftarrow> bb_set bbRET (\<lambda>b. b\<lparr>bcode := Some 0\<rparr>) st;
     c \<leftarrow> BasicBlock_copy bb \<lparr>cp_dst = 0, cp_prev = None, cp_ctx = st, cp_code = kc_code kc\<rparr>;
     if cp_dst c > 0 then do {
       st \<leftarrow> bb_set bbRET (\<lambda>b. b\<lparr>bcode := None\<rparr>) (cp_ctx c);
       c \<leftarrow> BasicBlock_copy bbRET (c\<lparr>cp_ctx := st\<rparr>);
       (st, code) \<leftarrow> BasicBlock_setjump arr (Some bb) (cp_ctx c) (cp_code c);
       Some (kc\<lparr>kc_code := code\<rparr>, st)
     } else None
   }"

declare BasicBlock_setjump.simps [code]

section \<open>Methods\<close>

definition Method_setFunc :: "u64 \<Rightarrow> fmethod option \<Rightarrow> vm \<Rightarrow> vm option" where
  "Method_setFunc mtd func s = do {
     m \<leftarrow> mtds s mtd;
     let func = (case func of None \<Rightarrow> Fmethod_abstract | Some f \<Rightarrow> f);
     Some (s\<lparr>mtds := (mtds s)(mtd := Some (m\<lparr>fcall_1 := func, pc_start := PRECOMPILED_NCALL s\<rparr>))\<rparr>)
   }"

definition run_THCODE :: "venv \<Rightarrow> vm \<Rightarrow> int \<Rightarrow> nat \<Rightarrow> (vm \<times> codeptr option) option" where
  "run_THCODE venv s sfp arr = (case VirtualMachine_run 1 venv s sfp (Some (arr, 0)) of
     Some (Returned s pc) \<Rightarrow> Some (s, pc) | _ \<Rightarrow> None)"

definition Method_threadCode :: "venv \<Rightarrow> u64 \<Rightarrow> kKonohaCode \<Rightarrow> vm \<Rightarrow> vm option" where
  "Method_threadCode venv mtd kc s = do {
     s \<leftarrow> Method_setFunc mtd (Some Fmethod_runVM) s;
     let arr = length (codes s);
     m \<leftarrow> mtds s mtd;
     let s = s\<lparr>codes := codes s @ [kc], mtds := (mtds s)(mtd := Some (m\<lparr>kcode := Some arr\<rparr>))\<rparr>;
     (s, pc) \<leftarrow> run_THCODE venv s (esp s + SFP 1) arr;
     m \<leftarrow> mtds s mtd;
     Some (s\<lparr>mtds := (mtds s)(mtd := Some (m\<lparr>pc_start := pc\<rparr>))\<rparr>)
   }"

definition BUILD_compile ::
    "venv \<Rightarrow> u64 \<Rightarrow> nat \<Rightarrow> nat \<Rightarrow> ctxcode \<times> vm \<Rightarrow> (ctxcode \<times> vm) option" where
  "BUILD_compile venv mtd bb bbRET = (\<lambda>(st, s). do {
     st \<leftarrow> BasicBlock_strip0 L_TAIL bb st;
     st \<leftarrow> BasicBlock_strip1 bb st;
     (kc, st) \<leftarrow> new_KonohaCode (length (codes s)) bb bbRET st;
     s \<leftarrow> Method_threadCode venv mtd kc s;
     Some (st\<lparr>insts := []\<rparr>, s)
   })"

definition MN_new :: u32 where "MN_new = 1"

text \<open>The blocks of a method before its pieces are put together, and the entry and exit labels.\<close>

definition Method_blocks ::
    "cenv \<Rightarrow> kMethod \<Rightarrow> u64 \<Rightarrow> kblock \<Rightarrow> ctxcode \<Rightarrow> (nat \<times> nat \<times> ctxcode) option" where
  "Method_blocks env m cls bk st = do {
     let (lbINIT, st) = new_BasicBlockLABEL st;
     let (lbBEGIN, st) = new_BasicBlockLABEL st;
     let (lbRET, st) = new_BasicBlockLABEL st;
     let st = st\<lparr>lbEND := Some lbRET, curbb := Some lbINIT\<rparr>;
     st \<leftarrow> BUILD_asm (klr_THCODE Fth_THCODE) st;
     st \<leftarrow> ASM_LABEL lbBEGIN st;
     st \<leftarrow> BLOCK_asm bk env 0 st;
     st \<leftarrow> ASM_LABEL lbRET st;
     st \<leftarrow> (if mn m = MN_new then BUILD_asm (klr_NMOV (OC K_RTNIDX) (OC 0) cls) st else Some st);
     st \<leftarrow> BUILD_asm klr_RET st;
     Some (lbINIT, lbRET, st)
   }"

definition kmodcode_setup :: ctxcode where
  "kmodcode_setup = \<lparr>uline = 0, insts = [], lbEND = None, constPools = [], curbb = None, bbs = [],
     labels = (\<lambda>_. None)\<rparr>"

definition Method_genCode ::
    "cenv \<Rightarrow> venv \<Rightarrow> u64 \<Rightarrow> kblock \<Rightarrow> ctxcode option \<times> vm \<Rightarrow> (ctxcode option \<times> vm) option" where
  "Method_genCode env venv mtd bk = (\<lambda>(st, s). do {
     let st = (case st of None \<Rightarrow> kmodcode_setup | Some st \<Rightarrow> st);
     s \<leftarrow> Method_setFunc mtd (Some Fmethod_runVM) s;
     if insts st = [] then do {
       m \<leftarrow> mtds s mtd;
       (lbINIT, lbRET, st) \<leftarrow> Method_blocks (env\<lparr>cmtds := mtds s, const_objs := objs s\<rparr>) m
                               (CT_of env (cid m)) bk st;
       (st, s) \<leftarrow> BUILD_compile venv mtd lbINIT lbRET (st, s);
       Some (Some (st\<lparr>lbEND := None\<rparr>), s)
     } else None
   })"

text \<open>
  The start of the module compiles two blocks by hand. The pointer to the native-call stub is
  stored where the pointer to the entry stub goes, which is then stored over it.
\<close>

definition new_BasicBlock :: "ctxcode \<Rightarrow> nat \<times> ctxcode" where
  "new_BasicBlock st = (length (bbs st), st\<lparr>bbs := bbs st @ [BasicBlock_init]\<rparr>)"

definition MODCODE_init :: "venv \<Rightarrow> vm \<Rightarrow> (ctxcode \<times> vm) option" where
  "MODCODE_init venv s =
     (if opcode_check then do {
        let st = kmodcode_setup;
        let (ia, st) = new_BasicBlock st;
        let (ib, st) = new_BasicBlock st;
        st \<leftarrow> BasicBlock_add ia 0 (klr_THCODE Fth_THCODE) st;
        st \<leftarrow> BasicBlock_add ia 0 klr_NCALL st;
        st \<leftarrow> BasicBlock_add ia 0 klr_ENTER st;
        st \<leftarrow> BasicBlock_add ia 0 klr_EXIT st;
        st \<leftarrow> BasicBlock_add ib 0 klr_RET st;
        st \<leftarrow> bb_set ia (\<lambda>b. b\<lparr>nextNC := Some ib\<rparr>) st;
        let arr = length (codes s);
        (kc, st) \<leftarrow> new_KonohaCode arr ia ib st;
        (s, pc) \<leftarrow> run_THCODE venv (s\<lparr>codes := codes s @ [kc]\<rparr>) (esp s) arr;
        let s = s\<lparr>PRECOMPILED_ENTER := pc\<rparr>;
        let s = s\<lparr>PRECOMPILED_ENTER := map_option PC_NEXT pc\<rparr>;
        Some (st\<lparr>insts := []\<rparr>, s)
      } else None)"

end
