(* ===== verification/Natives.thy ===== *)
theory Natives
  imports Vm "HOL-Library.Signed_Division"
begin

text \<open>
  The native methods of \<^verbatim>\<open>src/konoha/methods.h\<close> and \<^verbatim>\<open>package/konoha/int_glue.h\<close> that work on
  numbers: C functions that read their arguments from the stack slots behind \<^verbatim>\<open>sfp\<close> and leave
  their result four slots before it.

  An integer result writes its whole register, a boolean one only the low byte: the bytes above
  it keep what the call instruction stored there, the line of the call. Signed overflow and
  shifts by a negative or too large amount are undefined.
\<close>

section \<open>Arguments and results\<close>

type_synonym native_fn = "vm \<Rightarrow> int \<Rightarrow> ((vm \<times> verr) + vm) option"

definition sfp_ivalue :: "vm \<Rightarrow> int \<Rightarrow> int \<Rightarrow> u64 option" where
  "sfp_ivalue s sfp i = ndata s (sfp + NC i)"

definition RETURNi :: "u64 \<Rightarrow> native_fn" where
  "RETURNi v s sfp = Some (Inr (rset (sfp + NC K_RTNIDX) (Word v) s))"

definition RETURNb :: "bool \<Rightarrow> native_fn" where
  "RETURNb c s sfp = do {
     old \<leftarrow> ndata s (sfp + NC K_RTNIDX);
     Some (Inr (rset (sfp + NC K_RTNIDX) (Word (set_truth c old)) s))
   }"

definition RETURNvoid :: native_fn where
  "RETURNvoid s sfp = Some (Inr s)"

text \<open>\<^verbatim>\<open>kint_t\<close> arithmetic.\<close>

definition of_kint :: "int \<Rightarrow> u64 option" where
  "of_kint n = (if -(2 ^ 63) \<le> n \<and> n < 2 ^ 63 then Some (word_of_int n) else None)"

definition int_binop :: "(int \<Rightarrow> int \<Rightarrow> int) \<Rightarrow> native_fn" where
  "int_binop f s sfp = do {
     x \<leftarrow> sfp_ivalue s sfp 0;
     y \<leftarrow> sfp_ivalue s sfp 1;
     r \<leftarrow> of_kint (f (sint x) (sint y));
     RETURNi r s sfp
   }"

definition int_cmpop :: "(int \<Rightarrow> int \<Rightarrow> bool) \<Rightarrow> native_fn" where
  "int_cmpop f s sfp = do {
     x \<leftarrow> sfp_ivalue s sfp 0;
     y \<leftarrow> sfp_ivalue s sfp 1;
     RETURNb (f (sint x) (sint y)) s sfp
   }"

section \<open>The methods\<close>

definition Boolean_opNOT :: native_fn where
  "Boolean_opNOT s sfp = do {
     x \<leftarrow> sfp_ivalue s sfp 0;
     RETURNb (\<not> truth x) s sfp
   }"

definition Int_opMINUS :: native_fn where
  "Int_opMINUS s sfp = do {
     x \<leftarrow> sfp_ivalue s sfp 0;
     r \<leftarrow> of_kint (- sint x);
     RETURNi r s sfp
   }"

definition Int_opADD :: native_fn where "Int_opADD = int_binop (+)"
definition Int_opSUB :: native_fn where "Int_opSUB = int_binop (-)"
definition Int_opMUL :: native_fn where "Int_opMUL = int_binop (*)"

text \<open>A zero divisor is reported at the line of the call, and the report does not return.\<close>

definition int_divop :: "(int \<Rightarrow> int \<Rightarrow> int) \<Rightarrow> native_fn" where
  "int_divop f s sfp = do {
     n \<leftarrow> sfp_ivalue s sfp 1;
     if n = 0 then do {
       ul \<leftarrow> sfp_ivalue s sfp K_RTNIDX;
       Some (Inl (s, Zero_divided ul))
     } else do {
       x \<leftarrow> sfp_ivalue s sfp 0;
       r \<leftarrow> of_kint (f (sint x) (sint n));
       RETURNi r s sfp
     }
   }"

definition Int_opDIV :: native_fn where "Int_opDIV = int_divop (sdiv)"

text \<open>The remainder of the least integer by -1 traps, as the quotient does.\<close>

definition Int_opMOD :: native_fn where
  "Int_opMOD s sfp = do {
     n \<leftarrow> sfp_ivalue s sfp 1;
     x \<leftarrow> sfp_ivalue s sfp 0;
     if sint n = -1 \<and> sint x = -(2 ^ 63) then None else int_divop (smod) s sfp
   }"

definition Int_opEQ :: native_fn where "Int_opEQ = int_cmpop (=)"
definition Int_opNEQ :: native_fn where "Int_opNEQ = int_cmpop (\<noteq>)"
definition Int_opLT :: native_fn where "Int_opLT = int_cmpop (<)"
definition Int_opLTE :: native_fn where "Int_opLTE = int_cmpop (\<le>)"
definition Int_opGT :: native_fn where "Int_opGT = int_cmpop (>)"
definition Int_opGTE :: native_fn where "Int_opGTE = int_cmpop (\<ge>)"

text \<open>The amount of a shift is cut to 32 bits first.\<close>

definition shift_amount :: "u64 \<Rightarrow> nat option" where
  "shift_amount w =
     (let n = sint (ucast w :: 32 word) in if 0 \<le> n \<and> n < 64 then Some (nat n) else None)"

definition Int_opLSHIFT :: native_fn where
  "Int_opLSHIFT s sfp = do {
     x \<leftarrow> sfp_ivalue s sfp 0;
     y \<leftarrow> sfp_ivalue s sfp 1;
     n \<leftarrow> shift_amount y;
     RETURNi (push_bit n x) s sfp
   }"

definition Int_opRSHIFT :: native_fn where
  "Int_opRSHIFT s sfp = do {
     x \<leftarrow> sfp_ivalue s sfp 0;
     y \<leftarrow> sfp_ivalue s sfp 1;
     n \<leftarrow> shift_amount y;
     RETURNi (signed_drop_bit n x) s sfp
   }"

definition System_assert :: native_fn where
  "System_assert s sfp = do {
     x \<leftarrow> sfp_ivalue s sfp 1;
     if \<not> truth x then do {
       ul \<leftarrow> sfp_ivalue s sfp K_RTNIDX;
       Some (Inl (s\<lparr>konoha_AssertResult := True\<rparr>, Assert_failed ul))
     } else RETURNvoid s sfp
   }"

text \<open>The methods by number, in the order of the file.\<close>

definition native_table :: "native_fn list" where
  "native_table =
     [Boolean_opNOT, Int_opMINUS, Int_opADD, Int_opSUB, Int_opMUL, Int_opDIV, Int_opMOD, Int_opEQ,
      Int_opNEQ, Int_opLT, Int_opLTE, Int_opGT, Int_opGTE, System_assert, Int_opLSHIFT,
      Int_opRSHIFT]"

definition native_method :: "nat \<Rightarrow> native_fn" where
  "native_method n = (if n < length native_table then native_table ! n else (\<lambda>_ _. None))"

end
