(* ===== verification/Blocks.thy ===== *)
theory Blocks
  imports Codegen "HOL-Library.Sublist"
begin

text \<open>
  What a graph of basic blocks means, and how the primitives of the code generator grows one.

  A graph is run block by block: the instructions of a block in order, then its edges. The effect
  of a single instruction is a parameter, so that the same run can be read off the basic blocks
  and off the code array they are laid out in.
\<close>

section \<open>Running a graph of basic blocks\<close>

type_synonym op_eff = "nat \<times> nat \<Rightarrow> kop \<Rightarrow> vm \<Rightarrow> vm option"
type_synonym conf = "nat \<times> nat \<times> vm"

definition block_exit :: "kBasicBlock \<Rightarrow> nat option" where
  "block_exit b = (case (nextNC b, jumpNC b) of
     (Some n, None) \<Rightarrow> Some n | (None, Some j) \<Rightarrow> Some j | _ \<Rightarrow> None)"

fun gnext :: "op_eff \<Rightarrow> int \<Rightarrow> kBasicBlock list \<Rightarrow> conf \<Rightarrow> conf option" where
  "gnext eff rbp G (n, i, s) = do {
     b \<leftarrow> mem_get G n;
     if i < length (ops b) then
       (case body (ops b ! i) of
          klr_JMPF _ a \<Rightarrow> do {
            w \<leftarrow> ndata s (rbp + a);
            t \<leftarrow> (if truth w then nextNC b else jumpNC b);
            Some (t, 0, s)
          }
        | k \<Rightarrow> do { s \<leftarrow> eff (n, i) k s; Some (n, i + 1, s) })
     else do { t \<leftarrow> block_exit b; Some (t, 0, s) }
   }"

definition gsteps :: "op_eff \<Rightarrow> int \<Rightarrow> kBasicBlock list \<Rightarrow> conf \<Rightarrow> conf \<Rightarrow> bool" where
  "gsteps eff rbp G = (\<lambda>c c'. gnext eff rbp G c = Some c')\<^sup>*\<^sup>*"

lemma gsteps_refl [simp]: "gsteps eff rbp G c c"
  by (simp add: gsteps_def)

lemma gsteps_trans [trans]:
  "gsteps eff rbp G c c' \<Longrightarrow> gsteps eff rbp G c' c'' \<Longrightarrow> gsteps eff rbp G c c''"
  by (simp add: gsteps_def)

lemma gsteps_one: "gnext eff rbp G c = Some c' \<Longrightarrow> gsteps eff rbp G c c'"
  by (simp add: gsteps_def r_into_rtranclp)

text \<open>An instruction that does not branch, and the end of a block.\<close>

lemma gsteps_op:
  assumes "n < length G" "i < length (ops (G ! n))" "body (ops (G ! n) ! i) = k"
    and "\<not> is_JMPF k" "eff (n, i) k s = Some s'"
  shows "gsteps eff rbp G (n, i, s) (n, i + 1, s')"
  using assms by (intro gsteps_one) (cases k; simp add: mem_get_def is_JMPF_def)

lemma gsteps_branch:
  assumes "n < length G" "i < length (ops (G ! n))" "body (ops (G ! n) ! i) = klr_JMPF p a"
    and "ndata s (rbp + a) = Some w" "(if truth w then nextNC (G ! n) else jumpNC (G ! n)) = Some t"
  shows "gsteps eff rbp G (n, i, s) (t, 0, s)"
  using assms by (intro gsteps_one) (simp add: mem_get_def)

lemma gsteps_exit:
  assumes "n < length G" "i = length (ops (G ! n))" "block_exit (G ! n) = Some t"
  shows "gsteps eff rbp G (n, i, s) (t, 0, s)"
  using assms by (intro gsteps_one) (simp add: mem_get_def)

section \<open>The growing graph of the generator\<close>

abbreviation blk :: "ctxcode \<Rightarrow> nat \<Rightarrow> kBasicBlock" where
  "blk st n \<equiv> bbs st ! n"

definition closed_block :: "kBasicBlock \<Rightarrow> bool" where
  "closed_block b \<longleftrightarrow> nextNC b \<noteq> None \<or> jumpNC b \<noteq> None"

definition same_code :: "kBasicBlock \<Rightarrow> kBasicBlock \<Rightarrow> bool" where
  "same_code b c \<longleftrightarrow> ops c = ops b \<and> nextNC c = nextNC b \<and> jumpNC c = jumpNC b"

text \<open>
  In a good state the current block has no edge yet and no block holds more instructions than it
  has room for.
\<close>

definition wf_ctx :: "ctxcode \<Rightarrow> bool" where
  "wf_ctx st \<longleftrightarrow>
     (\<forall>b. curbb st = Some b \<longrightarrow> b < length (bbs st) \<and> \<not> closed_block (blk st b)) \<and>
     (\<forall>b \<in> set (bbs st). length (ops b) \<le> opmax b)"

text \<open>
  \<open>later\<close>: finished blocks stay as they are and the current one only grows or is finished.
  \<open>keeps\<close>: of the blocks that were there only the current one has changed.
\<close>

definition later :: "ctxcode \<Rightarrow> ctxcode \<Rightarrow> bool" where
  "later st st' \<longleftrightarrow> length (bbs st) \<le> length (bbs st') \<and>
     (\<forall>n < length (bbs st).
        (closed_block (blk st n) \<longrightarrow> same_code (blk st n) (blk st' n)) \<and>
        (curbb st = Some n \<longrightarrow> prefix (ops (blk st n)) (ops (blk st' n)) \<and>
           (closed_block (blk st' n) \<or> curbb st' = Some n)))"

definition keeps :: "ctxcode \<Rightarrow> ctxcode \<Rightarrow> bool" where
  "keeps st st' \<longleftrightarrow>
     (\<forall>n < length (bbs st). curbb st \<noteq> Some n \<longrightarrow> same_code (blk st n) (blk st' n)) \<and>
     (\<forall>c. curbb st' = Some c \<longrightarrow> curbb st = Some c \<or> length (bbs st) \<le> c)"

text \<open>A graph extends the state when later generation could lead to it.\<close>

definition extends :: "kBasicBlock list \<Rightarrow> ctxcode \<Rightarrow> bool" where
  "extends G st \<longleftrightarrow> length (bbs st) \<le> length G \<and>
     (\<forall>n < length (bbs st).
        (closed_block (blk st n) \<longrightarrow> same_code (blk st n) (G ! n)) \<and>
        (curbb st = Some n \<longrightarrow> prefix (ops (blk st n)) (ops (G ! n))))"

lemma same_code_refl [simp]: "same_code b b"
  by (simp add: same_code_def)

lemma same_code_trans: "same_code a b \<Longrightarrow> same_code b c \<Longrightarrow> same_code a c"
  by (simp add: same_code_def)

lemma same_code_closed: "same_code a b \<Longrightarrow> closed_block b = closed_block a"
  by (simp add: same_code_def closed_block_def)

lemma later_refl [simp]: "later st st"
  by (simp add: later_def)

lemma keeps_refl [simp]: "keeps st st"
  by (simp add: keeps_def)

lemma later_trans:
  assumes "later st st1" "later st1 st2"
  shows "later st st2"
  unfolding later_def
proof (intro conjI allI impI)
  show "length (bbs st) \<le> length (bbs st2)" using assms by (simp add: later_def)
  fix n assume n: "n < length (bbs st)"
  then have n1: "n < length (bbs st1)" using assms(1) by (simp add: later_def)
  show "same_code (blk st n) (blk st2 n)" if "closed_block (blk st n)"
    using that assms n n1 by (meson later_def same_code_closed same_code_trans)
  show "prefix (ops (blk st n)) (ops (blk st2 n))" if c: "curbb st = Some n"
  proof -
    have p: "prefix (ops (blk st n)) (ops (blk st1 n))"
      and d: "closed_block (blk st1 n) \<or> curbb st1 = Some n"
      using assms(1) n c by (auto simp: later_def)
    from d show ?thesis
    proof
      assume "closed_block (blk st1 n)"
      then have "same_code (blk st1 n) (blk st2 n)" using assms(2) n1 by (simp add: later_def)
      with p show ?thesis by (simp add: same_code_def)
    next
      assume "curbb st1 = Some n"
      then have "prefix (ops (blk st1 n)) (ops (blk st2 n))"
        using assms(2) n1 by (simp add: later_def)
      with p show ?thesis by (rule prefix_order.trans)
    qed
  qed
  show "closed_block (blk st2 n) \<or> curbb st2 = Some n" if c: "curbb st = Some n"
  proof -
    have "closed_block (blk st1 n) \<or> curbb st1 = Some n" using assms(1) n c by (auto simp: later_def)
    then show ?thesis using assms(2) n1 by (auto simp: later_def dest: same_code_closed)
  qed
qed

lemma keeps_trans:
  assumes "keeps st st1" "keeps st1 st2" "later st st1"
  shows "keeps st st2"
  unfolding keeps_def
proof (intro conjI allI impI)
  have len: "length (bbs st) \<le> length (bbs st1)" using assms(3) by (simp add: later_def)
  fix n assume n: "n < length (bbs st)" and c: "curbb st \<noteq> Some n"
  have "curbb st1 \<noteq> Some n" using assms(1) n c by (fastforce simp: keeps_def)
  moreover have "same_code (blk st n) (blk st1 n)" using assms(1) n c by (simp add: keeps_def)
  ultimately show "same_code (blk st n) (blk st2 n)"
    using assms(2) n len by (auto simp: keeps_def intro: same_code_trans)
next
  have len: "length (bbs st) \<le> length (bbs st1)" using assms(3) by (simp add: later_def)
  fix c assume "curbb st2 = Some c"
  then have "curbb st1 = Some c \<or> length (bbs st1) \<le> c" using assms(2) by (simp add: keeps_def)
  then show "curbb st = Some c \<or> length (bbs st) \<le> c"
    using assms(1) len by (auto simp: keeps_def)
qed

lemma extends_later:
  assumes G: "extends G st'" and l: "later st st'"
  shows "extends G st"
  unfolding extends_def
proof (intro conjI allI impI)
  show "length (bbs st) \<le> length G" using assms by (simp add: extends_def later_def)
  fix n assume n: "n < length (bbs st)"
  then have n': "n < length (bbs st')" using l by (simp add: later_def)
  show "same_code (blk st n) (G ! n)" if "closed_block (blk st n)"
    using that G l n n' by (meson extends_def later_def same_code_closed same_code_trans)
  show "prefix (ops (blk st n)) (ops (G ! n))" if c: "curbb st = Some n"
  proof -
    have p: "prefix (ops (blk st n)) (ops (blk st' n))"
      and d: "closed_block (blk st' n) \<or> curbb st' = Some n"
      using l n c by (auto simp: later_def)
    have "prefix (ops (blk st' n)) (ops (G ! n))"
      using d G n' by (auto simp: extends_def same_code_def)
    with p show ?thesis by (rule prefix_order.trans)
  qed
qed

section \<open>The primitives\<close>

text \<open>
  \<open>grows st st'\<close> is what every generator guarantees: it stays well formed, later and keeps.
\<close>

definition grows :: "ctxcode \<Rightarrow> ctxcode \<Rightarrow> bool" where
  "grows st st' \<longleftrightarrow> wf_ctx st' \<and> later st st' \<and> keeps st st'"

lemma grows_refl: "wf_ctx st \<Longrightarrow> grows st st"
  by (simp add: grows_def)

lemma grows_trans: "grows st st1 \<Longrightarrow> grows st1 st2 \<Longrightarrow> grows st st2"
  unfolding grows_def using later_trans keeps_trans by blast

lemma mem_get_eq_Some: "mem_get xs n = Some x \<longleftrightarrow> n < length xs \<and> x = xs ! n"
  by (auto simp: mem_get_def)

lemma bb_set_Some: "n < length (bbs st) \<Longrightarrow> bb_set n f st = Some (st\<lparr>bbs := (bbs st)[n := f (blk st n)]\<rparr>)"
  by (simp add: bb_set_def mem_get_def)

lemma op_room_simps [simp]:
  "nextNC (op_room b) = nextNC b" "jumpNC (op_room b) = jumpNC b"
  "incoming (op_room b) = incoming b"
  by (simp_all add: op_room_def)

lemma op_room_ok:
  "length (ops b) \<le> opmax b \<Longrightarrow> ops (op_room b) = ops b \<and> length (ops b) < opmax (op_room b)"
  by (auto simp: op_room_def)

text \<open>A new label is an empty block without edges; nothing else changes.\<close>

lemma new_label:
  assumes "wf_ctx st" "new_BasicBlockLABEL st = (n, st')"
  shows "n = length (bbs st)" "length (bbs st') = n + 1" "curbb st' = curbb st" "grows st st'"
    "ops (blk st' n) = []" "\<not> closed_block (blk st' n)" "\<And>m. m < n \<Longrightarrow> blk st' m = blk st m"
    "lbEND st' = lbEND st" "uline st' = uline st" "labels st' = labels st"
  using assms
  by (auto simp: new_BasicBlockLABEL_def Let_def grows_def wf_ctx_def later_def keeps_def
      BasicBlock_init_def closed_block_def nth_append)

text \<open>Adding an instruction.\<close>

definition add_op :: "nat \<Rightarrow> kopl \<Rightarrow> ctxcode \<Rightarrow> ctxcode" where
  "add_op n k st = st\<lparr>bbs := (bbs st)[n := (op_room (blk st n))\<lparr>ops := ops (blk st n) @ [k]\<rparr>]\<rparr>"

lemma BasicBlock_add_Some:
  assumes "wf_ctx st" "n < length (bbs st)"
  shows "BasicBlock_add n ln k st = Some (add_op n ((kopl_of k)\<lparr>line := ln\<rparr>) st)"
proof -
  have "length (ops (blk st n)) \<le> opmax (blk st n)" using assms by (simp add: wf_ctx_def)
  from op_room_ok [OF this] show ?thesis
    using assms(2) by (simp add: BasicBlock_add_def mem_get_def add_op_def Let_def)
qed

lemma add_op_facts:
  assumes "wf_ctx st" "curbb st = Some n"
  shows "grows st (add_op n k st)" "curbb (add_op n k st) = Some n"
    "length (bbs (add_op n k st)) = length (bbs st)"
    "ops (blk (add_op n k st) n) = ops (blk st n) @ [k]"
    "nextNC (blk (add_op n k st) n) = nextNC (blk st n)"
    "jumpNC (blk (add_op n k st) n) = jumpNC (blk st n)"
proof -
  have n: "n < length (bbs st)" and o: "\<not> closed_block (blk st n)"
    and r: "length (ops (blk st n)) \<le> opmax (blk st n)"
    using assms by (auto simp: wf_ctx_def)
  from op_room_ok [OF r] have room: "length (ops (blk st n)) < opmax (op_room (blk st n))" by simp
  have "wf_ctx (add_op n k st)"
    using assms n o room
    by (auto simp: wf_ctx_def add_op_def closed_block_def dest!: subsetD [OF set_update_subset_insert])
  then show "grows st (add_op n k st)"
    using assms n o by (auto simp: grows_def later_def keeps_def add_op_def nth_list_update)
qed (use assms in \<open>auto simp: add_op_def wf_ctx_def\<close>)

text \<open>The place where the next instruction goes, and a configuration that stands there.\<close>

definition loc :: "ctxcode \<Rightarrow> nat \<times> nat" where
  "loc st = (the (curbb st), length (ops (blk st (the (curbb st)))))"

definition at :: "ctxcode \<Rightarrow> vm \<Rightarrow> conf" where
  "at st s = (fst (loc st), snd (loc st), s)"

lemma BUILD_asm_ok:
  assumes wf: "wf_ctx st" and cur: "curbb st = Some b" and k: "\<not> is_JMPF k"
  obtains st' where "BUILD_asm k st = Some st'" "grows st st'" "curbb st' = Some b"
    "length (bbs st') = length (bbs st)" "uline st' = uline st"
    "\<And>(eff :: op_eff) rbp G s s'. extends G st' \<Longrightarrow> eff (loc st) k s = Some s' \<Longrightarrow>
        gsteps eff rbp G (at st s) (at st' s')"
proof -
  let ?k = "(kopl_of k)\<lparr>line := ucast (uline st)\<rparr>"
  let ?st = "add_op b ?k st"
  have b: "b < length (bbs st)" using wf cur by (simp add: wf_ctx_def)
  note f = add_op_facts [OF wf cur, of ?k]
  show thesis
  proof (rule that [of ?st])
    show "BUILD_asm k st = Some ?st"
      using BasicBlock_add_Some [OF wf b] cur k by (simp add: BUILD_asm_def)
    fix eff :: op_eff and rbp G s s'
    assume G: "extends G ?st" and e: "eff (loc st) k s = Some s'"
    have bG: "b < length G" and p: "prefix (ops (blk ?st b)) (ops (G ! b))"
      using G f(2,3) b by (auto simp: extends_def)
    from p obtain r where r: "ops (G ! b) = ops (blk st b) @ ?k # r"
      unfolding f(4) by (auto simp: prefix_def)
    have "gsteps eff rbp G (b, length (ops (blk st b)), s) (b, length (ops (blk st b)) + 1, s')"
      using bG r k e cur by (intro gsteps_op [where k = k]) (simp_all add: kopl_of_def loc_def)
    then show "gsteps eff rbp G (at st s) (at ?st s')"
      using cur f(2,4) by (simp add: at_def loc_def)
  qed (use f in \<open>simp_all add: add_op_def\<close>)
qed

lemma nth_update: "xs[i := x] ! j = (if i = j \<and> j < length xs then x else xs ! j)"
  by (cases "i = j") (auto simp: list_update_beyond)

text \<open>Writing an edge of the current block finishes it; counting an incoming edge changes no code.\<close>

definition set_edges :: "nat \<Rightarrow> nat option \<Rightarrow> nat option \<Rightarrow> nat \<Rightarrow> nat option \<Rightarrow> ctxcode \<Rightarrow> ctxcode" where
  "set_edges b n j l cur st =
     (let bs = (bbs st)[b := (blk st b)\<lparr>nextNC := n, jumpNC := j\<rparr>]
      in st\<lparr>bbs := bs[l := (bs ! l)\<lparr>incoming := incoming (bs ! l) + 1\<rparr>], curbb := cur\<rparr>)"

lemma set_edges_facts:
  assumes "wf_ctx st" "curbb st = Some b" "l < length (bbs st)" "n \<noteq> None \<or> j \<noteq> None"
    and "\<And>c. cur = Some c \<Longrightarrow> c < length (bbs st) \<and> c \<noteq> b \<and> \<not> closed_block (blk st c)"
  shows "wf_ctx (set_edges b n j l cur st)" "later st (set_edges b n j l cur st)"
    "length (bbs (set_edges b n j l cur st)) = length (bbs st)"
    "curbb (set_edges b n j l cur st) = cur"
    "ops (blk (set_edges b n j l cur st) b) = ops (blk st b)"
    "nextNC (blk (set_edges b n j l cur st) b) = n"
    "jumpNC (blk (set_edges b n j l cur st) b) = j"
    "\<And>m. m \<noteq> b \<Longrightarrow> same_code (blk st m) (blk (set_edges b n j l cur st) m)"
    "uline (set_edges b n j l cur st) = uline st"
    "lbEND (set_edges b n j l cur st) = lbEND st" "labels (set_edges b n j l cur st) = labels st"
proof -
  let ?st = "set_edges b n j l cur st"
  have b: "b < length (bbs st)" using assms(1,2) by (simp add: wf_ctx_def)
  show sc: "same_code (blk st m) (blk ?st m)" if "m \<noteq> b" for m
    using that b assms(3) by (auto simp: set_edges_def Let_def same_code_def nth_update)
  show o: "ops (blk ?st b) = ops (blk st b)" and nx: "nextNC (blk ?st b) = n"
    and jm: "jumpNC (blk ?st b) = j"
    using b assms(3) by (auto simp: set_edges_def Let_def nth_update)
  show len: "length (bbs ?st) = length (bbs st)" and c: "curbb ?st = cur"
    by (simp_all add: set_edges_def Let_def)
  have cl: "closed_block (blk ?st b)" using nx jm assms(4) by (simp add: closed_block_def)
  have room: "length (ops x) \<le> opmax x" if x: "x \<in> set (bbs ?st)" for x
  proof -
    obtain m where m: "m < length (bbs st)" "x = blk ?st m"
      using x len by (metis in_set_conv_nth)
    have "ops x = ops (blk st m)" and "opmax x = opmax (blk st m)"
      using m assms(3) by (auto simp: set_edges_def Let_def nth_update)
    then show ?thesis using assms(1) m by (simp add: wf_ctx_def)
  qed
  show "wf_ctx ?st"
    using assms(5) room len c same_code_closed [OF sc] by (auto simp: wf_ctx_def)
  show "later st ?st"
    using assms(1,2) len cl o sc by (auto simp: later_def wf_ctx_def) (metis prefix_order.refl)
qed (simp_all add: set_edges_def Let_def)

lemma ASM_LABEL_eq:
  assumes "curbb st = Some b" "b < length (bbs st)" "l < length (bbs st)"
  shows "ASM_LABEL l st = Some (set_edges b (Some l) None l (Some l) st)"
  using assms by (simp add: ASM_LABEL_def bb_set_Some set_edges_def Let_def)

lemma ASM_JMP_eq:
  assumes "curbb st = Some b" "b < length (bbs st)" "l < length (bbs st)"
  shows "ASM_JMP l st = Some (set_edges b None (Some l) l None st)"
  using assms by (simp add: ASM_JMP_def bb_set_Some set_edges_def Let_def)

lemma gsteps_finished:
  assumes "extends G st'" "b < length (bbs st')" "closed_block (blk st' b)"
    "block_exit (blk st' b) = Some t" "i = length (ops (blk st' b))"
  shows "gsteps eff rbp G (b, i, s) (t, 0, s)"
proof (rule gsteps_exit)
  have sc: "same_code (blk st' b) (G ! b)" using assms by (simp add: extends_def)
  show "b < length G" using assms(1,2) by (simp add: extends_def)
  show "i = length (ops (G ! b))" using sc assms(5) by (simp add: same_code_def)
  show "block_exit (G ! b) = Some t" using sc assms(4) by (simp add: same_code_def block_exit_def)
qed

text \<open>
  Placing a label: the current block, if there is one, falls through to it. The outer generator,
  which made the label, still keeps the blocks that were there before.
\<close>

lemma grows_outer:
  assumes "grows st0 st" "wf_ctx st'" "later st st'"
    and "\<And>m. curbb st \<noteq> Some m \<Longrightarrow> same_code (blk st m) (blk st' m)"
    and "\<And>c. curbb st' = Some c \<Longrightarrow> length (bbs st0) \<le> c"
  shows "grows st0 st'"
  unfolding grows_def
proof (intro conjI)
  have l: "later st0 st" and k: "keeps st0 st" using assms(1) by (simp_all add: grows_def)
  show "wf_ctx st'" by fact
  show "later st0 st'" using l assms(3) by (rule later_trans)
  show "keeps st0 st'" unfolding keeps_def
  proof (intro conjI allI impI)
    fix n assume n: "n < length (bbs st0)" and c: "curbb st0 \<noteq> Some n"
    have "curbb st \<noteq> Some n" using k n c by (fastforce simp: keeps_def)
    with k n c assms(4) show "same_code (blk st0 n) (blk st' n)"
      by (auto simp: keeps_def intro: same_code_trans)
  next
    fix c assume "curbb st' = Some c"
    with assms(5) show "curbb st0 = Some c \<or> length (bbs st0) \<le> c" by blast
  qed
qed

lemma ASM_LABEL_ok:
  assumes wf: "wf_ctx st" and l: "l < length (bbs st)" "curbb st \<noteq> Some l"
    and o: "ops (blk st l) = []" "\<not> closed_block (blk st l)"
  obtains st' where "ASM_LABEL l st = Some st'" "wf_ctx st'" "later st st'" "curbb st' = Some l"
    "length (bbs st') = length (bbs st)" "\<And>s. at st' s = (l, 0, s)"
    "\<And>m. curbb st \<noteq> Some m \<Longrightarrow> same_code (blk st m) (blk st' m)"
    "uline st' = uline st" "lbEND st' = lbEND st" "labels st' = labels st"
    "\<And>(eff :: op_eff) rbp G s. extends G st' \<Longrightarrow> curbb st \<noteq> None \<Longrightarrow>
        gsteps eff rbp G (at st s) (at st' s)"
proof (cases "curbb st")
  case None
  let ?st = "st\<lparr>curbb := Some l\<rparr>"
  show thesis
  proof (rule that [of ?st])
    show "ASM_LABEL l st = Some ?st" using None by (simp add: ASM_LABEL_def)
    show "wf_ctx ?st" using wf l o by (simp add: wf_ctx_def)
    show "later st ?st" using None by (simp add: later_def)
  qed (use None o in \<open>simp_all add: at_def loc_def\<close>)
next
  case (Some b)
  have b: "b < length (bbs st)" using wf Some by (simp add: wf_ctx_def)
  let ?st = "set_edges b (Some l) None l (Some l) st"
  have "wf_ctx ?st" "later st ?st" and f: "length (bbs ?st) = length (bbs st)"
    "curbb ?st = Some l" "ops (blk ?st b) = ops (blk st b)" "nextNC (blk ?st b) = Some l"
    "jumpNC (blk ?st b) = None" "\<And>m. m \<noteq> b \<Longrightarrow> same_code (blk st m) (blk ?st m)"
    using set_edges_facts [of st b l "Some l" None "Some l"] wf Some l o by auto
  show thesis
  proof (rule that [of ?st])
    show "ASM_LABEL l st = Some ?st" using Some b l(1) by (rule ASM_LABEL_eq)
    have "ops (blk ?st l) = []" using f(6) [of l] l(2) o Some by (auto simp: same_code_def)
    then show at': "at ?st s = (l, 0, s)" for s using f(2) by (simp add: at_def loc_def)
    fix eff :: op_eff and rbp G s assume G: "extends G ?st"
    have "gsteps eff rbp G (b, length (ops (blk st b)), s) (l, 0, s)"
      using b f by (intro gsteps_finished [OF G]) (auto simp: closed_block_def block_exit_def)
    then show "gsteps eff rbp G (at st s) (at ?st s)"
      unfolding at' using Some by (simp add: at_def loc_def)
  qed (use \<open>wf_ctx ?st\<close> \<open>later st ?st\<close> f Some in \<open>auto simp: set_edges_def Let_def\<close>)
qed

lemma ASM_JMP_ok:
  assumes wf: "wf_ctx st" and l: "l < length (bbs st)"
  obtains st' where "ASM_JMP l st = Some st'" "grows st st'" "curbb st' = None"
    "length (bbs st') = length (bbs st)" "uline st' = uline st" "lbEND st' = lbEND st"
    "labels st' = labels st"
    "\<And>(eff :: op_eff) rbp G s. extends G st' \<Longrightarrow> curbb st \<noteq> None \<Longrightarrow>
        gsteps eff rbp G (at st s) (l, 0, s)"
proof (cases "curbb st")
  case None
  show thesis
    by (rule that [of "st\<lparr>curbb := None\<rparr>"])
      (use None wf in \<open>auto simp: ASM_JMP_def grows_def later_def keeps_def wf_ctx_def\<close>)
next
  case (Some b)
  have b: "b < length (bbs st)" using wf Some by (simp add: wf_ctx_def)
  let ?st = "set_edges b None (Some l) l None st"
  have w: "wf_ctx ?st" "later st ?st" and f: "length (bbs ?st) = length (bbs st)"
    "curbb ?st = None" "ops (blk ?st b) = ops (blk st b)" "nextNC (blk ?st b) = None"
    "jumpNC (blk ?st b) = Some l" "\<And>m. m \<noteq> b \<Longrightarrow> same_code (blk st m) (blk ?st m)"
    using set_edges_facts [of st b l None "Some l" None] wf Some l by auto
  show thesis
  proof (rule that [of ?st])
    show "ASM_JMP l st = Some ?st" using Some b l by (rule ASM_JMP_eq)
    show "grows st ?st" using w f Some by (auto simp: grows_def keeps_def)
    fix eff :: op_eff and rbp G s assume G: "extends G ?st"
    have "gsteps eff rbp G (b, length (ops (blk st b)), s) (l, 0, s)"
      using b f by (intro gsteps_finished [OF G]) (auto simp: closed_block_def block_exit_def)
    then show "gsteps eff rbp G (at st s) (l, 0, s)" using Some by (simp add: at_def loc_def)
  qed (use f in \<open>auto simp: set_edges_def Let_def\<close>)
qed

lemma edge_update_order: "b\<lparr>jumpNC := j, nextNC := n\<rparr> = b\<lparr>nextNC := n, jumpNC := j\<rparr>"
  for b :: kBasicBlock
  by (cases b) simp

text \<open>The conditional jump: true goes on in a fresh block, false goes to the label.\<close>

lemma ASM_JMPF_ok:
  assumes wf: "wf_ctx st" and cur: "curbb st = Some b" and l: "l < length (bbs st)"
  obtains st' where "ASM_JMPF a l st = Some st'" "grows st st'" "curbb st' = Some (length (bbs st))"
    "length (bbs st') = length (bbs st) + 1" "uline st' = uline st" "lbEND st' = lbEND st"
    "labels st' = labels st"
    "\<And>(eff :: op_eff) rbp G s w. extends G st' \<Longrightarrow> ndata s (rbp + NC a) = Some w \<Longrightarrow>
        gsteps eff rbp G (at st s) (if truth w then at st' s else (l, 0, s))"
proof -
  define n where "n = length (bbs st)"
  obtain st1 where nl: "new_BasicBlockLABEL st = (n, st1)"
    by (cases "new_BasicBlockLABEL st") (use new_label(1) [OF wf] n_def in blast)
  note f1 = new_label [OF wf nl]
  have wf1: "wf_ctx st1" using f1(4) by (simp add: grows_def)
  have cur1: "curbb st1 = Some b" and bn: "b < n" "b < length (bbs st1)" "n < length (bbs st1)"
    using f1 cur wf by (auto simp: wf_ctx_def)
  let ?k = "(kopl_of (klr_JMPF None (NC a)))\<lparr>line := ucast (uline st)\<rparr>"
  let ?st2 = "add_op b ?k st1"
  note f2 = add_op_facts [OF wf1 cur1, of ?k]
  have wf2: "wf_ctx ?st2" using f2(1) by (simp add: grows_def)
  have o2: "ops (blk ?st2 n) = []" "\<not> closed_block (blk ?st2 n)"
    using f1(5,6) bn by (auto simp: add_op_def)
  let ?mid = "set_edges b (Some n) (Some l) n (Some n) ?st2"
  let ?st' = "?mid\<lparr>bbs := (bbs ?mid)[l := (blk ?mid l)\<lparr>incoming := incoming (blk ?mid l) + 1\<rparr>]\<rparr>"
  have l2: "l < length (bbs ?st2)" using l f1(2) n_def by (simp add: add_op_def)
  have m: "wf_ctx ?mid" "later ?st2 ?mid" "length (bbs ?mid) = n + 1" "curbb ?mid = Some n"
    "ops (blk ?mid b) = ops (blk st b) @ [?k]" "nextNC (blk ?mid b) = Some n"
    "jumpNC (blk ?mid b) = Some l" "\<And>m. m \<noteq> b \<Longrightarrow> same_code (blk ?st2 m) (blk ?mid m)"
    "uline ?mid = uline st" "lbEND ?mid = lbEND st" "labels ?mid = labels st"
    using set_edges_facts [of ?st2 b n "Some n" "Some l" "Some n"] wf2 f2 bn o2 f1 by auto
      (simp_all add: add_op_def)
  have sc: "same_code (blk ?mid k) (blk ?st' k)" for k
    by (auto simp: same_code_def nth_update)
  have "curbb ?st' = Some n" "length (bbs ?st') = n + 1" using m by simp_all
  have wf': "wf_ctx ?st'" 
  proof -
    have "length (ops x) \<le> opmax x" if "x \<in> set (bbs ?st')" for x
    proof -
      from that have "\<exists>k < length (bbs ?st'). x = blk ?st' k" unfolding in_set_conv_nth by blast
      then obtain k where k: "k < length (bbs ?mid)" "x = blk ?st' k" by auto
      then have "ops x = ops (blk ?mid k)" "opmax x = opmax (blk ?mid k)"
        by (auto simp: nth_update)
      with m(1) k show ?thesis by (simp add: wf_ctx_def)
    qed
    then show ?thesis using m(1,4) same_code_closed [OF sc [of n]] by (auto simp: wf_ctx_def)
  qed
  have lat: "later ?mid ?st'" using m(4) sc by (auto simp: later_def same_code_def)
  show thesis
  proof (rule that [of ?st'])
    show "ASM_JMPF a l st = Some ?st'"
      using nl cur cur1 bn l2 wf1 f1(9)
      by (simp add: ASM_JMPF_def BUILD_asmJMPF_def BasicBlock_add_Some Let_def bb_set_Some
          set_edges_def add_op_def edge_update_order)
    have "grows st ?st2" using f1(4) f2(1) by (rule grows_trans)
    then show "grows st ?st'"
    proof (rule grows_outer)
      show "later ?st2 ?st'" using m(2) lat by (rule later_trans)
      show "same_code (blk ?st2 k) (blk ?st' k)" if "curbb ?st2 \<noteq> Some k" for k
        using m(8) [of k] sc that f2(2) by (auto intro: same_code_trans)
      show "length (bbs st) \<le> c" if "curbb ?st' = Some c" for c
        using that m(4) n_def by simp
    qed (fact wf')
    fix eff :: op_eff and rbp G s w
    assume G: "extends G ?st'" and w: "ndata s (rbp + NC a) = Some w"
    have b': "same_code (blk ?mid b) (blk ?st' b)" by (rule sc)
    have cl: "closed_block (blk ?st' b)" using same_code_closed [OF b'] m by (simp add: closed_block_def)
    have g: "same_code (blk ?st' b) (G ! b)" "b < length G"
      using G cl bn m by (auto simp: extends_def)
    have Gb: "ops (G ! b) = ops (blk st b) @ [?k]" "nextNC (G ! b) = Some n" "jumpNC (G ! b) = Some l"
      using b' g(1) m by (auto simp: same_code_def)
    have at': "at ?st' s = (n, 0, s)"
      using m(4) sc [of n] m(8) [of n] o2 bn by (auto simp: at_def loc_def same_code_def)
    show "gsteps eff rbp G (at st s) (if truth w then at ?st' s else (l, 0, s))"
      unfolding at_def loc_def using g(2) Gb w at' cur
      by (auto simp: at_def loc_def kopl_of_def intro!: gsteps_branch)
  qed (use m n_def in simp_all)
qed

end
