(* ===== verification/CompileExpr.thy ===== *)
theory CompileExpr
  imports Blocks
begin

text \<open>
  Compiled expressions compute what a direct evaluation of the tree computes. The theorem covers
  constants, locals, stack variables, fields, calls of native methods, and the short-circuit
  operators, at every destination that later operands do not read.
\<close>

section \<open>Reference evaluation\<close>

definition rdst :: "cenv \<Rightarrow> u32 \<Rightarrow> int \<Rightarrow> int" where
  "rdst env ty a = (if TY_isUnbox env ty then NC a else OC a)"

definition isBool :: "cenv \<Rightarrow> u32 \<Rightarrow> bool" where
  "isBool env ty \<longleftrightarrow> CT_of env ty = CT_Boolean env"

text \<open>A boolean register means its low byte only.\<close>

definition norm :: "cenv \<Rightarrow> u32 \<Rightarrow> u64 \<Rightarrow> u64" where
  "norm env ty w = (if isBool env ty then (if truth w then 1 else 0) else w)"

fun and_eval :: "u64 option list \<Rightarrow> bool option" where
  "and_eval [] = Some True"
| "and_eval (None # vs) = None"
| "and_eval (Some v # vs) = (if truth v then and_eval vs else Some False)"

fun or_eval :: "u64 option list \<Rightarrow> bool option" where
  "or_eval [] = Some False"
| "or_eval (None # vs) = None"
| "or_eval (Some v # vs) = (if truth v then Some True else or_eval vs)"

fun those_vals :: "u64 option list \<Rightarrow> u64 list option" where
  "those_vals [] = Some []"
| "those_vals (v # vs) = do { v \<leftarrow> v; vs \<leftarrow> those_vals vs; Some (v # vs) }"

type_synonym callf = "u64 \<Rightarrow> u64 list \<Rightarrow> u64 option"

definition args_from :: "kMethod \<Rightarrow> nat" where
  "args_from m = (if kMethod_isStatic m then 1 else 0)"

definition of_truth :: "bool \<Rightarrow> u64" where
  "of_truth b = (if b then 1 else 0)"

text \<open>
  The value of an expression, from the meaning of the native methods, the heap, and what the
  registers hold relative to the frame. Expressions outside the fragment have no value here.
\<close>

primrec eval :: "kexpr \<Rightarrow> cenv \<Rightarrow> callf \<Rightarrow> heap \<Rightarrow> int \<Rightarrow> (int \<Rightarrow> u64 option) \<Rightarrow> u64 option" where
  "eval (TEXPR_CONST ty v) env cf h shift rd =
     (if TY_isUnbox env ty
      then do { ob \<leftarrow> const_objs env v; n \<leftarrow> mem_get (ofields ob) 0; Some (norm env ty n) }
      else Some (norm env ty v))"
| "eval (TEXPR_NEW ty index) env cf h shift rd = None"
| "eval (TEXPR_NULL ty) env cf h shift rd = (if TY_isUnbox env ty then Some (norm env ty 0) else None)"
| "eval (TEXPR_NCONST ty n) env cf h shift rd = Some (norm env ty n)"
| "eval (TEXPR_LOCAL ty index) env cf h shift rd =
     do { w \<leftarrow> rd (rdst env ty index); Some (norm env ty w) }"
| "eval (TEXPR_BLOCK ty bk) env cf h shift rd = None"
| "eval (TEXPR_FIELD ty ix) env cf h shift rd = do {
     w \<leftarrow> rd (OC (field_index ix));
     ob \<leftarrow> h w;
     x \<leftarrow> mem_get (ofields ob) (unat (field_xindex ix));
     Some (norm env ty x)
   }"
| "eval (TEXPR_BOX ty e) env cf h shift rd = None"
| "eval (TEXPR_UNBOX ty e) env cf h shift rd = None"
| "eval (TEXPR_CALL ty mtd args) env cf h shift rd = do {
     m \<leftarrow> cmtds env mtd;
     vs \<leftarrow> those_vals (drop (args_from m) (map (\<lambda>e. eval e env cf h shift rd) args));
     cf mtd vs
   }"
| "eval (TEXPR_AND ty es) env cf h shift rd =
     map_option of_truth (and_eval (map (\<lambda>e. eval e env cf h shift rd) es))"
| "eval (TEXPR_OR ty es) env cf h shift rd =
     map_option of_truth (or_eval (map (\<lambda>e. eval e env cf h shift rd) es))"
| "eval (TEXPR_LET ty l r) env cf h shift rd = None"
| "eval (TEXPR_STACKTOP ty index) env cf h shift rd =
     do { w \<leftarrow> rd (rdst env ty (index + shift)); Some (norm env ty w) }"

text \<open>The stack slots an expression reads.\<close>

primrec reads :: "kexpr \<Rightarrow> int \<Rightarrow> int set" where
  "reads (TEXPR_CONST ty v) shift = {}"
| "reads (TEXPR_NEW ty index) shift = {}"
| "reads (TEXPR_NULL ty) shift = {}"
| "reads (TEXPR_NCONST ty n) shift = {}"
| "reads (TEXPR_LOCAL ty index) shift = {index}"
| "reads (TEXPR_BLOCK ty bk) shift = {}"
| "reads (TEXPR_FIELD ty ix) shift = {field_index ix}"
| "reads (TEXPR_BOX ty e) shift = reads e shift"
| "reads (TEXPR_UNBOX ty e) shift = reads e shift"
| "reads (TEXPR_CALL ty mtd args) shift = \<Union> (set (map (\<lambda>e. reads e shift) args))"
| "reads (TEXPR_AND ty es) shift = \<Union> (set (map (\<lambda>e. reads e shift) es))"
| "reads (TEXPR_OR ty es) shift = \<Union> (set (map (\<lambda>e. reads e shift) es))"
| "reads (TEXPR_LET ty l r) shift = reads l shift \<union> reads r shift"
| "reads (TEXPR_STACKTOP ty index) shift = {index + shift}"

text \<open>
  Operands of AND and OR are all computed in the destination itself, so the ones after the
  first must not read it.
\<close>

primrec safe_dest :: "kexpr \<Rightarrow> int \<Rightarrow> int \<Rightarrow> bool" where
  "safe_dest (TEXPR_CONST ty v) shift a = True"
| "safe_dest (TEXPR_NEW ty index) shift a = True"
| "safe_dest (TEXPR_NULL ty) shift a = True"
| "safe_dest (TEXPR_NCONST ty n) shift a = True"
| "safe_dest (TEXPR_LOCAL ty index) shift a = True"
| "safe_dest (TEXPR_BLOCK ty bk) shift a = True"
| "safe_dest (TEXPR_FIELD ty ix) shift a = True"
| "safe_dest (TEXPR_BOX ty e) shift a = True"
| "safe_dest (TEXPR_UNBOX ty e) shift a = True"
| "safe_dest (TEXPR_CALL ty mtd args) shift a = True"
| "safe_dest (TEXPR_AND ty es) shift a =
     (list_all id (map (\<lambda>e. safe_dest e shift a) es) \<and> (\<forall>e \<in> set (tl es). a \<notin> reads e shift))"
| "safe_dest (TEXPR_OR ty es) shift a =
     (list_all id (map (\<lambda>e. safe_dest e shift a) es) \<and> (\<forall>e \<in> set (tl es). a \<notin> reads e shift))"
| "safe_dest (TEXPR_LET ty l r) shift a = True"
| "safe_dest (TEXPR_STACKTOP ty index) shift a = True"

text \<open>
  Types: numbers are unboxed, operands of AND and OR are booleans, and a call passes what the
  signature of its method asks for. \<open>sg\<close> gives the parameter types and the result type.
\<close>

type_synonym sigs = "u64 \<Rightarrow> u32 list \<times> u32"

definition call_typed :: "cenv \<Rightarrow> sigs \<Rightarrow> u64 \<Rightarrow> u32 list \<Rightarrow> u32 \<Rightarrow> bool" where
  "call_typed env sg mtd tys ty \<longleftrightarrow>
     (case cmtds env mtd of
        None \<Rightarrow> False
      | Some m \<Rightarrow> \<not> kMethod_isVirtual m \<and> fcall_1 m \<noteq> Fmethod_runVM
          \<and> sg mtd = (drop (args_from m) tys, ty))"

primrec typed :: "kexpr \<Rightarrow> cenv \<Rightarrow> sigs \<Rightarrow> bool" where
  "typed (TEXPR_CONST ty v) env sg =
     (TY_isUnbox env ty \<longrightarrow> do { ob \<leftarrow> const_objs env v; mem_get (ofields ob) 0 } \<noteq> None)"
| "typed (TEXPR_NEW ty index) env sg = False"
| "typed (TEXPR_NULL ty) env sg = TY_isUnbox env ty"
| "typed (TEXPR_NCONST ty n) env sg = TY_isUnbox env ty"
| "typed (TEXPR_LOCAL ty index) env sg = True"
| "typed (TEXPR_BLOCK ty bk) env sg = False"
| "typed (TEXPR_FIELD ty ix) env sg = True"
| "typed (TEXPR_BOX ty e) env sg = False"
| "typed (TEXPR_UNBOX ty e) env sg = False"
| "typed (TEXPR_CALL ty mtd args) env sg =
     (list_all id (map (\<lambda>e. typed e env sg) args) \<and> call_typed env sg mtd (map expr_ty args) ty)"
| "typed (TEXPR_AND ty es) env sg =
     (list_all id (map (\<lambda>e. typed e env sg) es) \<and> TY_isUnbox env ty \<and> isBool env ty
      \<and> (\<forall>e \<in> set es. TY_isUnbox env (expr_ty e) \<and> isBool env (expr_ty e)))"
| "typed (TEXPR_OR ty es) env sg =
     (list_all id (map (\<lambda>e. typed e env sg) es) \<and> TY_isUnbox env ty \<and> isBool env ty
      \<and> (\<forall>e \<in> set es. TY_isUnbox env (expr_ty e) \<and> isBool env (expr_ty e)))"
| "typed (TEXPR_LET ty l r) env sg = False"
| "typed (TEXPR_STACKTOP ty index) env sg = True"

lemma eval_cong:
  "(\<And>l. l \<in> reads e shift \<Longrightarrow> rd (NC l) = rd' (NC l) \<and> rd (OC l) = rd' (OC l)) \<Longrightarrow>
   eval e env cf h shift rd = eval e env cf h shift rd'"
proof (induction e rule: kexpr.induct [where ?P2.0 = "\<lambda>_. True" and ?P3.0 = "\<lambda>_. True" and ?P4.0 = "\<lambda>_. True"])
  case (TEXPR_CALL ty mtd args)
  then have "map (\<lambda>e. eval e env cf h shift rd) args = map (\<lambda>e. eval e env cf h shift rd') args"
    by (intro map_cong) auto
  then show ?case by (simp only: eval.simps)
next
  case (TEXPR_AND ty es)
  then have "map (\<lambda>e. eval e env cf h shift rd) es = map (\<lambda>e. eval e env cf h shift rd') es"
    by (intro map_cong) auto
  then show ?case by (simp only: eval.simps)
next
  case (TEXPR_OR ty es)
  then have "map (\<lambda>e. eval e env cf h shift rd) es = map (\<lambda>e. eval e env cf h shift rd') es"
    by (intro map_cong) auto
  then show ?case by (simp only: eval.simps)
qed (simp_all add: rdst_def)

lemma in_set_tl: "x \<in> set (tl xs) \<Longrightarrow> x \<in> set xs"
  by (cases xs) auto

lemma safe_dest_fresh:
  "(\<And>l. l \<in> reads e shift \<Longrightarrow> l < a) \<Longrightarrow> safe_dest e shift a"
proof (induction e rule: kexpr.induct [where ?P2.0 = "\<lambda>_. True" and ?P3.0 = "\<lambda>_. True" and ?P4.0 = "\<lambda>_. True"])
  case (TEXPR_AND ty es)
  then show ?case by (fastforce simp: list_all_iff dest: in_set_tl)
next
  case (TEXPR_OR ty es)
  then show ?case by (fastforce simp: list_all_iff dest: in_set_tl)
qed simp_all

section \<open>Single instructions\<close>

text \<open>
  The effect of an instruction that goes on with the next one, as the machine gives it. \<open>addr\<close> is
  where the instruction lies in the code.
\<close>

definition op_effect :: "fcall \<Rightarrow> venv \<Rightarrow> (nat \<times> nat \<Rightarrow> codeptr) \<Rightarrow> int \<Rightarrow> op_eff" where
  "op_effect call venv addr rbp l k s =
     (case VirtualMachine_step call venv s rbp (addr l) k of
        Some (Goto s' rbp' pc') \<Rightarrow>
          if rbp' = rbp \<and> pc' = Some (PC_NEXT (addr l)) then Some s' else None
      | _ \<Rightarrow> None)"

lemma regs_rset: "regs (rset i v s) j = (if j = i then v else regs s j)"
  by (simp add: rset_def)

lemma rset_simps [simp]:
  "objs (rset i v s) = objs s" "mtds (rset i v s) = mtds s" "esp (rset i v s) = esp s"
  "stack_uplimit (rset i v s) = stack_uplimit s" "codes (rset i v s) = codes s"
  "PRECOMPILED_ENTER (rset i v s) = PRECOMPILED_ENTER s"
  by (simp_all add: rset_def)

lemma ndata_Word: "ndata s i = Some w \<longleftrightarrow> regs s i = Word w"
  by (simp add: ndata_def split: krbp.split)

text \<open>Everything but registers and the stack pointer stays as it is.\<close>

definition same_heap :: "vm \<Rightarrow> vm \<Rightarrow> bool" where
  "same_heap s s' \<longleftrightarrow>
     objs s' = objs s \<and> mtds s' = mtds s \<and> codes s' = codes s \<and> stack_uplimit s' = stack_uplimit s \<and>
     PRECOMPILED_ENTER s' = PRECOMPILED_ENTER s \<and> PRECOMPILED_NCALL s' = PRECOMPILED_NCALL s \<and>
     konoha_AssertResult s' = konoha_AssertResult s"

lemma same_heap_refl [simp]: "same_heap s s"
  by (simp add: same_heap_def)

lemma same_heap_trans: "same_heap s s1 \<Longrightarrow> same_heap s1 s2 \<Longrightarrow> same_heap s s2"
  by (simp add: same_heap_def)

lemma same_heap_rset [simp]: "same_heap s (rset i v s') = same_heap s s'"
  by (simp add: same_heap_def rset_def)

lemma same_heap_esp [simp]: "same_heap s (s'\<lparr>esp := e\<rparr>) = same_heap s s'"
  by (simp add: same_heap_def)

text \<open>
  \<open>frame rbp lo r\<close>: of the registers below \<open>lo\<close> of the frame at \<open>rbp\<close> only \<open>r\<close> may change.
\<close>

definition frame :: "int \<Rightarrow> int \<Rightarrow> int \<Rightarrow> vm \<Rightarrow> vm \<Rightarrow> bool" where
  "frame rbp lo r s s' \<longleftrightarrow> same_heap s s' \<and> (\<forall>i < lo. i \<noteq> r \<longrightarrow> regs s' (rbp + i) = regs s (rbp + i))"

lemma frame_refl [simp]: "frame rbp lo r s s"
  by (simp add: frame_def)

lemma frame_trans: "frame rbp lo r s s1 \<Longrightarrow> frame rbp lo r s1 s2 \<Longrightarrow> frame rbp lo r s s2"
  unfolding frame_def using same_heap_trans by auto

lemma frame_weaken: "frame rbp lo' r' s s' \<Longrightarrow> lo \<le> lo' \<Longrightarrow> r' = r \<or> lo \<le> r' \<Longrightarrow> frame rbp lo r s s'"
  unfolding frame_def by auto

lemma frame_rset: "r' = r \<or> lo \<le> r' \<Longrightarrow> frame rbp lo r s s' \<Longrightarrow> frame rbp lo r s (rset (rbp + r') v s')"
  by (auto simp: frame_def regs_rset)

definition holds :: "cenv \<Rightarrow> int \<Rightarrow> u32 \<Rightarrow> int \<Rightarrow> vm \<Rightarrow> u64 \<Rightarrow> bool" where
  "holds env rbp ty a s v \<longleftrightarrow> (\<exists>w. regs s (rbp + rdst env ty a) = Word w \<and> norm env ty w = v)"

lemma holds_rset: "norm env ty w = v \<Longrightarrow> holds env rbp ty a (rset (rbp + rdst env ty a) (Word w) s) v"
  by (simp add: holds_def regs_rset)

lemma rdst_bounds: "OC a \<le> rdst env ty a" "rdst env ty a < OC (a + 1)"
  by (simp_all add: rdst_def NC_def OC_def)

lemma holds_frame:
  "holds env rbp ty a s v \<Longrightarrow> frame rbp lo r s s' \<Longrightarrow> rdst env ty a < lo \<Longrightarrow> rdst env ty a \<noteq> r \<Longrightarrow>
   holds env rbp ty a s' v"
  by (simp add: holds_def frame_def)

text \<open>Native methods do what their signatures and \<open>cf\<close> say, and touch nothing but the result.\<close>

definition natives_ok :: "cenv \<Rightarrow> sigs \<Rightarrow> callf \<Rightarrow> fcall \<Rightarrow> bool" where
  "natives_ok env sg cf call \<longleftrightarrow>
     (\<forall>mtd m vs v s sfp ul.
        cmtds env mtd = Some m \<and> \<not> kMethod_isVirtual m \<and> fcall_1 m \<noteq> Fmethod_runVM \<and>
        cf mtd vs = Some v \<and> length vs = length (fst (sg mtd)) \<and>
        (\<forall>j < length vs. holds env sfp (fst (sg mtd) ! j) (int j + int (args_from m)) s (vs ! j)) \<and>
        regs s (sfp + NC K_RTNIDX) = Word ul \<longrightarrow>
        (\<exists>w. call m s sfp = Some (Inr (rset (sfp + rdst env (snd (sg mtd)) K_RTNIDX) (Word w) s))
             \<and> norm env (snd (sg mtd)) w = v))"

section \<open>Generators with a contract\<close>

text \<open>
  \<open>gen_run g P Q\<close>: in any good state the generator succeeds, and in every graph that its result
  grows into, running its code from a machine state with \<open>P\<close> leads to one with \<open>Q\<close>.
\<close>

definition gen_run ::
    "cenv \<Rightarrow> op_eff \<Rightarrow> int \<Rightarrow> gen \<Rightarrow> (vm \<Rightarrow> bool) \<Rightarrow> (vm \<Rightarrow> vm \<Rightarrow> bool) \<Rightarrow> bool" where
  "gen_run env eff rbp g P Q \<longleftrightarrow>
     (\<forall>st. wf_ctx st \<longrightarrow> curbb st \<noteq> None \<longrightarrow>
       (\<exists>st'. g st = Some st' \<and> grows st st' \<and> curbb st' \<noteq> None \<and> lbEND st' = lbEND st \<and>
          labels st' = labels st \<and>
          (\<forall>G s. extends G st' \<longrightarrow> mtds s = cmtds env \<longrightarrow> P s \<longrightarrow>
             (\<exists>s'. gsteps eff rbp G (at st s) (at st' s') \<and> Q s s'))))"

lemma gen_runD:
  assumes "gen_run env eff rbp g P Q" "wf_ctx st" "curbb st \<noteq> None"
  obtains st' where "g st = Some st'" "grows st st'" "wf_ctx st'" "later st st'" "curbb st' \<noteq> None"
    "lbEND st' = lbEND st" "labels st' = labels st"
    "\<And>G s. extends G st' \<Longrightarrow> mtds s = cmtds env \<Longrightarrow> P s \<Longrightarrow>
       \<exists>s'. gsteps eff rbp G (at st s) (at st' s') \<and> Q s s'"
  using assms unfolding gen_run_def grows_def by blast

lemma gen_run_seq:
  assumes 1: "gen_run env eff rbp g1 P Q" and 2: "gen_run env eff rbp g2 P2 Q2"
    and "\<And>s s'. P s \<Longrightarrow> Q s s' \<Longrightarrow> P2 s' \<and> mtds s' = mtds s"
    and "\<And>s s' s''. P s \<Longrightarrow> Q s s' \<Longrightarrow> Q2 s' s'' \<Longrightarrow> R s s''"
  shows "gen_run env eff rbp (\<lambda>st. Option.bind (g1 st) g2) P R"
  unfolding gen_run_def
proof (intro allI impI)
  fix st assume wf: "wf_ctx st" "curbb st \<noteq> None"
  obtain st1 where 3: "g1 st = Some st1" "grows st st1" "wf_ctx st1" "curbb st1 \<noteq> None"
    "lbEND st1 = lbEND st" "labels st1 = labels st"
    "\<And>G s. extends G st1 \<Longrightarrow> mtds s = cmtds env \<Longrightarrow> P s \<Longrightarrow>
       \<exists>s'. gsteps eff rbp G (at st s) (at st1 s') \<and> Q s s'"
    using gen_runD [OF 1 wf] by metis
  obtain st2 where 4: "g2 st1 = Some st2" "grows st1 st2" "later st1 st2" "curbb st2 \<noteq> None"
    "lbEND st2 = lbEND st1" "labels st2 = labels st1"
    "\<And>G s. extends G st2 \<Longrightarrow> mtds s = cmtds env \<Longrightarrow> P2 s \<Longrightarrow>
       \<exists>s'. gsteps eff rbp G (at st1 s) (at st2 s') \<and> Q2 s s'"
    using gen_runD [OF 2 3(3,4)] by metis
  have "\<exists>s''. gsteps eff rbp G (at st s) (at st2 s'') \<and> R s s''"
    if G: "extends G st2" and s: "mtds s = cmtds env" "P s" for G s
  proof -
    obtain s1 where s1: "gsteps eff rbp G (at st s) (at st1 s1)" "Q s s1"
      using 3(7) [OF extends_later [OF G 4(3)] s] by blast
    then obtain s2 where "gsteps eff rbp G (at st1 s1) (at st2 s2)" "Q2 s1 s2"
      using 4(7) [OF G, of s1] assms(3) s by metis
    then show ?thesis using s1 assms(4) s(2) gsteps_trans by blast
  qed
  then show "\<exists>st'. Option.bind (g1 st) g2 = Some st' \<and> grows st st' \<and> curbb st' \<noteq> None \<and>
      lbEND st' = lbEND st \<and> labels st' = labels st \<and>
      (\<forall>G s. extends G st' \<longrightarrow> mtds s = cmtds env \<longrightarrow> P s \<longrightarrow>
        (\<exists>s'. gsteps eff rbp G (at st s) (at st' s') \<and> R s s'))"
    using 3 4 grows_trans by (intro exI [of _ st2]) auto
qed

lemma gen_run_weaken:
  assumes "gen_run env eff rbp g P Q"
    and "\<And>s. P' s \<Longrightarrow> P s" "\<And>s s'. P' s \<Longrightarrow> Q s s' \<Longrightarrow> Q' s s'"
  shows "gen_run env eff rbp g P' Q'"
  using assms unfolding gen_run_def by meson

lemma gen_run_skip: "(\<And>s. P s \<Longrightarrow> Q s s) \<Longrightarrow> gen_run env eff rbp Some P Q"
  unfolding gen_run_def by (blast intro: grows_refl gsteps_refl)

lemma BUILD_asm_run:
  assumes "\<not> is_JMPF k"
    and "\<And>l s. mtds s = cmtds env \<Longrightarrow> P s \<Longrightarrow> \<exists>s'. eff l k s = Some s' \<and> Q s s'"
  shows "gen_run env eff rbp (BUILD_asm k) P Q"
  unfolding gen_run_def
proof (intro allI impI)
  fix st assume wf: "wf_ctx st" and "curbb st \<noteq> None"
  then obtain b where cur: "curbb st = Some b" by auto
  obtain st' where st': "BUILD_asm k st = Some st'" "grows st st'" "curbb st' = Some b"
    "\<And>(eff :: op_eff) rbp G s s'. extends G st' \<Longrightarrow> eff (loc st) k s = Some s' \<Longrightarrow>
        gsteps eff rbp G (at st s) (at st' s')"
    using BUILD_asm_ok [OF wf cur assms(1)] by metis
  have "lbEND st' = lbEND st" "labels st' = labels st"
    using st'(1) cur by (auto simp: BUILD_asm_def BasicBlock_add_def bind_Some_iff Let_def split: if_splits)
  moreover have "\<exists>s'. gsteps eff rbp G (at st s) (at st' s') \<and> Q s s'"
    if "extends G st'" "mtds s = cmtds env" "P s" for G s
    using assms(2) [OF that(2,3), of "loc st"] st'(4) [where eff = eff and rbp = rbp, OF that(1)] by blast
  ultimately show "\<exists>st'. BUILD_asm k st = Some st' \<and> grows st st' \<and> curbb st' \<noteq> None \<and>
      lbEND st' = lbEND st \<and> labels st' = labels st \<and>
      (\<forall>G s. extends G st' \<longrightarrow> mtds s = cmtds env \<longrightarrow> P s \<longrightarrow>
        (\<exists>s'. gsteps eff rbp G (at st s) (at st' s') \<and> Q s s'))"
    using st' by (intro exI [of _ st']) simp
qed

text \<open>A generator that leaves a value in its destination.\<close>

definition gen_ok ::
    "cenv \<Rightarrow> op_eff \<Rightarrow> int \<Rightarrow> u32 \<Rightarrow> int \<Rightarrow> int \<Rightarrow> gen \<Rightarrow> (vm \<Rightarrow> u64 option) \<Rightarrow> bool" where
  "gen_ok env eff rbp ty a espidx g ev \<longleftrightarrow>
     gen_run env eff rbp g (\<lambda>s. ev s \<noteq> None)
       (\<lambda>s s'. holds env rbp ty a s' (the (ev s)) \<and> frame rbp (OC espidx) (rdst env ty a) s s')"

lemma BUILD_asm_gen:
  assumes "\<not> is_JMPF k"
    and "\<And>l s v. mtds s = cmtds env \<Longrightarrow> ev s = Some v \<Longrightarrow>
           \<exists>w. eff l k s = Some (rset (rbp + rdst env ty a) (Word w) s) \<and> norm env ty w = v"
  shows "gen_ok env eff rbp ty a espidx (BUILD_asm k) ev"
  unfolding gen_ok_def
proof (rule BUILD_asm_run [OF assms(1)])
  fix l s assume "mtds s = cmtds env" "ev s \<noteq> None"
  then obtain w where "eff l k s = Some (rset (rbp + rdst env ty a) (Word w) s)"
    "norm env ty w = the (ev s)"
    using assms(2) by fastforce
  then show "\<exists>s'. eff l k s = Some s' \<and> holds env rbp ty a s' (the (ev s)) \<and>
      frame rbp (OC espidx) (rdst env ty a) s s'"
    using holds_rset by (auto intro!: frame_rset)
qed

section \<open>Moves and constants\<close>

lemma op_effect_plain:
  "VirtualMachine_step call venv s rbp (addr l) k = plain rbp (addr l) r \<Longrightarrow>
   op_effect call venv addr rbp l k s = r"
  by (cases r) (simp_all add: op_effect_def plain_def)

lemma op_effect_NSET [simp]:
  "op_effect call venv addr rbp l (klr_NSET a n ty) s = Some (rset (rbp + a) (Word n) s)"
  by (simp add: op_effect_plain OPEXEC_NSET_def)

lemma op_effect_NMOV [simp]:
  "op_effect call venv addr rbp l (klr_NMOV a b ty) s = Some (rset (rbp + a) (regs s (rbp + b)) s)"
  by (simp add: op_effect_plain OPEXEC_NMOV_def)

lemma op_effect_NMOVx [simp]:
  "op_effect call venv addr rbp l (klr_NMOVx a b bx ty) s = OPEXEC_NMOVx rbp a b bx s"
  by (simp add: op_effect_plain)

lemma op_effect_BNOT [simp]:
  "op_effect call venv addr rbp l (klr_BNOT c a) s = OPEXEC_BNOT rbp c a s"
  by (simp add: op_effect_plain)

lemma is_JMPF_simps [simp]:
  "\<not> is_JMPF (klr_NSET a n ty)" "\<not> is_JMPF (klr_NMOV a b ty)" "\<not> is_JMPF (klr_NMOVx a b bx ty)"
  "\<not> is_JMPF (klr_BNOT c a)" "\<not> is_JMPF (klr_SCALL ul th es m tyo)"
  "\<not> is_JMPF (klr_SAFEPOINT e)" "\<not> is_JMPF (klr_CALL ul th es tyo)"
  by (simp_all add: is_JMPF_def)

definition reg_value :: "cenv \<Rightarrow> int \<Rightarrow> u32 \<Rightarrow> int \<Rightarrow> vm \<Rightarrow> u64 option" where
  "reg_value env rbp ty b s = map_option (norm env ty) (ndata s (rbp + rdst env ty b))"

lemma reg_value_holds: "reg_value env rbp ty b s = Some v \<longleftrightarrow> holds env rbp ty b s v"
  by (auto simp: reg_value_def holds_def ndata_Word)

lemma NMOV_asm_gen:
  "gen_ok env (op_effect call venv addr rbp) rbp ty a espidx (NMOV_asm env a ty b)
     (reg_value env rbp ty b)"
  unfolding NMOV_asm_def
  by (cases "TY_isUnbox env ty")
    ((auto intro!: BUILD_asm_gen simp: reg_value_def rdst_def ndata_Word), blast+)

text \<open>A change of the other parts of the state before a generator runs.\<close>

lemma gen_run_pre:
  assumes "gen_run env eff rbp g P Q"
    and f: "\<And>st. bbs (f st) = bbs st \<and> curbb (f st) = curbb st \<and> lbEND (f st) = lbEND st
        \<and> labels (f st) = labels st"
  shows "gen_run env eff rbp (\<lambda>st. g (f st)) P Q"
  unfolding gen_run_def
proof (intro allI impI)
  fix st assume st: "wf_ctx st" "curbb st \<noteq> None"
  have "wf_ctx (f st)" "curbb (f st) \<noteq> None" using st f by (simp_all add: wf_ctx_def)
  then obtain st' where "g (f st) = Some st'" "grows (f st) st'" "curbb st' \<noteq> None"
    "lbEND st' = lbEND (f st)" "labels st' = labels (f st)"
    "\<And>G s. extends G st' \<Longrightarrow> mtds s = cmtds env \<Longrightarrow> P s \<Longrightarrow>
       \<exists>s'. gsteps eff rbp G (at (f st) s) (at st' s') \<and> Q s s'"
    using gen_runD [OF assms(1)] by metis
  then show "\<exists>st'. g (f st) = Some st' \<and> grows st st' \<and> curbb st' \<noteq> None \<and>
      lbEND st' = lbEND st \<and> labels st' = labels st \<and>
      (\<forall>G s. extends G st' \<longrightarrow> mtds s = cmtds env \<longrightarrow> P s \<longrightarrow>
        (\<exists>s'. gsteps eff rbp G (at st s) (at st' s') \<and> Q s s'))"
    using f by (auto simp: grows_def later_def keeps_def at_def loc_def)
qed

lemma CONST_asm_gen:
  assumes "typed (TEXPR_CONST ty v) env sg"
  shows "gen_ok env (op_effect call venv addr rbp) rbp ty a espidx (CONST_asm env a ty v)
     (\<lambda>s. eval (TEXPR_CONST ty v) env cf h shift rd)"
proof (cases "TY_isUnbox env ty")
  case True
  then obtain ob n where "const_objs env v = Some ob" "mem_get (ofields ob) 0 = Some n"
    using assms by (auto simp: bind_Some_iff)
  with True have "CONST_asm env a ty v = BUILD_asm (klr_NSET (NC a) n (CT_of env ty))"
    and "eval (TEXPR_CONST ty v) env cf h shift rd = Some (norm env ty n)"
    by (auto simp: CONST_asm_def)
  then show ?thesis using True by (auto intro!: BUILD_asm_gen simp: rdst_def)
next
  case False
  then have 1: "CONST_asm env a ty v =
      (\<lambda>st. BUILD_asm (klr_NSET (OC a) v (CT_of env ty)) (BUILD_addConstPool v st))"
    by (auto simp: CONST_asm_def)
  have "gen_ok env (op_effect call venv addr rbp) rbp ty a espidx
      (BUILD_asm (klr_NSET (OC a) v (CT_of env ty))) (\<lambda>s. Some (norm env ty v))"
    using False by (auto intro!: BUILD_asm_gen simp: rdst_def)
  then show ?thesis unfolding 1 gen_ok_def using False
    by (auto intro: gen_run_pre simp: BUILD_addConstPool_def)
qed

lemma FIELD_asm_gen:
  "gen_ok env (op_effect call venv addr rbp) rbp ty a espidx (FIELD_asm env a ty ix)
     (\<lambda>s. eval (TEXPR_FIELD ty ix) env cf (objs s) shift (\<lambda>i. ndata s (rbp + i)))"
proof -
  have 1: "FIELD_asm env a ty ix =
      BUILD_asm (klr_NMOVx (rdst env ty a) (OC (field_index ix)) (field_xindex ix) (CT_of env ty))"
    by (auto simp: FIELD_asm_def rdst_def)
  show ?thesis unfolding 1
    by (rule BUILD_asm_gen) (auto simp: OPEXEC_NMOVx_def bind_Some_iff)
qed

section \<open>Calls\<close>

definition evs :: "cenv \<Rightarrow> callf \<Rightarrow> int \<Rightarrow> int \<Rightarrow> kexpr \<Rightarrow> vm \<Rightarrow> u64 option" where
  "evs env cf rbp shift e s = eval e env cf (objs s) shift (\<lambda>i. ndata s (rbp + i))"

text \<open>The value of an expression does not change with registers it does not read.\<close>

lemma evs_frame:
  assumes "frame rbp (OC espidx) r s s'" "\<forall>l \<in> reads e shift. l < espidx \<and> r \<noteq> NC l \<and> r \<noteq> OC l"
  shows "evs env cf rbp shift e s' = evs env cf rbp shift e s"
proof -
  have "ndata s' (rbp + NC l) = ndata s (rbp + NC l) \<and> ndata s' (rbp + OC l) = ndata s (rbp + OC l)"
    if "l \<in> reads e shift" for l
  proof -
    have "NC l < OC espidx" "OC l < OC espidx" "NC l \<noteq> r" "OC l \<noteq> r"
      using that assms(2) by (auto simp: NC_def OC_def)
    then show ?thesis using assms(1) by (simp add: frame_def ndata_def)
  qed
  moreover have "objs s' = objs s" using assms(1) by (simp add: frame_def same_heap_def)
  ultimately show ?thesis unfolding evs_def by (auto intro!: eval_cong)
qed

text \<open>A contract may speak of one value at a time.\<close>

lemma gen_okI:
  assumes "\<And>v. gen_run env eff rbp g (\<lambda>s. ev s = Some v)
     (\<lambda>s s'. holds env rbp ty a s' v \<and> frame rbp (OC espidx) (rdst env ty a) s s')"
  shows "gen_ok env eff rbp ty a espidx g ev"
  unfolding gen_ok_def gen_run_def
proof (intro allI impI)
  fix st assume st: "wf_ctx st" "curbb st \<noteq> None"
  obtain st' where st': "g st = Some st'" "grows st st'" "curbb st' \<noteq> None"
    "lbEND st' = lbEND st" "labels st' = labels st"
    using gen_runD [OF assms st] by metis
  have "\<exists>s'. gsteps eff rbp G (at st s) (at st' s') \<and> holds env rbp ty a s' (the (ev s)) \<and>
      frame rbp (OC espidx) (rdst env ty a) s s'"
    if "extends G st'" "mtds s = cmtds env" "ev s \<noteq> None" for G s
  proof -
    from that(3) obtain v where "ev s = Some v" by blast
    with gen_runD [OF assms [of v] st] that(1,2) st'(1) show ?thesis
      by (metis option.inject option.sel)
  qed
  then show "\<exists>st'. g st = Some st' \<and> grows st st' \<and> curbb st' \<noteq> None \<and> lbEND st' = lbEND st \<and>
      labels st' = labels st \<and>
      (\<forall>G s. extends G st' \<longrightarrow> mtds s = cmtds env \<longrightarrow> ev s \<noteq> None \<longrightarrow>
        (\<exists>s'. gsteps eff rbp G (at st s) (at st' s') \<and> holds env rbp ty a s' (the (ev s)) \<and>
          frame rbp (OC espidx) (rdst env ty a) s s'))"
    using st' by blast
qed

lemma gen_okD:
  "gen_ok env eff rbp ty a espidx g ev \<Longrightarrow> (\<And>s. P s \<Longrightarrow> ev s = Some v) \<Longrightarrow>
   gen_run env eff rbp g P
     (\<lambda>s s'. holds env rbp ty a s' v \<and> frame rbp (OC espidx) (rdst env ty a) s s')"
  unfolding gen_ok_def by (erule gen_run_weaken) auto

lemma those_vals_Cons: "those_vals (v # vs) = Some xs \<longleftrightarrow> (\<exists>y ys. v = Some y \<and> those_vals vs = Some ys \<and> xs = y # ys)"
  by (auto simp: bind_Some_iff)

lemma length_those_vals: "those_vals vs = Some xs \<Longrightarrow> length xs = length vs"
  by (induction vs arbitrary: xs) (auto simp: bind_Some_iff)

lemma frame_mtds: "frame rbp lo r s s' \<Longrightarrow> mtds s' = mtds s"
  by (simp add: frame_def same_heap_def)

lemma CALL_args_run:
  assumes "\<And>e i. e \<in> set es \<Longrightarrow> (\<And>l. l \<in> reads e shift \<Longrightarrow> l < i) \<Longrightarrow>
      gen_ok env E rbp (expr_ty e) i i (EXPR_asm e env i shift i) (evs env cf rbp shift e)"
    and "\<And>e l. e \<in> set es \<Longrightarrow> l \<in> reads e shift \<Longrightarrow> l < i"
  shows "gen_run env E rbp (CALL_args i (map (\<lambda>e. EXPR_asm e env) es) shift)
      (\<lambda>s. those_vals (map (\<lambda>e. evs env cf rbp shift e s) es) = Some vs)
      (\<lambda>s s'. (\<forall>j < length es. holds env rbp (expr_ty (es ! j)) (i + int j) s' (vs ! j)) \<and>
              frame rbp (OC i) (OC i) s s')"
  using assms
proof (induction es arbitrary: i vs)
  case Nil
  have "CALL_args i (map (\<lambda>e. EXPR_asm e env) []) shift = Some" by (rule ext) simp
  then show ?case by (simp add: gen_run_skip)
next
  case (Cons e es)
  define ys where "ys = tl vs"
  have CA: "CALL_args i (map (\<lambda>e. EXPR_asm e env) (e # es)) shift =
      (\<lambda>st. Option.bind (EXPR_asm e env i shift i st) (CALL_args (i + 1) (map (\<lambda>e. EXPR_asm e env) es) shift))"
    by (rule ext) simp
  show ?case unfolding CA
  proof (rule gen_run_seq)
    show "gen_run env E rbp (EXPR_asm e env i shift i)
        (\<lambda>s. those_vals (map (\<lambda>e. evs env cf rbp shift e s) (e # es)) = Some vs)
        (\<lambda>s s'. holds env rbp (expr_ty e) i s' (hd vs) \<and> frame rbp (OC i) (rdst env (expr_ty e) i) s s')"
      using Cons.prems by (intro gen_okD [where ev = "evs env cf rbp shift e"])
        (auto simp: bind_Some_iff)
    show "gen_run env E rbp (CALL_args (i + 1) (map (\<lambda>e. EXPR_asm e env) es) shift)
        (\<lambda>s. those_vals (map (\<lambda>e. evs env cf rbp shift e s) es) = Some ys)
        (\<lambda>s s'. (\<forall>j < length es. holds env rbp (expr_ty (es ! j)) (i + 1 + int j) s' (ys ! j)) \<and>
           frame rbp (OC (i + 1)) (OC (i + 1)) s s')"
    proof (rule Cons.IH)
      show "gen_ok env E rbp (expr_ty e) i i (EXPR_asm e env i shift i) (evs env cf rbp shift e)"
        if "e \<in> set es" "\<And>l. l \<in> reads e shift \<Longrightarrow> l < i" for e i
        using that by (intro Cons.prems(1)) auto
      show "l < i + 1" if "e \<in> set es" "l \<in> reads e shift" for e l
        using Cons.prems(2) [of e l] that by simp
    qed
    fix s s' assume v: "those_vals (map (\<lambda>e. evs env cf rbp shift e s) (e # es)) = Some vs"
      and h: "holds env rbp (expr_ty e) i s' (hd vs) \<and> frame rbp (OC i) (rdst env (expr_ty e) i) s s'"
    have "evs env cf rbp shift x s' = evs env cf rbp shift x s" if "x \<in> set es" for x
    proof (rule evs_frame [OF conjunct2 [OF h]], intro ballI)
      fix l assume "l \<in> reads x shift"
      then have "l < i" using Cons.prems(2) that by auto
      then show "l < i \<and> rdst env (expr_ty e) i \<noteq> NC l \<and> rdst env (expr_ty e) i \<noteq> OC l"
        by (auto simp: rdst_def NC_def OC_def)
    qed
    then have m: "map (\<lambda>e. evs env cf rbp shift e s') es = map (\<lambda>e. evs env cf rbp shift e s) es" by simp
    have "those_vals (map (\<lambda>e. evs env cf rbp shift e s) es) = Some ys"
      using v by (auto simp: ys_def bind_Some_iff)
    then show "those_vals (map (\<lambda>e. evs env cf rbp shift e s') es) = Some ys \<and> mtds s' = mtds s"
      using frame_mtds [OF conjunct2 [OF h]] by (simp only: m)
    fix s'' assume q: "(\<forall>j < length es. holds env rbp (expr_ty (es ! j)) (i + 1 + int j) s'' (ys ! j)) \<and>
        frame rbp (OC (i + 1)) (OC (i + 1)) s' s''"
    have "holds env rbp (expr_ty e) i s'' (hd vs)"
      using h q rdst_bounds(2) [of env "expr_ty e" i] by (auto elim: holds_frame)
    moreover obtain y where "vs = y # ys" using v by (auto simp: ys_def bind_Some_iff)
    moreover have "frame rbp (OC i) (OC i) s s'"
      using h rdst_bounds(1) [of i env] by (auto elim: frame_weaken)
    moreover have "frame rbp (OC i) (OC i) s' s''"
      using q by (auto elim!: frame_weaken simp: OC_def)
    ultimately show "(\<forall>j < length (e # es). holds env rbp (expr_ty ((e # es) ! j)) (i + int j) s'' (vs ! j)) \<and>
        frame rbp (OC i) (OC i) s s''"
      using q by (auto simp: less_Suc_eq_0_disj ac_simps intro: frame_trans)
  qed
qed

lemma rdst_shift: "rdst env ty (a + b) = SFP a + rdst env ty b"
  by (simp add: rdst_def NC_def OC_def SFP_def)

text \<open>A native call leaves its value in the slot the frame starts from.\<close>

lemma SCALL_effect:
  assumes nat: "natives_ok env sg cf call" and m: "cmtds env mtd = Some m" "\<not> kMethod_isVirtual m"
      "fcall_1 m \<noteq> Fmethod_runVM" and sg: "sg mtd = (tys, ty)"
    and s: "mtds s = cmtds env" and vs: "cf mtd vs = Some v" "length vs = length tys"
    and args: "\<And>j. j < length tys \<Longrightarrow>
        holds env rbp (tys ! j) (espidx + K_CALLDELTA + int (args_from m) + int j) s (vs ! j)"
  shows "\<exists>s'. op_effect call venv addr rbp l (klr_SCALL ul (SFP (espidx + K_CALLDELTA)) es mtd tyo) s = Some s' \<and>
      holds env rbp ty espidx s' v \<and> frame rbp (OC espidx) (rdst env ty espidx) s s'"
proof -
  let ?th = "SFP (espidx + K_CALLDELTA)"
  let ?sfp = "rbp + ?th"
  let ?s = "(rset (?sfp + K_MTDIDX2) (Word mtd) (call_frame ?sfp ?th ul tyo (addr l) s))\<lparr>esp := rbp + es\<rparr>"
  have above: "regs ?s (?sfp + i) = regs s (?sfp + i)" if "0 \<le> i" for i
    using that by (simp add: call_frame_def regs_rset K_idx_defs)
  have h: "holds env ?sfp (tys ! j) (int j + int (args_from m)) ?s (vs ! j)" if j: "j < length vs" for j
  proof -
    have "0 \<le> rdst env (tys ! j) (int j + int (args_from m))" by (simp add: rdst_def NC_def OC_def)
    moreover have "rbp + rdst env (tys ! j) (espidx + K_CALLDELTA + int (args_from m) + int j) =
        ?sfp + rdst env (tys ! j) (int j + int (args_from m))"
      using rdst_shift [of env "tys ! j" "espidx + K_CALLDELTA" "int j + int (args_from m)"]
      by (simp add: ac_simps)
    ultimately show ?thesis using args [of j] j vs(2) above unfolding holds_def by metis
  qed
  have ul: "regs ?s (?sfp + NC K_RTNIDX) = Word ul"
    by (simp add: call_frame_def regs_rset K_idx_defs NC_def)
  obtain w where w: "call m ?s ?sfp = Some (Inr (rset (?sfp + rdst env ty K_RTNIDX) (Word w) ?s))"
    "norm env ty w = v"
    using nat m sg vs h ul unfolding natives_ok_def by (metis fst_conv snd_conv)
  have dst: "?sfp + rdst env ty K_RTNIDX = rbp + rdst env ty espidx"
    using rdst_shift [of env ty "espidx + K_CALLDELTA" K_RTNIDX] by (simp add: K_idx_defs)
  let ?s' = "rset (?sfp + K_MTDIDX2) (Word 0) (rset (rbp + rdst env ty espidx) (Word w) ?s)"
  have "op_effect call venv addr rbp l (klr_SCALL ul ?th es mtd tyo) s = Some ?s'"
    using w(1) m(1) s by (simp add: op_effect_def OPEXEC_SCALL_def Let_def dst call_frame_def)
  moreover have "holds env rbp ty espidx ?s' v"
    using w(2) by (auto simp: holds_def regs_rset rdst_def NC_def OC_def SFP_def K_idx_defs)
  moreover have "frame rbp (OC espidx) (rdst env ty espidx) s ?s'"
    by (auto simp: frame_def regs_rset call_frame_def rdst_def NC_def OC_def SFP_def K_idx_defs)
  ultimately show ?thesis by blast
qed

lemma gen_run_dep: "(\<And>u. gen_run env eff rbp (g u) P Q) \<Longrightarrow> gen_run env eff rbp (\<lambda>st. g (f st) st) P Q"
  unfolding gen_run_def by blast

lemma evs_CALL:
  assumes "cmtds env mtd = Some m"
  shows "evs env cf rbp shift (TEXPR_CALL ty mtd args) s =
     Option.bind (those_vals (map (\<lambda>e. evs env cf rbp shift e s) (drop (args_from m) args))) (cf mtd)"
  using assms by (simp add: evs_def drop_map)

lemma gen_run_ex:
  assumes "\<And>x. gen_run env eff rbp g (P x) Q"
  shows "gen_run env eff rbp g (\<lambda>s. \<exists>x. P x s) Q"
  unfolding gen_run_def
proof (intro allI impI)
  fix st assume st: "wf_ctx st" "curbb st \<noteq> None"
  obtain st' where st': "g st = Some st'" "grows st st'" "curbb st' \<noteq> None"
    "lbEND st' = lbEND st" "labels st' = labels st"
    using gen_runD [OF assms st] by metis
  have "\<exists>s'. gsteps eff rbp G (at st s) (at st' s') \<and> Q s s'"
    if "extends G st'" "mtds s = cmtds env" "P x s" for G s x
  proof -
    obtain st2 where "g st = Some st2"
      "\<And>G s. extends G st2 \<Longrightarrow> mtds s = cmtds env \<Longrightarrow> P x s \<Longrightarrow>
         \<exists>s'. gsteps eff rbp G (at st s) (at st2 s') \<and> Q s s'"
      using gen_runD [OF assms [of x] st] by metis
    then show ?thesis using st'(1) that by simp
  qed
  then show "\<exists>st'. g st = Some st' \<and> grows st st' \<and> curbb st' \<noteq> None \<and> lbEND st' = lbEND st \<and>
      labels st' = labels st \<and>
      (\<forall>G s. extends G st' \<longrightarrow> mtds s = cmtds env \<longrightarrow> (\<exists>x. P x s) \<longrightarrow>
        (\<exists>s'. gsteps eff rbp G (at st s) (at st' s') \<and> Q s s'))"
    using st' by blast
qed

text \<open>What a value in a slot means together with the frame; the last two conjuncts of most contracts.\<close>

definition result :: "cenv \<Rightarrow> int \<Rightarrow> int \<Rightarrow> u32 \<Rightarrow> int \<Rightarrow> u64 \<Rightarrow> vm \<Rightarrow> vm \<Rightarrow> bool" where
  "result env rbp espidx ty a v s s' \<longleftrightarrow>
     holds env rbp ty a s' v \<and> frame rbp (OC espidx) (rdst env ty a) s s'"

definition arg_values :: "cenv \<Rightarrow> int \<Rightarrow> int \<Rightarrow> u32 list \<Rightarrow> u64 list \<Rightarrow> vm \<Rightarrow> bool" where
  "arg_values env rbp i tys vs s \<longleftrightarrow>
     length vs = length tys \<and> (\<forall>j < length tys. holds env rbp (tys ! j) (i + int j) s (vs ! j))"

lemma call_emit_run:
  assumes nat: "natives_ok env sg cf call" and m: "cmtds env mtd = Some m" "\<not> kMethod_isVirtual m"
      "fcall_1 m \<noteq> Fmethod_runVM" and sg: "sg mtd = (tys, ty)"
  shows "gen_run env (op_effect call venv addr rbp) rbp (call_emit env mtd m ty espidx argc)
      (\<lambda>s. cf mtd vs = Some v \<and> arg_values env rbp (espidx + K_CALLDELTA + int (args_from m)) tys vs s)
      (result env rbp espidx ty espidx v)"
proof -
  let ?E = "op_effect call venv addr rbp"
  let ?op = "\<lambda>ul. klr_SCALL ul (SFP (espidx + K_CALLDELTA)) (ESP espidx argc) mtd (null_of env (CT_of env ty))"
  have "gen_run env ?E rbp (BUILD_asm (?op ul))
      (\<lambda>s. cf mtd vs = Some v \<and> arg_values env rbp (espidx + K_CALLDELTA + int (args_from m)) tys vs s)
      (result env rbp espidx ty espidx v)" for ul
  proof (rule BUILD_asm_run)
    fix l s assume s: "mtds s = cmtds env"
      and h: "cf mtd vs = Some v \<and>
        arg_values env rbp (espidx + K_CALLDELTA + int (args_from m)) tys vs s"
    show "\<exists>s'. ?E l (?op ul) s = Some s' \<and> result env rbp espidx ty espidx v s s'"
      unfolding result_def
      by (rule SCALL_effect [OF nat m sg s, of vs]) (use h in \<open>auto simp: arg_values_def\<close>)
  qed simp
  then have "gen_run env ?E rbp (\<lambda>st. BUILD_asm (?op (uline st)) st)
      (\<lambda>s. cf mtd vs = Some v \<and> arg_values env rbp (espidx + K_CALLDELTA + int (args_from m)) tys vs s)
      (result env rbp espidx ty espidx v)"
    by (rule gen_run_dep)
  then show ?thesis using m by (simp add: call_emit_def [abs_def] Let_def)
qed

lemma CALL_native_run:
  assumes nat: "natives_ok env sg cf call" and m: "cmtds env mtd = Some m" "\<not> kMethod_isVirtual m"
      "fcall_1 m \<noteq> Fmethod_runVM" and sg: "sg mtd = (map expr_ty es, ty)"
    and IH: "\<And>e i. e \<in> set es \<Longrightarrow> (\<And>l. l \<in> reads e shift \<Longrightarrow> l < i) \<Longrightarrow>
      gen_ok env (op_effect call venv addr rbp) rbp (expr_ty e) i i (EXPR_asm e env i shift i)
        (evs env cf rbp shift e)"
    and rd: "\<And>e l. e \<in> set es \<Longrightarrow> l \<in> reads e shift \<Longrightarrow> l < espidx"
  shows "gen_run env (op_effect call venv addr rbp) rbp
      (\<lambda>st. Option.bind (CALL_args (espidx + K_CALLDELTA + int (args_from m)) (map (\<lambda>e. EXPR_asm e env) es) shift st)
              (call_emit env mtd m ty espidx argc))
      (\<lambda>s. those_vals (map (\<lambda>e. evs env cf rbp shift e s) es) = Some vs \<and> cf mtd vs = Some v)
      (result env rbp espidx ty espidx v)"
proof (rule gen_run_seq)
  let ?i = "espidx + K_CALLDELTA + int (args_from m)"
  have "gen_run env (op_effect call venv addr rbp) rbp (CALL_args ?i (map (\<lambda>e. EXPR_asm e env) es) shift)
      (\<lambda>s. those_vals (map (\<lambda>e. evs env cf rbp shift e s) es) = Some vs)
      (\<lambda>s s'. (\<forall>j < length es. holds env rbp (expr_ty (es ! j)) (?i + int j) s' (vs ! j)) \<and>
              frame rbp (OC ?i) (OC ?i) s s')"
  proof (rule CALL_args_run)
    show "gen_ok env (op_effect call venv addr rbp) rbp (expr_ty e) i i (EXPR_asm e env i shift i)
        (evs env cf rbp shift e)" if "e \<in> set es" "\<And>l. l \<in> reads e shift \<Longrightarrow> l < i" for e i
      using that by (rule IH)
    show "l < ?i" if "e \<in> set es" "l \<in> reads e shift" for e l
      using rd [OF that] by (simp add: K_idx_defs)
  qed
  then show "gen_run env (op_effect call venv addr rbp) rbp
      (CALL_args ?i (map (\<lambda>e. EXPR_asm e env) es) shift)
      (\<lambda>s. those_vals (map (\<lambda>e. evs env cf rbp shift e s) es) = Some vs \<and> cf mtd vs = Some v)
      (\<lambda>s s'. (\<forall>j < length es. holds env rbp (expr_ty (es ! j)) (?i + int j) s' (vs ! j)) \<and>
              frame rbp (OC ?i) (OC ?i) s s')"
    by (rule gen_run_weaken) auto
  show "gen_run env (op_effect call venv addr rbp) rbp (call_emit env mtd m ty espidx argc)
      (\<lambda>s. cf mtd vs = Some v \<and> arg_values env rbp ?i (map expr_ty es) vs s)
      (result env rbp espidx ty espidx v)"
    by (rule call_emit_run [OF nat m sg])
  fix s s' assume "those_vals (map (\<lambda>e. evs env cf rbp shift e s) es) = Some vs \<and> cf mtd vs = Some v"
    and q: "(\<forall>j < length es. holds env rbp (expr_ty (es ! j)) (?i + int j) s' (vs ! j)) \<and>
       frame rbp (OC ?i) (OC ?i) s s'"
  then show "(cf mtd vs = Some v \<and> arg_values env rbp ?i (map expr_ty es) vs s') \<and> mtds s' = mtds s"
    using length_those_vals by (fastforce simp: arg_values_def dest: frame_mtds)
  have f: "frame rbp (OC espidx) (rdst env ty espidx) s s'"
    by (rule frame_weaken [OF conjunct2 [OF q]]) (auto simp: OC_def K_idx_defs)
  fix s'' assume "result env rbp espidx ty espidx v s' s''"
  then show "result env rbp espidx ty espidx v s s''"
    using frame_trans [OF f] by (simp add: result_def)
qed

lemma move_result_run:
  "gen_run env (op_effect call venv addr rbp) rbp
     (\<lambda>st. if a \<noteq> espidx then NMOV_asm env a ty espidx st else Some st)
     (\<lambda>s. holds env rbp ty espidx s v) (result env rbp espidx ty a v)"
proof (cases "a = espidx")
  case True
  have "gen_run env (op_effect call venv addr rbp) rbp Some (\<lambda>s. holds env rbp ty espidx s v)
      (result env rbp espidx ty espidx v)"
    by (rule gen_run_skip) (simp add: result_def)
  with True show ?thesis by simp
next
  case False
  have "gen_run env (op_effect call venv addr rbp) rbp (NMOV_asm env a ty espidx)
      (\<lambda>s. holds env rbp ty espidx s v) (result env rbp espidx ty a v)"
    unfolding result_def by (rule gen_okD [OF NMOV_asm_gen]) (simp add: reg_value_holds)
  with False show ?thesis by simp
qed

lemma result_move:
  "result env rbp espidx ty espidx v s s' \<Longrightarrow> result env rbp espidx ty a v s' s'' \<Longrightarrow>
   result env rbp espidx ty a v s s''"
  using rdst_bounds(1) [of espidx env ty] unfolding result_def
  by (auto intro: frame_trans elim: frame_weaken)

lemma CALL_gen:
  assumes nat: "natives_ok env sg cf call" and ct: "call_typed env sg mtd (map expr_ty args) ty"
    and IH: "\<And>e i. e \<in> set args \<Longrightarrow> (\<And>l. l \<in> reads e shift \<Longrightarrow> l < i) \<Longrightarrow>
      gen_ok env (op_effect call venv addr rbp) rbp (expr_ty e) i i (EXPR_asm e env i shift i)
        (evs env cf rbp shift e)"
    and rd: "\<And>e l. e \<in> set args \<Longrightarrow> l \<in> reads e shift \<Longrightarrow> l < espidx"
  shows "gen_ok env (op_effect call venv addr rbp) rbp ty a espidx
      (EXPR_asm (TEXPR_CALL ty mtd args) env a shift espidx)
      (evs env cf rbp shift (TEXPR_CALL ty mtd args))"
proof (rule gen_okI)
  fix v
  let ?E = "op_effect call venv addr rbp"
  obtain m where m: "cmtds env mtd = Some m" "\<not> kMethod_isVirtual m" "fcall_1 m \<noteq> Fmethod_runVM"
    and sg: "sg mtd = (map expr_ty (drop (args_from m) args), ty)"
    using ct by (auto simp: call_typed_def drop_map split: option.splits)
  let ?es = "drop (args_from m) args"
  let ?call = "\<lambda>st. Option.bind
      (CALL_args (espidx + K_CALLDELTA + int (args_from m)) (map (\<lambda>e. EXPR_asm e env) ?es) shift st)
      (call_emit env mtd m ty espidx (int (length args) - 1))"
  have code: "EXPR_asm (TEXPR_CALL ty mtd args) env a shift espidx =
      (\<lambda>st. Option.bind (?call st) (\<lambda>st. if a \<noteq> espidx then NMOV_asm env a ty espidx st else Some st))"
    using m by (auto simp: CALL_asm_def args_from_def drop_map)
  have sub: "e \<in> set args" if "e \<in> set ?es" for e using that set_drop_subset by fastforce
  have "gen_run env ?E rbp ?call
      (\<lambda>s. those_vals (map (\<lambda>e. evs env cf rbp shift e s) ?es) = Some vs \<and> cf mtd vs = Some v)
      (result env rbp espidx ty espidx v)" for vs
    using IH rd sub by (intro CALL_native_run [OF nat m sg]) blast+
  then have run: "gen_run env ?E rbp ?call
      (\<lambda>s. \<exists>vs. those_vals (map (\<lambda>e. evs env cf rbp shift e s) ?es) = Some vs \<and> cf mtd vs = Some v)
      (result env rbp espidx ty espidx v)"
    by (rule gen_run_ex)
  show "gen_run env ?E rbp (EXPR_asm (TEXPR_CALL ty mtd args) env a shift espidx)
      (\<lambda>s. evs env cf rbp shift (TEXPR_CALL ty mtd args) s = Some v)
      (\<lambda>s s'. holds env rbp ty a s' v \<and> frame rbp (OC espidx) (rdst env ty a) s s')"
    unfolding code result_def [symmetric]
  proof (rule gen_run_seq [OF _ move_result_run [where v = v]])
    show "gen_run env ?E rbp ?call (\<lambda>s. evs env cf rbp shift (TEXPR_CALL ty mtd args) s = Some v)
        (result env rbp espidx ty espidx v)"
      by (rule gen_run_weaken [OF run]) (auto simp: evs_CALL [OF m(1)] bind_Some_iff)
    show "holds env rbp ty espidx s' v \<and> mtds s' = mtds s"
      if "result env rbp espidx ty espidx v s s'" for s s'
      using that by (auto simp: result_def dest: frame_mtds)
    show "result env rbp espidx ty a v s s''"
      if "result env rbp espidx ty espidx v s s'" "result env rbp espidx ty a v s' s''" for s s' s''
      using that by (rule result_move)
  qed
qed

section \<open>Short-circuit operators\<close>

lemma truth_simps [simp]: "truth 0 = False" "truth 1 = True"
  by (simp_all add: truth_def)

lemma truth_set_truth [simp]: "truth (set_truth b w) = b"
proof -
  have m: "(0xFF :: u64) = Bit_Operations.mask 8" by (simp add: mask_eq_exp_minus_1)
  have "take_bit 8 (and w (not 0xFF)) = 0"
    unfolding m by (rule bit_eqI) (auto simp: bit_simps)
  moreover have "take_bit 8 (1 :: u64) = 1" by simp
  ultimately show ?thesis by (simp add: truth_def set_truth_def take_bit_or)
qed

lemma truth_norm: "isBool env ty \<Longrightarrow> truth (norm env ty w) = truth w"
  by (simp add: norm_def)

lemma norm_of_truth [simp]: "norm env ty (of_truth b) = of_truth b"
  by (simp add: norm_def of_truth_def)

lemma holds_truth:
  "holds env rbp ty a s v \<Longrightarrow> TY_isUnbox env ty \<Longrightarrow> isBool env ty \<Longrightarrow>
   \<exists>w. ndata s (rbp + NC a) = Some w \<and> truth w = truth v"
  by (auto simp: holds_def rdst_def ndata_Word truth_norm)

text \<open>
  The common form of the two operators: \<open>isTRUE\<close> is the value that decides, \<open>falls\<close> says whether no
  operand has it, so that the code falls through.
\<close>

fun falls :: "bool \<Rightarrow> u64 option list \<Rightarrow> bool option" where
  "falls isTRUE [] = Some True"
| "falls isTRUE (None # vs) = None"
| "falls isTRUE (Some v # vs) = (if truth v \<noteq> isTRUE then falls isTRUE vs else Some False)"

lemma and_eval_falls: "and_eval vs = falls False vs"
  by (induction vs rule: and_eval.induct) auto

lemma or_eval_falls: "or_eval vs = map_option Not (falls True vs)"
  by (induction vs rule: or_eval.induct) auto

definition cond_ok ::
    "cenv \<Rightarrow> op_eff \<Rightarrow> int \<Rightarrow> int \<Rightarrow> int \<Rightarrow> (nat \<Rightarrow> gen) \<Rightarrow> (vm \<Rightarrow> bool option) \<Rightarrow> bool" where
  "cond_ok env eff rbp a espidx g ev \<longleftrightarrow>
     (\<forall>st label. wf_ctx st \<longrightarrow> curbb st \<noteq> None \<longrightarrow> label < length (bbs st) \<longrightarrow>
       (\<exists>st'. g label st = Some st' \<and> grows st st' \<and> curbb st' \<noteq> None \<and> lbEND st' = lbEND st \<and>
          labels st' = labels st \<and>
          (\<forall>G s b. extends G st' \<longrightarrow> mtds s = cmtds env \<longrightarrow> ev s = Some b \<longrightarrow>
             (\<exists>s'. gsteps eff rbp G (at st s) (if b then at st' s' else (label, 0, s')) \<and>
                   frame rbp (OC espidx) (NC a) s s'))))"

lemma cond_okD:
  assumes "cond_ok env eff rbp a espidx g ev" "wf_ctx st" "curbb st \<noteq> None" "label < length (bbs st)"
  obtains st' where "g label st = Some st'" "grows st st'" "wf_ctx st'" "later st st'" "curbb st' \<noteq> None"
    "lbEND st' = lbEND st" "labels st' = labels st"
    "\<And>G s b. extends G st' \<Longrightarrow> mtds s = cmtds env \<Longrightarrow> ev s = Some b \<Longrightarrow>
       \<exists>s'. gsteps eff rbp G (at st s) (if b then at st' s' else (label, 0, s')) \<and>
            frame rbp (OC espidx) (NC a) s s'"
  using assms unfolding cond_ok_def grows_def by blast

lemma ASM_JMPF_cond:
  "cond_ok env (op_effect call venv addr rbp) rbp a espidx (ASM_JMPF a)
     (\<lambda>s. map_option truth (ndata s (rbp + NC a)))"
  unfolding cond_ok_def
proof (intro allI impI)
  fix st label assume st: "wf_ctx st" "curbb st \<noteq> None" "label < length (bbs st)"
  then obtain b where "curbb st = Some b" by auto
  from ASM_JMPF_ok [OF st(1) this st(3), of a] obtain st' where
    st': "ASM_JMPF a label st = Some st'" "grows st st'" "curbb st' \<noteq> None" "lbEND st' = lbEND st"
      "labels st' = labels st"
      "\<And>(eff :: op_eff) rbp G s w. extends G st' \<Longrightarrow> ndata s (rbp + NC a) = Some w \<Longrightarrow>
         gsteps eff rbp G (at st s) (if truth w then at st' s else (label, 0, s))"
    by (metis option.distinct(1))
  show "\<exists>st'. ASM_JMPF a label st = Some st' \<and> grows st st' \<and> curbb st' \<noteq> None \<and>
      lbEND st' = lbEND st \<and> labels st' = labels st \<and>
      (\<forall>G s b. extends G st' \<longrightarrow> mtds s = cmtds env \<longrightarrow> map_option truth (ndata s (rbp + NC a)) = Some b \<longrightarrow>
        (\<exists>s'. gsteps (op_effect call venv addr rbp) rbp G (at st s) (if b then at st' s' else (label, 0, s')) \<and>
          frame rbp (OC espidx) (NC a) s s'))"
    using st' frame_refl by (intro exI [of _ st']) fastforce
qed

text \<open>A contract followed by a branch.\<close>

lemma cond_seq:
  assumes 1: "gen_run env eff rbp g P Q" and 2: "cond_ok env eff rbp a espidx h ev2"
    and "\<And>s b. ev s = Some b \<Longrightarrow> P s"
    and "\<And>s s' b. ev s = Some b \<Longrightarrow> Q s s' \<Longrightarrow>
           ev2 s' = Some b \<and> mtds s' = mtds s \<and> frame rbp (OC espidx) (NC a) s s'"
  shows "cond_ok env eff rbp a espidx (\<lambda>l st. Option.bind (g st) (h l)) ev"
  unfolding cond_ok_def
proof (intro allI impI)
  fix st label assume st: "wf_ctx st" "curbb st \<noteq> None" "label < length (bbs st)"
  obtain st1 where 3: "g st = Some st1" "grows st st1" "wf_ctx st1" "later st st1" "curbb st1 \<noteq> None"
    "lbEND st1 = lbEND st" "labels st1 = labels st"
    "\<And>G s. extends G st1 \<Longrightarrow> mtds s = cmtds env \<Longrightarrow> P s \<Longrightarrow>
       \<exists>s'. gsteps eff rbp G (at st s) (at st1 s') \<and> Q s s'"
    using gen_runD [OF 1 st(1,2)] by metis
  have l1: "label < length (bbs st1)" using st(3) 3(4) by (simp add: later_def)
  obtain st2 where 4: "h label st1 = Some st2" "grows st1 st2" "later st1 st2" "curbb st2 \<noteq> None"
    "lbEND st2 = lbEND st1" "labels st2 = labels st1"
    "\<And>G s b. extends G st2 \<Longrightarrow> mtds s = cmtds env \<Longrightarrow> ev2 s = Some b \<Longrightarrow>
       \<exists>s'. gsteps eff rbp G (at st1 s) (if b then at st2 s' else (label, 0, s')) \<and>
            frame rbp (OC espidx) (NC a) s s'"
    using cond_okD [OF 2 3(3,5) l1] by metis
  have "\<exists>s'. gsteps eff rbp G (at st s) (if b then at st2 s' else (label, 0, s')) \<and>
      frame rbp (OC espidx) (NC a) s s'"
    if G: "extends G st2" and s: "mtds s = cmtds env" "ev s = Some b" for G s b
  proof -
    obtain s1 where s1: "gsteps eff rbp G (at st s) (at st1 s1)" "Q s s1"
      using 3(8) [OF extends_later [OF G 4(3)] s(1) assms(3) [OF s(2)]] by blast
    note q = assms(4) [OF s(2) s1(2)]
    then obtain s2 where "gsteps eff rbp G (at st1 s1) (if b then at st2 s2 else (label, 0, s2))"
      "frame rbp (OC espidx) (NC a) s1 s2"
      using 4(7) [OF G, of s1 b] s(1) by auto
    then show ?thesis using s1(1) q gsteps_trans frame_trans by blast
  qed
  then show "\<exists>st'. Option.bind (g st) (h label) = Some st' \<and> grows st st' \<and> curbb st' \<noteq> None \<and>
      lbEND st' = lbEND st \<and> labels st' = labels st \<and>
      (\<forall>G s b. extends G st' \<longrightarrow> mtds s = cmtds env \<longrightarrow> ev s = Some b \<longrightarrow>
        (\<exists>s'. gsteps eff rbp G (at st s) (if b then at st' s' else (label, 0, s')) \<and>
          frame rbp (OC espidx) (NC a) s s'))"
    using 3 4 grows_trans by (intro exI [of _ st2]) auto
qed

lemma ndata_rset: "ndata (rset i (Word w) s) j = (if j = i then Some w else ndata s j)"
  by (simp add: ndata_def regs_rset)

lemma bnot_run:
  "gen_run env (op_effect call venv addr rbp) rbp
     (\<lambda>st. if isTRUE then BUILD_asm (klr_BNOT (NC a) (NC a)) st else Some st)
     (\<lambda>s. ndata s (rbp + NC a) \<noteq> None)
     (\<lambda>s s'. (\<exists>w. ndata s' (rbp + NC a) = Some w \<and> truth w = (truth (the (ndata s (rbp + NC a))) \<noteq> isTRUE))
        \<and> frame rbp (OC espidx) (NC a) s s')"
proof (cases isTRUE)
  case True
  have "gen_run env (op_effect call venv addr rbp) rbp (BUILD_asm (klr_BNOT (NC a) (NC a)))
     (\<lambda>s. ndata s (rbp + NC a) \<noteq> None)
     (\<lambda>s s'. (\<exists>w. ndata s' (rbp + NC a) = Some w \<and> truth w = (\<not> truth (the (ndata s (rbp + NC a)))))
        \<and> frame rbp (OC espidx) (NC a) s s')"
    by (rule BUILD_asm_run) (auto simp: OPEXEC_BNOT_def ndata_rset intro!: frame_rset)
  with True show ?thesis by simp
next
  case False
  have "gen_run env (op_effect call venv addr rbp) rbp Some
     (\<lambda>s. ndata s (rbp + NC a) \<noteq> None)
     (\<lambda>s s'. (\<exists>w. ndata s' (rbp + NC a) = Some w \<and> truth w = (truth (the (ndata s (rbp + NC a)))))
        \<and> frame rbp (OC espidx) (NC a) s s')"
    by (rule gen_run_skip) auto
  with False show ?thesis by simp
qed

lemma JMPIF_cond:
  assumes "gen_ok env (op_effect call venv addr rbp) rbp ty a espidx (g a shift espidx) ev"
    and ty: "TY_isUnbox env ty" "isBool env ty"
  shows "cond_ok env (op_effect call venv addr rbp) rbp a espidx
     (\<lambda>l. EXPR_asmJMPIF a g isTRUE l shift espidx) (\<lambda>s. map_option (\<lambda>v. truth v \<noteq> isTRUE) (ev s))"
proof -
  let ?E = "op_effect call venv addr rbp"
  let ?bnot = "\<lambda>st. if isTRUE then BUILD_asm (klr_BNOT (NC a) (NC a)) st else Some st"
  have 1: "gen_run env ?E rbp (\<lambda>st. Option.bind (g a shift espidx st) ?bnot) (\<lambda>s. ev s \<noteq> None)
     (\<lambda>s s'. (\<exists>w. ndata s' (rbp + NC a) = Some w \<and> truth w = (truth (the (ev s)) \<noteq> isTRUE)) \<and>
             frame rbp (OC espidx) (NC a) s s')"
  proof (rule gen_run_seq [OF assms(1) [unfolded gen_ok_def] bnot_run [where espidx = espidx]])
    fix s s'
    assume r: "holds env rbp ty a s' (the (ev s)) \<and> frame rbp (OC espidx) (rdst env ty a) s s'"
    then obtain w where w: "ndata s' (rbp + NC a) = Some w" "truth w = truth (the (ev s))"
      using holds_truth ty by blast
    then show "ndata s' (rbp + NC a) \<noteq> None \<and> mtds s' = mtds s" using r by (auto dest: frame_mtds)
    fix s'' assume "(\<exists>w. ndata s'' (rbp + NC a) = Some w \<and>
        truth w = (truth (the (ndata s' (rbp + NC a))) \<noteq> isTRUE)) \<and> frame rbp (OC espidx) (NC a) s' s''"
    then show "(\<exists>w. ndata s'' (rbp + NC a) = Some w \<and> truth w = (truth (the (ev s)) \<noteq> isTRUE)) \<and>
        frame rbp (OC espidx) (NC a) s s''"
      using w r ty(1) by (auto simp: rdst_def intro: frame_trans)
  qed
  have "cond_ok env ?E rbp a espidx
      (\<lambda>l st. Option.bind (Option.bind (g a shift espidx st) ?bnot) (ASM_JMPF a l))
      (\<lambda>s. map_option (\<lambda>v. truth v \<noteq> isTRUE) (ev s))"
    by (rule cond_seq [OF 1 ASM_JMPF_cond]) (auto dest: frame_mtds)
  moreover have "(\<lambda>l. EXPR_asmJMPIF a g isTRUE l shift espidx) =
      (\<lambda>l st. Option.bind (Option.bind (g a shift espidx st) ?bnot) (ASM_JMPF a l))"
    by (intro ext) (simp add: EXPR_asmJMPIF_def)
  ultimately show ?thesis by simp
qed

lemma cond_cond_seq:
  assumes 1: "cond_ok env eff rbp a espidx h1 ev1" and 2: "cond_ok env eff rbp a espidx h2 ev2"
    and stable: "\<And>s s'. frame rbp (OC espidx) (NC a) s s' \<Longrightarrow> ev2 s' = ev2 s"
  shows "cond_ok env eff rbp a espidx (\<lambda>l st. Option.bind (h1 l st) (h2 l))
     (\<lambda>s. Option.bind (ev1 s) (\<lambda>b. if b then ev2 s else Some False))"
  unfolding cond_ok_def
proof (intro allI impI)
  fix st label assume st: "wf_ctx st" "curbb st \<noteq> None" "label < length (bbs st)"
  obtain st1 where 3: "h1 label st = Some st1" "grows st st1" "wf_ctx st1" "later st st1" "curbb st1 \<noteq> None"
    "lbEND st1 = lbEND st" "labels st1 = labels st"
    "\<And>G s b. extends G st1 \<Longrightarrow> mtds s = cmtds env \<Longrightarrow> ev1 s = Some b \<Longrightarrow>
       \<exists>s'. gsteps eff rbp G (at st s) (if b then at st1 s' else (label, 0, s')) \<and>
            frame rbp (OC espidx) (NC a) s s'"
    using cond_okD [OF 1 st] by metis
  have l1: "label < length (bbs st1)" using st(3) 3(4) by (simp add: later_def)
  obtain st2 where 4: "h2 label st1 = Some st2" "grows st1 st2" "later st1 st2" "curbb st2 \<noteq> None"
    "lbEND st2 = lbEND st1" "labels st2 = labels st1"
    "\<And>G s b. extends G st2 \<Longrightarrow> mtds s = cmtds env \<Longrightarrow> ev2 s = Some b \<Longrightarrow>
       \<exists>s'. gsteps eff rbp G (at st1 s) (if b then at st2 s' else (label, 0, s')) \<and>
            frame rbp (OC espidx) (NC a) s s'"
    using cond_okD [OF 2 3(3,5) l1] by metis
  have "\<exists>s'. gsteps eff rbp G (at st s) (if b then at st2 s' else (label, 0, s')) \<and>
      frame rbp (OC espidx) (NC a) s s'"
    if G: "extends G st2" and s: "mtds s = cmtds env"
      and b: "Option.bind (ev1 s) (\<lambda>b. if b then ev2 s else Some False) = Some b" for G s b
  proof -
    obtain b1 where b1: "ev1 s = Some b1" using b by (auto simp: bind_Some_iff)
    obtain s1 where s1: "gsteps eff rbp G (at st s) (if b1 then at st1 s1 else (label, 0, s1))"
      "frame rbp (OC espidx) (NC a) s s1"
      using 3(8) [OF extends_later [OF G 4(3)] s b1] by blast
    show ?thesis
    proof (cases b1)
      case False
      then show ?thesis using s1 b b1 by auto
    next
      case True
      then have "ev2 s1 = Some b" using b b1 stable [OF s1(2)] by simp
      then obtain s2 where "gsteps eff rbp G (at st1 s1) (if b then at st2 s2 else (label, 0, s2))"
        "frame rbp (OC espidx) (NC a) s1 s2"
        using 4(7) [OF G, of s1 b] frame_mtds [OF s1(2)] s by auto
      then show ?thesis using s1 True gsteps_trans frame_trans by (metis (full_types))
    qed
  qed
  then show "\<exists>st'. Option.bind (h1 label st) (h2 label) = Some st' \<and> grows st st' \<and> curbb st' \<noteq> None \<and>
      lbEND st' = lbEND st \<and> labels st' = labels st \<and>
      (\<forall>G s b. extends G st' \<longrightarrow> mtds s = cmtds env \<longrightarrow>
        Option.bind (ev1 s) (\<lambda>b. if b then ev2 s else Some False) = Some b \<longrightarrow>
        (\<exists>s'. gsteps eff rbp G (at st s) (if b then at st' s' else (label, 0, s')) \<and>
          frame rbp (OC espidx) (NC a) s s'))"
    using 3 4 grows_trans by (intro exI [of _ st2]) auto
qed

lemma COND_asm_cond:
  assumes "\<And>e. e \<in> set es \<Longrightarrow> gen_ok env (op_effect call venv addr rbp) rbp (expr_ty e) a espidx
        (EXPR_asm e env a shift espidx) (evs env cf rbp shift e)"
    and "\<And>e. e \<in> set es \<Longrightarrow> TY_isUnbox env (expr_ty e) \<and> isBool env (expr_ty e)"
    and "\<And>e l. e \<in> set es \<Longrightarrow> l \<in> reads e shift \<Longrightarrow> l < espidx"
    and "\<And>e. e \<in> set (tl es) \<Longrightarrow> a \<notin> reads e shift"
  shows "cond_ok env (op_effect call venv addr rbp) rbp a espidx
     (\<lambda>l. COND_asm a (map (\<lambda>e. EXPR_asm e env) es) isTRUE l shift espidx)
     (\<lambda>s. falls isTRUE (map (\<lambda>e. evs env cf rbp shift e s) es))"
  using assms
proof (induction es)
  case Nil
  show ?case unfolding cond_ok_def
  proof (intro allI impI)
    fix st :: ctxcode and label assume "wf_ctx st" "curbb st \<noteq> None" "label < length (bbs st)"
    have "\<exists>s'. gsteps (op_effect call venv addr rbp) rbp G (at st s) (at st s') \<and>
        frame rbp (OC espidx) (NC a) s s'" for G s
      by (intro exI [of _ s]) simp
    then show "\<exists>st'. COND_asm a (map (\<lambda>e. EXPR_asm e env) []) isTRUE label shift espidx st = Some st' \<and>
        grows st st' \<and> curbb st' \<noteq> None \<and> lbEND st' = lbEND st \<and> labels st' = labels st \<and>
        (\<forall>G s b. extends G st' \<longrightarrow> mtds s = cmtds env \<longrightarrow>
           falls isTRUE (map (\<lambda>e. evs env cf rbp shift e s) []) = Some b \<longrightarrow>
           (\<exists>s'. gsteps (op_effect call venv addr rbp) rbp G (at st s)
                   (if b then at st' s' else (label, 0, s')) \<and> frame rbp (OC espidx) (NC a) s s'))"
      using \<open>wf_ctx st\<close> \<open>curbb st \<noteq> None\<close> by (intro exI [of _ st]) (auto intro: grows_refl)
  qed
next
  case (Cons e es)
  let ?E = "op_effect call venv addr rbp"
  have IH: "cond_ok env ?E rbp a espidx
     (\<lambda>l. COND_asm a (map (\<lambda>e. EXPR_asm e env) es) isTRUE l shift espidx)
     (\<lambda>s. falls isTRUE (map (\<lambda>e. evs env cf rbp shift e s) es))"
    by (rule Cons.IH) (use Cons.prems in \<open>auto dest: in_set_tl\<close>)
  have "cond_ok env ?E rbp a espidx
     (\<lambda>l st. Option.bind (EXPR_asmJMPIF a (EXPR_asm e env) isTRUE l shift espidx st)
         (COND_asm a (map (\<lambda>e. EXPR_asm e env) es) isTRUE l shift espidx))
     (\<lambda>s. Option.bind (map_option (\<lambda>v. truth v \<noteq> isTRUE) (evs env cf rbp shift e s))
        (\<lambda>b. if b then falls isTRUE (map (\<lambda>e. evs env cf rbp shift e s) es) else Some False))"
  proof (rule cond_cond_seq [OF JMPIF_cond IH])
    show "gen_ok env ?E rbp (expr_ty e) a espidx (EXPR_asm e env a shift espidx) (evs env cf rbp shift e)"
      "TY_isUnbox env (expr_ty e)" "isBool env (expr_ty e)"
      using Cons.prems by auto
    fix s s' assume f: "frame rbp (OC espidx) (NC a) s s'"
    have "evs env cf rbp shift x s' = evs env cf rbp shift x s" if "x \<in> set es" for x
    proof (rule evs_frame [OF f], intro ballI conjI)
      fix l assume l: "l \<in> reads x shift"
      show "l < espidx" using Cons.prems(3) [of x l] that l by simp
      have "a \<noteq> l" using Cons.prems(4) [of x] that l by auto
      then show "NC a \<noteq> NC l" by (simp add: NC_def)
      show "NC a \<noteq> OC l" unfolding NC_def OC_def by presburger
    qed
    then show "falls isTRUE (map (\<lambda>e. evs env cf rbp shift e s') es) =
        falls isTRUE (map (\<lambda>e. evs env cf rbp shift e s) es)"
      by (simp cong: map_cong)
  qed
  moreover have "Option.bind (map_option (\<lambda>v. truth v \<noteq> isTRUE) (evs env cf rbp shift e s))
        (\<lambda>b. if b then falls isTRUE (map (\<lambda>e. evs env cf rbp shift e s) es) else Some False) =
      falls isTRUE (map (\<lambda>e. evs env cf rbp shift e s) (e # es))" for s
    by (cases "evs env cf rbp shift e s") auto
  moreover have "(\<lambda>l. COND_asm a (map (\<lambda>e. EXPR_asm e env) (e # es)) isTRUE l shift espidx) =
     (\<lambda>l st. Option.bind (EXPR_asmJMPIF a (EXPR_asm e env) isTRUE l shift espidx st)
         (COND_asm a (map (\<lambda>e. EXPR_asm e env) es) isTRUE l shift espidx))"
    by (intro ext) simp
  ultimately show ?case by simp
qed

text \<open>
  The code behind the operands of AND and OR: one result is set where the code falls through,
  the other where an operand decided.
\<close>

lemma set_truth_run:
  assumes "TY_isUnbox env ty"
  shows "gen_run env (op_effect call venv addr rbp) rbp (BUILD_asm (klr_NSET (NC a) (of_truth b) cls))
    (\<lambda>_. True) (result env rbp espidx ty a (of_truth b))"
  by (rule BUILD_asm_run)
    (use assms in \<open>auto simp: result_def holds_def regs_rset rdst_def intro!: frame_rset\<close>)

definition shortcut :: "int \<Rightarrow> (nat \<Rightarrow> gen) \<Rightarrow> bool \<Rightarrow> bool \<Rightarrow> u64 \<Rightarrow> gen" where
  "shortcut a cnd decides_first falls_to cls st = (
     let (x, st) = new_BasicBlockLABEL st;
         (y, st) = new_BasicBlockLABEL st;
         lbDecided = (if decides_first then x else y);
         lbEnd = (if decides_first then y else x)
     in do {
       st \<leftarrow> cnd lbDecided st;
       st \<leftarrow> BUILD_asm (klr_NSET (NC a) (of_truth falls_to) cls) st;
       st \<leftarrow> ASM_JMP lbEnd st;
       st \<leftarrow> ASM_LABEL lbDecided st;
       st \<leftarrow> BUILD_asm (klr_NSET (NC a) (of_truth (\<not> falls_to)) cls) st;
       ASM_LABEL lbEnd st
     })"

lemma AND_asm_shortcut:
  "AND_asm env a es shift espidx =
     shortcut a (\<lambda>l. COND_asm a es False l shift espidx) False True (CT_Boolean env)"
  by (rule ext) (simp add: AND_asm_def shortcut_def Let_def of_truth_def split: prod.split)

lemma OR_asm_shortcut:
  "OR_asm env a es shift espidx =
     shortcut a (\<lambda>l. COND_asm a es True l shift espidx) True False (CT_Boolean env)"
  by (rule ext) (simp add: OR_asm_def shortcut_def Let_def of_truth_def split: prod.split)

lemma later_at:
  "wf_ctx st \<Longrightarrow> curbb st \<noteq> None \<Longrightarrow> curbb st' = curbb st \<Longrightarrow>
   (\<And>m. m < length (bbs st) \<Longrightarrow> blk st' m = blk st m) \<Longrightarrow> at st' s = at st s"
  by (auto simp: at_def loc_def wf_ctx_def)

lemma same_code_label:
  "same_code b c \<Longrightarrow> ops b = [] \<Longrightarrow> \<not> closed_block b \<Longrightarrow> ops c = [] \<and> \<not> closed_block c"
  by (simp add: same_code_def closed_block_def)

lemma shortcut_run:
  assumes c: "cond_ok env (op_effect call venv addr rbp) rbp a espidx cnd ev" and ty: "TY_isUnbox env ty"
  shows "gen_ok env (op_effect call venv addr rbp) rbp ty a espidx
      (shortcut a cnd first falls_to cls) (\<lambda>s. map_option (\<lambda>b. of_truth (b = falls_to)) (ev s))"
  unfolding gen_ok_def gen_run_def
proof (intro allI impI)
  let ?E = "op_effect call venv addr rbp"
  fix st assume wf: "wf_ctx st" and cur: "curbb st \<noteq> None"
  define n where "n = length (bbs st)"
  obtain x sa where x: "new_BasicBlockLABEL st = (x, sa)" by (cases "new_BasicBlockLABEL st")
  note fx = new_label [OF wf x]
  have wfa: "wf_ctx sa" using fx(4) by (simp add: grows_def)
  obtain y s0 where y: "new_BasicBlockLABEL sa = (y, s0)" by (cases "new_BasicBlockLABEL sa")
  note fy = new_label [OF wfa y]
  define lD where "lD = (if first then x else y)"
  define lE where "lE = (if first then y else x)"
  have lab: "n \<le> lD" "n \<le> lE" "lD \<noteq> lE" "lD < length (bbs s0)" "lE < length (bbs s0)"
    using fx(1,2) fy(1,2) n_def by (auto simp: lD_def lE_def)
  have e0: "grows st s0" using fx(4) fy(4) by (rule grows_trans)
  have cur0: "curbb s0 = curbb st" using fx(3) fy(3) by simp
  have open0: "ops (blk s0 l) = [] \<and> \<not> closed_block (blk s0 l)" if "l = x \<or> l = y" for l
  proof -
    have "x < length (bbs sa)" using fx(1,2) by simp
    then have "blk s0 x = blk sa x" using fy(1,7) by simp
    then show ?thesis using that fx(5,6) fy(5,6) by auto
  qed
  have nc: "curbb s0 \<noteq> Some l" if "n \<le> l" for l
    using that cur0 wf n_def by (auto simp: wf_ctx_def)
  have at0: "at s0 s = at st s" for s
  proof (rule later_at [OF wf cur cur0])
    fix m assume "m < length (bbs st)"
    then show "blk s0 m = blk st m" using fx(1,2,7) fy(1,7) by simp
  qed
  obtain s1 where s1: "cnd lD s0 = Some s1" "grows s0 s1" "wf_ctx s1" "later s0 s1" "curbb s1 \<noteq> None"
    "lbEND s1 = lbEND s0" "labels s1 = labels s0"
    "\<And>G s b. extends G s1 \<Longrightarrow> mtds s = cmtds env \<Longrightarrow> ev s = Some b \<Longrightarrow>
       \<exists>s'. gsteps ?E rbp G (at s0 s) (if b then at s1 s' else (lD, 0, s')) \<and>
            frame rbp (OC espidx) (NC a) s s'"
    using cond_okD [OF c, of s0 lD] e0 cur cur0 lab by (metis grows_def)
  obtain s2 where s2: "BUILD_asm (klr_NSET (NC a) (of_truth falls_to) cls) s1 = Some s2"
    "grows s1 s2" "wf_ctx s2" "later s1 s2" "curbb s2 \<noteq> None" "lbEND s2 = lbEND s1" "labels s2 = labels s1"
    "\<And>G s. extends G s2 \<Longrightarrow> mtds s = cmtds env \<Longrightarrow>
       \<exists>s'. gsteps ?E rbp G (at s1 s) (at s2 s') \<and> result env rbp espidx ty a (of_truth falls_to) s s'"
    using gen_runD [OF set_truth_run [OF ty] s1(3,5)] by (metis (full_types))
  have e2: "grows s0 s2" using s1(2) s2(2) by (rule grows_trans)
  have l2: "lE < length (bbs s2)" "lD < length (bbs s2)"
    using lab e2 by (auto simp: grows_def later_def)
  obtain s3 where s3: "ASM_JMP lE s2 = Some s3" "grows s2 s3" "curbb s3 = None"
    "length (bbs s3) = length (bbs s2)" "lbEND s3 = lbEND s2" "labels s3 = labels s2"
    "\<And>(eff :: op_eff) rbp G s. extends G s3 \<Longrightarrow> curbb s2 \<noteq> None \<Longrightarrow>
        gsteps eff rbp G (at s2 s) (lE, 0, s)"
    using ASM_JMP_ok [OF s2(3) l2(1)] by metis
  have e3: "grows s0 s3" using e2 s3(2) by (rule grows_trans)
  then have w3: "wf_ctx s3" and k3: "keeps s0 s3" by (simp_all add: grows_def)
  have o3: "ops (blk s3 l) = [] \<and> \<not> closed_block (blk s3 l)" if "l = lD \<or> l = lE" for l
  proof (rule same_code_label)
    show "same_code (blk s0 l) (blk s3 l)"
      using k3 that lab nc [of l] by (auto simp: keeps_def)
  qed (use open0 that lD_def lE_def in \<open>metis+\<close>)
  obtain s4 where s4: "ASM_LABEL lD s3 = Some s4" "wf_ctx s4" "later s3 s4" "curbb s4 = Some lD"
    "length (bbs s4) = length (bbs s3)" "\<And>s. at s4 s = (lD, 0, s)"
    "\<And>m. curbb s3 \<noteq> Some m \<Longrightarrow> same_code (blk s3 m) (blk s4 m)"
    "lbEND s4 = lbEND s3" "labels s4 = labels s3"
    using ASM_LABEL_ok [OF w3, of lD] o3 [of lD] l2 s3(3,4) by (metis option.distinct(1))
  obtain s5 where s5: "BUILD_asm (klr_NSET (NC a) (of_truth (\<not> falls_to)) cls) s4 = Some s5"
    "grows s4 s5" "wf_ctx s5" "later s4 s5" "curbb s5 \<noteq> None" "lbEND s5 = lbEND s4" "labels s5 = labels s4"
    "\<And>G s. extends G s5 \<Longrightarrow> mtds s = cmtds env \<Longrightarrow>
       \<exists>s'. gsteps ?E rbp G (at s4 s) (at s5 s') \<and> result env rbp espidx ty a (of_truth (\<not> falls_to)) s s'"
    using gen_runD [OF set_truth_run [OF ty] s4(2)] s4(4) by (metis (full_types) option.distinct(1))
  have len5: "length (bbs s2) \<le> length (bbs s5)" using s5(4) s4(5) s3(4) by (simp add: later_def)
  have k5: "same_code (blk s4 lE) (blk s5 lE)" "curbb s5 \<noteq> Some lE"
    using s5(2) s4(4,5) s3(4) l2 lab(3) by (auto simp: grows_def keeps_def)
  have o5: "ops (blk s5 lE) = [] \<and> \<not> closed_block (blk s5 lE)"
  proof (rule same_code_label)
    show "same_code (blk s3 lE) (blk s5 lE)" using s4(7) s3(3) k5(1) by (auto intro: same_code_trans)
  qed (use o3 in auto)
  have l5: "lE < length (bbs s5)" using l2 len5 by simp
  obtain s6 where s6: "ASM_LABEL lE s5 = Some s6" "wf_ctx s6" "later s5 s6" "curbb s6 = Some lE"
    "\<And>s. at s6 s = (lE, 0, s)" "\<And>m. curbb s5 \<noteq> Some m \<Longrightarrow> same_code (blk s5 m) (blk s6 m)"
    "lbEND s6 = lbEND s5" "labels s6 = labels s5"
    "\<And>(eff :: op_eff) rbp G s. extends G s6 \<Longrightarrow> curbb s5 \<noteq> None \<Longrightarrow> gsteps eff rbp G (at s5 s) (at s6 s)"
    using ASM_LABEL_ok [OF s5(3) l5 k5(2) conjunct1 [OF o5] conjunct2 [OF o5]] by metis
  have e6: "grows st s6"
  proof -
    have "grows st s3" using e0 e3 by (rule grows_trans)
    then have "grows st s4"
      by (rule grows_outer [OF _ s4(2,3,7)]) (use s4(4) lab n_def in auto)
    then have "grows st s5" using s5(2) by (rule grows_trans)
    then show ?thesis by (rule grows_outer [OF _ s6(2,3,6)]) (use s6(4) lab n_def in auto)
  qed
  have run: "\<exists>s'. gsteps ?E rbp G (at st s) (at s6 s') \<and>
      holds env rbp ty a s' (of_truth (b = falls_to)) \<and> frame rbp (OC espidx) (rdst env ty a) s s'"
    if G: "extends G s6" and s: "mtds s = cmtds env" "ev s = Some b" for G s b
  proof -
    have G5: "extends G s5" and G4: "extends G s4" and G3: "extends G s3" and G2: "extends G s2"
      and G1: "extends G s1"
    proof -
      show 5: "extends G s5" using G s6(3) by (rule extends_later)
      show 4: "extends G s4" using 5 s5(4) by (rule extends_later)
      show 3: "extends G s3" using 4 s4(3) by (rule extends_later)
      have "later s2 s3" using s3(2) by (simp add: grows_def)
      with 3 show 2: "extends G s2" by (rule extends_later)
      show "extends G s1" using 2 s2(4) by (rule extends_later)
    qed
    have r: "rdst env ty a = NC a" using ty by (simp add: rdst_def)
    obtain t1 where t1: "gsteps ?E rbp G (at st s) (if b then at s1 t1 else (lD, 0, t1))"
      "frame rbp (OC espidx) (NC a) s t1"
      using s1(8) [OF G1 s] at0 by auto
    have m1: "mtds t1 = cmtds env" using frame_mtds [OF t1(2)] s by simp
    show ?thesis
    proof (cases b)
      case True
      obtain t2 where t2: "gsteps ?E rbp G (at s1 t1) (at s2 t2)"
        "result env rbp espidx ty a (of_truth falls_to) t1 t2"
        using s2(8) [OF G2 m1] by blast
      have "gsteps ?E rbp G (at s2 t2) (at s6 t2)" using s3(7) [OF G3 s2(5)] s6(5) by metis
      then show ?thesis using t1 t2 True r
        by (intro exI [of _ t2]) (auto simp: result_def intro: gsteps_trans frame_trans)
    next
      case False
      obtain t2 where t2: "gsteps ?E rbp G (at s4 t1) (at s5 t2)"
        "result env rbp espidx ty a (of_truth (\<not> falls_to)) t1 t2"
        using s5(8) [OF G5 m1] by blast
      have "gsteps ?E rbp G (at s5 t2) (at s6 t2)" using s6(9) [OF G s5(5)] .
      then show ?thesis using t1 t2 False r s4(6)
        by (intro exI [of _ t2]) (auto simp: result_def intro: gsteps_trans frame_trans)
    qed
  qed
  have "shortcut a cnd first falls_to cls st = Some s6"
    using x y s1(1) s2(1) s3(1) s4(1) s5(1) s6(1) by (simp add: shortcut_def lD_def lE_def)
  moreover have "lbEND s6 = lbEND st" "labels s6 = labels st"
    using s6 s5 s4 s3 s2 s1 fx fy by simp_all
  ultimately show "\<exists>st'. shortcut a cnd first falls_to cls st = Some st' \<and> grows st st' \<and>
      curbb st' \<noteq> None \<and> lbEND st' = lbEND st \<and> labels st' = labels st \<and>
      (\<forall>G s. extends G st' \<longrightarrow> mtds s = cmtds env \<longrightarrow>
        map_option (\<lambda>b. of_truth (b = falls_to)) (ev s) \<noteq> None \<longrightarrow>
        (\<exists>s'. gsteps ?E rbp G (at st s) (at st' s') \<and>
          holds env rbp ty a s' (the (map_option (\<lambda>b. of_truth (b = falls_to)) (ev s))) \<and>
          frame rbp (OC espidx) (rdst env ty a) s s'))"
    using e6 s6(4) run by (intro exI [of _ s6]) auto
qed

section \<open>All expressions\<close>

lemma gen_ok_cong: "gen_ok env eff rbp ty a espidx g ev \<Longrightarrow> (\<And>s. ev' s = ev s) \<Longrightarrow>
    gen_ok env eff rbp ty a espidx g ev'"
  by (simp add: gen_ok_def)

lemma gen_ok_none: "gen_ok env eff rbp ty a espidx g ev \<Longrightarrow> gen_ok env eff rbp ty a espidx g (\<lambda>_. None)"
  unfolding gen_ok_def by (erule gen_run_weaken) auto

lemma shortcut_expr:
  assumes IH: "\<And>e. e \<in> set es \<Longrightarrow> gen_ok env (op_effect call venv addr rbp) rbp (expr_ty e) a espidx
        (EXPR_asm e env a shift espidx) (evs env cf rbp shift e)"
    and ty: "\<And>e. e \<in> set es \<Longrightarrow> TY_isUnbox env (expr_ty e) \<and> isBool env (expr_ty e)" "TY_isUnbox env ty"
    and rd: "\<And>e l. e \<in> set es \<Longrightarrow> l \<in> reads e shift \<Longrightarrow> l < espidx"
    and sd: "\<And>e. e \<in> set (tl es) \<Longrightarrow> a \<notin> reads e shift"
  shows "gen_ok env (op_effect call venv addr rbp) rbp ty a espidx
      (EXPR_asm (TEXPR_AND ty es) env a shift espidx) (evs env cf rbp shift (TEXPR_AND ty es))"
    and "gen_ok env (op_effect call venv addr rbp) rbp ty a espidx
      (EXPR_asm (TEXPR_OR ty es) env a shift espidx) (evs env cf rbp shift (TEXPR_OR ty es))"
proof -
  note c = COND_asm_cond [of es env call venv addr rbp a espidx shift cf, OF IH ty(1) rd sd]
  have m: "(\<lambda>e. eval e env cf (objs s) shift (\<lambda>i. ndata s (rbp + i))) = (\<lambda>e. evs env cf rbp shift e s)" for s
    by (simp add: evs_def)
  show "gen_ok env (op_effect call venv addr rbp) rbp ty a espidx
      (EXPR_asm (TEXPR_AND ty es) env a shift espidx) (evs env cf rbp shift (TEXPR_AND ty es))"
    unfolding EXPR_asm.simps AND_asm_shortcut
    by (rule gen_ok_cong [OF shortcut_run [OF c ty(2)]])
      (simp_all add: evs_def [of env cf rbp shift "TEXPR_AND ty es"] m and_eval_falls)
  show "gen_ok env (op_effect call venv addr rbp) rbp ty a espidx
      (EXPR_asm (TEXPR_OR ty es) env a shift espidx) (evs env cf rbp shift (TEXPR_OR ty es))"
    unfolding EXPR_asm.simps OR_asm_shortcut
    by (rule gen_ok_cong [OF shortcut_run [OF c ty(2)]])
      (simp_all add: evs_def [of env cf rbp shift "TEXPR_OR ty es"] m or_eval_falls option.map_comp comp_def)
qed

lemma evs_LOCAL: "evs env cf rbp shift (TEXPR_LOCAL ty i) = reg_value env rbp ty i"
  by (rule ext, rename_tac s, case_tac "ndata s (rbp + rdst env ty i)")
    (simp_all add: evs_def reg_value_def)

lemma evs_STACKTOP: "evs env cf rbp shift (TEXPR_STACKTOP ty i) = reg_value env rbp ty (i + shift)"
  by (rule ext, rename_tac s, case_tac "ndata s (rbp + rdst env ty (i + shift))")
    (simp_all add: evs_def reg_value_def)

lemma EXPR_asm_gen:
  assumes nat: "natives_ok env sg cf call"
  shows "typed e env sg \<Longrightarrow> (\<And>l. l \<in> reads e shift \<Longrightarrow> l < espidx) \<Longrightarrow> safe_dest e shift a \<Longrightarrow>
    gen_ok env (op_effect call venv addr rbp) rbp (expr_ty e) a espidx
      (EXPR_asm e env a shift espidx) (evs env cf rbp shift e)"
proof (induction e arbitrary: a espidx
    rule: kexpr.induct [where ?P2.0 = "\<lambda>_. True" and ?P3.0 = "\<lambda>_. True" and ?P4.0 = "\<lambda>_. True"])
  case (TEXPR_CONST ty v)
  have "gen_ok env (op_effect call venv addr rbp) rbp ty a espidx (CONST_asm env a ty v)
      (\<lambda>s. eval (TEXPR_CONST ty v) env cf (objs undefined) shift (\<lambda>i. None))"
    by (rule CONST_asm_gen) (rule TEXPR_CONST.prems)
  then show ?case by (auto simp: evs_def intro: gen_ok_cong)
next
  case (TEXPR_NULL ty)
  have c: "EXPR_asm (TEXPR_NULL ty) env a shift espidx = BUILD_asm (klr_NSET (NC a) 0 (CT_of env ty))"
    using TEXPR_NULL by (intro ext) simp
  show ?case unfolding c using TEXPR_NULL by (intro BUILD_asm_gen) (auto simp: evs_def rdst_def)
next
  case (TEXPR_NCONST ty n)
  have c: "EXPR_asm (TEXPR_NCONST ty n) env a shift espidx = BUILD_asm (klr_NSET (NC a) n (CT_of env ty))"
    by (intro ext) simp
  show ?case unfolding c using TEXPR_NCONST by (intro BUILD_asm_gen) (auto simp: evs_def rdst_def)
next
  case (TEXPR_LOCAL ty index)
  have "gen_ok env (op_effect call venv addr rbp) rbp ty a espidx (NMOV_asm env a ty index)
      (reg_value env rbp ty index)" by (rule NMOV_asm_gen)
  then show ?case by (simp add: evs_LOCAL)
next
  case (TEXPR_STACKTOP ty index)
  have "gen_ok env (op_effect call venv addr rbp) rbp ty a espidx (NMOV_asm env a ty (index + shift))
      (reg_value env rbp ty (index + shift))" by (rule NMOV_asm_gen)
  moreover have "EXPR_asm (TEXPR_STACKTOP ty index) env a shift espidx = NMOV_asm env a ty (index + shift)"
    using TEXPR_STACKTOP by (intro ext) simp
  ultimately show ?case by (simp only: evs_STACKTOP expr_ty.simps)
next
  case (TEXPR_FIELD ty ix)
  then show ?case
    using FIELD_asm_gen [of env call venv addr rbp ty a espidx ix cf shift] by (simp add: evs_def)
next
  case (TEXPR_CALL ty mtd args)
  have ct: "call_typed env sg mtd (map expr_ty args) ty" using TEXPR_CALL.prems by simp
  show ?case unfolding expr_ty.simps
  proof (rule CALL_gen [OF nat ct])
    fix e i assume e: "e \<in> set args" and i: "\<And>l. l \<in> reads e shift \<Longrightarrow> l < i"
    have "safe_dest e shift i" using i by (rule safe_dest_fresh)
    then show "gen_ok env (op_effect call venv addr rbp) rbp (expr_ty e) i i (EXPR_asm e env i shift i)
        (evs env cf rbp shift e)"
      using TEXPR_CALL.IH [OF e] TEXPR_CALL.prems(1) e i by (simp add: list_all_iff)
  qed (use TEXPR_CALL.prems in auto)
next
  case (TEXPR_AND ty es)
  show ?case unfolding expr_ty.simps
  proof (rule shortcut_expr(1))
    fix e assume e: "e \<in> set es"
    have rd: "l < espidx" if "l \<in> reads e shift" for l using TEXPR_AND.prems(2) [of l] e that by auto
    then show "l < espidx" if "l \<in> reads e shift" for l using that .
    show "gen_ok env (op_effect call venv addr rbp) rbp (expr_ty e) a espidx
        (EXPR_asm e env a shift espidx) (evs env cf rbp shift e)"
      by (rule TEXPR_AND.IH [OF e _ rd]) (use TEXPR_AND.prems e in \<open>auto simp: list_all_iff\<close>)
    show "TY_isUnbox env (expr_ty e) \<and> isBool env (expr_ty e)" using TEXPR_AND.prems(1) e by simp
  qed (use TEXPR_AND.prems in simp_all)
next
  case (TEXPR_OR ty es)
  show ?case unfolding expr_ty.simps
  proof (rule shortcut_expr(2))
    fix e assume e: "e \<in> set es"
    have rd: "l < espidx" if "l \<in> reads e shift" for l using TEXPR_OR.prems(2) [of l] e that by auto
    then show "l < espidx" if "l \<in> reads e shift" for l using that .
    show "gen_ok env (op_effect call venv addr rbp) rbp (expr_ty e) a espidx
        (EXPR_asm e env a shift espidx) (evs env cf rbp shift e)"
      by (rule TEXPR_OR.IH [OF e _ rd]) (use TEXPR_OR.prems e in \<open>auto simp: list_all_iff\<close>)
    show "TY_isUnbox env (expr_ty e) \<and> isBool env (expr_ty e)" using TEXPR_OR.prems(1) e by simp
  qed (use TEXPR_OR.prems in simp_all)
qed simp_all

end
