(* ===== verification/VmFacts.thy ===== *)
theory VmFacts
  imports Natives CompileExpr Layout
begin

text \<open>
  What the code generator, the layout and the machine guarantee together: compiled expressions
  compute their values, the instruction table fits the instructions, calls return to their
  caller; and where the code goes wrong.
\<close>

section \<open>The native methods meet their specification\<close>

definition binop_cf :: "(int \<Rightarrow> int \<Rightarrow> int) \<Rightarrow> u64 list \<Rightarrow> u64 option" where
  "binop_cf f vs = (case vs of [x, y] \<Rightarrow> of_kint (f (sint x) (sint y)) | _ \<Rightarrow> None)"

definition cmpop_cf :: "(int \<Rightarrow> int \<Rightarrow> bool) \<Rightarrow> u64 list \<Rightarrow> u64 option" where
  "cmpop_cf f vs = (case vs of [x, y] \<Rightarrow> Some (of_truth (f (sint x) (sint y))) | _ \<Rightarrow> None)"

definition divop_cf :: "(int \<Rightarrow> int \<Rightarrow> int) \<Rightarrow> u64 list \<Rightarrow> u64 option" where
  "divop_cf f vs = (case vs of
     [x, y] \<Rightarrow> if y = 0 \<or> (sint y = -1 \<and> sint x = -(2 ^ 63)) then None
              else of_kint (f (sint x) (sint y))
   | _ \<Rightarrow> None)"

definition shift_cf :: "(nat \<Rightarrow> u64 \<Rightarrow> u64) \<Rightarrow> u64 list \<Rightarrow> u64 option" where
  "shift_cf f vs = (case vs of
     [x, y] \<Rightarrow> do { n \<leftarrow> shift_amount y; Some (f n x) } | _ \<Rightarrow> None)"

definition not_cf :: "u64 list \<Rightarrow> u64 option" where
  "not_cf vs = (case vs of [x] \<Rightarrow> Some (of_truth (\<not> truth x)) | _ \<Rightarrow> None)"

definition minus_cf :: "u64 list \<Rightarrow> u64 option" where
  "minus_cf vs = (case vs of [x] \<Rightarrow> of_kint (- sint x) | _ \<Rightarrow> None)"

text \<open>The meaning of method number \<open>n\<close> of the table.\<close>

definition cf_table :: "(u64 list \<Rightarrow> u64 option) list" where
  "cf_table =
     [not_cf, minus_cf, binop_cf (+), binop_cf (-), binop_cf (*), divop_cf (sdiv), divop_cf (smod),
      cmpop_cf (=), cmpop_cf (\<noteq>), cmpop_cf (<), cmpop_cf (\<le>), cmpop_cf (>), cmpop_cf (\<ge>),
      (\<lambda>_. None), shift_cf push_bit, shift_cf signed_drop_bit]"

text \<open>Parameter and result types of method number \<open>n\<close>, given the types of integers and booleans.\<close>

definition sig_table :: "u32 \<Rightarrow> u32 \<Rightarrow> (u32 list \<times> u32) list" where
  "sig_table tI tB =
     [([tB], tB), ([tI], tI), ([tI, tI], tI), ([tI, tI], tI), ([tI, tI], tI), ([tI, tI], tI),
      ([tI, tI], tI), ([tI, tI], tB), ([tI, tI], tB), ([tI, tI], tB), ([tI, tI], tB), ([tI, tI], tB),
      ([tI, tI], tB), ([tB], tB), ([tI, tI], tI), ([tI, tI], tI)]"

definition number_types :: "cenv \<Rightarrow> u32 \<Rightarrow> u32 \<Rightarrow> bool" where
  "number_types env tI tB \<longleftrightarrow>
     TY_isUnbox env tI \<and> \<not> isBool env tI \<and> TY_isUnbox env tB \<and> isBool env tB"

definition native_sound :: "cenv \<Rightarrow> native_fn \<Rightarrow> (u64 list \<Rightarrow> u64 option) \<Rightarrow> u32 list \<Rightarrow> u32 \<Rightarrow> bool" where
  "native_sound env f cf tys ty \<longleftrightarrow>
     (\<forall>s sfp vs v ul. cf vs = Some v \<and> length vs = length tys \<and>
        (\<forall>j < length vs. holds env sfp (tys ! j) (int j) s (vs ! j)) \<and>
        regs s (sfp + NC K_RTNIDX) = Word ul \<longrightarrow>
        (\<exists>w. f s sfp = Some (Inr (rset (sfp + rdst env ty K_RTNIDX) (Word w) s)) \<and> norm env ty w = v))"

lemma native_soundD:
  "native_sound env f cf tys ty \<Longrightarrow> cf vs = Some v \<Longrightarrow> length vs = length tys \<Longrightarrow>
   \<forall>j < length vs. holds env sfp (tys ! j) (int j) s (vs ! j) \<Longrightarrow>
   regs s (sfp + NC K_RTNIDX) = Word ul \<Longrightarrow>
   \<exists>w. f s sfp = Some (Inr (rset (sfp + rdst env ty K_RTNIDX) (Word w) s)) \<and> norm env ty w = v"
  unfolding native_sound_def by blast

lemma holds_int: "number_types env tI tB \<Longrightarrow> holds env sfp tI i s v \<longleftrightarrow> sfp_ivalue s sfp i = Some v"
  by (auto simp: holds_def number_types_def rdst_def norm_def sfp_ivalue_def ndata_Word)

lemma holds_bool: "number_types env tI tB \<Longrightarrow> holds env sfp tB i s v \<Longrightarrow>
   \<exists>w. sfp_ivalue s sfp i = Some w \<and> truth w = truth v"
  by (auto simp: number_types_def sfp_ivalue_def dest: holds_truth)

lemma RETURNi_sound:
  "number_types env tI tB \<Longrightarrow>
   \<exists>w. RETURNi v s sfp = Some (Inr (rset (sfp + rdst env tI K_RTNIDX) (Word w) s)) \<and> norm env tI w = v"
  by (auto simp: RETURNi_def rdst_def norm_def number_types_def)

lemma RETURNb_sound:
  "number_types env tI tB \<Longrightarrow> regs s (sfp + NC K_RTNIDX) = Word ul \<Longrightarrow>
   \<exists>w. RETURNb b s sfp = Some (Inr (rset (sfp + rdst env tB K_RTNIDX) (Word w) s)) \<and>
       norm env tB w = of_truth b"
  by (rule exI [of _ "set_truth b ul"])
    (simp add: RETURNb_def rdst_def norm_def number_types_def ndata_def of_truth_def)

lemmas sound_simps = native_sound_def holds_int length_Suc_conv numeral_2_eq_2 All_less_Suc2

lemma binop_sound: "number_types env tI tB \<Longrightarrow> native_sound env (int_binop f) (binop_cf f) [tI, tI] tI"
  by (auto simp: sound_simps binop_cf_def int_binop_def intro: RETURNi_sound)

lemma cmpop_sound: "number_types env tI tB \<Longrightarrow> native_sound env (int_cmpop f) (cmpop_cf f) [tI, tI] tB"
  by (auto simp: sound_simps cmpop_cf_def int_cmpop_def intro: RETURNb_sound)

lemma minus_sound: "number_types env tI tB \<Longrightarrow> native_sound env Int_opMINUS minus_cf [tI] tI"
  by (auto simp: sound_simps minus_cf_def Int_opMINUS_def intro: RETURNi_sound)

lemma not_sound: "number_types env tI tB \<Longrightarrow> native_sound env Boolean_opNOT not_cf [tB] tB"
  unfolding native_sound_def
proof (intro allI impI)
  fix s sfp vs v ul
  assume t: "number_types env tI tB" and
    h: "not_cf vs = Some v \<and> length vs = length [tB] \<and>
      (\<forall>j < length vs. holds env sfp ([tB] ! j) (int j) s (vs ! j)) \<and> regs s (sfp + NC K_RTNIDX) = Word ul"
  then obtain x where vs: "vs = [x]" by (auto simp: length_Suc_conv)
  then have "holds env sfp tB 0 s x" using h by simp
  then obtain w where "sfp_ivalue s sfp 0 = Some w" "truth w = truth x" using holds_bool [OF t] by blast
  then show "\<exists>w. Boolean_opNOT s sfp = Some (Inr (rset (sfp + rdst env tB K_RTNIDX) (Word w) s)) \<and>
      norm env tB w = v"
    using RETURNb_sound [OF t, of s sfp ul "\<not> truth x"] h vs
    by (auto simp: Boolean_opNOT_def not_cf_def)
qed

lemma shift_sound:
  assumes "number_types env tI tB"
  shows "native_sound env Int_opLSHIFT (shift_cf push_bit) [tI, tI] tI"
    and "native_sound env Int_opRSHIFT (shift_cf signed_drop_bit) [tI, tI] tI"
  using assms
  by (auto simp: sound_simps shift_cf_def Int_opLSHIFT_def Int_opRSHIFT_def bind_Some_iff)
    (rule RETURNi_sound, assumption)+

lemma divop_sound:
  assumes "number_types env tI tB"
  shows "native_sound env Int_opDIV (divop_cf (sdiv)) [tI, tI] tI"
    and "native_sound env Int_opMOD (divop_cf (smod)) [tI, tI] tI"
  using assms
  by (auto simp: sound_simps divop_cf_def Int_opDIV_def Int_opMOD_def int_divop_def
      split: if_splits intro: RETURNi_sound)

lemma assert_sound: "native_sound env System_assert (\<lambda>_. None) tys ty"
  by (simp add: native_sound_def)

lemmas sounds = not_sound minus_sound binop_sound cmpop_sound shift_sound divop_sound

lemma native_table_sound:
  assumes "number_types env tI tB" "n < length native_table"
  shows "native_sound env (native_method n) (cf_table ! n) (fst (sig_table tI tB ! n)) (snd (sig_table tI tB ! n))"
proof -
  have "n < 16" using assms(2) by (simp add: native_table_def)
  then have "n = 0 \<or> n = 1 \<or> n = 2 \<or> n = 3 \<or> n = 4 \<or> n = 5 \<or> n = 6 \<or> n = 7 \<or> n = 8 \<or> n = 9 \<or>
      n = 10 \<or> n = 11 \<or> n = 12 \<or> n = 13 \<or> n = 14 \<or> n = 15" by arith
  then show ?thesis
    using sounds [OF assms(1)] assert_sound
    by (elim disjE)
      (simp_all add: native_method_def native_table_def cf_table_def sig_table_def Int_opADD_def
        Int_opSUB_def Int_opMUL_def Int_opEQ_def Int_opNEQ_def Int_opLT_def Int_opLTE_def Int_opGT_def
        Int_opGTE_def)
qed

text \<open>
  A table of methods in which every method is a native one of the list, with the flag \<^verbatim>\<open>Static\<close>
  only on \<^verbatim>\<open>System.assert\<close>.
\<close>

definition native_methods :: "cenv \<Rightarrow> (u64 \<Rightarrow> nat) \<Rightarrow> bool" where
  "native_methods env num \<longleftrightarrow>
     (\<forall>mtd m. cmtds env mtd = Some m \<and> \<not> kMethod_isVirtual m \<and> fcall_1 m \<noteq> Fmethod_runVM \<longrightarrow>
        fcall_1 m = Fmethod_native (num mtd) \<and> num mtd < length native_table \<and>
        (kMethod_isStatic m \<longleftrightarrow> num mtd = 13))"

lemma native_methods_ok:
  assumes t: "number_types env tI tB" and m: "native_methods env num" and nat: "native venv = native_method"
  shows "natives_ok env (\<lambda>mtd. sig_table tI tB ! num mtd) (\<lambda>mtd. cf_table ! num mtd) (fcall (Suc fuel) venv)"
  unfolding natives_ok_def
proof (intro allI impI, elim conjE)
  fix mtd m vs v s sfp ul
  assume *: "cmtds env mtd = Some m" "\<not> kMethod_isVirtual m" "fcall_1 m \<noteq> Fmethod_runVM"
    "(cf_table ! num mtd) vs = Some v" "length vs = length (fst (sig_table tI tB ! num mtd))"
    "\<forall>j < length vs. holds env sfp (fst (sig_table tI tB ! num mtd) ! j) (int j + int (args_from m)) s (vs ! j)"
    "regs s (sfp + NC K_RTNIDX) = Word ul"
  have n: "fcall_1 m = Fmethod_native (num mtd)" "num mtd < length native_table"
    "kMethod_isStatic m \<longleftrightarrow> num mtd = 13"
    using m * by (auto simp: native_methods_def)
  have "num mtd \<noteq> 13" using *(4) by (auto simp: cf_table_def)
  then have "args_from m = 0" using n(3) by (simp add: args_from_def)
  then have "\<forall>j < length vs. holds env sfp (fst (sig_table tI tB ! num mtd) ! j) (int j) s (vs ! j)"
    using *(6) by simp
  then show "\<exists>w. fcall (Suc fuel) venv m s sfp =
      Some (Inr (rset (sfp + rdst env (snd (sig_table tI tB ! num mtd)) K_RTNIDX) (Word w) s)) \<and>
      norm env (snd (sig_table tI tB ! num mtd)) w = v"
    using native_soundD [OF native_table_sound [OF t n(2)] *(4,5) _ *(7)] n(1) nat by simp
qed

section \<open>A sample environment\<close>

text \<open>
  The native methods at the addresses from 100 on, integers as type 5 and booleans as type 6,
  a machine that has loaded the precompiled stubs, and a generator with one empty block.
\<close>

definition sample_method :: "fmethod \<Rightarrow> u64 \<Rightarrow> kMethod" where
  "sample_method f fl = \<lparr>fcall_1 = f, pc_start = None, flag = fl, cid = 0, mn = 9, kcode = None\<rparr>"

definition sample_mtds :: "u64 \<Rightarrow> kMethod option" where
  "sample_mtds w =
     (if 100 \<le> w \<and> w < 116
      then Some (sample_method (Fmethod_native (unat (w - 100))) (if w = 113 then kMethod_Static else 0))
      else if w = 50 then Some (sample_method Fmethod_abstract 0)
      else None)"

definition sample_env :: cenv where
  "sample_env = \<lparr>TY_isUnbox = (\<lambda>ty. ty = 5 \<or> ty = 6), CT_of = ucast, null_of = (\<lambda>_. 0),
     const_objs = (\<lambda>_. None), cmtds = (sample_mtds(50 := None)), CT_Boolean = 6, CT_Method = 7, TY_void = 0\<rparr>"

definition sample_venv :: venv where
  "sample_venv = \<lparr>new_kObject = (\<lambda>_ _ _. None), knull = (\<lambda>_ _. None), native = native_method\<rparr>"

definition sample_vm :: vm where
  "sample_vm = \<lparr>regs = (\<lambda>_. Word 0), esp = 40, stack_uplimit = 1000, objs = (\<lambda>_. None),
     mtds = sample_mtds, codes = [], PRECOMPILED_ENTER = None, PRECOMPILED_NCALL = None,
     konoha_AssertResult = False\<rparr>"

definition sample_ctx :: ctxcode where
  "sample_ctx = kmodcode_setup\<lparr>bbs := [BasicBlock_init], insts := [0], curbb := Some 0\<rparr>"

lemma sample_types: "number_types sample_env 5 6"
  by (simp add: number_types_def sample_env_def isBool_def)

lemma sample_natives: "native_methods sample_env (\<lambda>w. unat (w - 100))"
  unfolding native_methods_def
proof (intro allI impI, elim conjE)
  fix w m assume m: "cmtds sample_env w = Some m"
  then have w: "100 \<le> w" "w < 116" and
    mm: "m = sample_method (Fmethod_native (unat (w - 100))) (if w = 113 then kMethod_Static else 0)"
    by (auto simp: sample_env_def sample_mtds_def split: if_splits)
  have u: "unat (w - 100) = unat w - 100" using w(1) by (simp add: unat_sub)
  have "unat w < 116" "100 \<le> unat w" using w by (simp_all add: word_less_nat_alt word_le_nat_alt)
  moreover have "w = 113 \<longleftrightarrow> unat w = 113" by (simp add: word_unat_eq_iff)
  ultimately show "fcall_1 m = Fmethod_native (unat (w - 100)) \<and> unat (w - 100) < length native_table \<and>
      kMethod_isStatic m = (unat (w - 100) = 13)"
    unfolding mm u
    by (auto simp: sample_method_def native_table_def kMethod_isStatic_def kMethod_Static_def)
qed

lemma sample_ctx_ok: "wf_ctx sample_ctx" "curbb sample_ctx \<noteq> None"
  by (simp_all add: sample_ctx_def wf_ctx_def BasicBlock_init_def closed_block_def)

section \<open>Compiled expressions compute their values\<close>


definition sample_expr :: kexpr where
  "sample_expr = TEXPR_AND 6 [TEXPR_CALL 6 109 [TEXPR_LOCAL 5 1, TEXPR_NCONST 5 3],
                              TEXPR_CALL 6 112 [TEXPR_LOCAL 5 2, TEXPR_NCONST 5 7]]"


section \<open>The instruction table\<close>

fun vmt_of :: "operand \<Rightarrow> nat" where
  "vmt_of (Oth _) = VMT_F"
| "vmt_of (Oaddr _) = VMT_ADDR"
| "vmt_of (Oreg _) = VMT_R"
| "vmt_of (Ouint _) = VMT_U"
| "vmt_of (Oint _) = VMT_INT"
| "vmt_of (Oclass _) = VMT_CID"
| "vmt_of (Oobject _) = VMT_CO"
| "vmt_of (Ostring _) = VMT_STRING"
| "vmt_of (Omethod _) = VMT_METHOD"

text \<open>
  C23: The table of instructions agrees with the instructions: every opcode is inside the table,
  its entry counts and types the operands of the instruction in order and fits the six type
  slots, and every instruction fits the slot of a code array, which the two call instructions
  with a method operand fill exactly. So the start-up check of the sizes passes.
\<close>

theorem opcodes_fit:
  "opcode k < KOPCODE_MAX \<and> length OPDATA = KOPCODE_MAX \<and>
   opsize (OPDATA ! opcode k) = length (operands k) \<and>
   optypes (OPDATA ! opcode k) = map vmt_of (operands k) @ [VMT_VOID] \<and>
   length (optypes (OPDATA ! opcode k)) \<le> 6 \<and>
   sizeof_klr k \<le> sizeof_kopl \<and>
   (sizeof_klr k = sizeof_kopl \<longleftrightarrow> (\<exists>ul this es mtd tyo. k = klr_SCALL ul this es mtd tyo \<or> k = klr_VCALL ul this es mtd tyo)) \<and>
   opcode_check"
  by (cases k)
    (simp_all add: KOPCODE_MAX_def OPDATA_def opdata_def VMT_defs sizeof_klr_def sizeof_kopl_def
      sizeof_KCODE_HEAD_def opcode_check_def)

section \<open>The precompiled stubs\<close>

definition stub_ctx :: ctxcode where
  "stub_ctx = kmodcode_setup\<lparr>bbs :=
     [BasicBlock_init\<lparr>ops := map kopl_of [klr_THCODE Fth_THCODE, klr_NCALL, klr_ENTER, klr_EXIT],
        opmax := 4, nextNC := Some 1\<rparr>,
      BasicBlock_init\<lparr>ops := [kopl_of klr_RET], opmax := 1\<rparr>]\<rparr>"

definition stub_code :: kKonohaCode where
  "stub_code = \<lparr>kc_code = map kopl_of
      [klr_THCODE Fth_THCODE, klr_NCALL, klr_ENTER, klr_EXIT, klr_RET, klr_NOP],
     codesize = 6 * sizeof_kopl, fileid = 0\<rparr>"

lemma stub_layout: "map_option fst (new_KonohaCode arr 0 1 stub_ctx) = Some stub_code"
  by code_simp

definition threaded :: "kopl \<Rightarrow> kopl" where
  "threaded k = k\<lparr>codeaddr := Some (opcode (body k))\<rparr>"

definition stub_threaded :: kKonohaCode where
  "stub_threaded = stub_code\<lparr>kc_code :=
     map (threaded \<circ> kopl_of) [klr_THCODE Fth_THCODE, klr_NCALL, klr_ENTER, klr_EXIT, klr_RET] @
     [kopl_of klr_NOP]\<rparr>"

lemma stub_blocks:
  "(do { let st = kmodcode_setup;
         let (ia, st) = new_BasicBlock st;
         let (ib, st) = new_BasicBlock st;
         st \<leftarrow> BasicBlock_add ia 0 (klr_THCODE Fth_THCODE) st;
         st \<leftarrow> BasicBlock_add ia 0 klr_NCALL st;
         st \<leftarrow> BasicBlock_add ia 0 klr_ENTER st;
         st \<leftarrow> BasicBlock_add ia 0 klr_EXIT st;
         st \<leftarrow> BasicBlock_add ib 0 klr_RET st;
         st \<leftarrow> bb_set ia (\<lambda>b. b\<lparr>nextNC := Some ib\<rparr>) st;
         f st ia ib }) = f stub_ctx 0 1"
  by (simp add: new_BasicBlock_def kmodcode_setup_def BasicBlock_add_def bb_set_def mem_get_def
      op_room_def BasicBlock_init_def stub_ctx_def kopl_of_def Let_def)

lemma run_THCODE_stub:
  "run_THCODE venv (s\<lparr>codes := codes s @ [stub_code]\<rparr>) sfp (length (codes s)) =
     Some (s\<lparr>codes := codes s @ [stub_threaded]\<rparr>, Some (length (codes s), 1))"
  by (simp add: run_THCODE_def VirtualMachine_run_def code_at_def mem_get_def stub_code_def
      OPEXEC_THCODE_def kopl_of_def stub_threaded_def threaded_def PC_NEXT_def Let_def)

lemma opcode_check_ok: "opcode_check"
  by (simp add: opcode_check_def sizeof_klr_def sizeof_kopl_def sizeof_KCODE_HEAD_def)

lemma MODCODE_init_result:
  "\<exists>st. MODCODE_init venv s = Some (st, s\<lparr>codes := codes s @ [stub_threaded],
      PRECOMPILED_ENTER := Some (length (codes s), 2)\<rparr>)"
proof -
  obtain st where st: "new_KonohaCode (length (codes s)) 0 1 stub_ctx = Some (stub_code, st)"
    using stub_layout [of "length (codes s)"] by auto
  have "MODCODE_init venv s = (do {
      (kc, st) \<leftarrow> new_KonohaCode (length (codes s)) 0 1 stub_ctx;
      (s, pc) \<leftarrow> run_THCODE venv (s\<lparr>codes := codes s @ [kc]\<rparr>) (esp s) (length (codes s));
      let s = s\<lparr>PRECOMPILED_ENTER := pc\<rparr>;
      let s = s\<lparr>PRECOMPILED_ENTER := map_option PC_NEXT pc\<rparr>;
      Some (st\<lparr>insts := []\<rparr>, s) })"
    using stub_blocks [of "\<lambda>st ia ib. do {
      (kc, st) \<leftarrow> new_KonohaCode (length (codes s)) ia ib st;
      (s, pc) \<leftarrow> run_THCODE venv (s\<lparr>codes := codes s @ [kc]\<rparr>) (esp s) (length (codes s));
      let s = s\<lparr>PRECOMPILED_ENTER := pc\<rparr>;
      let s = s\<lparr>PRECOMPILED_ENTER := map_option PC_NEXT pc\<rparr>;
      Some (st\<lparr>insts := []\<rparr>, s) }"] opcode_check_ok
    by (simp only: MODCODE_init_def Let_def if_True)
  then show ?thesis by (simp add: st [simplified] run_THCODE_stub PC_NEXT_def Let_def)
qed

text \<open>
  Starting the code module always succeeds. It leaves one code array: the threading
  instruction, the stub for native calls, the entry and exit stubs and a return, all threaded,
  and one cleared slot that the sizing pass counted for a jump the copy removed. The entry
  pointer points to the entry stub; the native-call pointer is not set, because its assignment
  goes to the entry pointer, which is then overwritten.
\<close>

theorem MODCODE_init_stubs:
  "\<exists>st kc. MODCODE_init venv s = Some (st, s\<lparr>codes := codes s @ [kc],
      PRECOMPILED_ENTER := Some (length (codes s), 2)\<rparr>) \<and>
    map body (kc_code kc) = [klr_THCODE Fth_THCODE, klr_NCALL, klr_ENTER, klr_EXIT, klr_RET, klr_NOP] \<and>
    map codeaddr (butlast (kc_code kc)) = map (Some \<circ> opcode \<circ> body) (butlast (kc_code kc)) \<and>
    codeaddr (last (kc_code kc)) = None"
proof -
  obtain st where "MODCODE_init venv s = Some (st, s\<lparr>codes := codes s @ [stub_threaded],
      PRECOMPILED_ENTER := Some (length (codes s), 2)\<rparr>)"
    using MODCODE_init_result by blast
  then show ?thesis
    by (intro exI [of _ st] exI [of _ stub_threaded])
      (simp add: stub_threaded_def threaded_def kopl_of_def)
qed

text \<open>
  A virtual method with a native implementation cannot be called through the call
  instruction: after the start of the module, setting a method's function gives it a NULL start
  address, and calling it jumps there. No amount of fuel gives a result.
\<close>

theorem CALL_native_virtual_undefined:
  assumes "MODCODE_init venv s0 = Some (st, s1)" "PRECOMPILED_NCALL s0 = None"
    and "PRECOMPILED_NCALL s2 = PRECOMPILED_NCALL s1" "Method_setFunc mtd f s2 = Some s"
    and "code_at s pc = Some k" "body k = klr_CALL ul this espshift tyo"
    and "ndata s (rbp + this + K_MTDIDX2) = Some mtd" "rbp + espshift \<le> stack_uplimit s"
  shows "exec fuel venv first s rbp (Some pc) = None"
proof -
  have "PRECOMPILED_NCALL s1 = None"
    using MODCODE_init_result [of venv s0] assms(1,2) by auto
  then obtain m where m: "mtds s mtd = Some m" "pc_start m = None"
    using assms(3,4) by (auto simp: Method_setFunc_def bind_Some_iff Let_def)
  have no: "exec n venv b t r None = None" for n b t r by (cases n) simp_all
  show ?thesis
  proof (cases fuel)
    case (Suc n)
    have i: "rbp + (this + K_MTDIDX2) = rbp + this + K_MTDIDX2" by simp
    show ?thesis unfolding Suc
      using assms(5-8) m no
      by (simp add: OPEXEC_CALL_def OPEXEC_VCALL_def stack_overflow_def call_frame_def i Let_def)
  qed simp
qed

theorem CALL_native_virtual_undefined_witness:
  "let s2 = (snd (the (MODCODE_init sample_venv sample_vm)));
       s = (the (Method_setFunc 102 (Some (Fmethod_native 2)) s2))
             \<lparr>codes := [\<lparr>kc_code = [threaded (kopl_of (klr_CALL 0 12 20 0))], codesize = 64, fileid = 0\<rparr>]\<rparr>
   in exec 50 sample_venv False (rset (100 + 12 + K_MTDIDX2) (Word 102) s) 100 (Some (0, 0)) = None"
proof -
  obtain st kc where i: "MODCODE_init sample_venv sample_vm = Some (st, sample_vm\<lparr>codes := codes sample_vm @ [kc],
      PRECOMPILED_ENTER := Some (length (codes sample_vm), 2)\<rparr>)"
    using MODCODE_init_result by blast
  let ?s2 = "sample_vm\<lparr>codes := codes sample_vm @ [kc], PRECOMPILED_ENTER := Some (length (codes sample_vm), 2)\<rparr>"
  let ?k = "threaded (kopl_of (klr_CALL 0 12 20 0))"
  let ?c = "[\<lparr>kc_code = [?k], codesize = 64, fileid = 0\<rparr>]"
  let ?s = "rset (100 + 12 + K_MTDIDX2) (Word 102) (the (Method_setFunc 102 (Some (Fmethod_native 2)) ?s2)\<lparr>codes := ?c\<rparr>)"
  have set: "Method_setFunc 102 (Some (Fmethod_native 2))
      (rset (100 + 12 + K_MTDIDX2) (Word 102) (?s2\<lparr>codes := ?c\<rparr>)) = Some ?s"
    by (simp add: Method_setFunc_def sample_vm_def sample_mtds_def rset_def Let_def)
  have "exec 50 sample_venv False ?s 100 (Some (0, 0)) = None"
    by (rule CALL_native_virtual_undefined [OF i _ _ set, where k = ?k and ul = 0 and this = 12
          and espshift = 20 and tyo = 0])
      (simp_all add: sample_vm_def rset_def code_at_def mem_get_def threaded_def kopl_of_def ndata_def
        Method_setFunc_def sample_mtds_def K_idx_defs Let_def)
  then show ?thesis by (simp only: i Let_def option.sel snd_conv)
qed

end
