(* ===== verification/Strings.thy ===== *)
theory Strings
  imports Karray Symbols
begin

text \<open>
  String objects: their representation and construction in \<^verbatim>\<open>src/konoha/datatype.h\<close>, the string
  methods of \<^verbatim>\<open>src/konoha/methods.h\<close> and of the package
  \<^verbatim>\<open>package/konoha.string/string_glue.h\<close>, and the UTF-8 helpers of
  \<^verbatim>\<open>include/konoha2/klib.h\<close>.

  A method takes the objects of its frame and gives the object or number it returns. A raised
  script error is \<open>Inl\<close>; an access outside a text's memory, and a loop that never ends, is \<open>None\<close>.
\<close>

section \<open>String objects\<close>

text \<open>
  What the text pointer of a string points to: its own inline array, memory of the caller, a
  block of the allocator, or nothing. In a rope the word holds the first of two children instead.
\<close>

datatype strtext =
    Text_inline
  | Text_static bytes
  | Text_malloc bytes
  | Text_null
  | Children nat nat

record kString =
  magicflag :: u64
  ssize :: nat
  stext :: strtext
  inline_text :: bytes

definition kObject_NullObject :: u64 where "kObject_NullObject = 1"
definition kObject_Local4 :: u64 where "kObject_Local4 = push_bit 12 1"
definition kObject_Local3 :: u64 where "kObject_Local3 = push_bit 13 1"
definition kObject_Local2 :: u64 where "kObject_Local2 = push_bit 14 1"
definition kObject_Local1 :: u64 where "kObject_Local1 = push_bit 15 1"

definition TFLAG_is :: "'w::len word \<Rightarrow> 'w word \<Rightarrow> bool" where
  "TFLAG_is f op \<longleftrightarrow> and f op = op"

definition TFLAG_set :: "'w::len word \<Rightarrow> 'w word \<Rightarrow> bool \<Rightarrow> 'w word" where
  "TFLAG_set f op b = (if b then or f op else and f (not op))"

definition S_setTextSgm :: "bool \<Rightarrow> kString \<Rightarrow> kString" where
  "S_setTextSgm b s = s\<lparr>magicflag := TFLAG_set (magicflag s) kObject_Local2 b\<rparr>"

definition S_isMallocText :: "kString \<Rightarrow> bool" where
  "S_isMallocText s = TFLAG_is (magicflag s) kObject_Local3"

definition S_setMallocText :: "bool \<Rightarrow> kString \<Rightarrow> kString" where
  "S_setMallocText b s = s\<lparr>magicflag := TFLAG_set (magicflag s) kObject_Local3 b\<rparr>"

definition S_isASCII :: "kString \<Rightarrow> bool" where
  "S_isASCII s = TFLAG_is (magicflag s) kObject_Local4"

definition S_setASCII :: "bool \<Rightarrow> kString \<Rightarrow> kString" where
  "S_setASCII b s = s\<lparr>magicflag := TFLAG_set (magicflag s) kObject_Local4 b\<rparr>"

definition IS_NOTNULL :: "kString \<Rightarrow> bool" where
  "IS_NOTNULL s \<longleftrightarrow> and (magicflag s) kObject_NullObject \<noteq> kObject_NullObject"

definition SIZEOF_INLINETEXT :: nat where
  "SIZEOF_INLINETEXT = 8 * 8 - 48"

definition SPOL_TEXT :: u32 where "SPOL_TEXT = 1"
definition SPOL_ASCII :: u32 where "SPOL_ASCII = 2"
definition SPOL_UTF8 :: u32 where "SPOL_UTF8 = 4"
definition SPOL_POOL :: u32 where "SPOL_POOL = 8"
definition SPOL_NOCOPY :: u32 where "SPOL_NOCOPY = 16"

text \<open>The memory from the text pointer to the end of its block.\<close>

fun text_mem :: "kString \<Rightarrow> bytes option" where
  "text_mem s = (case stext s of
     Text_inline \<Rightarrow> Some (inline_text s)
   | Text_static m \<Rightarrow> Some m
   | Text_malloc m \<Rightarrow> Some m
   | Text_null \<Rightarrow> None
   | Children _ _ \<Rightarrow> None)"

text \<open>Stores through the text pointer; a text of the caller is not written.\<close>

definition text_store :: "bytes \<Rightarrow> kString \<Rightarrow> kString option" where
  "text_store m s = (case stext s of
     Text_inline \<Rightarrow> Some (s\<lparr>inline_text := m\<rparr>)
   | Text_malloc _ \<Rightarrow> Some (s\<lparr>stext := Text_malloc m\<rparr>)
   | _ \<Rightarrow> None)"

definition String_init :: "kString \<Rightarrow> kString" where
  "String_init s = S_setTextSgm True (s\<lparr>stext := Text_static [0], ssize := 0\<rparr>)"

text \<open>
  A new object of class String. The memory of the object behind its header, and of a block of
  \<^verbatim>\<open>KMALLOC\<close>, holds unknown bytes, given by \<open>junk\<close>.
\<close>

definition new_StringObject :: "(nat \<Rightarrow> byte) \<Rightarrow> kString" where
  "new_StringObject junk = String_init
     \<lparr>magicflag = 0, ssize = 0, stext = Text_null, inline_text = map junk [0..<SIZEOF_INLINETEXT]\<rparr>"

text \<open>
  Freeing a text: only a block of the allocator may be freed, with the size it was allocated
  with. The result says how many bytes went back.
\<close>

definition KFREE_text :: "strtext \<Rightarrow> nat \<Rightarrow> nat option" where
  "KFREE_text t sz = (case t of Text_malloc m \<Rightarrow> if length m = sz then Some sz else None | _ \<Rightarrow> None)"

definition String_free :: "kString \<Rightarrow> nat option" where
  "String_free s = (if S_isMallocText s then KFREE_text (stext s) (ssize s + 1) else Some 0)"

definition String_unbox :: "kString \<Rightarrow> bytes option" where
  "String_unbox s = text_mem s"

text \<open>What \<^verbatim>\<open>String_p\<close> prints: the text up to its terminator, in quotes at a deeper level.\<close>

definition String_p :: "kString \<Rightarrow> nat \<Rightarrow> byte karray \<Rightarrow> byte karray option" where
  "String_p s level wb = do {
     m \<leftarrow> String_unbox s;
     t \<leftarrow> cstring m;
     if level = 0 then Kwb_printf wb t
     else Kwb_printf wb (lit ''\"'' @ t @ lit ''\"'')
   }"

section \<open>The ASCII flag\<close>

text \<open>
  Duff's device: the first round reads the rest of the division by four, or four bytes when the
  rest is zero, and each further round reads four. The first round is run before the count is
  tested.
\<close>

primrec or_bytes :: "bytes \<Rightarrow> nat \<Rightarrow> byte \<times> nat \<Rightarrow> (byte \<times> nat) option" where
  "or_bytes m 0 r = Some r"
| "or_bytes m (Suc k) r = do { c \<leftarrow> mem_get m (snd r); or_bytes m k (or (fst r) c, snd r + 1) }"

primrec or_rounds :: "bytes \<Rightarrow> nat \<Rightarrow> byte \<times> nat \<Rightarrow> (byte \<times> nat) option" where
  "or_rounds m 0 r = Some r"
| "or_rounds m (Suc n) r = do { r \<leftarrow> or_bytes m 4 r; or_rounds m n r }"

definition String_checkASCII :: "kString \<Rightarrow> kString option" where
  "String_checkASCII s = do {
     let len = ssize s;
     let n = (len + 3) div 4;
     m \<leftarrow> String_unbox s;
     r \<leftarrow> or_bytes m (if len mod 4 = 0 then 4 else len mod 4) (0, 0);
     (ch, _) \<leftarrow> or_rounds m (n - 1) r;
     Some (S_setASCII (unat ch < 128) s)
   }"

section \<open>New strings\<close>

text \<open>Copying a text and its terminator to the memory of a new string.\<close>

definition fill_text :: "bytes \<Rightarrow> bytes option \<Rightarrow> nat \<Rightarrow> u32 \<Rightarrow> bytes option" where
  "fill_text buf t len spol = do {
     buf \<leftarrow> (case t of
               None \<Rightarrow> Some buf
             | Some m \<Rightarrow>
                 if TFLAG_is spol SPOL_NOCOPY then None
                 else do { d \<leftarrow> mem_read m 0 len; mem_write buf 0 d });
     mem_put buf len 0
   }"

definition new_String :: "(nat \<Rightarrow> byte) \<Rightarrow> bytes option \<Rightarrow> nat \<Rightarrow> u32 \<Rightarrow> kString option" where
  "new_String junk t len spol = do {
     s \<leftarrow> (if TFLAG_is spol SPOL_TEXT then
             let s = new_StringObject junk
             in Some (S_setTextSgm True
                  (s\<lparr>stext := (case t of None \<Rightarrow> Text_null | Some m \<Rightarrow> Text_static m), ssize := len\<rparr>))
           else if len + 1 < 8 * 2 then do {
             let s = new_StringObject junk;
             let s = S_setTextSgm True (s\<lparr>stext := Text_inline, ssize := len\<rparr>);
             buf \<leftarrow> fill_text (inline_text s) t len spol;
             Some (s\<lparr>inline_text := buf\<rparr>)
           }
           else do {
             let s = new_StringObject junk;
             let s = S_setMallocText True (S_setTextSgm False (s\<lparr>ssize := len\<rparr>));
             buf \<leftarrow> fill_text (map junk [0..<len + 1]) t len spol;
             Some (s\<lparr>stext := Text_malloc buf\<rparr>)
           });
     if TFLAG_is spol SPOL_ASCII then Some (S_setASCII True s)
     else if TFLAG_is spol SPOL_UTF8 then Some (S_setASCII False s)
     else String_checkASCII s
   }"

section \<open>The C library on texts\<close>

text \<open>\<^verbatim>\<open>strncmp\<close> reads both texts up to a difference, a terminator or the count.\<close>

fun strncmp_mem :: "bytes \<Rightarrow> bytes \<Rightarrow> nat \<Rightarrow> int option" where
  "strncmp_mem s t 0 = Some 0"
| "strncmp_mem (a # s) (b # t) (Suc n) =
     (if a \<noteq> b then Some (uint a - uint b) else if a = 0 then Some 0 else strncmp_mem s t n)"
| "strncmp_mem _ _ (Suc n) = None"

definition strstr :: "bytes \<Rightarrow> bytes \<Rightarrow> nat option option" where
  "strstr h n = do {
     h \<leftarrow> cstring h;
     n \<leftarrow> cstring n;
     Some (List.find (\<lambda>i. take (length n) (drop i h) = n) [0..<length h + 1])
   }"

text \<open>\<^verbatim>\<open>isspace\<close> of the C locale; a byte of a multibyte character is not a space.\<close>

definition isspace :: "byte \<Rightarrow> bool" where
  "isspace c \<longleftrightarrow> c = 32 \<or> (9 \<le> c \<and> c \<le> 13)"

definition isdigit :: "byte \<Rightarrow> bool" where
  "isdigit c \<longleftrightarrow> chr CHR ''0'' \<le> c \<and> c \<le> chr CHR ''9''"

text \<open>\<^verbatim>\<open>strtoll(s, NULL, 10)\<close>: spaces, a sign, digits; a number out of range saturates.\<close>

definition digits_value :: "bytes \<Rightarrow> int" where
  "digits_value ds = foldl (\<lambda>v c. 10 * v + (uint c - 48)) 0 ds"

definition KINT_MAX :: int where "KINT_MAX = 2 ^ 63 - 1"
definition KINT_MIN :: int where "KINT_MIN = - (2 ^ 63)"

definition strtoll :: "bytes \<Rightarrow> int" where
  "strtoll t = (let t = dropWhile isspace t;
                    neg = (t \<noteq> [] \<and> hd t = chr CHR ''-'');
                    t = (if t \<noteq> [] \<and> (hd t = chr CHR ''-'' \<or> hd t = chr CHR ''+'') then tl t else t);
                    v = digits_value (takeWhile isdigit t);
                    v = (if neg then - v else v)
                in max KINT_MIN (min KINT_MAX v))"

section \<open>Methods of the core\<close>

text \<open>\<^verbatim>\<open>%ld\<close> into a buffer of 40 bytes, which no number fills.\<close>

definition Int_toString :: "(nat \<Rightarrow> byte) \<Rightarrow> int \<Rightarrow> kString option" where
  "Int_toString junk n = do {
     let buf = snprintf 40 (if n < 0 then chr CHR ''-'' # dec (nat (- n)) else dec (nat n)) @ [0];
     t \<leftarrow> cstring buf;
     new_String junk (Some buf) (length t) SPOL_ASCII
   }"

definition String_toInt :: "kString \<Rightarrow> int option" where
  "String_toInt s = do { m \<leftarrow> String_unbox s; t \<leftarrow> cstring m; Some (strtoll t) }"

definition String_opADD :: "(nat \<Rightarrow> byte) \<Rightarrow> kString \<Rightarrow> kString \<Rightarrow> kString option" where
  "String_opADD junk lhs rhs = do {
     let spol = (if S_isASCII lhs \<and> S_isASCII rhs then SPOL_ASCII else SPOL_UTF8);
     s \<leftarrow> new_String junk None (ssize lhs + ssize rhs) (or spol SPOL_NOCOPY);
     buf \<leftarrow> text_mem s;
     l \<leftarrow> String_unbox lhs;
     l \<leftarrow> mem_read l 0 (ssize lhs);
     buf \<leftarrow> mem_write buf 0 l;
     r \<leftarrow> String_unbox rhs;
     r \<leftarrow> mem_read r 0 (ssize rhs);
     buf \<leftarrow> mem_write buf (ssize lhs) r;
     text_store buf s
   }"

definition String_opEQ :: "kString \<Rightarrow> kString \<Rightarrow> bool option" where
  "String_opEQ s0 s1 =
     (if ssize s0 = ssize s1 then do {
        t0 \<leftarrow> String_unbox s0;
        t1 \<leftarrow> String_unbox s1;
        r \<leftarrow> strncmp_mem t0 t1 (ssize s0);
        Some (r = 0)
      } else Some False)"

definition String_opNEQ :: "kString \<Rightarrow> kString \<Rightarrow> bool option" where
  "String_opNEQ s0 s1 =
     (if ssize s0 = ssize s1 then do {
        t0 \<leftarrow> String_unbox s0;
        t1 \<leftarrow> String_unbox s1;
        r \<leftarrow> strncmp_mem t0 t1 (ssize s0);
        Some (r \<noteq> 0)
      } else Some True)"

section \<open>Well-formed strings\<close>

text \<open>
  The text of a string lies in its memory with a terminator behind it, the ASCII flag is never
  wrongly set, and the flag of an allocated text says what \<^verbatim>\<open>String_free\<close> relies on.
\<close>

definition is_ascii :: "bytes \<Rightarrow> bool" where
  "is_ascii t \<longleftrightarrow> (\<forall>c \<in> set t. unat c < 128)"

definition text_of :: "kString \<Rightarrow> bytes" where
  "text_of s = (case text_mem s of None \<Rightarrow> [] | Some m \<Rightarrow> take (ssize s) m)"

definition str_ok :: "kString \<Rightarrow> bool" where
  "str_ok s \<longleftrightarrow> (case text_mem s of None \<Rightarrow> False
     | Some m \<Rightarrow> ssize s < length m \<and> m ! ssize s = 0 \<and> (S_isASCII s \<longrightarrow> is_ascii (take (ssize s) m)))
     \<and> (S_isMallocText s \<longrightarrow> (case stext s of Text_malloc m \<Rightarrow> length m = ssize s + 1 | _ \<Rightarrow> False))"

lemma str_okD:
  assumes "str_ok s"
  obtains m where "text_mem s = Some m" "ssize s < length m" "m ! ssize s = 0"
    "text_of s = take (ssize s) m" "length (text_of s) = ssize s"
  using assms by (auto simp: str_ok_def text_of_def simp del: text_mem.simps split: option.splits)

lemma str_ok_ascii: "str_ok s \<Longrightarrow> S_isASCII s \<Longrightarrow> is_ascii (text_of s)"
  by (auto simp: str_ok_def text_of_def simp del: text_mem.simps split: option.splits)

text \<open>The flags do not disturb one another.\<close>

lemmas local_defs = kObject_Local1_def kObject_Local2_def kObject_Local3_def kObject_Local4_def

lemma TFLAG_is_bit: "n < LENGTH('w) \<Longrightarrow> TFLAG_is (f :: 'w::len word) (push_bit n 1) \<longleftrightarrow> bit f n"
  by (auto simp: TFLAG_is_def bit_eq_iff [where 'a = "'w word"] bit_simps)

lemma bit_TFLAG_set:
  "n < LENGTH('w) \<Longrightarrow>
     bit (TFLAG_set (f :: 'w::len word) (push_bit n 1) b) k \<longleftrightarrow> (if k = n then b else bit f k)"
  by (auto simp: TFLAG_set_def bit_simps dest: bit_imp_le_length)

lemma flag_simps [simp]:
  "S_isASCII (S_setASCII b s) = b"
  "S_isASCII (S_setTextSgm b s) = S_isASCII s"
  "S_isASCII (S_setMallocText b s) = S_isASCII s"
  "S_isMallocText (S_setMallocText b s) = b"
  "S_isMallocText (S_setASCII b s) = S_isMallocText s"
  "S_isMallocText (S_setTextSgm b s) = S_isMallocText s"
  by (simp_all add: S_isASCII_def S_setASCII_def S_setTextSgm_def S_setMallocText_def S_isMallocText_def
      local_defs TFLAG_is_bit bit_TFLAG_set del: push_bit_of_1)

lemma field_flags [simp]:
  "S_isASCII (s\<lparr>stext := t\<rparr>) = S_isASCII s" "S_isMallocText (s\<lparr>stext := t\<rparr>) = S_isMallocText s"
  "S_isASCII (s\<lparr>inline_text := i\<rparr>) = S_isASCII s" "S_isMallocText (s\<lparr>inline_text := i\<rparr>) = S_isMallocText s"
  "S_isASCII (s\<lparr>ssize := n\<rparr>) = S_isASCII s" "S_isMallocText (s\<lparr>ssize := n\<rparr>) = S_isMallocText s"
  by (simp_all add: S_isASCII_def S_isMallocText_def)

lemma set_flag_fields [simp]:
  "ssize (S_setASCII b s) = ssize s" "stext (S_setASCII b s) = stext s" "inline_text (S_setASCII b s) = inline_text s"
  "ssize (S_setTextSgm b s) = ssize s" "stext (S_setTextSgm b s) = stext s" "inline_text (S_setTextSgm b s) = inline_text s"
  "ssize (S_setMallocText b s) = ssize s" "stext (S_setMallocText b s) = stext s"
  "inline_text (S_setMallocText b s) = inline_text s"
  by (simp_all add: S_setASCII_def S_setTextSgm_def S_setMallocText_def)

lemma new_StringObject_fields [simp]:
  "ssize (new_StringObject junk) = 0" "stext (new_StringObject junk) = Text_static [0]"
  "length (inline_text (new_StringObject junk)) = SIZEOF_INLINETEXT"
  "\<not> S_isASCII (new_StringObject junk)" "\<not> S_isMallocText (new_StringObject junk)"
  by (simp_all add: new_StringObject_def String_init_def)
    (simp_all add: S_isASCII_def S_isMallocText_def TFLAG_is_def local_defs)

text \<open>Duff's device reads the text once, and the four bytes behind an empty one.\<close>

lemma or_bytes_read:
  "snd r + k \<le> length m \<Longrightarrow>
     or_bytes m k r = Some (fold (\<lambda>c ch. or ch c) (take k (drop (snd r) m)) (fst r), snd r + k)"
proof (induction k arbitrary: r)
  case 0
  then show ?case by simp
next
  case (Suc k)
  have "drop (snd r) m = m ! snd r # drop (Suc (snd r)) m"
    using Suc.prems by (simp add: Cons_nth_drop_Suc)
  then show ?case using Suc.IH [of "(or (fst r) (m ! snd r), snd r + 1)"] Suc.prems
    by (simp add: mem_simps)
qed

lemma or_bytes_add: "or_bytes m (j + k) r = Option.bind (or_bytes m j r) (or_bytes m k)"
proof (induction j arbitrary: r)
  case (Suc j)
  then show ?case by (cases "mem_get m (snd r)") simp_all
qed simp

lemma or_rounds_bytes: "or_rounds m n r = or_bytes m (4 * n) r"
proof (induction n arbitrary: r)
  case (Suc n)
  have "or_bytes m (4 * Suc n) r = Option.bind (or_bytes m 4 r) (or_bytes m (4 * n))"
    by (subst or_bytes_add [symmetric]) simp
  then show ?case by (simp only: or_rounds.simps Suc.IH)
qed simp

definition duff_count :: "nat \<Rightarrow> nat" where
  "duff_count len = (if len = 0 then 4 else len)"

lemma duff_total:
  "(if len mod 4 = 0 then 4 else len mod 4) + 4 * ((len + 3) div 4 - 1) = duff_count len"
proof -
  obtain q r where "len = 4 * q + r" "r < 4" by (metis mult.commute div_mult_mod_eq mod_less_divisor zero_less_numeral)
  then show ?thesis by (auto simp: duff_count_def)
qed

lemma fold_or_bit: "bit (fold (\<lambda>c ch. or ch c) t (ch :: byte)) n \<longleftrightarrow> bit ch n \<or> (\<exists>c \<in> set t. bit c n)"
  by (induction t arbitrary: ch) (auto simp: bit_simps)

lemma ascii_bit: "unat (c :: byte) < 128 \<longleftrightarrow> \<not> bit c 7"
proof -
  have "bit c 7 \<longleftrightarrow> odd (unat c div 2 ^ 7)"
    using bit_unsigned_iff [where 'a = nat, of c 7] by (simp add: bit_iff_odd)
  moreover have "unat c < 256" using unsigned_less [of c, where 'a = nat] by simp
  ultimately have b: "bit c 7 \<longleftrightarrow> odd (unat c div 128)" "unat c < 256" by simp_all
  have "odd (x div 128) \<longleftrightarrow> \<not> x < 128" if "x < 256" for x :: nat
    using that div_nat_eqI [of 128 1 x] by (cases "x < 128") simp_all
  from this [OF b(2)] show ?thesis using b(1) by blast
qed

lemma String_checkASCII_flags:
  assumes "text_mem s = Some m" "duff_count (ssize s) \<le> length m"
  shows "String_checkASCII s = Some (S_setASCII (is_ascii (take (duff_count (ssize s)) m)) s)"
proof -
  let ?a = "if ssize s mod 4 = 0 then 4 else ssize s mod 4"
  have "Option.bind (or_bytes m ?a (0, 0)) (or_rounds m ((ssize s + 3) div 4 - 1)) =
      or_bytes m (duff_count (ssize s)) (0, 0)"
    unfolding or_rounds_bytes [abs_def] or_bytes_add [symmetric] duff_total by simp
  also have "\<dots> = Some (fold (\<lambda>c ch. or ch c) (take (duff_count (ssize s)) m) 0, duff_count (ssize s))"
    using assms(2) by (simp add: or_bytes_read)
  finally have r: "Option.bind (or_bytes m ?a (0, 0)) (or_rounds m ((ssize s + 3) div 4 - 1)) = \<dots>" .
  then show ?thesis
    using assms(1) r [unfolded bind_Some_iff]
    by (auto simp add: String_checkASCII_def String_unbox_def Let_def ascii_bit is_ascii_def fold_or_bit
        simp del: text_mem.simps)
qed

lemma or_bytes_overread: "length m < snd r + k \<Longrightarrow> snd r \<le> length m \<Longrightarrow> or_bytes m k r = None"
proof (induction k arbitrary: r)
  case (Suc k)
  then show ?case by (cases "snd r < length m") (auto simp: mem_get_def)
qed simp

lemma String_checkASCII_overread:
  assumes "text_mem s = Some m" "length m < duff_count (ssize s)"
  shows "String_checkASCII s = None"
proof -
  let ?a = "if ssize s mod 4 = 0 then 4 else ssize s mod 4"
  have "Option.bind (or_bytes m ?a (0, 0)) (or_rounds m ((ssize s + 3) div 4 - 1)) =
      or_bytes m (duff_count (ssize s)) (0, 0)"
    unfolding or_rounds_bytes [abs_def] or_bytes_add [symmetric] duff_total by simp
  also have "\<dots> = None" using assms(2) by (simp add: or_bytes_overread)
  finally show ?thesis
    using assms(1) by (auto simp add: String_checkASCII_def String_unbox_def Let_def bind_eq_None_conv
        simp del: text_mem.simps)
qed

section \<open>New strings are well formed\<close>

text \<open>The buffer of a new string of \<open>len\<close> bytes, and the string with a given buffer.\<close>

definition fresh_buf :: "(nat \<Rightarrow> byte) \<Rightarrow> nat \<Rightarrow> bytes" where
  "fresh_buf junk len = map junk [0..<(if len + 1 < 8 * 2 then SIZEOF_INLINETEXT else len + 1)]"

definition fresh_string :: "(nat \<Rightarrow> byte) \<Rightarrow> nat \<Rightarrow> bytes \<Rightarrow> kString" where
  "fresh_string junk len buf =
     (if len + 1 < 8 * 2
      then (S_setTextSgm True ((new_StringObject junk)\<lparr>stext := Text_inline, ssize := len\<rparr>))\<lparr>inline_text := buf\<rparr>
      else (S_setMallocText True (S_setTextSgm False ((new_StringObject junk)\<lparr>ssize := len\<rparr>)))\<lparr>stext := Text_malloc buf\<rparr>)"

definition set_policy :: "u32 \<Rightarrow> kString \<Rightarrow> kString option" where
  "set_policy spol s =
     (if TFLAG_is spol SPOL_ASCII then Some (S_setASCII True s)
      else if TFLAG_is spol SPOL_UTF8 then Some (S_setASCII False s)
      else String_checkASCII s)"

lemma new_String_eq:
  "\<not> TFLAG_is spol SPOL_TEXT \<Longrightarrow> new_String junk t len spol =
     do { buf \<leftarrow> fill_text (fresh_buf junk len) t len spol; set_policy spol (fresh_string junk len buf) }"
  by (cases "len + 1 < 8 * 2")
    (simp_all add: new_String_def Let_def fresh_buf_def fresh_string_def new_StringObject_def String_init_def
      S_setTextSgm_def set_policy_def del: upt_Suc cong: if_cong)

lemma length_fresh_buf: "len < length (fresh_buf junk len)" "duff_count len \<le> length (fresh_buf junk len)"
  by (simp_all add: fresh_buf_def SIZEOF_INLINETEXT_def duff_count_def)

lemma length_fresh_malloc: "\<not> len + 1 < 8 * 2 \<Longrightarrow> length (fresh_buf junk len) = len + 1"
  by (simp add: fresh_buf_def)

lemma fresh_string_fields [simp]:
  "text_mem (fresh_string junk len buf) = Some buf" "ssize (fresh_string junk len buf) = len"
  "\<not> S_isASCII (fresh_string junk len buf)"
  "S_isMallocText (fresh_string junk len buf) \<longleftrightarrow> \<not> len + 1 < 8 * 2"
  by (simp_all add: fresh_string_def)

lemma text_mem_setASCII [simp]: "text_mem (S_setASCII b s) = text_mem s"
  by (cases "stext s") simp_all

lemma fill_text_copy:
  assumes "\<not> TFLAG_is spol SPOL_NOCOPY" "len \<le> length m" "len < length buf"
  shows "fill_text buf (Some m) len spol = Some (take len m @ 0 # drop (len + 1) buf)"
  using assms by (simp add: fill_text_def mem_simps list_update_append Cons_nth_drop_Suc [symmetric])

lemma fill_text_none: "len < length buf \<Longrightarrow> fill_text buf None len spol = Some (buf[len := 0])"
  by (simp add: fill_text_def mem_simps)

text \<open>Whatever the flag becomes, the text and its terminator stay.\<close>

definition policy_flag :: "u32 \<Rightarrow> bytes \<Rightarrow> nat \<Rightarrow> bool" where
  "policy_flag spol m len =
     (if TFLAG_is spol SPOL_ASCII then True else if TFLAG_is spol SPOL_UTF8 then False
      else is_ascii (take (duff_count len) m))"

lemma set_policy_eq:
  "text_mem s = Some m \<Longrightarrow> duff_count (ssize s) \<le> length m \<Longrightarrow>
     set_policy spol s = Some (S_setASCII (policy_flag spol m (ssize s)) s)"
  by (simp add: set_policy_def policy_flag_def String_checkASCII_flags del: text_mem.simps)

lemma fresh_string_ok:
  assumes "length buf = length (fresh_buf junk len)" "buf ! len = 0" "b \<Longrightarrow> is_ascii (take len buf)"
  shows "str_ok (S_setASCII b (fresh_string junk len buf))"
    "text_of (S_setASCII b (fresh_string junk len buf)) = take len buf"
  using assms length_fresh_buf [of len junk] length_fresh_malloc [of len junk]
  by (simp_all add: str_ok_def text_of_def del: text_mem.simps) (simp add: fresh_string_def)

lemma is_ascii_take: "is_ascii (take n m) \<Longrightarrow> k \<le> n \<Longrightarrow> is_ascii (take k m)"
  unfolding is_ascii_def using set_take_subset_set_take [of k n m] by blast

lemma policy_flag_sound:
  "policy_flag spol m len \<Longrightarrow> (TFLAG_is spol SPOL_ASCII \<Longrightarrow> is_ascii (take len m)) \<Longrightarrow> is_ascii (take len m)"
  by (auto simp: policy_flag_def duff_count_def is_ascii_def split: if_splits)

lemma new_String_copies:
  assumes "\<not> TFLAG_is spol SPOL_TEXT" "\<not> TFLAG_is spol SPOL_NOCOPY" "len \<le> length m"
    and "TFLAG_is spol SPOL_ASCII \<Longrightarrow> is_ascii (take len m)"
  obtains s where "new_String junk (Some m) len spol = Some s" "str_ok s" "text_of s = take len m" "ssize s = len"
    "TFLAG_is spol SPOL_ASCII \<Longrightarrow> S_isASCII s"
    "\<not> TFLAG_is spol SPOL_ASCII \<Longrightarrow> TFLAG_is spol SPOL_UTF8 \<Longrightarrow> \<not> S_isASCII s"
    "\<not> TFLAG_is spol SPOL_ASCII \<Longrightarrow> \<not> TFLAG_is spol SPOL_UTF8 \<Longrightarrow> len \<noteq> 0 \<Longrightarrow> S_isASCII s \<longleftrightarrow> is_ascii (take len m)"
    "S_isMallocText s \<longleftrightarrow> \<not> len + 1 < 8 * 2"
proof -
  let ?f = "fresh_buf junk len"
  let ?buf = "take len m @ 0 # drop (len + 1) ?f"
  let ?s = "S_setASCII (policy_flag spol ?buf len) (fresh_string junk len ?buf)"
  have len: "length ?buf = length ?f" "duff_count len \<le> length ?buf" "?buf ! len = 0" "take len ?buf = take len m"
    using assms(3) length_fresh_buf [of len junk] by (simp_all add: nth_append)
  have "new_String junk (Some m) len spol = Some ?s"
    using assms len(2) length_fresh_buf(1) [of len junk]
    by (simp add: new_String_eq fill_text_copy set_policy_eq del: text_mem.simps)
  moreover have "policy_flag spol ?buf len \<Longrightarrow> is_ascii (take len ?buf)"
    using policy_flag_sound [of spol ?buf len] assms(4) len(4) by simp
  note fresh_string_ok [OF len(1,3) this]
  ultimately show ?thesis
    using len(4) by (intro that [of ?s]) (simp_all add: policy_flag_def duff_count_def)
qed

lemma new_String_uninit:
  assumes "\<not> TFLAG_is spol SPOL_TEXT"
  shows "new_String junk None len spol = Some (S_setASCII (policy_flag spol ((fresh_buf junk len)[len := 0]) len)
      (fresh_string junk len ((fresh_buf junk len)[len := 0])))"
  using assms length_fresh_buf [of len junk]
  by (simp add: new_String_eq fill_text_none set_policy_eq del: text_mem.simps)

lemma text_store_fresh:
  "text_store buf' (S_setASCII b (fresh_string junk len buf)) = Some (S_setASCII b (fresh_string junk len buf'))"
  by (simp add: text_store_def fresh_string_def) (simp add: S_setASCII_def)

lemma is_ascii_append: "is_ascii (s @ t) \<longleftrightarrow> is_ascii s \<and> is_ascii t"
  by (auto simp: is_ascii_def)

lemma SPOL_flags [simp]:
  "\<not> TFLAG_is (or (if b then SPOL_ASCII else SPOL_UTF8) SPOL_NOCOPY) SPOL_TEXT"
  "TFLAG_is (or (if b then SPOL_ASCII else SPOL_UTF8) SPOL_NOCOPY) SPOL_ASCII = b"
  "TFLAG_is (or (if b then SPOL_ASCII else SPOL_UTF8) SPOL_NOCOPY) SPOL_UTF8 = (\<not> b)"
  by (simp_all add: TFLAG_is_def SPOL_TEXT_def SPOL_ASCII_def SPOL_UTF8_def SPOL_NOCOPY_def)

lemma String_opADD_text:
  assumes "str_ok s0" "str_ok s1"
  shows "\<exists>s. String_opADD junk s0 s1 = Some s \<and> str_ok s \<and> text_of s = text_of s0 @ text_of s1
     \<and> ssize s = ssize s0 + ssize s1 \<and> (S_isASCII s \<longleftrightarrow> S_isASCII s0 \<and> S_isASCII s1)"
proof -
  obtain m0 where m0: "text_mem s0 = Some m0" "ssize s0 < length m0" "text_of s0 = take (ssize s0) m0"
    by (rule str_okD [OF assms(1)])
  obtain m1 where m1: "text_mem s1 = Some m1" "ssize s1 < length m1" "text_of s1 = take (ssize s1) m1"
    by (rule str_okD [OF assms(2)])
  let ?n = "ssize s0 + ssize s1" and ?b = "S_isASCII s0 \<and> S_isASCII s1"
  define buf where "buf = (fresh_buf junk ?n)[?n := 0]"
  let ?buf' = "text_of s0 @ text_of s1 @ drop ?n buf"
  have len: "?n < length buf" "length buf = length (fresh_buf junk ?n)" "buf ! ?n = 0"
    using length_fresh_buf [of ?n junk] by (simp_all add: buf_def)
  have "String_opADD junk s0 s1 = Some (S_setASCII ?b (fresh_string junk ?n ?buf'))"
    using len m0 m1
    by (auto simp add: String_opADD_def String_unbox_def new_String_uninit policy_flag_def mem_simps text_store_fresh
        add.commute [of "ssize s1"] simp flip: buf_def simp del: text_mem.simps)
  moreover have "length ?buf' = length (fresh_buf junk ?n)" "?buf' ! ?n = 0" "take ?n ?buf' = text_of s0 @ text_of s1"
    using len m0 m1 by (simp_all add: nth_append)
  moreover have "is_ascii (text_of s0 @ text_of s1)" if ?b
    using str_ok_ascii assms that by (simp add: is_ascii_append)
  ultimately show ?thesis using fresh_string_ok [of ?buf' junk ?n ?b] by auto
qed

text \<open>
  C24: Adding two well-formed strings never leaves a buffer: it gives a well-formed string whose
  text is the first text followed by the second, marked ASCII exactly when both are.
\<close>

theorem String_opADD_concatenates:
  assumes "str_ok s0" "str_ok s1"
  shows "\<exists>s. String_opADD junk s0 s1 = Some s \<and> str_ok s \<and> text_of s = text_of s0 @ text_of s1
     \<and> ssize s = ssize s0 + ssize s1 \<and> (S_isASCII s \<longleftrightarrow> S_isASCII s0 \<and> S_isASCII s1)"
  using assms by (rule String_opADD_text)

definition sample_string :: "bytes \<Rightarrow> kString" where
  "sample_string t = the (new_String (\<lambda>_. 0) (Some (t @ [0])) (length t) 0)"

lemma sample_string_ok: "str_ok (sample_string t)" "text_of (sample_string t) = t"
  and sample_string_malloc: "S_isMallocText (sample_string t) \<longleftrightarrow> 15 \<le> length t"
proof -
  obtain s where "new_String (\<lambda>_. 0) (Some (t @ [0])) (length t) 0 = Some s" "str_ok s" "text_of s = take (length t) (t @ [0])"
    "S_isMallocText s \<longleftrightarrow> \<not> length t + 1 < 8 * 2"
    by (rule new_String_copies [of 0 "length t" "t @ [0]" "\<lambda>_. 0"])
      (simp_all add: TFLAG_is_def SPOL_TEXT_def SPOL_NOCOPY_def SPOL_ASCII_def)
  then show "str_ok (sample_string t)" "text_of (sample_string t) = t"
      "S_isMallocText (sample_string t) \<longleftrightarrow> 15 \<le> length t"
    by (auto simp add: sample_string_def)
qed

theorem String_opADD_concatenates_witness:
  "\<exists>s. String_opADD (\<lambda>_. 7) (sample_string (lit ''kon'')) (sample_string (lit ''oha'')) = Some s
     \<and> text_of s = lit ''konoha''"
  using String_opADD_concatenates [OF sample_string_ok(1) sample_string_ok(1), of "\<lambda>_. 7" "lit ''kon''" "lit ''oha''"]
  by (auto simp: sample_string_ok(2) lit_def)

section \<open>Numbers as text\<close>

lemma digit_byte: "d < 10 \<Longrightarrow> unat (chr CHR ''0'' + word_of_nat d) = 48 + d"
  by (simp add: chr_def unat_word_ariths unat_of_nat take_bit_nat_eq_self)

lemma isdigit_iff: "isdigit c \<longleftrightarrow> 48 \<le> unat c \<and> unat c \<le> 57"
  by (simp add: isdigit_def word_le_nat_alt unat_chr)

lemma isspace_iff: "isspace c \<longleftrightarrow> unat c = 32 \<or> 9 \<le> unat c \<and> unat c \<le> 13"
  by (simp add: isspace_def word_le_nat_alt word_unat_eq_iff)

lemma dec_digits: "c \<in> set (dec n) \<Longrightarrow> isdigit c"
proof (induction n rule: dec.induct)
  case (1 n)
  have "set (dec n) = (if n < 10 then {} else set (dec (n div 10))) \<union> {chr CHR ''0'' + word_of_nat (n mod 10)}"
    by (subst dec.simps) simp
  with 1 show ?case by (auto simp: isdigit_iff digit_byte split: if_splits)
qed

lemma digits_value_snoc: "digits_value (ds @ [c]) = 10 * digits_value ds + (uint c - 48)"
  by (simp add: digits_value_def)

lemma digits_value_dec: "digits_value (dec n) = int n"
proof (induction n rule: dec.induct)
  case (1 n)
  have c: "uint (chr CHR ''0'' + word_of_nat (n mod 10)) = 48 + int (n mod 10)"
    using arg_cong [OF digit_byte [of "n mod 10"], of int] by simp
  have "digits_value (dec n) = 10 * digits_value (if n < 10 then [] else dec (n div 10)) + int (n mod 10)"
    by (subst dec.simps) (simp add: digits_value_snoc c)
  moreover have "10 * int (n div 10) + int (n mod 10) = int n" by presburger
  ultimately show ?case using 1 by (cases "n < 10") (simp_all add: digits_value_def)
qed

lemma dec_length: "n < 10 ^ Suc k \<Longrightarrow> length (dec n) \<le> Suc k"
proof (induction k arbitrary: n)
  case 0
  then show ?case by (subst dec.simps) simp
next
  case (Suc k)
  then have "n div 10 < 10 ^ Suc k" by (simp add: div_less_iff_less_mult mult.commute)
  from Suc.IH [OF this] show ?case by (subst dec.simps) simp
qed

lemma dec_nonempty: "dec n \<noteq> []"
  by (subst dec.simps) simp

definition num_text :: "int \<Rightarrow> bytes" where
  "num_text n = (if n < 0 then chr CHR ''-'' # dec (nat (- n)) else dec (nat n))"

lemma num_text_length:
  assumes "KINT_MIN \<le> n" "n \<le> KINT_MAX"
  shows "length (num_text n) \<le> 20"
proof -
  have b: "nat k < 10 ^ Suc 18" if "k \<le> 2 ^ 63" for k :: int using that by simp
  have "length (dec (nat (- n))) \<le> Suc 18" if "n < 0"
    by (rule dec_length [OF b]) (use assms in \<open>simp add: KINT_MIN_def\<close>)
  moreover have "length (dec (nat n)) \<le> Suc 18"
    by (rule dec_length [OF b]) (use assms in \<open>simp add: KINT_MAX_def\<close>)
  ultimately show ?thesis by (auto simp: num_text_def)
qed

lemma num_text_chars: "c \<in> set (num_text n) \<Longrightarrow> c = chr CHR ''-'' \<or> isdigit c"
  by (auto simp: num_text_def dest: dec_digits split: if_splits)

lemma num_text_plain: "0 \<notin> set (num_text n)" "is_ascii (num_text n)"
proof -
  have "unat c < 128 \<and> unat c \<noteq> 0" if "c \<in> set (num_text n)" for c
    using num_text_chars [OF that] by (auto simp: isdigit_iff unat_chr)
  then show "0 \<notin> set (num_text n)" "is_ascii (num_text n)"
    unfolding is_ascii_def by fastforce+
qed

lemma strtoll_num_text:
  assumes "KINT_MIN \<le> n" "n \<le> KINT_MAX"
  shows "strtoll (num_text n) = n"
proof -
  have digits: "takeWhile isdigit (dec k) = dec k" for k by (simp add: takeWhile_eq_all_conv dec_digits)
  have first: "isdigit (hd (dec k))" for k using dec_digits [of "hd (dec k)" k] dec_nonempty [of k] by simp
  have drop: "dropWhile isspace (dec k) = dec k" for k
    using first [of k] dec_nonempty [of k] by (cases "dec k") (auto simp: isdigit_iff isspace_iff)
  have sign: "hd (dec k) \<noteq> chr CHR ''-''" "hd (dec k) \<noteq> chr CHR ''+''" for k
    using first [of k] by (auto simp: isdigit_iff unat_chr)
  show ?thesis
  proof (cases "n < 0")
    case True
    then show ?thesis using assms
      by (simp add: strtoll_def num_text_def isspace_iff unat_chr digits digits_value_dec)
  next
    case False
    then show ?thesis using assms
      by (simp add: strtoll_def num_text_def drop sign digits digits_value_dec)
  qed
qed

text \<open>
  C25: Every number of the language survives its text: converting it to a string never fills the
  buffer of 40 bytes and gives a well-formed ASCII string, and reading that string back gives the
  number, for the whole range of the 64-bit integers.
\<close>

theorem Int_toString_roundtrip:
  assumes "KINT_MIN \<le> n" "n \<le> KINT_MAX"
  shows "\<exists>s. Int_toString junk n = Some s \<and> str_ok s \<and> S_isASCII s \<and> ssize s \<le> 20 \<and> String_toInt s = Some n"
proof -
  let ?t = "num_text n"
  have buf: "snprintf 40 ?t = ?t" using num_text_length [OF assms] by (simp add: snprintf_def)
  have c: "cstring (?t @ 0 # r) = Some ?t" for r by (rule cstring_append_zero [OF num_text_plain(1)])
  obtain s where s: "new_String junk (Some (?t @ [0])) (length ?t) SPOL_ASCII = Some s" "str_ok s" "text_of s = ?t"
      "ssize s = length ?t" "S_isASCII s"
    by (rule new_String_copies [of SPOL_ASCII "length ?t" "?t @ [0]" junk])
      (simp_all add: TFLAG_is_def SPOL_TEXT_def SPOL_NOCOPY_def SPOL_ASCII_def num_text_plain)
  obtain m where m: "text_mem s = Some m" "ssize s < length m" "m ! ssize s = 0" "text_of s = take (ssize s) m"
    by (rule str_okD [OF s(2)])
  have "m = ?t @ 0 # drop (Suc (ssize s)) m"
    using id_take_nth_drop [OF m(2)] m(3,4) s(3) by simp
  then have "cstring m = Some ?t" using c by metis
  then have "String_toInt s = Some n"
    using m(1) strtoll_num_text [OF assms] by (simp add: String_toInt_def String_unbox_def del: text_mem.simps)
  moreover have "Int_toString junk n = Some s"
    using s(1) buf c [of "[]"] by (simp add: Int_toString_def num_text_def [symmetric])
  ultimately show ?thesis using s num_text_length [OF assms] by simp
qed

theorem Int_toString_roundtrip_witness:
  "\<exists>s. Int_toString (\<lambda>_. 1) (- (2 ^ 63)) = Some s \<and> String_toInt s = Some (- (2 ^ 63))"
  using Int_toString_roundtrip [of "- (2 ^ 63)" "\<lambda>_. 1"] by (auto simp: KINT_MIN_def KINT_MAX_def)

section \<open>Contract of concatenation\<close>

text \<open>
  What a script relies on when it builds a text piece by piece: \<open>rel h a t\<close> says that the string
  \<open>a\<close> of the store \<open>h\<close> has the text \<open>t\<close>; adding two strings is defined, gives the texts in
  order, and changes the text of no other string.
\<close>

locale string_store =
  fixes ok :: "'h \<Rightarrow> bool"
    and rel :: "'h \<Rightarrow> 'a \<Rightarrow> bytes \<Rightarrow> bool"
    and cat :: "'h \<Rightarrow> 'a \<Rightarrow> 'a \<Rightarrow> ('h \<times> 'a) option"
  assumes cat_ok: "ok h \<Longrightarrow> rel h a t \<Longrightarrow> rel h b u \<Longrightarrow>
    \<exists>h' c. cat h a b = Some (h', c) \<and> ok h' \<and> rel h' c (t @ u) \<and> (\<forall>d v. rel h d v \<longrightarrow> rel h' d v)"
begin

lemma cat_all:
  assumes "ok h" "rel h a t" "list_all2 (rel h) bs us"
  shows "\<exists>h' c. fold (\<lambda>b r. Option.bind r (\<lambda>(h, a). cat h a b)) bs (Some (h, a)) = Some (h', c)
     \<and> ok h' \<and> rel h' c (t @ concat us)"
  using assms
proof (induction bs arbitrary: h a t us)
  case Nil
  then show ?case by auto
next
  case (Cons b bs)
  obtain u us' where u: "us = u # us'" "rel h b u" "list_all2 (rel h) bs us'"
    using Cons.prems(3) by (auto simp: list_all2_Cons1)
  obtain h1 c where c: "cat h a b = Some (h1, c)" "ok h1" "rel h1 c (t @ u)" "\<And>d v. rel h d v \<Longrightarrow> rel h1 d v"
    using cat_ok [OF Cons.prems(1,2) u(2)] by blast
  have "list_all2 (rel h1) bs us'" using u(3) c(4) by (rule list_all2_mono)
  from Cons.IH [OF c(2,3) this] show ?case using c(1) u(1) by simp
qed

end

definition has_text :: "unit \<Rightarrow> kString \<Rightarrow> bytes \<Rightarrow> bool" where
  "has_text _ s t \<longleftrightarrow> str_ok s \<and> text_of s = t"

definition core_cat :: "(nat \<Rightarrow> byte) \<Rightarrow> unit \<Rightarrow> kString \<Rightarrow> kString \<Rightarrow> (unit \<times> kString) option" where
  "core_cat junk h a b = map_option (Pair h) (String_opADD junk a b)"

interpretation core_text: string_store "\<lambda>_. True" has_text "core_cat junk" for junk
proof unfold_locales
  fix h a t b u
  assume "has_text h a t" "has_text h b u"
  then show "\<exists>h' c. core_cat junk h a b = Some (h', c) \<and> True \<and> has_text h' c (t @ u)
      \<and> (\<forall>d v. has_text h d v \<longrightarrow> has_text h' d v)"
    using String_opADD_text [of a b junk] by (auto simp: has_text_def core_cat_def)
qed

end
