(* ===== verification/Stringlib.thy ===== *)
theory Stringlib
  imports Strings
begin

text \<open>
  The string package, \<^verbatim>\<open>package/konoha.string/string_glue.h\<close>, and the UTF-8 table of
  \<^verbatim>\<open>include/konoha2/klib.h\<close>. Positions are offsets from the text pointer. A method gives
  \<open>Inl\<close> the error it raises or \<open>Inr\<close> what it returns.
\<close>

section \<open>UTF-8 lengths\<close>

definition utf8len_table :: "nat list" where
  "utf8len_table =
     replicate 128 1 @ replicate 64 0 @ ([0, 0] @ replicate 14 2) @ replicate 16 2 @
     replicate 16 3 @ (replicate 8 4 @ replicate 4 5 @ [6, 6, 0, 0])"

definition utf8len :: "byte \<Rightarrow> nat" where
  "utf8len c = utf8len_table ! unat c"

text \<open>The loop over the characters between two positions; a byte of length zero is never left.\<close>

partial_function (option) text_mlen_loop :: "bytes \<Rightarrow> nat \<Rightarrow> nat \<Rightarrow> nat \<Rightarrow> nat option" where
  "text_mlen_loop m start end sz =
     (if start < end then do {
        c \<leftarrow> mem_get m start;
        text_mlen_loop m (start + utf8len c) end (sz + 1)
      } else Some sz)"

declare text_mlen_loop.simps [code]

definition text_mlen :: "bytes \<Rightarrow> nat \<Rightarrow> nat option" where
  "text_mlen m s_size = text_mlen_loop m 0 s_size 0"

text \<open>Moving a position over \<open>n\<close> characters.\<close>

primrec utf8_skip :: "bytes \<Rightarrow> nat \<Rightarrow> nat \<Rightarrow> nat option" where
  "utf8_skip m 0 p = Some p"
| "utf8_skip m (Suc n) p = do { c \<leftarrow> mem_get m p; utf8_skip m n (p + utf8len c) }"

section \<open>Index checks\<close>

datatype script_error = Out_of_array_index u64

definition check_index :: "int \<Rightarrow> nat \<Rightarrow> u64 \<Rightarrow> script_error + nat" where
  "check_index n mx pline =
     (let n1 = unat (word_of_int n :: u64)
      in if \<not> n1 < mx then Inl (Out_of_array_index pline) else Inr n1)"

section \<open>Sizes and searching\<close>

definition SPOL_sub :: "kString \<Rightarrow> u32" where
  "SPOL_sub s0 = (if S_isASCII s0 then SPOL_ASCII else 0)"

definition String_getSize :: "kString \<Rightarrow> nat option" where
  "String_getSize s =
     (if S_isASCII s then Some (ssize s)
      else do { t \<leftarrow> String_unbox s; text_mlen t (ssize s) })"

definition String_startsWith :: "kString \<Rightarrow> kString \<Rightarrow> bool option" where
  "String_startsWith s0 s1 = do {
     t0 \<leftarrow> String_unbox s0;
     t1 \<leftarrow> String_unbox s1;
     r \<leftarrow> strncmp_mem t0 t1 (ssize s1);
     Some (r = 0)
   }"

definition String_endsWith :: "kString \<Rightarrow> kString \<Rightarrow> bool option" where
  "String_endsWith s0 s1 =
     (if ssize s0 < ssize s1 then Some False
      else do {
        t0 \<leftarrow> String_unbox s0;
        t1 \<leftarrow> String_unbox s1;
        r \<leftarrow> strncmp_mem (drop (ssize s0 - ssize s1) t0) t1 (ssize s1);
        Some (r = 0)
      })"

definition String_indexOf :: "kString \<Rightarrow> kString \<Rightarrow> int option" where
  "String_indexOf s0 s1 =
     (if IS_NOTNULL s1 then do {
        t0 \<leftarrow> String_unbox s0;
        t1 \<leftarrow> String_unbox s1;
        p \<leftarrow> strstr t0 t1;
        (case p of
           None \<Rightarrow> Some (- 1)
         | Some loc \<Rightarrow>
             if \<not> S_isASCII s0 then map_option int (text_mlen t0 loc) else Some (int loc))
      } else Some (- 1))"

text \<open>The backward search: \<open>n\<close> positions are left, the next one to try is \<open>n - 1\<close>.\<close>

primrec last_index_loop :: "bytes \<Rightarrow> bytes \<Rightarrow> nat \<Rightarrow> nat \<Rightarrow> nat option option" where
  "last_index_loop t0 t1 len 0 = Some None"
| "last_index_loop t0 t1 len (Suc loc) = do {
     a \<leftarrow> mem_get t0 loc;
     b \<leftarrow> mem_get t1 0;
     if a = b then do {
       r \<leftarrow> strncmp_mem (drop loc t0) t1 len;
       if r = 0 then Some (Some loc) else last_index_loop t0 t1 len loc
     } else last_index_loop t0 t1 len loc
   }"

definition String_lastIndexOf :: "kString \<Rightarrow> kString \<Rightarrow> int option" where
  "String_lastIndexOf s0 s1 = do {
     t0 \<leftarrow> String_unbox s0;
     t1 \<leftarrow> String_unbox s1;
     let loc = int (ssize s0) - int (ssize s1);
     let loc = (if ssize s1 = 0 then loc - 1 else loc);
     r \<leftarrow> last_index_loop t0 t1 (ssize s1) (nat (loc + 1));
     (case r of
        None \<Rightarrow> Some (- 1)
      | Some loc \<Rightarrow>
          if \<not> S_isASCII s0 then map_option int (text_mlen t0 loc) else Some (int loc))
   }"

definition String_opHAS :: "kString \<Rightarrow> kString \<Rightarrow> bool option" where
  "String_opHAS s0 s1 = do {
     t0 \<leftarrow> String_unbox s0;
     t1 \<leftarrow> String_unbox s1;
     p \<leftarrow> strstr t0 t1;
     Some (p \<noteq> None)
   }"

section \<open>Trimming\<close>

fun trim_left :: "bytes \<Rightarrow> int \<Rightarrow> (bytes \<times> int) option" where
  "trim_left [] len = None"
| "trim_left (c # s) len = (if isspace c then trim_left s (len - 1) else Some (c # s, len))"

primrec trim_right :: "bytes \<Rightarrow> nat \<Rightarrow> nat option" where
  "trim_right s 0 = Some 0"
| "trim_right s (Suc n) = do {
     c \<leftarrow> mem_get s n;
     if isspace c then trim_right s n else Some (Suc n)
   }"

definition String_trim :: "(nat \<Rightarrow> byte) \<Rightarrow> kString \<Rightarrow> kString option" where
  "String_trim junk s0 = do {
     s \<leftarrow> String_unbox s0;
     (s, len) \<leftarrow> trim_left s (int (ssize s0));
     if len < 0 then None
     else do {
       len \<leftarrow> (if len \<noteq> 0 then trim_right s (nat len) else Some 0);
       if ssize s0 > len then new_String junk (Some s) len (SPOL_sub s0) else Some s0
     }
   }"

section \<open>Parts\<close>

text \<open>\<^verbatim>\<open>(int)n\<close> keeps the low half of the word.\<close>

definition as_int :: "u64 \<Rightarrow> int" where
  "as_int n = sint (ucast n :: 32 word)"

definition S_mget :: "(nat \<Rightarrow> byte) \<Rightarrow> kString \<Rightarrow> u64 \<Rightarrow> kString option option" where
  "S_mget junk s n =
     (if S_isASCII s then None
      else do {
        m \<leftarrow> String_unbox s;
        if as_int n < 0 then Some None
        else do {
          start \<leftarrow> utf8_skip m (unat n) 0;
          if start < ssize s then do {
            end \<leftarrow> utf8_skip m 1 start;
            map_option Some (new_String junk (Some (drop start m)) (end - start) (or SPOL_POOL SPOL_UTF8))
          } else Some None
        }
      })"

definition String_get :: "(nat \<Rightarrow> byte) \<Rightarrow> kString \<Rightarrow> int \<Rightarrow> u64 \<Rightarrow> (script_error + kString) option" where
  "String_get junk s i uline =
     (if S_isASCII s then
        (case check_index i (ssize s) uline of
           Inl e \<Rightarrow> Some (Inl e)
         | Inr n \<Rightarrow> do {
             m \<leftarrow> String_unbox s;
             map_option Inr (new_String junk (Some (drop n m)) 1 (or SPOL_POOL SPOL_ASCII))
           })
      else do {
        r \<leftarrow> S_mget junk s (word_of_int i);
        (case r of None \<Rightarrow> Some (Inl (Out_of_array_index uline)) | Some s \<Rightarrow> Some (Inr s))
      })"

definition S_msubstring :: "(nat \<Rightarrow> byte) \<Rightarrow> kString \<Rightarrow> u64 \<Rightarrow> u64 \<Rightarrow> kString option option" where
  "S_msubstring junk s moff mlen =
     (if S_isASCII s then None
      else do {
        m \<leftarrow> String_unbox s;
        if as_int moff < 0 then Some None
        else do {
          start \<leftarrow> utf8_skip m (unat moff) 0;
          if start < ssize s then
            (if as_int mlen \<le> 0 then
               map_option Some (new_String junk (Some (drop start m)) (ssize s - start) (or SPOL_POOL SPOL_UTF8))
             else do {
               end \<leftarrow> utf8_skip m (unat mlen) start;
               map_option Some (new_String junk (Some (drop start m))
                 (if end < ssize s then end - start else ssize s - start) (or SPOL_POOL SPOL_UTF8))
             })
          else Some None
        }
      })"

definition String_substring ::
    "(nat \<Rightarrow> byte) \<Rightarrow> kString \<Rightarrow> int \<Rightarrow> int \<Rightarrow> u64 \<Rightarrow> (script_error + kString) option" where
  "String_substring junk s0 offset mlen uline =
     (if S_isASCII s0 then
        (case check_index offset (ssize s0) uline of
           Inl e \<Rightarrow> Some (Inl e)
         | Inr off \<Rightarrow> do {
             m \<leftarrow> String_unbox s0;
             let new_size = ssize s0 - off;
             let len = unat (word_of_int mlen :: u64);
             let new_size = (if len \<noteq> 0 \<and> len < new_size then len else new_size);
             map_option Inr (new_String junk (Some (drop off m)) new_size (or SPOL_ASCII SPOL_POOL))
           })
      else do {
        r \<leftarrow> S_msubstring junk s0 (word_of_int offset) (word_of_int mlen);
        (case r of None \<Rightarrow> Some (Inl (Out_of_array_index uline)) | Some s \<Rightarrow> Some (Inr s))
      })"

section \<open>Upper and lower case\<close>

definition case_loop :: "(byte \<Rightarrow> bool) \<Rightarrow> (byte \<Rightarrow> byte) \<Rightarrow> (nat \<Rightarrow> byte) \<Rightarrow> kString \<Rightarrow> nat \<Rightarrow> kString option" where
  "case_loop P f junk s0 start = do {
     s \<leftarrow> new_String junk None (ssize s0) (or (SPOL_sub s0) SPOL_NOCOPY);
     d \<leftarrow> text_mem s0;
     d \<leftarrow> mem_read d 0 (ssize s0);
     buf \<leftarrow> text_mem s;
     buf \<leftarrow> mem_write buf 0 d;
     text_store (update_each (\<lambda>_ ch. if P ch then f ch else ch) [start..<ssize s0] buf) s
   }"

definition case_scan :: "(byte \<Rightarrow> bool) \<Rightarrow> (kString \<Rightarrow> nat \<Rightarrow> kString option) \<Rightarrow> kString \<Rightarrow> kString option" where
  "case_scan P g s0 = do {
     m \<leftarrow> text_mem s0;
     m \<leftarrow> mem_read m 0 (ssize s0);
     (case List.find (\<lambda>i. P (m ! i)) [0..<ssize s0] of None \<Rightarrow> Some s0 | Some i \<Rightarrow> g s0 i)
   }"

definition islower :: "byte \<Rightarrow> bool" where
  "islower ch \<longleftrightarrow> chr CHR ''a'' \<le> ch \<and> ch \<le> chr CHR ''z''"

definition isupper :: "byte \<Rightarrow> bool" where
  "isupper ch \<longleftrightarrow> chr CHR ''A'' \<le> ch \<and> ch \<le> chr CHR ''Z''"

definition S_toupper :: "(nat \<Rightarrow> byte) \<Rightarrow> kString \<Rightarrow> nat \<Rightarrow> kString option" where
  "S_toupper = case_loop islower toupper"

definition String_toUpper :: "(nat \<Rightarrow> byte) \<Rightarrow> kString \<Rightarrow> kString option" where
  "String_toUpper junk = case_scan islower (S_toupper junk)"

definition S_tolower :: "(nat \<Rightarrow> byte) \<Rightarrow> kString \<Rightarrow> nat \<Rightarrow> kString option" where
  "S_tolower = case_loop isupper tolower"

definition String_toLower :: "(nat \<Rightarrow> byte) \<Rightarrow> kString \<Rightarrow> kString option" where
  "String_toLower junk = case_scan isupper (S_tolower junk)"

section \<open>Counting characters\<close>

text \<open>A character is as many bytes as the table gives for its first one.\<close>

definition utf8_char :: "bytes \<Rightarrow> bool" where
  "utf8_char c \<longleftrightarrow> c \<noteq> [] \<and> utf8len (hd c) = length c"

lemma utf8_char_first:
  "utf8_char c \<Longrightarrow> mem_get (c @ r) 0 = Some (hd c)" "utf8_char c \<Longrightarrow> utf8len (hd c) = length c"
  by (cases c; simp add: utf8_char_def mem_get_def)+

lemma mem_get_append: "mem_get (p @ m) (length p + i) = mem_get m i"
  by (simp add: mem_get_def nth_append)

lemma text_mlen_loop_chars:
  assumes "\<forall>c \<in> set cs. utf8_char c" "length p + length (concat cs) \<le> end"
  shows "text_mlen_loop (p @ concat cs @ r) (length p) end k =
         text_mlen_loop (p @ concat cs @ r) (length p + length (concat cs)) end (k + length cs)"
  using assms
proof (induction cs arbitrary: p k)
  case (Cons c cs)
  note c = utf8_char_first(1) [of c "concat cs @ r"] utf8_char_first(2) [of c]
  have "0 < length c" using Cons.prems(1) by (simp add: utf8_char_def)
  then have lt: "length p < end" using Cons.prems(2) unfolding concat.simps length_append by linarith
  have "mem_get (p @ concat (c # cs) @ r) (length p) = Some (hd c)"
    using mem_get_append [of p "concat (c # cs) @ r" 0] c Cons.prems(1) by simp
  then have "text_mlen_loop (p @ concat (c # cs) @ r) (length p) end k =
      text_mlen_loop (p @ concat (c # cs) @ r) (length p + length c) end (k + 1)"
    using Cons.prems(1) lt c(2) by (subst text_mlen_loop.simps) simp
  then show ?case using Cons.IH [of "p @ c" "k + 1"] Cons.prems by (simp add: add.assoc)
qed simp

lemma text_mlen_chars:
  "\<forall>c \<in> set cs. utf8_char c \<Longrightarrow> text_mlen (concat cs @ r) (length (concat cs)) = Some (length cs)"
  using text_mlen_loop_chars [of cs "[]" "length (concat cs)" r 0]
  by (simp add: text_mlen_def text_mlen_loop.simps [of _ "length (concat cs)"])

lemma text_mlen_loop_stuck:
  assumes "start < end" "mem_get m start = Some c" "utf8len c = 0"
  shows "text_mlen_loop m start end k = None"
proof (rule ccontr)
  assume "text_mlen_loop m start end k \<noteq> None"
  then obtain v where v: "text_mlen_loop m start end k = Some v" by blast
  let ?P = "\<lambda>m start end. \<not> (start < end \<and> mem_get m start = Some c)"
  have "?P m start end"
  proof (rule text_mlen_loop.raw_induct [where P = "\<lambda>m start end k v. ?P m start end", OF _ v])
    fix f :: "bytes \<Rightarrow> nat \<Rightarrow> nat \<Rightarrow> nat \<Rightarrow> nat option" and m start "end" k v
    assume IH: "\<And>m start end k v. f m start end k = Some v \<Longrightarrow> ?P m start end"
      and step: "(if start < end then do { c \<leftarrow> mem_get m start; f m (start + utf8len c) end (k + 1) }
        else Some k) = Some v"
    show "?P m start end" using step IH [of m start "end" "k + 1" v] assms(3) by auto
  qed
  with assms(1,2) show False by blast
qed

text \<open>The memory of a well-formed string is its text, a terminator and what the block has left.\<close>

lemma str_ok_memory:
  assumes "str_ok s"
  obtains r where "text_mem s = Some (text_of s @ 0 # r)" "length (text_of s) = ssize s"
proof -
  obtain m where m: "text_mem s = Some m" "ssize s < length m" "m ! ssize s = 0" "text_of s = take (ssize s) m"
    "length (text_of s) = ssize s"
    by (rule str_okD [OF assms])
  have "m = text_of s @ 0 # drop (Suc (ssize s)) m" using id_take_nth_drop [OF m(2)] m(3,4) by simp
  with m show ?thesis by (intro that [of "drop (Suc (ssize s)) m"]) simp_all
qed


text \<open>
  C39: A stray byte hangs the interpreter: when the text of a string that is not marked ASCII has,
  behind some characters, a byte that no character starts with, such as a lone continuation byte,
  asking for its size never returns; every byte it looks at is inside the text.
\<close>

theorem String_getSize_hangs:
  assumes "str_ok s" "\<not> S_isASCII s" "text_of s = concat cs @ b # t"
    and "\<forall>c \<in> set cs. utf8_char c" "128 \<le> unat b" "unat b < 194"
  shows "String_getSize s = None"
proof -
  obtain r where r: "text_mem s = Some (text_of s @ 0 # r)" "length (text_of s) = ssize s"
    by (rule str_ok_memory [OF assms(1)])
  let ?m = "concat cs @ (b # t @ 0 # r)"
  have "utf8len b = utf8len_table ! (128 + (unat b - 128))" using assms(5) by (simp add: utf8len_def)
  also have "\<dots> = (replicate 64 0 @ [0, 0] @ replicate 14 2 @ replicate 16 2 @ replicate 16 3 @
      (replicate 8 4 @ replicate 4 5 @ [6, 6, 0, 0])) ! (unat b - 128)"
    by (simp add: utf8len_table_def nth_append)
  also have "\<dots> = 0" using assms(6) by (auto simp: nth_append nth_Cons' less_Suc_eq)
  finally have b: "utf8len b = 0" .
  have "text_mlen ?m (ssize s) = text_mlen_loop ?m (length (concat cs)) (ssize s) (length cs)"
    using text_mlen_loop_chars [OF assms(4), of "[]" "ssize s" "b # t @ 0 # r" 0] r(2) assms(3)
    by (simp add: text_mlen_def)
  also have "\<dots> = None"
    by (rule text_mlen_loop_stuck [OF _ _ b]) (use r(2) assms(3) in \<open>simp_all add: mem_get_def nth_append\<close>)
  finally show ?thesis using r assms(2,3)
    by (simp add: String_getSize_def String_unbox_def del: text_mem.simps)
qed

definition sample_e :: bytes where "sample_e = [0xC3, 0xA9]"

lemma sample_e_char: "utf8_char sample_e"
  by code_simp

lemma sample_not_ascii: "\<not> is_ascii t \<Longrightarrow> \<not> S_isASCII (sample_string t)"
  using str_ok_ascii [OF sample_string_ok(1) [of t]] sample_string_ok(2) [of t] by auto


theorem String_getSize_hangs_witness: "String_getSize (sample_string (sample_e @ [0xE9 - 0x60])) = None"
  by (rule String_getSize_hangs [OF sample_string_ok(1) sample_not_ascii, where cs = "[sample_e]" and b = "0x89" and t = "[]"])
    (simp_all add: sample_string_ok(2) sample_e_char [unfolded sample_e_def] sample_e_def is_ascii_def)

section \<open>Characters by index\<close>

lemma utf8_skip_chars:
  assumes "\<forall>c \<in> set cs. utf8_char c"
  shows "utf8_skip (p @ concat cs @ r) (length cs + n) (length p) =
         utf8_skip (p @ concat cs @ r) n (length p + length (concat cs))"
  using assms
proof (induction cs arbitrary: p)
  case (Cons c cs)
  note c = utf8_char_first(1) [of c "concat cs @ r"] utf8_char_first(2) [of c]
  have "mem_get (p @ concat (c # cs) @ r) (length p) = Some (hd c)"
    using mem_get_append [of p "concat (c # cs) @ r" 0] c Cons.prems by simp
  then have "utf8_skip (p @ concat (c # cs) @ r) (length (c # cs) + n) (length p) =
      utf8_skip (p @ concat (c # cs) @ r) (length cs + n) (length p + length c)"
    using c(2) Cons.prems by simp
  then show ?case using Cons.IH [of "p @ c"] Cons.prems by (simp add: add.assoc)
qed simp

lemmas utf8_skip_first = utf8_skip_chars [where p = "[]", simplified]

lemma uint_small: "0 \<le> i \<Longrightarrow> i < 2 ^ 31 \<Longrightarrow> uint (word_of_int i :: u64) = i"
  by (simp add: unsigned_of_int take_bit_int_eq_self)

lemma as_int_small: "0 \<le> i \<Longrightarrow> i < 2 ^ 31 \<Longrightarrow> as_int (word_of_int i) = i"
  using uint_small [of i]
  by (simp add: as_int_def signed_ucast_eq signed_take_bit_int_eq_self)

lemma unat_small: "0 \<le> i \<Longrightarrow> i < 2 ^ 31 \<Longrightarrow> unat (word_of_int i :: u64) = nat i"
  using uint_small [of i] by (simp flip: nat_uint_eq)

lemma bind_lift: "Option.bind (map_option Some x) (case_option e f) = Option.bind x f"
  by (cases x) simp_all

lemma utf8len_zero: "utf8len 0 = 1"
  by (simp add: utf8len_def utf8len_table_def nth_append)

lemma SPOL_pool [simp]:
  "\<not> TFLAG_is (or SPOL_POOL SPOL_UTF8) SPOL_TEXT" "\<not> TFLAG_is (or SPOL_POOL SPOL_UTF8) SPOL_NOCOPY"
  "\<not> TFLAG_is (or SPOL_POOL SPOL_UTF8) SPOL_ASCII" "TFLAG_is (or SPOL_POOL SPOL_UTF8) SPOL_UTF8"
  by (simp_all add: TFLAG_is_def SPOL_TEXT_def SPOL_ASCII_def SPOL_UTF8_def SPOL_NOCOPY_def SPOL_POOL_def)

text \<open>
  C32: Indexing a string of characters that is not marked ASCII and whose text the allocator holds.
  An index of a character gives it as a well-formed string. The index behind the last character,
  and the one behind that, raise the error. Any larger one reads past the end of the text's block,
  because only the position reached at the end is compared with the size.
\<close>

theorem String_get_bounds:
  assumes "str_ok s" "\<not> S_isASCII s" "S_isMallocText s" "text_of s = concat cs" "\<forall>c \<in> set cs. utf8_char c"
    and "0 \<le> i" "i < 2 ^ 31"
  shows "if nat i < length cs
         then \<exists>r. String_get junk s i uline = Some (Inr r) \<and> str_ok r \<and> text_of r = cs ! nat i
         else if nat i < length cs + 2 then String_get junk s i uline = Some (Inl (Out_of_array_index uline))
         else String_get junk s i uline = None"
proof -
  obtain r where r: "text_mem s = Some (text_of s @ 0 # r)" "length (text_of s) = ssize s"
    by (rule str_ok_memory [OF assms(1)])
  obtain b where "stext s = Text_malloc b" "length b = ssize s + 1"
    using assms(1,3) by (auto simp: str_ok_def simp del: text_mem.simps split: strtext.splits)
  then have m: "text_mem s = Some (concat cs @ [0])" "length (concat cs) = ssize s" using r assms(4) by auto
  let ?m = "concat cs @ [0]"
  have get: "String_get junk s i uline = (if utf8_skip ?m (nat i) 0 = None then None
      else let start = the (utf8_skip ?m (nat i) 0) in
        if start < ssize s then do {
          end \<leftarrow> utf8_skip ?m 1 start;
          r \<leftarrow> new_String junk (Some (drop start ?m)) (end - start) (or SPOL_POOL SPOL_UTF8);
          Some (Inr r) }
        else Some (Inl (Out_of_array_index uline)))"
    using assms(2,6,7) m(1)
    by (auto simp: String_get_def S_mget_def String_unbox_def as_int_small unat_small bind_lift Let_def
        simp del: text_mem.simps split: option.splits)
  show ?thesis
  proof (cases "nat i < length cs")
    case True
    let ?p = "concat (take (nat i) cs)" and ?c = "cs ! nat i" and ?q = "concat (drop (Suc (nat i)) cs) @ [0]"
    have split: "?m = ?p @ ?c @ ?q"
      using arg_cong [OF id_take_nth_drop [OF True], of concat] by simp
    have c: "utf8_char ?c" using True assms(5) by simp
    have "\<forall>c \<in> set (take (nat i) cs). utf8_char c" using assms(5) by (meson in_set_takeD)
    from utf8_skip_first [OF this, of "?c @ ?q" 0] have "utf8_skip ?m (nat i) 0 = Some (length ?p)"
      using True unfolding split [symmetric] by simp
    moreover have "length ?p < ssize s"
      using arg_cong [OF split, of length] c m(2) by (auto simp: utf8_char_def)
    moreover have "utf8_skip ?m 1 (length ?p) = Some (length ?p + length ?c)"
      unfolding split using utf8_skip_chars [of "[?c]" ?p ?q 0] c by simp
    moreover obtain r where "new_String junk (Some (?c @ ?q)) (length ?c) (or SPOL_POOL SPOL_UTF8) = Some r"
        "str_ok r" "text_of r = take (length ?c) (?c @ ?q)"
      by (rule new_String_copies [of "or SPOL_POOL SPOL_UTF8" "length ?c" "?c @ ?q" junk]) simp_all
    moreover have "drop (length ?p) ?m = ?c @ ?q" unfolding split by simp
    ultimately show ?thesis using True get by (simp only: Let_def) simp
  next
    case False
    have "utf8_skip ?m (nat i) 0 = utf8_skip ?m (nat i - length cs) (ssize s)"
      using utf8_skip_chars [OF assms(5), of "[]" "[0]" "nat i - length cs"] False m(2) by simp
    moreover have "mem_get ?m (ssize s) = Some 0" "mem_get ?m (Suc (ssize s)) = None"
      using m(2) by (auto simp: mem_get_def nth_append)
    moreover have "nat i - length cs = 0 \<or> nat i - length cs = 1 \<or> (\<exists>k. nat i - length cs = Suc (Suc k))"
      by presburger
    ultimately have "utf8_skip ?m (nat i) 0 = (if nat i = length cs then Some (ssize s)
        else if nat i = length cs + 1 then Some (Suc (ssize s)) else None)"
      using False by (auto simp: utf8len_zero split: if_splits)
    then show ?thesis using False get by (auto simp: Let_def)
  qed
qed

theorem String_get_bounds_witness:
  "let s = sample_string (concat (replicate 8 sample_e)) in
     (\<exists>r. String_get (\<lambda>_. 0) s 1 5 = Some (Inr r) \<and> text_of r = sample_e) \<and>
     String_get (\<lambda>_. 0) s 8 5 = Some (Inl (Out_of_array_index 5)) \<and> String_get (\<lambda>_. 0) s 10 5 = None"
proof -
  let ?cs = "replicate 8 sample_e"
  have len: "length (concat ?cs) = 16" and na: "\<not> is_ascii (concat ?cs)" by (code_simp, code_simp)
  have s: "S_isMallocText (sample_string (concat ?cs))" "\<not> S_isASCII (sample_string (concat ?cs))"
    using sample_string_malloc [of "concat ?cs"] sample_not_ascii [of "concat ?cs"] na len by auto
  note b = String_get_bounds [OF sample_string_ok(1) s(2,1) sample_string_ok(2), where junk = "\<lambda>_. 0" and uline = 5]
  show ?thesis using b [of 1] b [of 8] b [of 10] by (auto simp add: sample_e_char Let_def)
qed

section \<open>Upper case\<close>

lemma islower_iff: "islower c \<longleftrightarrow> 97 \<le> unat c \<and> unat c \<le> 122"
  by (simp add: islower_def word_le_nat_alt unat_chr)

lemma toupper_lower: "islower c \<Longrightarrow> unat (toupper c) = unat c - 32"
  by (simp add: toupper_def islower_iff unat_sub word_le_nat_alt unat_chr)

definition up :: "byte \<Rightarrow> byte" where
  "up c = (if islower c then toupper c else c)"

lemma up_ascii: "unat (up c) < 128 \<longleftrightarrow> unat c < 128"
  by (auto simp: up_def toupper_lower islower_iff)

lemma is_ascii_up: "is_ascii (map up t) \<longleftrightarrow> is_ascii t"
  by (simp add: is_ascii_def up_ascii)

text \<open>The new string before the letters are written, and what the two loops make of the text.\<close>

lemma case_loop_result:
  assumes "str_ok s0" "\<And>i. i < start \<Longrightarrow> \<not> P (text_of s0 ! i)" "start \<le> ssize s0"
  shows "case_loop P f junk s0 start = Some (S_setASCII
      (S_isASCII s0 \<or> is_ascii (take (duff_count (ssize s0)) ((fresh_buf junk (ssize s0))[ssize s0 := 0])))
      (fresh_string junk (ssize s0)
        (map (\<lambda>ch. if P ch then f ch else ch) (text_of s0) @ drop (ssize s0) ((fresh_buf junk (ssize s0))[ssize s0 := 0]))))"
proof -
  obtain r where r: "text_mem s0 = Some (text_of s0 @ 0 # r)" "length (text_of s0) = ssize s0"
    by (rule str_ok_memory [OF assms(1)])
  let ?n = "ssize s0" and ?t = "text_of s0" and ?g = "\<lambda>ch. if P ch then f ch else ch"
  define buf where "buf = (fresh_buf junk ?n)[?n := 0]"
  have len: "?n < length buf" using length_fresh_buf [of ?n junk] by (simp add: buf_def)
  let ?spol = "or (SPOL_sub s0) SPOL_NOCOPY"
  have spol: "\<not> TFLAG_is ?spol SPOL_TEXT" "TFLAG_is ?spol SPOL_ASCII = S_isASCII s0" "\<not> TFLAG_is ?spol SPOL_UTF8"
    by (simp_all add: SPOL_sub_def TFLAG_is_def SPOL_TEXT_def SPOL_ASCII_def SPOL_UTF8_def SPOL_NOCOPY_def)
  have new: "new_String junk None ?n ?spol = Some (S_setASCII (S_isASCII s0 \<or> is_ascii (take (duff_count ?n) buf))
      (fresh_string junk ?n buf))"
    using spol by (simp add: new_String_uninit policy_flag_def flip: buf_def)
  have "update_each (\<lambda>_. ?g) [start..<?n] (?t @ drop ?n buf) = map ?g ?t @ drop ?n buf"
    (is "?u = ?v")
  proof (rule nth_equalityI)
    show "length ?u = length ?v" by simp
    fix i assume i: "i < length ?u"
    show "?u ! i = ?v ! i"
    proof (cases "i < start")
      case True
      then show ?thesis using i assms(2) [OF True] assms(3) r(2) by (simp add: nth_update_each nth_append)
    next
      case False
      then show ?thesis using i r(2) by (simp add: nth_update_each nth_append)
    qed
  qed
  then show ?thesis using new r len
    by (simp add: case_loop_def mem_simps text_store_fresh flip: buf_def del: text_mem.simps)
qed

text \<open>
  Upper case turns every letter of a well-formed string, whatever was in the new memory.
  But the flag of the new string is taken from that memory before the text is copied into it:
  from cleared memory a text with other characters is marked ASCII, and then its size is no
  longer the number of its characters but of its bytes.
\<close>

theorem String_toUpper_loses_flag:
  assumes "str_ok s0" "\<not> is_ascii (text_of s0)" "\<exists>c \<in> set (text_of s0). islower c"
  shows "(\<exists>s. String_toUpper junk s0 = Some s \<and> text_of s = map up (text_of s0)) \<and>
     (\<exists>s. String_toUpper (\<lambda>_. 0) s0 = Some s \<and> S_isASCII s \<and> \<not> is_ascii (text_of s)
        \<and> String_getSize s = Some (length (text_of s0)))"
proof -
  obtain r where r: "text_mem s0 = Some (text_of s0 @ 0 # r)" "length (text_of s0) = ssize s0"
    by (rule str_ok_memory [OF assms(1)])
  let ?n = "ssize s0" and ?t = "text_of s0"
  have scan: "List.find (\<lambda>i. islower (?t ! i)) [0..<?n] \<noteq> None"
    using assms(3) r(2) by (auto simp: find_None_iff in_set_conv_nth)
  then obtain i where i: "List.find (\<lambda>i. islower (?t ! i)) [0..<?n] = Some i" by blast
  then have first: "i < ?n" "\<And>j. j < i \<Longrightarrow> \<not> islower (?t ! j)"
    by (auto simp: find_Some_iff)
  have "String_toUpper j s0 = case_loop islower toupper j s0 i" for j
    using r i by (simp add: String_toUpper_def case_scan_def S_toupper_def mem_simps del: text_mem.simps)
  then have res: "String_toUpper j s0 = Some (S_setASCII
      (S_isASCII s0 \<or> is_ascii (take (duff_count ?n) ((fresh_buf j ?n)[?n := 0])))
      (fresh_string j ?n (map up ?t @ drop ?n ((fresh_buf j ?n)[?n := 0]))))" for j
    using case_loop_result [OF assms(1), of i islower toupper j] first unfolding up_def by simp
  have tx: "text_of (S_setASCII b (fresh_string j ?n (map up ?t @ d))) = map up ?t" for b j d
    using r(2) by (simp add: text_of_def del: text_mem.simps)
  have zero: "is_ascii (take k ((fresh_buf (\<lambda>_. 0) ?n)[?n := 0]))" for k
    using set_take_subset [of k] set_update_subset_insert [of "fresh_buf (\<lambda>_. 0) ?n" ?n 0]
    by (fastforce simp: is_ascii_def fresh_buf_def)
  show ?thesis using res [of junk] res [of "\<lambda>_. 0"] zero assms(2) r(2)
    by (simp add: tx is_ascii_up String_getSize_def)
qed

theorem String_toUpper_loses_flag_witness:
  "\<exists>s. String_toUpper (\<lambda>_. 0) (sample_string (sample_e @ lit ''a'')) = Some s \<and> S_isASCII s \<and> String_getSize s = Some 3"
proof -
  have "\<not> is_ascii (sample_e @ lit ''a'')" "\<exists>c \<in> set (sample_e @ lit ''a''). islower c" by (code_simp, code_simp)
  then show ?thesis
    using String_toUpper_loses_flag [OF sample_string_ok(1), of "sample_e @ lit ''a''"]
    by (auto simp: sample_string_ok(2) lit_def sample_e_def numeral_3_eq_3)
qed

end
