(* ===== verification/Rope.thy ===== *)
theory Rope
  imports Strings
begin

text \<open>
  The rope package, \<^verbatim>\<open>package/konoha.rope/rope_glue.c\<close>: it replaces the construction,
  concatenation and release of strings. A concatenation of long strings only links its operands,
  and the first reader of the text copies it out and turns the rope into a flat string, for
  everyone who shares it. So strings live in a store and are named by their addresses.
\<close>

declare text_mem.simps [simp del]

section \<open>Kinds of strings\<close>

definition S_FLAG_MASK_BASE :: nat where "S_FLAG_MASK_BASE = 13"
definition S_FLAG_LINER :: nat where "S_FLAG_LINER = 1"
definition S_FLAG_NOFREE :: nat where "S_FLAG_NOFREE = 2"
definition S_FLAG_ROPE :: nat where "S_FLAG_ROPE = 4"
definition S_FLAG_INLINE :: nat where "S_FLAG_INLINE = S_FLAG_NOFREE"
definition S_FLAG_EXTERNAL :: nat where "S_FLAG_EXTERNAL = 3"

definition MASK_LINER :: u64 where "MASK_LINER = push_bit S_FLAG_MASK_BASE 1"
definition MASK_INLINE :: u64 where "MASK_INLINE = push_bit S_FLAG_MASK_BASE 2"
definition MASK_EXTERNAL :: u64 where "MASK_EXTERNAL = push_bit S_FLAG_MASK_BASE 3"
definition MASK_ROPE :: u64 where "MASK_ROPE = push_bit S_FLAG_MASK_BASE 4"

text \<open>The flag field is the low half of the word above bit 13; a value above the largest kind fails the assertion.\<close>

definition S_flag :: "kString \<Rightarrow> nat option" where
  "S_flag s = (let flag = unat (drop_bit S_FLAG_MASK_BASE (take_bit 32 (magicflag s)))
               in if flag \<le> S_FLAG_ROPE then Some flag else None)"

definition StringBase_isRope :: "kString \<Rightarrow> bool option" where
  "StringBase_isRope s = do { f \<leftarrow> S_flag s; Some (f = S_FLAG_ROPE) }"

definition StringBase_setFlag :: "u64 \<Rightarrow> kString \<Rightarrow> kString" where
  "StringBase_setFlag m s = s\<lparr>magicflag := or (magicflag s) m\<rparr>"

definition StringBase_unsetFlag :: "u64 \<Rightarrow> kString \<Rightarrow> kString" where
  "StringBase_unsetFlag m s = s\<lparr>magicflag := xor (magicflag s) m\<rparr>"

section \<open>The store\<close>

record store =
  strs :: "nat \<Rightarrow> kString option"
  next_addr :: nat

definition put_str :: "nat \<Rightarrow> kString \<Rightarrow> store \<Rightarrow> store" where
  "put_str a s h = h\<lparr>strs := (strs h)(a := Some s)\<rparr>"

definition alloc_str :: "kString \<Rightarrow> store \<Rightarrow> store \<times> nat" where
  "alloc_str s h = (h\<lparr>strs := (strs h)(next_addr h := Some s), next_addr := next_addr h + 1\<rparr>, next_addr h)"

section \<open>Construction\<close>

definition new_StringBase :: "(nat \<Rightarrow> byte) \<Rightarrow> u64 \<Rightarrow> kString" where
  "new_StringBase junk m = StringBase_setFlag m (StringBase_unsetFlag MASK_INLINE (new_StringObject junk))"

text \<open>The copying loop of an inline string reads a NULL text only when there is something to copy.\<close>

definition InlineString_new :: "kString \<Rightarrow> bytes option \<Rightarrow> nat \<Rightarrow> kString option" where
  "InlineString_new base t len =
     (let s = (StringBase_setFlag MASK_INLINE base)\<lparr>ssize := len\<rparr>
      in if len < SIZEOF_INLINETEXT then do {
           d \<leftarrow> (if len = 0 then Some [] else do { m \<leftarrow> t; mem_read m 0 len });
           buf \<leftarrow> mem_write (inline_text s) 0 d;
           buf \<leftarrow> mem_put buf len 0;
           Some (s\<lparr>inline_text := buf, stext := Text_inline\<rparr>)
         } else None)"

definition ExternalString_new :: "kString \<Rightarrow> bytes option \<Rightarrow> nat \<Rightarrow> kString" where
  "ExternalString_new base t len =
     (StringBase_setFlag MASK_EXTERNAL base)\<lparr>ssize := len,
        stext := (case t of None \<Rightarrow> Text_null | Some m \<Rightarrow> Text_static m)\<rparr>"

definition LinerString_new :: "(nat \<Rightarrow> byte) \<Rightarrow> kString \<Rightarrow> bytes option \<Rightarrow> nat \<Rightarrow> kString option" where
  "LinerString_new junk base t len = do {
     let s = (StringBase_setFlag MASK_LINER base)\<lparr>ssize := len\<rparr>;
     m \<leftarrow> t;
     d \<leftarrow> mem_read m 0 len;
     buf \<leftarrow> mem_write (map junk [0..<len + 1]) 0 d;
     buf \<leftarrow> mem_put buf len 0;
     Some (s\<lparr>stext := Text_malloc buf\<rparr>)
   }"

definition RopeString_new :: "(nat \<Rightarrow> byte) \<Rightarrow> nat \<Rightarrow> nat \<Rightarrow> nat \<Rightarrow> kString" where
  "RopeString_new junk left right len = (new_StringBase junk MASK_ROPE)\<lparr>ssize := len, stext := Children left right\<rparr>"

definition RopeString_toLinerString :: "kString \<Rightarrow> bytes \<Rightarrow> nat \<Rightarrow> kString" where
  "RopeString_toLinerString s t len =
     (StringBase_setFlag MASK_LINER (StringBase_unsetFlag MASK_ROPE s))\<lparr>ssize := len, stext := Text_malloc t\<rparr>"

definition Knew_String :: "(nat \<Rightarrow> byte) \<Rightarrow> bytes option \<Rightarrow> nat \<Rightarrow> u32 \<Rightarrow> kString option" where
  "Knew_String junk t len policy =
     (let s = new_StringBase junk 0
      in if len < SIZEOF_INLINETEXT then InlineString_new s t len
         else if TFLAG_is policy SPOL_TEXT then Some (ExternalString_new s t len)
         else LinerString_new junk s t len)"

definition String2_free :: "kString \<Rightarrow> nat option" where
  "String2_free s = (if S_isMallocText s then KFREE_text (stext s) (ssize s + 1) else Some 0)"

section \<open>Reading\<close>

text \<open>
  Copying a text behind position \<open>dst\<close> of a buffer. The loop goes on with the right part of a
  rope and calls itself for the left one; a string with an empty flag field makes it spin.
\<close>

partial_function (option) write_text :: "(nat \<Rightarrow> kString option) \<Rightarrow> nat \<Rightarrow> bytes \<Rightarrow> nat \<Rightarrow> nat \<Rightarrow> bytes option" where
  "write_text h base buf dst sz = do {
     s \<leftarrow> h base;
     f \<leftarrow> S_flag s;
     if f = S_FLAG_LINER \<or> f = S_FLAG_EXTERNAL then do {
       m \<leftarrow> text_mem s;
       d \<leftarrow> mem_read m 0 sz;
       mem_write buf dst d
     } else if f = S_FLAG_INLINE then
       (if ssize s < SIZEOF_INLINETEXT then do {
          d \<leftarrow> mem_read (inline_text s) 0 sz;
          mem_write buf dst d
        } else None)
     else if f = S_FLAG_ROPE then
       (case stext s of
          Children left right \<Rightarrow> do {
            l \<leftarrow> h left;
            r \<leftarrow> h right;
            if ssize l + ssize r = sz then do {
              let len = ssize l;
              buf \<leftarrow> write_text h left buf dst len;
              write_text h right buf (dst + len) (sz - len)
            } else None
          }
        | _ \<Rightarrow> None)
     else write_text h base buf dst sz
   }"

declare write_text.simps [code]

definition RopeString_flatten :: "(nat \<Rightarrow> byte) \<Rightarrow> store \<Rightarrow> nat \<Rightarrow> (store \<times> bytes) option" where
  "RopeString_flatten junk h rope = do {
     s \<leftarrow> strs h rope;
     let len = ssize s;
     let dest = map junk [0..<len + 1];
     (case stext s of
        Children left right \<Rightarrow> do {
          l \<leftarrow> strs h left;
          let llen = ssize l;
          dest \<leftarrow> write_text (strs h) left dest 0 llen;
          dest \<leftarrow> (if llen \<le> len then write_text (strs h) right dest llen (len - llen) else None);
          Some (put_str rope (RopeString_toLinerString s dest len) h, dest)
        }
      | _ \<Rightarrow> None)
   }"

definition String_getReference :: "(nat \<Rightarrow> byte) \<Rightarrow> store \<Rightarrow> nat \<Rightarrow> (store \<times> bytes) option" where
  "String_getReference junk h a = do {
     s \<leftarrow> strs h a;
     f \<leftarrow> S_flag s;
     if f = S_FLAG_LINER \<or> f = S_FLAG_EXTERNAL \<or> f = S_FLAG_INLINE then do { m \<leftarrow> text_mem s; Some (h, m) }
     else if f = S_FLAG_ROPE then RopeString_flatten junk h a
     else None
   }"

definition String2_unbox :: "(nat \<Rightarrow> byte) \<Rightarrow> store \<Rightarrow> nat \<Rightarrow> (store \<times> bytes) option" where
  "String2_unbox = String_getReference"

text \<open>The addresses the collector visits, in order.\<close>

partial_function (option) StringBase_reftrace :: "(nat \<Rightarrow> kString option) \<Rightarrow> nat \<Rightarrow> nat list option" where
  "StringBase_reftrace h a = do {
     s \<leftarrow> h a;
     rope \<leftarrow> StringBase_isRope s;
     if \<not> rope then Some []
     else (case stext s of
        Children left right \<Rightarrow> do {
          ls \<leftarrow> StringBase_reftrace h left;
          rs \<leftarrow> StringBase_reftrace h right;
          Some (ls @ [a, left, right] @ rs)
        }
      | _ \<Rightarrow> None)
   }"

declare StringBase_reftrace.simps [code]

section \<open>Concatenation\<close>

definition StringBase_concat :: "(nat \<Rightarrow> byte) \<Rightarrow> store \<Rightarrow> nat \<Rightarrow> nat \<Rightarrow> (store \<times> nat) option" where
  "StringBase_concat junk h left right = do {
     l \<leftarrow> strs h left;
     let llen = ssize l;
     if llen = 0 then Some (h, right)
     else do {
       r \<leftarrow> strs h right;
       let rlen = ssize r;
       if rlen = 0 then Some (h, left)
       else do {
         let len = llen + rlen;
         if len < SIZEOF_INLINETEXT then do {
           let (h, ret) = alloc_str (new_StringBase junk MASK_INLINE) h;
           (h, s0) \<leftarrow> String_getReference junk h left;
           (h, s1) \<leftarrow> String_getReference junk h right;
           s \<leftarrow> strs h ret;
           d0 \<leftarrow> mem_read s0 0 llen;
           buf \<leftarrow> mem_write (inline_text s) 0 d0;
           d1 \<leftarrow> mem_read s1 0 rlen;
           buf \<leftarrow> mem_write buf llen d1;
           buf \<leftarrow> mem_put buf len 0;
           Some (put_str ret (s\<lparr>ssize := len, inline_text := buf, stext := Text_inline\<rparr>) h, ret)
         } else Some (alloc_str (RopeString_new junk left right len) h)
       }
     }
   }"

definition Rope_opADD :: "(nat \<Rightarrow> byte) \<Rightarrow> store \<Rightarrow> nat \<Rightarrow> nat \<Rightarrow> (store \<times> nat) option" where
  "Rope_opADD = StringBase_concat"

section \<open>The text of a string\<close>

text \<open>
  What a string stands for: the bytes of a flat or inline string, and for a rope the text of its
  left child followed by that of its right child, whose sizes add up to its own.
\<close>

inductive denotes :: "(nat \<Rightarrow> kString option) \<Rightarrow> nat \<Rightarrow> bytes \<Rightarrow> bool" for h where
  flat: "h a = Some s \<Longrightarrow> S_flag s = Some f \<Longrightarrow> f = S_FLAG_LINER \<or> f = S_FLAG_EXTERNAL \<Longrightarrow>
    text_mem s = Some m \<Longrightarrow> ssize s \<le> length m \<Longrightarrow> denotes h a (take (ssize s) m)"
| inline: "h a = Some s \<Longrightarrow> S_flag s = Some S_FLAG_INLINE \<Longrightarrow> stext s = Text_inline \<Longrightarrow>
    ssize s < SIZEOF_INLINETEXT \<Longrightarrow> length (inline_text s) = SIZEOF_INLINETEXT \<Longrightarrow>
    denotes h a (take (ssize s) (inline_text s))"
| rope: "h a = Some s \<Longrightarrow> S_flag s = Some S_FLAG_ROPE \<Longrightarrow> stext s = Children l r \<Longrightarrow>
    denotes h l t \<Longrightarrow> denotes h r u \<Longrightarrow> ssize s = length t + length u \<Longrightarrow> denotes h a (t @ u)"

inductive_cases denotesE: "denotes h a t"

lemmas FLAG_defs = S_FLAG_LINER_def S_FLAG_EXTERNAL_def S_FLAG_INLINE_def S_FLAG_NOFREE_def S_FLAG_ROPE_def

lemma denotes_size: "denotes h a t \<Longrightarrow> \<exists>s. h a = Some s \<and> ssize s = length t"
  by (erule denotesE) (auto simp: SIZEOF_INLINETEXT_def)

lemma denotes_unique: "denotes h a t \<Longrightarrow> denotes h a u \<Longrightarrow> t = u"
proof (induction arbitrary: u rule: denotes.induct)
  case (flat a s f m)
  from flat.prems show ?case
    by (rule denotesE) (use flat.hyps in \<open>auto simp: FLAG_defs\<close>)
next
  case (inline a s)
  from inline.prems show ?case
    by (rule denotesE) (use inline.hyps in \<open>auto simp: FLAG_defs\<close>)
next
  case (rope a s l r t v)
  from rope.prems show ?case
    by (rule denotesE) (use rope.hyps in \<open>auto simp: FLAG_defs dest: rope.IH\<close>)
qed

text \<open>Copying a string's text writes exactly that text.\<close>

definition paste :: "bytes \<Rightarrow> nat \<Rightarrow> bytes \<Rightarrow> bytes" where
  "paste buf dst t = take dst buf @ t @ drop (dst + length t) buf"

lemma mem_write_paste: "dst + length t \<le> length buf \<Longrightarrow> mem_write buf dst t = Some (paste buf dst t)"
  by (simp add: mem_simps paste_def)

lemma length_paste [simp]: "dst + length t \<le> length buf \<Longrightarrow> length (paste buf dst t) = length buf"
  by (simp add: paste_def)

lemma paste_paste:
  "dst + length t + length u \<le> length buf \<Longrightarrow>
     paste (paste buf dst t) (dst + length t) u = paste buf dst (t @ u)"
  by (simp add: paste_def ac_simps)

lemma write_text_denotes:
  assumes "denotes h a t" "dst + length t \<le> length buf"
  shows "write_text h a buf dst (length t) = Some (paste buf dst t)"
  using assms
proof (induction arbitrary: buf dst rule: denotes.induct)
  case (flat a s f m)
  then show ?case
    by (subst write_text.simps)
      (simp add: mem_read_Some mem_write_paste min_absorb2 FLAG_defs)
next
  case (inline a s)
  then show ?case
    by (subst write_text.simps) (simp add: mem_read_Some mem_write_paste min_absorb2 FLAG_defs)
next
  case (rope a s l r t u)
  obtain sl sr where "h l = Some sl" "ssize sl = length t" "h r = Some sr" "ssize sr = length u"
    using denotes_size [OF rope.hyps(4)] denotes_size [OF rope.hyps(5)] by blast
  with rope show ?case
    by (subst write_text.simps) (simp add: FLAG_defs paste_paste)
qed

text \<open>
  A new string at an unused address, and a string that is replaced by a flat one with the same
  text, leave the text of every string as it was.
\<close>

lemma denotes_alloc: "denotes h b u \<Longrightarrow> h c = None \<Longrightarrow> denotes (h(c := x)) b u"
proof (induction rule: denotes.induct)
  case (flat a s f m)
  then show ?case by (intro denotes.flat) auto
next
  case (inline a s)
  then show ?case by (intro denotes.inline) auto
next
  case (rope a s l r t u)
  then show ?case by (intro denotes.rope [of _ _ s l r]) auto
qed

lemma denotes_unused:
  assumes "denotes h b u" "\<And>v. \<not> denotes h c v"
  shows "denotes (h(c := x)) b u"
  using assms
proof (induction rule: denotes.induct)
  case (flat a s f m)
  then show ?case using denotes.flat [of h a s f m] by (intro denotes.flat) auto
next
  case (inline a s)
  then show ?case using denotes.inline [of h a s] by (intro denotes.inline) auto
next
  case (rope a s l r t u)
  then show ?case using denotes.rope [OF rope.hyps] by (intro denotes.rope [of _ _ s l r]) auto
qed

lemma denotes_flatten:
  assumes "denotes h b u" "denotes h a t" "denotes (h(a := Some s')) a t"
  shows "denotes (h(a := Some s')) b u"
  using assms
proof (induction rule: denotes.induct)
  case (flat b s f m)
  then show ?case
    by (cases "b = a") (use denotes.flat [of h b s f m] denotes_unique in blast, intro denotes.flat, auto)
next
  case (inline b s)
  then show ?case
    by (cases "b = a") (use denotes.inline [of h b s] denotes_unique in blast, intro denotes.inline, auto)
next
  case (rope b s l r t' u)
  show ?case
  proof (cases "b = a")
    case True
    then show ?thesis using denotes.rope [OF rope.hyps] rope.prems denotes_unique by blast
  next
    case False
    then show ?thesis using rope by (intro denotes.rope [of _ _ s l r]) auto
  qed
qed

section \<open>Kinds after each operation\<close>

lemma magicflag_base: "magicflag (new_StringBase junk m) = m"
  by (simp add: new_StringBase_def StringBase_setFlag_def StringBase_unsetFlag_def new_StringObject_def
      String_init_def S_setTextSgm_def TFLAG_set_def kObject_Local2_def MASK_INLINE_def S_FLAG_MASK_BASE_def)

lemmas MASK_defs = MASK_LINER_def MASK_EXTERNAL_def MASK_INLINE_def MASK_ROPE_def S_FLAG_MASK_BASE_def

lemma S_flag_masks:
  "magicflag s = MASK_LINER \<Longrightarrow> S_flag s = Some S_FLAG_LINER"
  "magicflag s = MASK_EXTERNAL \<Longrightarrow> S_flag s = Some S_FLAG_EXTERNAL"
  "magicflag s = MASK_INLINE \<Longrightarrow> S_flag s = Some S_FLAG_INLINE"
  "magicflag s = MASK_ROPE \<Longrightarrow> S_flag s = Some S_FLAG_ROPE"
  by (simp_all add: S_flag_def MASK_defs FLAG_defs Let_def)

lemma S_flag_toLiner:
  assumes "S_flag s = Some S_FLAG_ROPE"
  shows "S_flag (RopeString_toLinerString s t len) = Some S_FLAG_LINER"
proof -
  let ?f = "\<lambda>m :: u64. drop_bit S_FLAG_MASK_BASE (take_bit 32 m)"
  have v: "?f MASK_ROPE = 4" "?f MASK_LINER = 1" by (simp_all add: MASK_defs)
  have "?f (magicflag s) = 4"
    using assms by (simp add: S_flag_def Let_def FLAG_defs word_unat_eq_iff split: if_splits)
  then have "?f (magicflag (RopeString_toLinerString s t len)) = 1"
    using v by (simp add: RopeString_toLinerString_def StringBase_setFlag_def StringBase_unsetFlag_def)
  then show ?thesis by (simp only: S_flag_def Let_def FLAG_defs) simp
qed

section \<open>Reading and concatenation keep every text\<close>

definition store_ok :: "store \<Rightarrow> bool" where
  "store_ok h \<longleftrightarrow> (\<forall>a \<ge> next_addr h. strs h a = None)"

definition keeps_texts :: "store \<Rightarrow> store \<Rightarrow> bool" where
  "keeps_texts h h' \<longleftrightarrow> (\<forall>b u. denotes (strs h) b u \<longrightarrow> denotes (strs h') b u)"

lemma keeps_texts_refl: "keeps_texts h h"
  by (simp add: keeps_texts_def)

lemma keeps_texts_trans: "keeps_texts h h1 \<Longrightarrow> keeps_texts h1 h2 \<Longrightarrow> keeps_texts h h2"
  by (simp add: keeps_texts_def)

text \<open>Reading a rope copies both texts, leaves the byte behind them as it was allocated, and flattens.\<close>

lemma flatten_reads:
  assumes "denotes (strs h) a t" "strs h a = Some s" "S_flag s = Some S_FLAG_ROPE"
  shows "RopeString_flatten junk h a =
      Some (put_str a (RopeString_toLinerString s (t @ [junk (length t)]) (length t)) h, t @ [junk (length t)])"
proof -
  obtain l r u v where s: "stext s = Children l r" "denotes (strs h) l u" "denotes (strs h) r v"
      "ssize s = length u + length v" "t = u @ v"
    using assms by (auto elim: denotesE simp: FLAG_defs)
  obtain sl sr where "strs h l = Some sl" "ssize sl = length u" "strs h r = Some sr" "ssize sr = length v"
    using denotes_size [OF s(2)] denotes_size [OF s(3)] by blast
  moreover have "paste (map junk [0..<length t + 1]) 0 (u @ v) = t @ [junk (length t)]"
    using s(5) by (simp add: paste_def)
  ultimately show ?thesis
    using s assms(2) write_text_denotes [OF s(2), of 0 "map junk [0..<length t + 1]"]
      write_text_denotes [OF s(3), of "length u" "paste (map junk [0..<length t + 1]) 0 u"]
      paste_paste [of 0 u v "map junk [0..<length t + 1]"]
    by (simp add: RopeString_flatten_def Let_def del: upt_Suc)
qed

lemma String_getReference_reads:
  assumes "denotes (strs h) a t"
  shows "\<exists>h' m. String_getReference junk h a = Some (h', m) \<and> length t \<le> length m \<and> take (length t) m = t
     \<and> next_addr h' = next_addr h \<and> (\<forall>b. strs h' b = None \<longleftrightarrow> strs h b = None) \<and> keeps_texts h h'
     \<and> (\<forall>b. b \<noteq> a \<longrightarrow> strs h' b = strs h b)"
  using assms
proof (cases rule: denotes.cases)
  case (flat s f m)
  then show ?thesis by (auto simp: String_getReference_def FLAG_defs keeps_texts_refl min_absorb2)
next
  case (inline s)
  then show ?thesis
    by (auto simp: String_getReference_def FLAG_defs keeps_texts_refl text_mem.simps min_absorb2)
next
  case (rope s l r u v)
  let ?s' = "RopeString_toLinerString s (t @ [junk (length t)]) (length t)"
  let ?h' = "put_str a ?s' h"
  have get: "String_getReference junk h a = Some (?h', t @ [junk (length t)])"
    using rope flatten_reads [OF assms rope(2,3)] by (simp add: String_getReference_def FLAG_defs)
  have "denotes (strs ?h') a (take (ssize ?s') (t @ [junk (length t)]))"
    by (rule denotes.flat [OF _ S_flag_toLiner [OF rope(3)]])
      (simp_all add: put_str_def RopeString_toLinerString_def text_mem.simps)
  then have "denotes (strs ?h') a t" by (simp add: RopeString_toLinerString_def)
  then have "keeps_texts h ?h'"
    using denotes_flatten assms unfolding keeps_texts_def put_str_def by simp
  with get rope(2) show ?thesis by (auto simp: put_str_def)
qed

lemma keeps_texts_alloc:
  "store_ok h \<Longrightarrow> keeps_texts h (fst (alloc_str s h))"
  by (simp add: keeps_texts_def alloc_str_def store_ok_def denotes_alloc)

lemma store_ok_alloc: "store_ok h \<Longrightarrow> store_ok (fst (alloc_str s h))"
  by (auto simp: store_ok_def alloc_str_def)

lemma denotes_rope:
  assumes "store_ok h" "denotes (strs h) a t" "denotes (strs h) b u"
  shows "denotes (strs (fst (alloc_str (RopeString_new junk a b (length t + length u)) h))) (next_addr h) (t @ u)"
proof (rule denotes.rope)
  let ?h' = "fst (alloc_str (RopeString_new junk a b (length t + length u)) h)"
  show "strs ?h' (next_addr h) = Some (RopeString_new junk a b (length t + length u))"
    by (simp add: alloc_str_def)
  show "S_flag (RopeString_new junk a b (length t + length u)) = Some S_FLAG_ROPE"
    by (rule S_flag_masks) (simp add: RopeString_new_def magicflag_base)
  show "denotes (strs ?h') a t" "denotes (strs ?h') b u"
    using keeps_texts_alloc [OF assms(1)] assms(2,3) by (simp_all add: keeps_texts_def)
qed (simp_all add: RopeString_new_def)

lemma StringBase_concat_texts:
  assumes "store_ok h" "denotes (strs h) a t" "denotes (strs h) b u"
  shows "\<exists>h' c. StringBase_concat junk h a b = Some (h', c) \<and> store_ok h' \<and> denotes (strs h') c (t @ u) \<and> keeps_texts h h'"
proof -
  obtain sa sb where sz: "strs h a = Some sa" "ssize sa = length t" "strs h b = Some sb" "ssize sb = length u"
    using denotes_size [OF assms(2)] denotes_size [OF assms(3)] by blast
  consider "t = []" | "t \<noteq> []" "u = []" | "t \<noteq> []" "u \<noteq> []" "length t + length u < SIZEOF_INLINETEXT"
    | "t \<noteq> []" "u \<noteq> []" "\<not> length t + length u < SIZEOF_INLINETEXT" by blast
  then show ?thesis
  proof cases
    case 1
    then show ?thesis using assms sz by (simp add: StringBase_concat_def Let_def keeps_texts_refl)
  next
    case 2
    then show ?thesis using assms sz by (simp add: StringBase_concat_def Let_def keeps_texts_refl)
  next
    case 4
    let ?s = "RopeString_new junk a b (length t + length u)"
    have "StringBase_concat junk h a b = Some (fst (alloc_str ?s h), next_addr h)"
      using 4 sz by (simp add: StringBase_concat_def Let_def alloc_str_def)
    then show ?thesis
      using denotes_rope [OF assms] keeps_texts_alloc [OF assms(1)] store_ok_alloc [OF assms(1)] by blast
  next
    case 3
    let ?n = "length t + length u" and ?c = "next_addr h" and ?s = "new_StringBase junk MASK_INLINE"
    define h0 where "h0 = fst (alloc_str ?s h)"
    have h0: "alloc_str ?s h = (h0, ?c)" "strs h0 ?c = Some ?s" "store_ok h0" "keeps_texts h h0"
      using store_ok_alloc [OF assms(1)] keeps_texts_alloc [OF assms(1)] by (simp_all add: h0_def alloc_str_def)
    have ne: "a \<noteq> ?c" "b \<noteq> ?c" using sz assms(1) by (auto simp: store_ok_def)
    obtain h1 m1 where h1: "String_getReference junk h0 a = Some (h1, m1)" "length t \<le> length m1" "take (length t) m1 = t"
        "next_addr h1 = next_addr h0" "\<And>x. strs h1 x = None \<longleftrightarrow> strs h0 x = None" "keeps_texts h0 h1"
        "\<And>x. x \<noteq> a \<Longrightarrow> strs h1 x = strs h0 x"
      using String_getReference_reads [of h0 a t junk] h0(4) assms(2) by (auto simp: keeps_texts_def)
    obtain h2 m2 where h2: "String_getReference junk h1 b = Some (h2, m2)" "length u \<le> length m2" "take (length u) m2 = u"
        "next_addr h2 = next_addr h1" "\<And>x. strs h2 x = None \<longleftrightarrow> strs h1 x = None" "keeps_texts h1 h2"
        "\<And>x. x \<noteq> b \<Longrightarrow> strs h2 x = strs h1 x"
      using String_getReference_reads [of h1 b u junk] h0(4) h1(6) assms(3) by (auto simp: keeps_texts_def)
    have c: "strs h2 ?c = Some ?s" using h0(2) h1(7) [of ?c] h2(7) [of ?c] ne by simp
    let ?buf = "(paste (inline_text ?s) 0 (t @ u))[?n := 0]"
    let ?s' = "?s\<lparr>ssize := ?n, inline_text := ?buf, stext := Text_inline\<rparr>"
    have il: "length (inline_text ?s) = SIZEOF_INLINETEXT"
      by (simp add: new_StringBase_def StringBase_setFlag_def StringBase_unsetFlag_def)
    then have lb: "length ?buf = SIZEOF_INLINETEXT" "take ?n ?buf = t @ u"
      using 3(3) by (simp_all add: paste_def)
    have cat: "StringBase_concat junk h a b = Some (put_str ?c ?s' h2, ?c)"
      using 3 sz h0(1) h1(1-3) h2(1-3) c il paste_paste [of 0 t u "inline_text ?s"]
      by (simp add: StringBase_concat_def Let_def mem_read_Some mem_write_paste mem_put_Some)
    have ok: "store_ok (put_str ?c ?s' h2)"
      using h0(3) h1(4,5) h2(4,5) by (auto simp: store_ok_def put_str_def h0_def alloc_str_def)
    have "S_flag ?s = Some S_FLAG_INLINE" "S_flag ?s' = Some S_FLAG_INLINE"
      by (rule S_flag_masks, simp add: magicflag_base)+
    moreover have "stext ?s = Text_static [0]"
      by (simp add: new_StringBase_def StringBase_setFlag_def StringBase_unsetFlag_def)
    ultimately have none: "\<not> denotes (strs h2) ?c v" and res: "denotes (strs (put_str ?c ?s' h2)) ?c (t @ u)" for v
      using c denotes.inline [of "strs (put_str ?c ?s' h2)" ?c ?s'] 3(3) lb
      by (auto elim: denotesE simp: FLAG_defs text_mem.simps put_str_def simp del: list_update_id)
    have "keeps_texts h2 (put_str ?c ?s' h2)"
      using none denotes_unused [of "strs h2" _ _ ?c] by (simp add: keeps_texts_def put_str_def)
    then have "keeps_texts h (put_str ?c ?s' h2)"
      using h0(4) h1(6) h2(6) keeps_texts_trans by blast
    with cat ok res show ?thesis by blast
  qed
qed

definition rope_rel :: "store \<Rightarrow> nat \<Rightarrow> bytes \<Rightarrow> bool" where
  "rope_rel h a t \<longleftrightarrow> denotes (strs h) a t"

interpretation rope_text: string_store store_ok rope_rel "Rope_opADD junk" for junk
proof unfold_locales
  fix h a t b u
  assume "store_ok h" "rope_rel h a t" "rope_rel h b u"
  then show "\<exists>h' c. Rope_opADD junk h a b = Some (h', c) \<and> store_ok h' \<and> rope_rel h' c (t @ u)
      \<and> (\<forall>d v. rope_rel h d v \<longrightarrow> rope_rel h' d v)"
    using StringBase_concat_texts [of h a t b u junk] by (simp add: Rope_opADD_def rope_rel_def keeps_texts_def)
qed

section \<open>Both implementations build the same texts\<close>

text \<open>A script that appends pieces to a string, with the rope package and without it.\<close>

definition rope_append :: "(nat \<Rightarrow> byte) \<Rightarrow> store \<Rightarrow> nat \<Rightarrow> nat list \<Rightarrow> (store \<times> nat) option" where
  "rope_append junk h a bs = fold (\<lambda>b r. Option.bind r (\<lambda>(h, a). Rope_opADD junk h a b)) bs (Some (h, a))"

definition core_append :: "(nat \<Rightarrow> byte) \<Rightarrow> kString \<Rightarrow> kString list \<Rightarrow> (unit \<times> kString) option" where
  "core_append junk s ss = fold (\<lambda>b r. Option.bind r (\<lambda>(h, a). core_cat junk h a b)) ss (Some ((), s))"

text \<open>
  C26: Ropes are invisible to scripts. Appending any strings to a string, where pieces may be
  shared or be ropes themselves, is defined with and without the rope package, and reading the
  rope then gives the bytes the core's concatenation has copied together.
\<close>

theorem rope_append_agrees:
  assumes "store_ok h" "denotes (strs h) a t" "list_all2 (denotes (strs h)) bs us"
    and "has_text () s t" "list_all2 (has_text ()) ss us"
  shows "\<exists>h1 c s' h2 m. rope_append junk h a bs = Some (h1, c) \<and> core_append junk' s ss = Some ((), s')
     \<and> str_ok s' \<and> String_getReference junk h1 c = Some (h2, m) \<and> ssize s' \<le> length m
     \<and> take (ssize s') m = text_of s' \<and> text_of s' = t @ concat us"
proof -
  obtain h1 c where c: "rope_append junk h a bs = Some (h1, c)" "denotes (strs h1) c (t @ concat us)"
    using rope_text.cat_all [OF assms(1), of a t bs us junk] assms(2,3)
    by (auto simp: rope_append_def rope_rel_def [abs_def])
  obtain u s' where s': "core_append junk' s ss = Some (u, s')" "has_text u s' (t @ concat us)"
    using core_text.cat_all [OF TrueI assms(4,5), of junk'] by (auto simp: core_append_def)
  then have sz: "ssize s' = length (t @ concat us)"
    by (auto simp: has_text_def elim!: str_okD)
  show ?thesis using String_getReference_reads [OF c(2), of junk] c(1) s' sz
    by (auto simp: has_text_def)
qed

text \<open>A store with two flat strings and a rope of them.\<close>

definition sample_liner :: "bytes \<Rightarrow> kString" where
  "sample_liner t = the (Knew_String (\<lambda>_. 9) (Some (t @ [0])) (length t) 0)"

definition sample_store :: store where
  "sample_store = \<lparr>strs = [0 \<mapsto> sample_liner (lit ''the text of a kite''), 1 \<mapsto> sample_liner (lit '' is long'')], next_addr = 2\<rparr>"

lemma new_StringBase_fields [simp]:
  "ssize (new_StringBase junk m) = 0" "inline_text (new_StringBase junk m) = map junk [0..<SIZEOF_INLINETEXT]"
  by (simp_all add: new_StringBase_def StringBase_setFlag_def StringBase_unsetFlag_def new_StringObject_def
      String_init_def S_setTextSgm_def)

lemma or_zero_flag: "magicflag (StringBase_setFlag m (new_StringBase junk 0)) = m"
  by (simp add: StringBase_setFlag_def magicflag_base)

lemma set_flag_text [simp]:
  "ssize (StringBase_setFlag m s) = ssize s" "inline_text (StringBase_setFlag m s) = inline_text s"
  by (simp_all add: StringBase_setFlag_def)

text \<open>What a new string is, by its length and policy.\<close>

lemma end_mark:
  "len \<le> length m \<Longrightarrow> len < length buf \<Longrightarrow> (take len m @ drop len buf)[len := 0] = take len m @ 0 # drop (len + 1) buf"
  by (simp add: list_update_append Cons_nth_drop_Suc [symmetric])

lemma Knew_String_inline:
  assumes "len < SIZEOF_INLINETEXT" "len \<le> length m"
  shows "Knew_String junk (Some m) len policy = Some ((StringBase_setFlag MASK_INLINE (new_StringBase junk 0))
     \<lparr>ssize := len, inline_text := take len m @ 0 # drop (len + 1) (map junk [0..<SIZEOF_INLINETEXT]), stext := Text_inline\<rparr>)"
proof -
  let ?buf = "map junk [0..<SIZEOF_INLINETEXT]"
  have b: "length ?buf = SIZEOF_INLINETEXT" by simp
  have "Option.bind (if len = 0 then Some [] else mem_read m 0 len) (mem_write ?buf 0) = Some (take len m @ drop len ?buf)"
    using assms b by (cases "len = 0") (simp_all add: mem_simps del: length_map)
  moreover have "mem_put (take len m @ drop len ?buf) len 0 = Some (take len m @ 0 # drop (len + 1) ?buf)"
    using assms b end_mark [OF assms(2), of ?buf] by (simp add: mem_put_Some)
  ultimately show ?thesis
    using assms(1) by (auto simp: Knew_String_def InlineString_new_def bind_Some_iff Let_def simp del: map_upt_Suc)
qed

lemma Knew_String_liner:
  assumes "\<not> len < SIZEOF_INLINETEXT" "len \<le> length m" "\<not> TFLAG_is policy SPOL_TEXT"
  shows "Knew_String junk (Some m) len policy = Some ((StringBase_setFlag MASK_LINER (new_StringBase junk 0))
     \<lparr>ssize := len, stext := Text_malloc (take len m @ [0])\<rparr>)"
  using assms by (simp add: Knew_String_def LinerString_new_def mem_simps list_update_append Let_def)

lemma Knew_String_denotes:
  assumes "h a = Some (the (Knew_String junk (Some m) len policy))" "len \<le> length m" "\<not> TFLAG_is policy SPOL_TEXT"
  shows "denotes h a (take len m)"
proof (cases "len < SIZEOF_INLINETEXT")
  case True
  let ?s = "the (Knew_String junk (Some m) len policy)"
  note s = Knew_String_inline [OF True assms(2), of junk policy]
  have "denotes h a (take (ssize ?s) (inline_text ?s))"
    by (rule denotes.inline [of h a ?s, OF assms(1)])
      (use True assms(2) in \<open>simp_all add: s S_flag_masks(3) or_zero_flag\<close>)
  then show ?thesis using assms(2) by (simp add: s)
next
  case False
  let ?s = "the (Knew_String junk (Some m) len policy)"
  note s = Knew_String_liner [OF False assms(2,3), of junk]
  have "denotes h a (take (ssize ?s) (take len m @ [0]))"
    by (rule denotes.flat [of h a ?s, OF assms(1), of S_FLAG_LINER])
      (use assms(2) in \<open>simp_all add: s S_flag_masks(1) or_zero_flag text_mem.simps\<close>)
  then show ?thesis using assms(2) by (simp add: s)
qed

lemma SPOL_zero [simp]: "\<not> TFLAG_is 0 SPOL_TEXT"
  by (simp add: TFLAG_is_def SPOL_TEXT_def)

lemma sample_store_ok:
  "store_ok sample_store" "denotes (strs sample_store) 0 (lit ''the text of a kite'')"
  "denotes (strs sample_store) 1 (lit '' is long'')"
proof -
  show "store_ok sample_store" by (simp add: store_ok_def sample_store_def)
  have "denotes (strs sample_store) a (take (length t) (t @ [0]))"
    if "strs sample_store a = Some (sample_liner t)" for a t
    using that Knew_String_denotes [of "strs sample_store" a _ "t @ [0]" "length t" 0]
    by (simp add: sample_liner_def)
  from this [of 0 "lit ''the text of a kite''"] this [of 1 "lit '' is long''"]
  show "denotes (strs sample_store) 0 (lit ''the text of a kite'')" "denotes (strs sample_store) 1 (lit '' is long'')"
    by (simp_all add: sample_store_def)
qed

theorem rope_append_agrees_witness:
  "\<exists>h1 c s' h2 m. rope_append (\<lambda>_. 9) sample_store 0 [1, 1] = Some (h1, c)
     \<and> core_append (\<lambda>_. 3) (sample_string (lit ''the text of a kite'')) (replicate 2 (sample_string (lit '' is long''))) = Some ((), s')
     \<and> String_getReference (\<lambda>_. 9) h1 c = Some (h2, m) \<and> take (ssize s') m = text_of s'
     \<and> text_of s' = lit ''the text of a kite is long is long''"
proof -
  have "list_all2 (denotes (strs sample_store)) [1, 1] (replicate 2 (lit '' is long''))"
    using sample_store_ok(3) by (simp add: numeral_2_eq_2)
  moreover have "list_all2 (has_text ()) (replicate 2 (sample_string (lit '' is long''))) (replicate 2 (lit '' is long''))"
    by (simp add: numeral_2_eq_2 has_text_def sample_string_ok)
  moreover have "has_text () (sample_string (lit ''the text of a kite'')) (lit ''the text of a kite'')"
    by (simp add: has_text_def sample_string_ok)
  moreover have "lit ''the text of a kite'' @ concat (replicate 2 (lit '' is long'')) = lit ''the text of a kite is long is long''"
    by (simp add: lit_def numeral_2_eq_2)
  ultimately show ?thesis
    using rope_append_agrees [OF sample_store_ok(1,2), of "[1, 1]" "replicate 2 (lit '' is long'')"
        "sample_string (lit ''the text of a kite'')" "replicate 2 (sample_string (lit '' is long''))"
        "\<lambda>_. 9" "\<lambda>_. 3"] by metis
qed

section \<open>Two defects\<close>

lemma cstring_none: "0 \<notin> set m \<Longrightarrow> cstring m = None"
  by (induction m) auto

text \<open>
  The text of a rope has no end: reading it is defined and gives all its bytes, but the byte
  behind them is never written, so for a text without zeros in a block that held no zero there, any
  reader that looks for the terminator runs off the block.
\<close>

theorem rope_text_unterminated:
  assumes "denotes (strs h) a t" "strs h a = Some s" "S_flag s = Some S_FLAG_ROPE" "0 \<notin> set t"
  shows "\<exists>h' m. String_getReference junk h a = Some (h', m) \<and> take (length t) m = t \<and> m ! length t = junk (length t)
     \<and> (junk (length t) \<noteq> 0 \<longrightarrow> cstring m = None)"
proof -
  have "String_getReference junk h a = RopeString_flatten junk h a"
    using assms(2,3) by (simp add: String_getReference_def FLAG_defs)
  with flatten_reads [OF assms(1-3), of junk] show ?thesis
    using assms(4) by (auto simp: nth_append intro: cstring_none)
qed

definition sample_rope :: store where
  "sample_rope = fst (the (Rope_opADD (\<lambda>_. 7) sample_store 0 1))"

theorem rope_text_unterminated_witness:
  "\<exists>h' m. String_getReference (\<lambda>_. 7) sample_rope 2 = Some (h', m) \<and> cstring m = None"
proof -
  let ?t = "lit ''the text of a kite''" and ?u = "lit '' is long''"
  obtain s0 s1 where s: "strs sample_store 0 = Some s0" "ssize s0 = length ?t" "strs sample_store 1 = Some s1" "ssize s1 = length ?u"
    using denotes_size [OF sample_store_ok(2)] denotes_size [OF sample_store_ok(3)] by blast
  let ?r = "RopeString_new (\<lambda>_. 7) 0 1 (length ?t + length ?u)"
  have n: "next_addr sample_store = 2" by (simp add: sample_store_def)
  have len: "length ?t = 18" "length ?u = 8" by (simp_all add: lit_def)
  have rope: "sample_rope = fst (alloc_str ?r sample_store)"
    using s len by (simp add: sample_rope_def Rope_opADD_def StringBase_concat_def Let_def SIZEOF_INLINETEXT_def alloc_str_def)
  have "denotes (strs sample_rope) 2 (?t @ ?u)"
    using denotes_rope [OF sample_store_ok, of "\<lambda>_. 7"] unfolding rope n by simp
  moreover have "strs sample_rope 2 = Some ?r" unfolding rope by (simp add: alloc_str_def n)
  moreover have "S_flag ?r = Some S_FLAG_ROPE"
    by (rule S_flag_masks) (simp add: RopeString_new_def magicflag_base)
  moreover have "0 \<notin> set (?t @ ?u)" by (simp add: lit_def)
  ultimately show ?thesis
    using rope_text_unterminated [of sample_rope 2 "?t @ ?u" ?r "\<lambda>_. 7"] by auto
qed

lemma S_isMallocText_bit: "S_isMallocText s \<longleftrightarrow> bit (magicflag s) 13"
  by (simp add: S_isMallocText_def local_defs TFLAG_is_bit del: push_bit_of_1)

text \<open>
  C33: Releasing a string that was just made. An inline string has no block, and an allocated text
  goes back whole. But the flags of an external text include the one that marks an allocated text,
  so its release frees memory the allocator never gave out.
\<close>

theorem String2_free_after_new:
  assumes "Knew_String junk (Some m) len policy = Some s"
  shows "String2_free s =
     (if len < SIZEOF_INLINETEXT then Some 0
      else if TFLAG_is policy SPOL_TEXT then None else Some (len + 1))"
proof -
  consider "len < SIZEOF_INLINETEXT" | "\<not> len < SIZEOF_INLINETEXT" "TFLAG_is policy SPOL_TEXT"
    | "\<not> len < SIZEOF_INLINETEXT" "\<not> TFLAG_is policy SPOL_TEXT" by blast
  then show ?thesis
  proof cases
    case 1
    have "magicflag s = MASK_INLINE"
      using assms 1 or_zero_flag [of MASK_INLINE junk]
      by (auto simp: Knew_String_def InlineString_new_def Let_def bind_Some_iff split: if_splits)
    then have "\<not> S_isMallocText s" by (simp add: S_isMallocText_bit MASK_defs bit_simps)
    with 1 show ?thesis by (simp add: String2_free_def)
  next
    case 2
    then have s: "magicflag s = MASK_EXTERNAL" "stext s = Text_static m"
      using assms or_zero_flag [of MASK_EXTERNAL junk] by (auto simp: Knew_String_def ExternalString_new_def Let_def)
    then have "S_isMallocText s" by (simp add: S_isMallocText_bit MASK_defs bit_simps)
    with s 2 show ?thesis by (simp add: String2_free_def KFREE_text_def)
  next
    case 3
    then obtain buf where s: "magicflag s = MASK_LINER" "stext s = Text_malloc buf" "ssize s = len" "length buf = len + 1"
      using assms or_zero_flag [of MASK_LINER junk]
      by (auto simp: Knew_String_def LinerString_new_def Let_def bind_Some_iff mem_put_def
          dest!: length_mem_write split: if_splits)
    then have "S_isMallocText s" by (simp add: S_isMallocText_bit MASK_defs bit_simps)
    with s 3 show ?thesis by (simp add: String2_free_def KFREE_text_def)
  qed
qed

theorem String2_free_after_new_witness:
  "String2_free (the (Knew_String (\<lambda>_. 0) (Some (lit ''a constant of the host'')) 22 SPOL_TEXT)) = None"
proof -
  obtain s where "Knew_String (\<lambda>_. 0) (Some (lit ''a constant of the host'')) 22 SPOL_TEXT = Some s"
    by (simp add: Knew_String_def SIZEOF_INLINETEXT_def TFLAG_is_def Let_def)
  from String2_free_after_new [OF this] this show ?thesis
    by (simp add: SIZEOF_INLINETEXT_def TFLAG_is_def)
qed

end
