(* ===== verification/Collections.thy ===== *)
theory Collections
  imports Stringlib
begin

text \<open>
  The containers scripts use: \<^verbatim>\<open>Array\<close> of \<^verbatim>\<open>src/konoha/datatype.h\<close> with the methods of
  \<^verbatim>\<open>package/konoha/array_glue.h\<close>, \<^verbatim>\<open>Bytes\<close> of \<^verbatim>\<open>package/konoha.bytes/bytes_glue.h\<close> and
  \<^verbatim>\<open>HashMap\<close> of \<^verbatim>\<open>package/konoha.hashmap/hashmap_glue.h\<close>. A cell is a word: a number, or the
  address of an object, where 0 is NULL.
\<close>

section \<open>Arrays\<close>

record kArray =
  unboxData :: bool
  items :: "u64 karray"

definition kArray_size :: "kArray \<Rightarrow> nat" where
  "kArray_size a = bytesize (items a) div 8"

definition kArray_setsize :: "kArray \<Rightarrow> nat \<Rightarrow> kArray" where
  "kArray_setsize a n = a\<lparr>items := (items a)\<lparr>bytesize := n * 8\<rparr>\<rparr>"

text \<open>\<open>isUnbox\<close> says whether the class parameter is an unboxed type.\<close>

definition Array_init :: "bool \<Rightarrow> nat \<Rightarrow> kArray" where
  "Array_init isUnbox conf =
     (let m = \<lparr>bytesize = 0, bytebuf = [], bytemax = conf * 8\<rparr>;
          m = (if bytemax m > 0 then karray_init 8 m (bytemax m) else m)
      in \<lparr>unboxData = isUnbox, items = m\<rparr>)"

definition Array_reftrace :: "kArray \<Rightarrow> u64 list option" where
  "Array_reftrace a = (if \<not> unboxData a then mem_read (bytebuf (items a)) 0 (kArray_size a) else Some [])"

definition Array_free :: "kArray \<Rightarrow> kArray" where
  "Array_free a = a\<lparr>items := karray_free (items a)\<rparr>"

definition sizeof_kObject :: nat where
  "sizeof_kObject = 8 * 8"

definition Array_ensureMinimumSize :: "kArray \<Rightarrow> nat \<Rightarrow> kArray" where
  "Array_ensureMinimumSize a mn =
     (let minbyte = mn * 8 in
      if \<not> minbyte < bytemax (items a)
      then (let minbyte = (if minbyte < sizeof_kObject then sizeof_kObject else minbyte)
            in a\<lparr>items := karray_expand 8 (items a) minbyte\<rparr>)
      else a)"

text \<open>Adding asserts that the next cell is still clear.\<close>

definition Array_add :: "kArray \<Rightarrow> u64 \<Rightarrow> kArray option" where
  "Array_add a v = do {
     let asize = kArray_size a;
     let a = Array_ensureMinimumSize a (asize + 1);
     c \<leftarrow> mem_get (bytebuf (items a)) asize;
     if c = 0 then do {
       buf \<leftarrow> mem_put (bytebuf (items a)) asize v;
       Some (kArray_setsize (a\<lparr>items := (items a)\<lparr>bytebuf := buf\<rparr>\<rparr>) (asize + 1))
     } else None
   }"

definition Array_insert :: "kArray \<Rightarrow> nat \<Rightarrow> u64 \<Rightarrow> kArray option" where
  "Array_insert a n v = do {
     let asize = kArray_size a;
     if \<not> n < asize then Array_add a v
     else do {
       let a = Array_ensureMinimumSize a (asize + 1);
       d \<leftarrow> mem_read (bytebuf (items a)) n (asize - n);
       buf \<leftarrow> mem_write (bytebuf (items a)) (n + 1) d;
       buf \<leftarrow> mem_put buf n v;
       Some (kArray_setsize (a\<lparr>items := (items a)\<lparr>bytebuf := buf\<rparr>\<rparr>) (asize + 1))
     }
   }"

definition Array_clear :: "kArray \<Rightarrow> nat \<Rightarrow> kArray option" where
  "Array_clear a n =
     (let asize = kArray_size a in
      if asize \<ge> n then
        (if asize > n then do {
           buf \<leftarrow> mem_write (bytebuf (items a)) n (replicate (asize - n) 0);
           Some (kArray_setsize (a\<lparr>items := (items a)\<lparr>bytebuf := buf\<rparr>\<rparr>) n)
         } else Some a)
      else None)"

section \<open>Methods of arrays\<close>

definition Array_get :: "kArray \<Rightarrow> int \<Rightarrow> u64 \<Rightarrow> (script_error + u64) option" where
  "Array_get a i uline = (case check_index i (kArray_size a) uline of
     Inl e \<Rightarrow> Some (Inl e)
   | Inr n \<Rightarrow> map_option Inr (mem_get (bytebuf (items a)) n))"

definition Array_set :: "kArray \<Rightarrow> int \<Rightarrow> u64 \<Rightarrow> u64 \<Rightarrow> (script_error + kArray) option" where
  "Array_set a i v uline = (case check_index i (kArray_size a) uline of
     Inl e \<Rightarrow> Some (Inl e)
   | Inr n \<Rightarrow> do {
       buf \<leftarrow> mem_put (bytebuf (items a)) n v;
       Some (Inr (a\<lparr>items := (items a)\<lparr>bytebuf := buf\<rparr>\<rparr>))
     })"

text \<open>The number of bytes is a product of words; the loop writes as many cells as were asked for.\<close>

definition Array_newArray :: "kArray \<Rightarrow> int \<Rightarrow> u64 \<Rightarrow> kArray option" where
  "Array_newArray a i knull_p0 =
     (let asize = (word_of_int i :: u64); nbytes = unat (asize * 8);
          list = replicate (nbytes div 8) 0
      in do {
        list \<leftarrow> (if \<not> unboxData a then mem_write list 0 (replicate (unat asize) knull_p0) else Some list);
        Some (a\<lparr>items := \<lparr>bytesize = nbytes, bytebuf = list, bytemax = nbytes\<rparr>\<rparr>)
      })"

definition NArray_ensureMinimumSize :: "kArray \<Rightarrow> nat \<Rightarrow> kArray" where
  "NArray_ensureMinimumSize a mn =
     (let minbyte = mn * 8 in
      if \<not> minbyte < bytemax (items a)
      then (let minbyte = (if minbyte < sizeof_kObject then sizeof_kObject else minbyte)
            in a\<lparr>items := karray_expand 8 (items a) minbyte\<rparr>)
      else a)"

definition NArray_add :: "kArray \<Rightarrow> u64 \<Rightarrow> kArray option" where
  "NArray_add a v = do {
     let asize = kArray_size a;
     let a = NArray_ensureMinimumSize a (asize + 1);
     c \<leftarrow> mem_get (bytebuf (items a)) asize;
     if c = 0 then do {
       buf \<leftarrow> mem_put (bytebuf (items a)) asize v;
       Some (kArray_setsize (a\<lparr>items := (items a)\<lparr>bytebuf := buf\<rparr>\<rparr>) (asize + 1))
     } else None
   }"

definition Array_add1 :: "kArray \<Rightarrow> u64 \<Rightarrow> kArray option" where
  "Array_add1 a v = (if unboxData a then NArray_add a v else Array_add a v)"

section \<open>Bytes\<close>

text \<open>The buffer of a fresh object of size zero is NULL.\<close>

record kBytes =
  bbuf :: "bytes option"
  bsize :: nat

definition Bytes_init :: "nat \<Rightarrow> kBytes" where
  "Bytes_init conf = \<lparr>bbuf = (if conf > 0 then Some (replicate conf 0) else None), bsize = conf\<rparr>"

definition Bytes_free :: "kBytes \<Rightarrow> kBytes" where
  "Bytes_free ba = (if bbuf ba \<noteq> None then ba\<lparr>bbuf := None, bsize := 0\<rparr> else ba)"

definition String_toBytes :: "kString \<Rightarrow> kBytes option" where
  "String_toBytes s =
     (let ba = Bytes_init (ssize s) in
      if ssize s \<noteq> 0 then do {
        t \<leftarrow> text_mem s;
        d \<leftarrow> mem_read t 0 (ssize s + 1);
        buf \<leftarrow> bbuf ba;
        buf \<leftarrow> mem_write buf 0 d;
        Some (ba\<lparr>bbuf := Some buf\<rparr>)
      } else Some ba)"

definition Bytes_get :: "kBytes \<Rightarrow> int \<Rightarrow> u64 \<Rightarrow> (script_error + int) option" where
  "Bytes_get ba i uline = (case check_index i (bsize ba) uline of
     Inl e \<Rightarrow> Some (Inl e)
   | Inr n \<Rightarrow> do { m \<leftarrow> bbuf ba; c \<leftarrow> mem_get m n; Some (Inr (uint c)) })"

definition Bytes_set :: "kBytes \<Rightarrow> int \<Rightarrow> int \<Rightarrow> u64 \<Rightarrow> (script_error + kBytes \<times> int) option" where
  "Bytes_set ba i c uline = (case check_index i (bsize ba) uline of
     Inl e \<Rightarrow> Some (Inl e)
   | Inr n \<Rightarrow> do {
       m \<leftarrow> bbuf ba;
       m \<leftarrow> mem_put m n (word_of_int c);
       c \<leftarrow> mem_get m n;
       Some (Inr (ba\<lparr>bbuf := Some m\<rparr>, uint c))
     })"

text \<open>The value comes from the second argument of the frame, though the method is registered with one.\<close>

definition Bytes_setAll :: "kBytes \<Rightarrow> int \<Rightarrow> kBytes option" where
  "Bytes_setAll ba sfp2 =
     (if bsize ba = 0 then Some ba
      else do {
        m \<leftarrow> bbuf ba;
        m \<leftarrow> mem_write m 0 (replicate (bsize ba) (word_of_int sfp2));
        Some (ba\<lparr>bbuf := Some m\<rparr>)
      })"

definition Bytes_getSize :: "kBytes \<Rightarrow> nat" where
  "Bytes_getSize ba = bsize ba"

definition Bytes_new :: "int \<Rightarrow> kBytes" where
  "Bytes_new i = Bytes_init (unat (word_of_int i :: u64))"

section \<open>Hash maps\<close>

text \<open>An entry has a hash and a value; its key is never stored.\<close>

definition HashMap_init :: "(nat \<Rightarrow> unit kmape) \<Rightarrow> unit kmap option" where
  "HashMap_init junk = do { _ \<leftarrow> Kmap_init junk 4; Kmap_init junk 4 }"

definition HashMap_get :: "unit kmap \<Rightarrow> kString \<Rightarrow> u64 option" where
  "HashMap_get m key = do {
     t \<leftarrow> String_unbox key;
     t \<leftarrow> mem_read t 0 (ssize key);
     e \<leftarrow> Kmap_getentry m (strhash t);
     e \<leftarrow> e;
     x \<leftarrow> deref m e;
     Some (uvalue x)
   }"

definition HashMap_set :: "(nat \<Rightarrow> unit kmape) \<Rightarrow> unit kmap \<Rightarrow> kString \<Rightarrow> u64 \<Rightarrow> unit kmap option" where
  "HashMap_set junk m key v = do {
     t \<leftarrow> String_unbox key;
     t \<leftarrow> mem_read t 0 (ssize key);
     (m, e) \<leftarrow> Kmap_newentry junk m (strhash t);
     x \<leftarrow> deref m e;
     m \<leftarrow> Kmap.store m e (x\<lparr>uvalue := v\<rparr>);
     Kmap_add m e
   }"

section \<open>Contract of a growing sequence\<close>

text \<open>Adding at the end is defined, keeps the invariant and appends to the elements.\<close>

locale growing_sequence =
  fixes ok :: "'s \<Rightarrow> bool"
    and elems :: "'s \<Rightarrow> 'e list"
    and add :: "'s \<Rightarrow> 'e \<Rightarrow> 's option"
  assumes add_appends: "ok s \<Longrightarrow> \<exists>s'. add s x = Some s' \<and> ok s' \<and> elems s' = elems s @ [x]"
begin

lemma add_all:
  assumes "ok s"
  shows "\<exists>s'. fold (\<lambda>x r. Option.bind r (\<lambda>s. add s x)) xs (Some s) = Some s' \<and> ok s' \<and> elems s' = elems s @ xs"
  using assms
proof (induction xs arbitrary: s)
  case Nil
  then show ?case by simp
next
  case (Cons x xs)
  obtain s1 where s1: "add s x = Some s1" "ok s1" "elems s1 = elems s @ [x]"
    using add_appends [OF Cons.prems] by blast
  then show ?case using Cons.IH [OF s1(2)] by auto
qed

end

section \<open>Arrays are lists\<close>

text \<open>The sizes count whole cells, and the cells behind the last element are clear.\<close>

definition array_ok :: "kArray \<Rightarrow> bool" where
  "array_ok a \<longleftrightarrow> karray_ok 8 (items a) \<and> 8 dvd bytesize (items a) \<and> 8 dvd bytemax (items a)
     \<and> (\<forall>i < length (bytebuf (items a)). kArray_size a \<le> i \<longrightarrow> bytebuf (items a) ! i = 0)"

definition elems :: "kArray \<Rightarrow> u64 list" where
  "elems a = take (kArray_size a) (bytebuf (items a))"

lemma array_okD:
  assumes "array_ok a"
  shows "kArray_size a \<le> length (bytebuf (items a))" "length (elems a) = kArray_size a"
    "bytesize (items a) = kArray_size a * 8" "bytemax (items a) = length (bytebuf (items a)) * 8"
    "bytebuf (items a) = elems a @ replicate (length (bytebuf (items a)) - kArray_size a) 0"
proof -
  show b: "bytesize (items a) = kArray_size a * 8" "bytemax (items a) = length (bytebuf (items a)) * 8"
    using assms by (auto simp: array_ok_def kArray_size_def karray_ok_def)
  show l: "kArray_size a \<le> length (bytebuf (items a))"
    using assms b by (simp add: array_ok_def karray_ok_def)
  then show "length (elems a) = kArray_size a" by (simp add: elems_def)
  have "drop (kArray_size a) (bytebuf (items a)) = replicate (length (bytebuf (items a)) - kArray_size a) 0"
    using assms l by (intro nth_equalityI) (simp_all add: array_ok_def)
  then show "bytebuf (items a) = elems a @ replicate (length (bytebuf (items a)) - kArray_size a) 0"
    unfolding elems_def by (metis append_take_drop_id)
qed

text \<open>An array with \<open>xs\<close> as its elements and \<open>k\<close> clear cells behind them.\<close>

definition array_of :: "bool \<Rightarrow> u64 list \<Rightarrow> nat \<Rightarrow> kArray" where
  "array_of u xs k = \<lparr>unboxData = u, items =
     \<lparr>bytesize = length xs * 8, bytebuf = xs @ replicate k 0, bytemax = (length xs + k) * 8\<rparr>\<rparr>"

lemma array_of_ok: "array_ok (array_of u xs k)" "elems (array_of u xs k) = xs" "kArray_size (array_of u xs k) = length xs"
  "unboxData (array_of u xs k) = u"
  by (simp_all add: array_ok_def array_of_def kArray_size_def karray_ok_def elems_def nth_append)

lemma array_ok_iff: "array_ok a \<longleftrightarrow> (\<exists>k. a = array_of (unboxData a) (elems a) k)"
proof
  assume ok: "array_ok a"
  note D = array_okD [OF ok]
  have "a = array_of (unboxData a) (elems a) (length (bytebuf (items a)) - kArray_size a)"
    using D by (cases a, cases "items a") (simp add: array_of_def)
  then show "\<exists>k. a = array_of (unboxData a) (elems a) k" by blast
next
  assume "\<exists>k. a = array_of (unboxData a) (elems a) k"
  then show "array_ok a" using array_of_ok(1) by metis
qed

lemma ensure_array_of:
  assumes "length xs < n"
  shows "\<exists>k'. Array_ensureMinimumSize (array_of u xs k) n = array_of u xs k' \<and> n \<le> length xs + k'"
proof (cases "n * 8 < bytemax (items (array_of u xs k))")
  case True
  then show ?thesis by (intro exI [of _ k]) (simp add: Array_ensureMinimumSize_def array_of_def)
next
  case False
  define mb where "mb = (if n * 8 < sizeof_kObject then sizeof_kObject else n * 8)"
  let ?m = "items (array_of u xs k)" and ?e = "karray_expand 8 (items (array_of u xs k)) mb"
  have mb: "8 dvd mb" "n * 8 \<le> mb" "0 < mb" using assms by (auto simp: mb_def sizeof_kObject_def)
  have ok: "karray_ok 8 ?m" using array_of_ok(1) by (simp add: array_ok_def)
  note E = karray_expand_bytemax [OF mb(3), of 8 ?m] karray_expand_bytesize [OF ok, of mb] karray_expand_bytebuf [OF ok, of mb]
  obtain q where q: "bytemax ?e = q * 8" "n \<le> q" "length xs + k \<le> q"
  proof -
    have "8 dvd bytemax ?e" using E(1) mb(1) by (simp add: array_of_def max_def)
    then obtain q where "bytemax ?e = q * 8" by (metis dvd_def mult.commute)
    then show ?thesis using that [of q] E(1) mb(2) by (simp add: array_of_def max_def split: if_splits)
  qed
  have "bytebuf ?e = xs @ replicate (q - length xs) 0"
    using E(3) q by (simp add: array_of_def replicate_add [symmetric])
  moreover have "bytesize ?e = length xs * 8" using E(2) by (simp add: array_of_def)
  ultimately have "Array_ensureMinimumSize (array_of u xs k) n = array_of u xs (q - length xs)"
    using False q by (simp add: Array_ensureMinimumSize_def Let_def array_of_def flip: mb_def)
  with q(2) show ?thesis by auto
qed

lemma array_of_store:
  "kArray_setsize ((array_of u xs k)\<lparr>items := (items (array_of u xs k))\<lparr>bytebuf := ys @ replicate j 0\<rparr>\<rparr>) (length ys) = array_of u ys j"
  if "length ys + j = length xs + k"
  using that by (simp add: kArray_setsize_def array_of_def)

lemma Array_add_array_of:
  "\<exists>k'. Array_add (array_of u xs k) v = Some (array_of u (xs @ [v]) k')"
proof -
  obtain k' where k': "Array_ensureMinimumSize (array_of u xs k) (length xs + 1) = array_of u xs k'" "length xs + 1 \<le> length xs + k'"
    using ensure_array_of [of xs "length xs + 1" u k] by auto
  then obtain j where j: "k' = Suc j" by (cases k') auto
  have buf: "bytebuf (items (array_of u xs k')) = xs @ replicate k' 0" by (simp add: array_of_def)
  then have "mem_put (bytebuf (items (array_of u xs k'))) (length xs) v = Some ((xs @ [v]) @ replicate j 0)"
      "mem_get (bytebuf (items (array_of u xs k'))) (length xs) = Some 0"
    by (simp_all add: mem_put_def mem_get_def j list_update_append nth_append)
  then show ?thesis
    using k'(1) array_of_store [of "xs @ [v]" j xs k' u] j
    by (simp add: Array_add_def Let_def array_of_ok(3)) blast
qed

lemma NArray_add_same: "NArray_add = Array_add"
  by (intro ext) (simp add: NArray_add_def Array_add_def NArray_ensureMinimumSize_def Array_ensureMinimumSize_def)

lemma Array_insert_array_of:
  "\<exists>k'. Array_insert (array_of u xs k) n v = Some (array_of u (take n xs @ v # drop n xs) k')"
proof (cases "n < length xs")
  case False
  then show ?thesis using Array_add_array_of [of u xs k v] by (simp add: Array_insert_def array_of_ok(3) Let_def)
next
  case True
  obtain k' where k': "Array_ensureMinimumSize (array_of u xs k) (length xs + 1) = array_of u xs k'" "length xs + 1 \<le> length xs + k'"
    using ensure_array_of [of xs "length xs + 1" u k] by auto
  then obtain j where j: "k' = Suc j" by (cases k') auto
  let ?b = "bytebuf (items (array_of u xs k'))" and ?ys = "take n xs @ v # drop n xs"
  have buf: "?b = xs @ replicate (Suc j) 0" by (simp add: array_of_def j)
  have rd: "mem_read ?b n (length xs - n) = Some (drop n xs)" using True by (simp add: buf mem_simps)
  have split: "take (Suc n) xs = take n xs @ [xs ! n]" using True by (simp add: take_Suc_conv_app_nth)
  have "mem_write ?b (n + 1) (drop n xs) = Some (take n xs @ xs ! n # drop n xs @ replicate j 0)"
    using True by (simp add: buf mem_simps split)
  moreover have "mem_put (take n xs @ xs ! n # drop n xs @ replicate j 0) n v = Some (?ys @ replicate j 0)"
    using True by (simp add: mem_put_def list_update_append)
  ultimately show ?thesis
    using True k'(1) rd array_of_store [of ?ys j xs k' u] j
    by (simp add: Array_insert_def Let_def array_of_ok(3)) blast
qed

lemma Array_clear_array_of:
  assumes "n \<le> length xs"
  shows "\<exists>k'. Array_clear (array_of u xs k) n = Some (array_of u (take n xs) k')"
proof (cases "n = length xs")
  case True
  then show ?thesis by (auto simp: Array_clear_def array_of_ok(3) Let_def)
next
  case False
  then have n: "n < length xs" using assms by simp
  have "mem_write (bytebuf (items (array_of u xs k))) n (replicate (length xs - n) 0)
      = Some (take n xs @ replicate (length xs - n + k) 0)"
    using n by (simp add: array_of_def mem_simps) (simp flip: replicate_add)
  then show ?thesis
    using n array_of_store [of "take n xs" "length xs - n + k" xs k u]
    by (auto simp: Array_clear_def Let_def array_of_ok(3) min_def)
qed

lemma Array_add1_appends:
  assumes "array_ok a"
  shows "\<exists>a'. Array_add1 a v = Some a' \<and> array_ok a' \<and> elems a' = elems a @ [v] \<and> unboxData a' = unboxData a"
proof -
  obtain k where a: "a = array_of (unboxData a) (elems a) k" using assms array_ok_iff by blast
  obtain k' where "Array_add a v = Some (array_of (unboxData a) (elems a @ [v]) k')"
    using Array_add_array_of [of "unboxData a" "elems a" k v] a by metis
  then show ?thesis by (simp add: Array_add1_def NArray_add_same array_of_ok)
qed

interpretation arr: growing_sequence array_ok elems Array_add1
  by unfold_locales (use Array_add1_appends in blast)

text \<open>
  C28: Arrays implement lists. On a well-formed array, adding, inserting at any position and
  clearing from a position are defined, stay inside the buffer across its growth, keep the array
  well formed, and do to its elements what the list operations do; so the assertion that the next
  cell is clear always holds.
\<close>

theorem Array_refines_list:
  assumes "array_ok a"
  shows "(\<exists>a'. Array_add1 a v = Some a' \<and> array_ok a' \<and> elems a' = elems a @ [v]) \<and>
     (\<exists>a'. Array_insert a n v = Some a' \<and> array_ok a' \<and> elems a' = take n (elems a) @ v # drop n (elems a)) \<and>
     (if n \<le> length (elems a) then \<exists>a'. Array_clear a n = Some a' \<and> array_ok a' \<and> elems a' = take n (elems a)
      else Array_clear a n = None)"
proof (intro conjI)
  obtain k where a: "a = array_of (unboxData a) (elems a) k" using assms array_ok_iff by blast
  show "\<exists>a'. Array_add1 a v = Some a' \<and> array_ok a' \<and> elems a' = elems a @ [v]"
    using Array_add1_appends [OF assms] by blast
  show "\<exists>a'. Array_insert a n v = Some a' \<and> array_ok a' \<and> elems a' = take n (elems a) @ v # drop n (elems a)"
    using Array_insert_array_of [of "unboxData a" "elems a" k n v] a array_of_ok by metis
  show "if n \<le> length (elems a) then \<exists>a'. Array_clear a n = Some a' \<and> array_ok a' \<and> elems a' = take n (elems a)
      else Array_clear a n = None"
  proof (cases "n \<le> length (elems a)")
    case True
    then show ?thesis
      using Array_clear_array_of [of n "elems a" "unboxData a" k] a array_of_ok by (metis (full_types))
  next
    case False
    then show ?thesis using array_okD(2) [OF assms] by (simp add: Array_clear_def Let_def)
  qed
qed

lemma Array_init_ok: "array_ok (Array_init u n)" "elems (Array_init u n) = []"
proof -
  have "Array_init u n = array_of u [] n"
    by (simp add: Array_init_def array_of_def karray_init_def Let_def)
  then show "array_ok (Array_init u n)" "elems (Array_init u n) = []" by (simp_all add: array_of_ok)
qed

theorem Array_refines_list_witness:
  "\<exists>a. Array_add1 (Array_init False 0) 5 = Some a \<and> elems a = [5]"
  using Array_refines_list [OF Array_init_ok(1), of False 0 5 0] by (auto simp: Array_init_ok(2))

section \<open>Bytes and hash maps\<close>

text \<open>
  C40: Converting a string to bytes copies its terminator as well into an object of the size of
  the text: every string but the empty one writes one byte past the new block.
\<close>

theorem String_toBytes_overflows:
  assumes "str_ok s"
  shows "String_toBytes s = (if ssize s = 0 then Some (Bytes_init 0) else None)"
proof -
  obtain r where r: "text_mem s = Some (text_of s @ 0 # r)" "length (text_of s) = ssize s"
    by (rule str_ok_memory [OF assms])
  have "mem_write (replicate (ssize s) 0) 0 d = None" if "length d = ssize s + 1" for d :: bytes
    using that by (simp add: mem_write_def)
  then show ?thesis using r
    by (auto simp: String_toBytes_def Bytes_init_def Let_def mem_simps simp del: text_mem.simps)
qed

theorem String_toBytes_overflows_witness: "String_toBytes (sample_string (lit ''x'')) = None"
  using String_toBytes_overflows [OF sample_string_ok(1)] sample_string_ok [of "lit ''x''"]
  by (auto simp: lit_def elim!: str_okD)

text \<open>
  A hash map of the script language forgets its keys: it finds a value by the hash of the
  key alone, so of two keys with the same hash one reads the value of the other, and a key whose
  hash is not in the map makes it follow a NULL entry.
\<close>

theorem HashMap_confuses_keys:
  "Option.bind (HashMap_init (\<lambda>_. zero_entry)) (\<lambda>m.
     Option.bind (HashMap_set (\<lambda>_. zero_entry) m (sample_string (lit ''Aa'')) 1) (\<lambda>m.
       Some (HashMap_get m (sample_string (lit ''BB'')), HashMap_get m (sample_string (lit ''A'')))))
   = Some (Some 1, None)"
  by code_simp

end
