(* ===== verification/Classes.thy ===== *)
theory Classes
  imports Symbols
begin

text \<open>
  The class table of \<^verbatim>\<open>src/konoha/datatype.h\<close>: parameter lists and their interning
  (\<^verbatim>\<open>Kparam\<close>, \<^verbatim>\<open>Kparamdom\<close>), creation of classes (\<^verbatim>\<open>new_CT\<close>), the size classes of
  parameter objects (\<^verbatim>\<open>CT_body\<close>), instances of generic classes (\<^verbatim>\<open>CT_Generics\<close>), subtyping,
  class names, and the objects of script classes with their default values.

  A \<^verbatim>\<open>kclass_t *\<close> is the number of its allocation, which is also its position in the table
  \<^verbatim>\<open>share->ca\<close>. The first four cells of an object are its header, and \<open>junk\<close> is what
  uninitialised memory holds. A function pointer is the name of the function.
\<close>

section \<open>Data\<close>

record kparam =
  pty :: u32
  pfn :: u32

record kParam =
  prtype :: u32
  pps :: "kparam list"

record kfield =
  f_flag :: u32
  f_isobj :: bool
  f_ty :: u32
  f_fn :: u32

datatype kfun =
  DEFAULT_init | DEFAULT_reftrace | DEFAULT_free | DEFAULT_fnull | DEFAULT_fnullinit | DEFAULT_p
| DEFAULT_unbox | F_DEFAULT_isSubType | DEFAULT_realtype
| F_Object_init | F_Object_reftrace | F_ObjectX_init | F_Object_initdef
| F_ObjectField_init | F_ObjectField_reftrace
| F_Number_init | F_Number_unbox | F_Boolean_p | F_Boolean_fnull | F_Int_p
| F_String_init | F_String_free | F_String_p | F_String_unbox
| F_Array_init | F_Array_reftrace | F_Array_free | F_Param_init
| F_Method_init | F_Method_reftrace | F_Func_init | F_Func_reftrace | F_T_realtype

datatype cell = W u64 | CTP nat | OBJ nat | KVNULL

record kclass =
  c_init :: kfun
  c_reftrace :: kfun
  c_free :: kfun
  c_fnull :: kfun
  c_p :: kfun
  c_unbox :: kfun
  c_initdef :: "kfun option"
  c_isSubType :: kfun
  c_realtype :: kfun
  c_packid :: u32
  c_packdom :: u32
  c_cid :: u32
  c_cflag :: u32
  c_bcid :: u32
  c_supcid :: u32
  c_p0 :: u32
  c_paramdom :: u32
  c_magicflag :: u64
  c_size :: nat
  c_fields :: "kfield list"
  c_fsize :: nat
  c_falloc :: nat
  c_dbgname :: bytes
  c_nameid :: u32
  c_optvalue :: nat
  c_methods :: "nat option"
  c_shortName :: "bytes option"
  c_nulval :: "cell list option"
  c_similar :: "nat option"
  c_super :: "nat option"

record kdefine_class =
  d_structname :: "bytes option"
  d_cid :: u32
  d_cflag :: u32
  d_bcid :: u32
  d_supcid :: u32
  d_cparams :: "kparam list"
  d_size :: nat
  d_fields :: "kfield list"
  d_fsize :: nat
  d_falloc :: nat
  d_init :: "kfun option"
  d_reftrace :: "kfun option"
  d_free :: "kfun option"
  d_fnull :: "kfun option"
  d_p :: "kfun option"
  d_unbox :: "kfun option"
  d_initdef :: "kfun option"
  d_isSubType :: "kfun option"
  d_realtype :: "kfun option"

record ptab =
  pmap :: "kParam kmap"
  plist :: "kParam list"

record cshare =
  names :: kshare
  cts :: "kclass list"
  ca_max :: nat
  params :: ptab
  paramdoms :: ptab
  lcnames :: "unit kmap"

text \<open>What uninitialised memory holds: objects, and the entries of the maps.\<close>

record garbage =
  j_obj :: "nat \<Rightarrow> cell"
  j_par :: "nat \<Rightarrow> kParam kmape"
  j_name :: "nat \<Rightarrow> bytes kmape"
  j_lc :: "nat \<Rightarrow> unit kmape"

definition CLASS_Tvoid :: u32 where "CLASS_Tvoid = 0"
definition CLASS_Tvar :: u32 where "CLASS_Tvar = 1"
definition CLASS_Object :: u32 where "CLASS_Object = 2"
definition CLASS_Boolean :: u32 where "CLASS_Boolean = 3"
definition CLASS_Int :: u32 where "CLASS_Int = 4"
definition CLASS_String :: u32 where "CLASS_String = 5"
definition CLASS_Array :: u32 where "CLASS_Array = 6"
definition CLASS_Param :: u32 where "CLASS_Param = 7"
definition CLASS_Method :: u32 where "CLASS_Method = 8"
definition CLASS_Func :: u32 where "CLASS_Func = 9"
definition CLASS_System :: u32 where "CLASS_System = 10"
definition CLASS_T0 :: u32 where "CLASS_T0 = 11"
definition CLASS_newid :: u32 where "CLASS_newid = - 1"
definition TY_unknown :: u32 where "TY_unknown = - 2"

lemmas class_ids = CLASS_Tvoid_def CLASS_Tvar_def CLASS_Object_def CLASS_Boolean_def CLASS_Int_def
  CLASS_String_def CLASS_Array_def CLASS_Param_def CLASS_Method_def CLASS_Func_def CLASS_System_def
  CLASS_T0_def CLASS_newid_def TY_unknown_def

definition kClass_Immutable :: u32 where "kClass_Immutable = 4"
definition kClass_Private :: u32 where "kClass_Private = 16"
definition kClass_Final :: u32 where "kClass_Final = 32"
definition kClass_Singleton :: u32 where "kClass_Singleton = 64"
definition kClass_UnboxType :: u32 where "kClass_UnboxType = 128"
definition kClass_TypeVar :: u32 where "kClass_TypeVar = 512"

lemmas class_flags = kClass_Immutable_def kClass_Private_def kClass_Final_def kClass_Singleton_def
  kClass_UnboxType_def kClass_TypeVar_def

definition FLAG_is :: "u32 \<Rightarrow> u32 \<Rightarrow> bool" where
  "FLAG_is f opt \<longleftrightarrow> and f opt = opt"

definition CT_at :: "cshare \<Rightarrow> u32 \<Rightarrow> kclass option" where
  "CT_at sh t = mem_get (cts sh) (unat t)"

definition TY_isUnbox :: "cshare \<Rightarrow> u32 \<Rightarrow> bool option" where
  "TY_isUnbox sh t = map_option (\<lambda>c. FLAG_is (c_cflag c) kClass_UnboxType) (CT_at sh t)"

definition CT_isDefined :: "kclass \<Rightarrow> bool" where
  "CT_isDefined ct \<longleftrightarrow> c_falloc ct = 0 \<or> c_fsize ct = c_falloc ct"

text \<open>Changing the class behind a pointer.\<close>

definition upd_CT :: "nat \<Rightarrow> (kclass \<Rightarrow> kclass) \<Rightarrow> cshare \<Rightarrow> cshare option" where
  "upd_CT p f sh = do {
     c \<leftarrow> mem_get (cts sh) p;
     Some (sh\<lparr>cts := (cts sh)[p := f c]\<rparr>)
   }"

definition sizeof_kObjectHeader :: nat where "sizeof_kObjectHeader = 32"
definition sizeof_kparam :: nat where "sizeof_kparam = 8"

text \<open>\<^verbatim>\<open>size64\<close>: the object sizes are 64, doubled \<open>k\<close> times.\<close>

function size64_loop :: "nat \<Rightarrow> nat \<Rightarrow> nat" where
  "size64_loop k s = (if 64 * 2 ^ k < s then size64_loop (Suc k) s else 64 * 2 ^ k)"
  by auto
termination
proof (relation "measure (\<lambda>(k, s). s - 64 * 2 ^ k)")
  fix k s :: nat
  assume "64 * 2 ^ k < s"
  moreover have "0 < (2 :: nat) ^ k" by simp
  ultimately show "((Suc k, s), (k, s)) \<in> measure (\<lambda>(k, s). s - 64 * 2 ^ k)"
    unfolding in_measure prod.case power_Suc by linarith
qed simp

declare size64_loop.simps [simp del]

definition size64 :: "nat \<Rightarrow> nat" where
  "size64 s = size64_loop 0 s"

section \<open>Objects\<close>

text \<open>
  \<^verbatim>\<open>new_Object\<close> allocates \<open>c_size\<close> bytes, fills the header and calls the class's \<^verbatim>\<open>init\<close>. The
  classes of this theory have one of the five initialisers below; those of strings, arrays and
  the other built-in objects are modelled with their components.
\<close>

definition obj_fields :: "cell list \<Rightarrow> cell list" where
  "obj_fields v = drop 4 v"

definition call_init :: "kclass \<Rightarrow> u64 \<Rightarrow> cell list \<Rightarrow> cell list option" where
  "call_init ct conf v =
     (case c_init ct of
        DEFAULT_init \<Rightarrow> Some v
      | F_Object_init \<Rightarrow> mem_write v 4 [W 0, W 0]
      | F_Number_init \<Rightarrow> mem_write v 4 [W conf]
      | F_ObjectX_init \<Rightarrow>
          (if CT_isDefined ct then do {
             nul \<leftarrow> c_nulval ct;
             d \<leftarrow> mem_read nul 4 ((c_size ct - sizeof_kObjectHeader) div 8);
             mem_write v 4 d
           } else None)
      | F_ObjectField_init \<Rightarrow> do {
             nul \<leftarrow> c_nulval ct;
             d \<leftarrow> mem_read nul 4 (c_fsize ct);
             mem_write v 4 d
           }
      | _ \<Rightarrow> None)"

definition new_Object :: "garbage \<Rightarrow> cshare \<Rightarrow> nat \<Rightarrow> u64 \<Rightarrow> cell list option" where
  "new_Object junk sh p conf = do {
     ct \<leftarrow> mem_get (cts sh) p;
     (if 0 < c_size ct then do {
        let v = map (j_obj junk) [0..<c_size ct div 8];
        v \<leftarrow> mem_put v 0 (W (c_magicflag ct));
        v \<leftarrow> mem_put v 1 (CTP p);
        v \<leftarrow> mem_put v 3 KVNULL;
        call_init ct conf v
      } else None)
   }"

definition Object_initdef :: "garbage \<Rightarrow> cshare \<Rightarrow> nat \<Rightarrow> cshare option" where
  "Object_initdef junk sh p = do {
     ct \<leftarrow> mem_get (cts sh) p;
     (if c_cid ct = CLASS_Object then Some sh
      else do {
        v \<leftarrow> new_Object junk sh p 0;
        v \<leftarrow> (if 0 < c_fsize ct then do {
               supct \<leftarrow> CT_at sh (c_supcid ct);
               (if c_fsize ct = c_fsize supct then do {
                  s \<leftarrow> c_nulval supct;
                  d \<leftarrow> mem_read s 4 (c_fsize ct);
                  mem_write v 4 d
                } else None)
             } else Some v);
        upd_CT p (\<lambda>ct. ct\<lparr>c_nulval := Some v,
            c_init := (if 0 < c_falloc ct then F_ObjectX_init else c_init ct),
            c_fnull := DEFAULT_fnull\<rparr>) sh
      })
   }"

section \<open>Creating classes\<close>

definition zero_CT :: kclass where
  "zero_CT = \<lparr>c_init = DEFAULT_init, c_reftrace = DEFAULT_reftrace, c_free = DEFAULT_free,
     c_fnull = DEFAULT_fnullinit, c_p = DEFAULT_p, c_unbox = DEFAULT_unbox, c_initdef = None,
     c_isSubType = F_DEFAULT_isSubType, c_realtype = DEFAULT_realtype,
     c_packid = 0, c_packdom = 0, c_cid = 0, c_cflag = 0, c_bcid = 0, c_supcid = 0, c_p0 = 0,
     c_paramdom = 0, c_magicflag = 0, c_size = 0, c_fields = [], c_fsize = 0, c_falloc = 0,
     c_dbgname = [], c_nameid = 0, c_optvalue = 0, c_methods = None, c_shortName = None,
     c_nulval = None, c_similar = None, c_super = None\<rparr>"

text \<open>The common start and end of \<^verbatim>\<open>new_CT\<close>.\<close>

definition alloc_CT :: "cshare \<Rightarrow> kclass \<Rightarrow> (cshare \<times> nat) option" where
  "alloc_CT sh ct =
     (let newid = length (cts sh);
          m = (if newid = ca_max sh then ca_max sh * 2 else ca_max sh)
      in if newid < m then Some (sh\<lparr>cts := cts sh @ [ct], ca_max := m\<rparr>, newid) else None)"

definition call_initdef :: "garbage \<Rightarrow> cshare \<Rightarrow> nat \<Rightarrow> cshare option" where
  "call_initdef junk sh p = do {
     ct \<leftarrow> mem_get (cts sh) p;
     (case c_initdef ct of None \<Rightarrow> Some sh
      | Some f \<Rightarrow> if f = F_Object_initdef then Object_initdef junk sh p else None)
   }"

text \<open>With a class to copy: everything before its field \<^verbatim>\<open>methods\<close>.\<close>

definition new_CT_copy :: "garbage \<Rightarrow> cshare \<Rightarrow> nat \<Rightarrow> (cshare \<times> nat) option" where
  "new_CT_copy junk sh bct = do {
     b \<leftarrow> mem_get (cts sh) bct;
     (sh, newid) \<leftarrow> alloc_CT sh (b\<lparr>
        c_cid := word_of_nat (length (cts sh)),
        c_fnull := (if c_fnull b = DEFAULT_fnull then DEFAULT_fnullinit else c_fnull b),
        c_methods := None, c_shortName := None, c_nulval := None,
        c_similar := None, c_super := None\<rparr>);
     sh \<leftarrow> call_initdef junk sh newid;
     Some (sh, newid)
   }"

text \<open>
  \<^verbatim>\<open>CT_body\<close>: the classes of the objects with room for \<open>need\<close> bytes, linked by
  \<open>c_similar\<close>, each twice the size of the one before, created when first needed.
\<close>

partial_function (option) CT_body_from ::
    "garbage \<Rightarrow> cshare \<Rightarrow> nat \<Rightarrow> nat \<Rightarrow> nat \<Rightarrow> (cshare \<times> nat) option" where
  "CT_body_from junk sh bct p need = do {
     ct \<leftarrow> mem_get (cts sh) p;
     (if c_size ct < need then
        (case c_similar ct of
           Some q \<Rightarrow> CT_body_from junk sh bct q need
         | None \<Rightarrow> do {
             (sh, newct) \<leftarrow> new_CT_copy junk sh bct;
             sh \<leftarrow> upd_CT newct (\<lambda>n. n\<lparr>c_cflag := or (c_cflag n) kClass_Private,
                     c_size := c_size ct * 2, c_methods := c_methods ct\<rparr>) sh;
             sh \<leftarrow> upd_CT p (\<lambda>c. c\<lparr>c_similar := Some newct\<rparr>) sh;
             CT_body_from junk sh bct newct need
           })
      else Some (sh, p))
   }"

declare CT_body_from.simps [code]

definition CT_body :: "garbage \<Rightarrow> cshare \<Rightarrow> nat \<Rightarrow> nat \<Rightarrow> nat \<Rightarrow> (cshare \<times> nat) option" where
  "CT_body junk sh p head body = CT_body_from junk sh p p (sizeof_kObjectHeader + head + body)"

section \<open>Parameter lists\<close>

text \<open>The parameters are copied behind the header, the return type and their number.\<close>

definition new_Param ::
    "garbage \<Rightarrow> cshare \<Rightarrow> u32 \<Rightarrow> kparam list \<Rightarrow> (cshare \<times> kParam) option" where
  "new_Param junk sh rtype p = do {
     (sh, q) \<leftarrow> CT_body junk sh (unat CLASS_Param) 8 (length p * sizeof_kparam);
     ct \<leftarrow> mem_get (cts sh) q;
     (if 0 < c_size ct \<and> sizeof_kObjectHeader + 8 + length p * sizeof_kparam \<le> c_size ct
      then Some (sh, \<lparr>prtype = rtype, pps = p\<rparr>) else None)
   }"

definition hashparamdom :: "kparam list \<Rightarrow> u64" where
  "hashparamdom p = fold (\<lambda>x h. ucast (pty x) + 31 * h) p 0"

definition hashparam :: "u32 \<Rightarrow> kparam list \<Rightarrow> u64" where
  "hashparam rtype p = fold (\<lambda>x h. ucast (pty x + pfn x) + 31 * h) p (ucast rtype)"

definition equalsParamDom :: "u32 \<Rightarrow> kparam list \<Rightarrow> kParam \<Rightarrow> bool" where
  "equalsParamDom rtype p pa \<longleftrightarrow>
     length p = length (pps pa) \<and> list_all (\<lambda>i. pty (p ! i) = pty (pps pa ! i)) [0..<length p]"

definition equalsParam :: "u32 \<Rightarrow> kparam list \<Rightarrow> kParam \<Rightarrow> bool" where
  "equalsParam rtype p pa \<longleftrightarrow>
     rtype = prtype pa \<and> length p = length (pps pa)
     \<and> list_all (\<lambda>i. pty (p ! i) = pty (pps pa ! i) \<and> pfn (p ! i) = pfn (pps pa ! i)) [0..<length p]"

definition Kmap_getparamid ::
    "garbage \<Rightarrow> cshare \<Rightarrow> ptab \<Rightarrow> u64
     \<Rightarrow> (u32 \<Rightarrow> kparam list \<Rightarrow> kParam \<Rightarrow> bool) \<Rightarrow> u32 \<Rightarrow> kparam list \<Rightarrow> (cshare \<times> ptab \<times> u32) option" where
  "Kmap_getparamid junk sh t h f rtype p = do {
     r \<leftarrow> kmap_search (pmap t) h (f rtype p);
     (case r of
        Some v \<Rightarrow> Some (sh, t, ucast v)
      | None \<Rightarrow> do {
          (sh, pa) \<leftarrow> new_Param junk sh rtype p;
          let paramid = word_of_nat (length (plist t));
          m \<leftarrow> map_addStringUnboxValue (j_par junk) (pmap t) h pa paramid;
          Some (sh, t\<lparr>plist := plist t @ [pa], pmap := m\<rparr>, ucast paramid)
        })
   }"

definition Kparam ::
    "garbage \<Rightarrow> cshare \<Rightarrow> u32 \<Rightarrow> kparam list \<Rightarrow> (cshare \<times> u32) option" where
  "Kparam junk sh rtype p = do {
     (sh, t, i) \<leftarrow> Kmap_getparamid junk sh (params sh) (hashparam rtype p) equalsParam rtype p;
     Some (sh\<lparr>params := t\<rparr>, i)
   }"

definition Kparamdom ::
    "garbage \<Rightarrow> cshare \<Rightarrow> kparam list \<Rightarrow> (cshare \<times> u32) option" where
  "Kparamdom junk sh p = do {
     (sh, t, i) \<leftarrow> Kmap_getparamid junk sh (paramdoms sh) (hashparamdom p) equalsParamDom CLASS_Tvoid p;
     Some (sh\<lparr>paramdoms := t\<rparr>, i)
   }"

definition CT_cparam :: "cshare \<Rightarrow> kclass \<Rightarrow> kParam option" where
  "CT_cparam sh ct = mem_get (plist (paramdoms sh)) (unat (c_paramdom ct))"

section \<open>Defining classes\<close>

definition new_CT_def :: "garbage \<Rightarrow> cshare \<Rightarrow> kdefine_class \<Rightarrow> (cshare \<times> nat) option" where
  "new_CT_def junk sh s = do {
     let newid = word_of_nat (length (cts sh));
     (sh, p) \<leftarrow> alloc_CT sh zero_CT;
     (if size64 (d_size s) \<le> 128 then do {
        (sh, pd) \<leftarrow> (if d_cparams s \<noteq> [] then Kparamdom junk sh (d_cparams s) else Some (sh, 0));
        sh \<leftarrow> upd_CT p (\<lambda>ct. ct\<lparr>
           c_cflag := d_cflag s, c_cid := newid,
           c_bcid := (if d_bcid s = 0 then newid else d_bcid s),
           c_supcid := (if d_supcid s = 0 then CLASS_Object else d_supcid s),
           c_fields := d_fields s, c_fsize := d_fsize s, c_falloc := d_falloc s,
           c_size := size64 (d_size s),
           c_dbgname := (case d_structname s of None \<Rightarrow> lit ''N/A'' | Some n \<Rightarrow> n),
           c_p0 := (case d_cparams s of [] \<Rightarrow> 0 | p # _ \<Rightarrow> pty p), c_paramdom := pd,
           c_init := (case d_init s of None \<Rightarrow> DEFAULT_init | Some f \<Rightarrow> f),
           c_reftrace := (case d_reftrace s of None \<Rightarrow> DEFAULT_reftrace | Some f \<Rightarrow> f),
           c_p := (case d_p s of None \<Rightarrow> DEFAULT_p | Some f \<Rightarrow> f),
           c_unbox := (case d_unbox s of None \<Rightarrow> DEFAULT_unbox | Some f \<Rightarrow> f),
           c_free := (case d_free s of None \<Rightarrow> DEFAULT_free | Some f \<Rightarrow> f),
           c_fnull := (case d_fnull s of None \<Rightarrow> DEFAULT_fnullinit | Some f \<Rightarrow> f),
           c_realtype := (case d_realtype s of None \<Rightarrow> DEFAULT_realtype | Some f \<Rightarrow> f),
           c_isSubType := (case d_isSubType s of None \<Rightarrow> F_DEFAULT_isSubType | Some f \<Rightarrow> f),
           c_initdef := d_initdef s\<rparr>) sh;
        sh \<leftarrow> call_initdef junk sh p;
        Some (sh, p)
      } else None)
   }"

text \<open>
  Instances of a generic class are linked from it by \<open>c_similar\<close>. The search looks at the
  class it is given and at those behind it, and returns the match or the end of the chain.
\<close>

definition K_EMPTYARRAY :: nat where "K_EMPTYARRAY = 0"

partial_function (option) find_similar ::
    "cshare \<Rightarrow> nat \<Rightarrow> u32 \<Rightarrow> u32 \<Rightarrow> bool \<Rightarrow> (nat + nat) option" where
  "find_similar sh p paramdom rtype isNotFuncClass = do {
     ct \<leftarrow> mem_get (cts sh) p;
     (if c_paramdom ct = paramdom \<and> (isNotFuncClass \<or> c_p0 ct = rtype) then Some (Inl p)
      else (case c_similar ct of None \<Rightarrow> Some (Inr p)
            | Some q \<Rightarrow> find_similar sh q paramdom rtype isNotFuncClass))
   }"

declare find_similar.simps [code]

definition CT_Generics ::
    "garbage \<Rightarrow> cshare \<Rightarrow> nat \<Rightarrow> u32 \<Rightarrow> kparam list \<Rightarrow> (cshare \<times> nat) option" where
  "CT_Generics junk sh ct0 rtype p = do {
     (sh, paramdom) \<leftarrow> Kparamdom junk sh p;
     ct \<leftarrow> mem_get (cts sh) ct0;
     let isNotFuncClass = (c_bcid ct \<noteq> CLASS_Func);
     r \<leftarrow> find_similar sh ct0 paramdom rtype isNotFuncClass;
     (case r of Inl q \<Rightarrow> Some (sh, q)
      | Inr lst \<Rightarrow> do {
          (sh, newct) \<leftarrow> new_CT_copy junk sh ct0;
          p0 \<leftarrow> (if isNotFuncClass then map_option pty (mem_get p 0) else Some rtype);
          sh \<leftarrow> upd_CT newct (\<lambda>n. n\<lparr>c_paramdom := paramdom, c_p0 := p0,
                  c_methods := Some K_EMPTYARRAY,
                  c_super := (if c_super n = None then Some ct0 else c_super n)\<rparr>) sh;
          sh \<leftarrow> upd_CT lst (\<lambda>c. c\<lparr>c_similar := Some newct\<rparr>) sh;
          Some (sh, newct)
        })
   }"

definition CT_p0 :: "garbage \<Rightarrow> cshare \<Rightarrow> nat \<Rightarrow> u32 \<Rightarrow> (cshare \<times> nat) option" where
  "CT_p0 junk sh ct ty = CT_Generics junk sh ct CLASS_Tvoid [\<lparr>pty = ty, pfn = 0\<rparr>]"

section \<open>Queries\<close>

datatype class_error = Invalid_cid u32

definition Kclass :: "cshare \<Rightarrow> u32 \<Rightarrow> class_error + nat" where
  "Kclass sh c = (if unat c < length (cts sh) then Inr (unat c) else Inl (Invalid_cid c))"

partial_function (option) supclass_loop :: "cshare \<Rightarrow> kclass \<Rightarrow> u32 \<Rightarrow> bool option" where
  "supclass_loop sh ct tcid =
     (if c_supcid ct = CLASS_Object then Some False
      else do {
        s \<leftarrow> CT_at sh (c_supcid ct);
        if c_cid s = tcid then Some True else supclass_loop sh s tcid
      })"

declare supclass_loop.simps [code]

definition DEFAULT_isSubType :: "cshare \<Rightarrow> kclass \<Rightarrow> kclass \<Rightarrow> bool option" where
  "DEFAULT_isSubType sh ct t =
     (if c_cid t = CLASS_Object then Some True else supclass_loop sh ct (c_cid t))"

text \<open>The class a type variable stands for in the class \<open>self\<close>.\<close>

partial_function (option) realtype :: "cshare \<Rightarrow> nat \<Rightarrow> nat \<Rightarrow> nat option" where
  "realtype sh p self = do {
     ct \<leftarrow> mem_get (cts sh) p;
     (if c_realtype ct = F_T_realtype then do {
        s \<leftarrow> mem_get (cts sh) self;
        cparam \<leftarrow> CT_cparam sh s;
        x \<leftarrow> mem_get (pps cparam) (c_optvalue ct);
        realtype sh (unat (pty x)) self
      } else Some p)
   }"

declare realtype.simps [code]

text \<open>The object that stands for null in a class, made on the first request.\<close>

definition kObject_NullObject :: u64 where "kObject_NullObject = 1"

definition set_null :: "cell list \<Rightarrow> cell list" where
  "set_null v = (case v of W f # r \<Rightarrow> W (or f kObject_NullObject) # r | _ \<Rightarrow> v)"

definition CT_null :: "garbage \<Rightarrow> cshare \<Rightarrow> nat \<Rightarrow> (cshare \<times> cell list) option" where
  "CT_null junk sh p = do {
     ct \<leftarrow> mem_get (cts sh) p;
     (case c_fnull ct of
        DEFAULT_fnull \<Rightarrow> do { v \<leftarrow> c_nulval ct; Some (sh, v) }
      | DEFAULT_fnullinit \<Rightarrow>
          (if c_nulval ct = None then do {
             v \<leftarrow> new_Object junk sh p 0;
             let v = set_null v;
             sh \<leftarrow> upd_CT p (\<lambda>ct. ct\<lparr>c_nulval := Some v, c_fnull := DEFAULT_fnull\<rparr>) sh;
             Some (sh, v)
           } else None)
      | _ \<Rightarrow> None)
   }"

section \<open>Names of classes\<close>

definition S_UN :: "cshare \<Rightarrow> u32 \<Rightarrow> bytes option" where
  "S_UN sh un = mem_get (slist (unames (names sh))) (unat un)"

definition longid :: "u32 \<Rightarrow> u32 \<Rightarrow> u64" where
  "longid packdom un = or (push_bit 32 (ucast packdom)) (ucast un)"

definition map_addu :: "(nat \<Rightarrow> 'k kmape) \<Rightarrow> 'k kmap \<Rightarrow> u64 \<Rightarrow> u64 \<Rightarrow> 'k kmap option" where
  "map_addu junk m h v = do {
     (m, e) \<leftarrow> Kmap_newentry junk m h;
     x \<leftarrow> deref m e;
     m \<leftarrow> store m e (x\<lparr>uvalue := v\<rparr>);
     Kmap_add m e
   }"

text \<open>The loop of \<^verbatim>\<open>map_getu\<close> does not advance: an entry with another hash would be compared forever.\<close>

definition map_getu :: "'k kmap \<Rightarrow> u64 \<Rightarrow> u64 \<Rightarrow> u64 option" where
  "map_getu m h def = do {
     e \<leftarrow> Kmap_getentry m h;
     (case e of None \<Rightarrow> Some def
      | Some q \<Rightarrow> do { x \<leftarrow> deref m q; if hcode x = h then Some (uvalue x) else None })
   }"

text \<open>
  The names of the instances of a generic class, such as \<^verbatim>\<open>Array[int]\<close>, are computed once. The
  counter that asks for a comma is raised for the return type of a function class only.
\<close>

definition type_args :: "bool \<Rightarrow> bytes list \<Rightarrow> bytes \<Rightarrow> bytes" where
  "type_args isFunc ns p0 =
     (if isFunc then p0 @ concat (map (\<lambda>s. chr CHR '','' # s) ns) else concat ns)"

partial_function (option) CT_shortName :: "cshare \<Rightarrow> nat list \<Rightarrow> (cshare \<times> bytes list) option" where
  "CT_shortName sh ps =
     (case ps of [] \<Rightarrow> Some (sh, [])
      | p # rest \<Rightarrow> do {
          ct \<leftarrow> mem_get (cts sh) p;
          (sh, n) \<leftarrow> (case c_shortName ct of
             Some n \<Rightarrow> Some (sh, n)
           | None \<Rightarrow>
               if c_paramdom ct = 0 then do {
                 n \<leftarrow> S_UN sh (c_nameid ct);
                 sh \<leftarrow> upd_CT p (\<lambda>c. c\<lparr>c_shortName := Some n\<rparr>) sh;
                 Some (sh, n)
               } else do {
                 cparam \<leftarrow> CT_cparam sh ct;
                 let tys = map (\<lambda>x. unat (pty x)) (pps cparam);
                 (sh, ns) \<leftarrow> CT_shortName sh (tys @ [unat (c_p0 ct)]);
                 s \<leftarrow> S_UN sh (c_nameid ct);
                 let n = s @ [chr CHR ''[''] @ type_args (c_bcid ct = CLASS_Func) (butlast ns) (last ns)
                           @ [chr CHR '']''];
                 sh \<leftarrow> upd_CT p (\<lambda>c. c\<lparr>c_shortName := Some n\<rparr>) sh;
                 Some (sh, n)
               });
          (sh, ns) \<leftarrow> CT_shortName sh rest;
          Some (sh, n # ns)
        })"

declare CT_shortName.simps [code]

text \<open>A class pointer as a machine word; no pointer is \<^verbatim>\<open>NULL\<close>.\<close>

definition ct_word :: "nat \<Rightarrow> u64" where "ct_word p = word_of_nat (Suc p)"

definition CT_setName :: "garbage \<Rightarrow> cshare \<Rightarrow> nat \<Rightarrow> cshare option" where
  "CT_setName junk sh p = do {
     ct \<leftarrow> mem_get (cts sh) p;
     let lname = longid (c_packdom ct) (c_nameid ct);
     _ \<leftarrow> mem_get (slist (packs (names sh))) (unat (c_packdom ct));
     _ \<leftarrow> mem_get (slist (packs (names sh))) (unat (c_packid ct));
     _ \<leftarrow> S_UN sh (c_nameid ct);
     ct2 \<leftarrow> map_getu (lcnames sh) lname 0;
     sh \<leftarrow> (if ct2 = 0 then do {
              m \<leftarrow> map_addu (j_lc junk) (lcnames sh) lname (ct_word p);
              Some (sh\<lparr>lcnames := m\<rparr>)
            } else Some sh);
     (if c_methods ct = None then
        upd_CT p (\<lambda>c. c\<lparr>c_methods := Some K_EMPTYARRAY,
            c_super := (if CLASS_Object < c_cid ct then Some (unat (c_supcid ct)) else c_super c)\<rparr>) sh
      else Some sh)
   }"

definition addClassDef ::
    "garbage \<Rightarrow> cshare \<Rightarrow> u32 \<Rightarrow> u32 \<Rightarrow> bytes option \<Rightarrow> kdefine_class \<Rightarrow> (cshare \<times> nat) option" where
  "addClassDef junk sh packid packdom name cdef = do {
     (sh, p) \<leftarrow> new_CT_def junk sh cdef;
     n \<leftarrow> (case name of Some n \<Rightarrow> Some n | None \<Rightarrow> d_structname cdef);
     (ns, nid) \<leftarrow> Kuname (j_name junk) (names sh) n FN_NEWID;
     sh \<leftarrow> upd_CT p (\<lambda>c. c\<lparr>c_packid := packid, c_packdom := packdom, c_nameid := nid\<rparr>) (sh\<lparr>names := ns\<rparr>);
     sh \<leftarrow> CT_setName junk sh p;
     Some (sh, p)
   }"

section \<open>The built-in classes\<close>

definition no_class :: kdefine_class where
  "no_class = \<lparr>d_structname = None, d_cid = 0, d_cflag = 0, d_bcid = 0, d_supcid = 0, d_cparams = [],
     d_size = 0, d_fields = [], d_fsize = 0, d_falloc = 0, d_init = None, d_reftrace = None, d_free = None,
     d_fnull = None, d_p = None, d_unbox = None, d_initdef = None, d_isSubType = None, d_realtype = None\<rparr>"

definition TYPENAME :: "string \<Rightarrow> u32 \<Rightarrow> u32 \<Rightarrow> kdefine_class" where
  "TYPENAME n c flag = no_class\<lparr>d_structname := Some (lit n), d_cid := c, d_cflag := flag\<rparr>"

definition CLASSNAME :: "string \<Rightarrow> u32 \<Rightarrow> u32 \<Rightarrow> nat \<Rightarrow> kdefine_class" where
  "CLASSNAME n c flag sz = no_class\<lparr>d_structname := Some (lit n), d_cid := c, d_cflag := flag, d_size := sz\<rparr>"

definition CFLAG_Tvoid :: u32 where
  "CFLAG_Tvoid = or kClass_TypeVar (or kClass_UnboxType (or kClass_Singleton kClass_Final))"

definition CFLAG_Int :: u32 where
  "CFLAG_Int = or kClass_Immutable (or kClass_UnboxType kClass_Final)"

text \<open>The classes in the order of their numbers; the sizes are those of the structs.\<close>

definition DATATYPES :: "kdefine_class list" where
  "DATATYPES = [
     TYPENAME ''void'' CLASS_Tvoid CFLAG_Tvoid,
     TYPENAME ''var'' CLASS_Tvar CFLAG_Tvoid,
     (CLASSNAME ''Object'' CLASS_Object 0 64)\<lparr>d_init := Some F_Object_init,
        d_reftrace := Some F_Object_reftrace, d_initdef := Some F_Object_initdef\<rparr>,
     (CLASSNAME ''Boolean'' CLASS_Boolean CFLAG_Int 40)\<lparr>d_init := Some F_Number_init,
        d_unbox := Some F_Number_unbox, d_p := Some F_Boolean_p, d_fnull := Some F_Boolean_fnull\<rparr>,
     (CLASSNAME ''Int'' CLASS_Int CFLAG_Int 48)\<lparr>d_init := Some F_Number_init,
        d_unbox := Some F_Number_unbox, d_p := Some F_Int_p\<rparr>,
     (CLASSNAME ''String'' CLASS_String (or kClass_Immutable kClass_Final) 64)\<lparr>d_init := Some F_String_init,
        d_free := Some F_String_free, d_p := Some F_String_p, d_unbox := Some F_String_unbox\<rparr>,
     (CLASSNAME ''Array'' CLASS_Array kClass_Final 56)\<lparr>d_init := Some F_Array_init,
        d_reftrace := Some F_Array_reftrace, d_free := Some F_Array_free\<rparr>,
     (CLASSNAME ''Param'' CLASS_Param kClass_Final 64)\<lparr>d_init := Some F_Param_init\<rparr>,
     (CLASSNAME ''Method'' CLASS_Method kClass_Final 104)\<lparr>d_init := Some F_Method_init,
        d_reftrace := Some F_Method_reftrace\<rparr>,
     (CLASSNAME ''Func'' CLASS_Func kClass_Final 48)\<lparr>d_init := Some F_Func_init,
        d_reftrace := Some F_Func_reftrace\<rparr>,
     (CLASSNAME ''System'' CLASS_System (or kClass_Singleton kClass_Final) 32)\<lparr>d_init := Some DEFAULT_init\<rparr>,
     (TYPENAME ''0'' CLASS_T0 CFLAG_Tvoid)\<lparr>d_init := Some DEFAULT_init, d_realtype := Some F_T_realtype\<rparr>]"

fun load_defs :: "garbage \<Rightarrow> cshare \<Rightarrow> kdefine_class list \<Rightarrow> cshare option" where
  "load_defs junk sh [] = Some sh"
| "load_defs junk sh (d # ds) =
     (if d_cid d = word_of_nat (length (cts sh))
      then do { (sh, _) \<leftarrow> new_CT_def junk sh d; load_defs junk sh ds } else None)"

definition loadInitStructData :: "garbage \<Rightarrow> cshare \<Rightarrow> cshare option" where
  "loadInitStructData junk sh = do {
     sh \<leftarrow> load_defs junk sh DATATYPES;
     upd_CT (unat CLASS_Array) (\<lambda>ct. ct\<lparr>c_p0 := CLASS_Object\<rparr>) sh
   }"

fun name_classes :: "garbage \<Rightarrow> cshare \<Rightarrow> nat list \<Rightarrow> cshare option" where
  "name_classes junk sh [] = Some sh"
| "name_classes junk sh (i # is) = do {
     ct \<leftarrow> mem_get (cts sh) i;
     (ns, nid) \<leftarrow> Kuname (j_name junk) (names sh) (c_dbgname ct) FN_NEWID;
     sh \<leftarrow> upd_CT i (\<lambda>ct. ct\<lparr>c_nameid := nid\<rparr>) (sh\<lparr>names := ns\<rparr>);
     sh \<leftarrow> CT_setName junk sh i;
     name_classes junk sh is
   }"

definition initStructData :: "garbage \<Rightarrow> cshare \<Rightarrow> cshare option" where
  "initStructData junk sh = name_classes junk sh [0..<Suc (unat CLASS_T0)]"

text \<open>\<^verbatim>\<open>KCLASSTABLE_init\<close>; the table has room for 64 classes' worth of bytes, 26 pointers to a class.\<close>

definition K_CLASSTABLE_INIT :: nat where "K_CLASSTABLE_INIT = 64"
definition sizeof_kclass :: nat where "sizeof_kclass = 208"

definition KCLASSTABLE_init :: "garbage \<Rightarrow> cshare option" where
  "KCLASSTABLE_init junk = do {
     lc \<leftarrow> Kmap_init (j_lc junk) 0;
     t \<leftarrow> symtab_init (j_name junk);
     pm \<leftarrow> Kmap_init (j_par junk) 0;
     let sh = \<lparr>names = \<lparr>fileids = t, packs = t, unames = t, symbols = t\<rparr>, cts = [],
               ca_max = K_CLASSTABLE_INIT * sizeof_kclass div 8,
               params = \<lparr>pmap = pm, plist = []\<rparr>, paramdoms = \<lparr>pmap = pm, plist = []\<rparr>, lcnames = lc\<rparr>;
     sh \<leftarrow> loadInitStructData junk sh;
     (sh, _) \<leftarrow> Kparam junk sh CLASS_Tvoid [];
     (sh, _) \<leftarrow> Kparamdom junk sh [];
     (ns, _) \<leftarrow> Kfileid (j_name junk) (names sh) (lit ''(konoha.c)'') FN_NEWID;
     (ns, _) \<leftarrow> Kpack (j_name junk) ns (lit ''konoha'') FN_NEWID;
     (ns, _) \<leftarrow> Kpack (j_name junk) ns (lit ''sugar'') FN_NEWID;
     (ns, _) \<leftarrow> Kuname (j_name junk) ns (lit ''T'') FN_NEWID;
     (ns, _) \<leftarrow> Ksymbol (j_name junk) ns [] 0 FN_NEWID SYMPOL_NAME;
     (ns, _) \<leftarrow> Ksymbol (j_name junk) ns (lit ''new'') 3 FN_NEWID SYMPOL_NAME;
     initStructData junk (sh\<lparr>names := ns\<rparr>)
   }"

section \<open>The class table is well formed\<close>

text \<open>
  Links of similar classes lead to younger classes of the same kind, every object has a size, and the class of
  parameter lists has no initialiser of its own.
\<close>

definition kind :: "kclass \<Rightarrow> kfun option \<times> u32" where
  "kind c = (c_initdef c, c_bcid c)"

definition similar_ok :: "kclass list \<Rightarrow> bool" where
  "similar_ok cs \<longleftrightarrow> (\<forall>p < length cs. 0 < c_size (cs ! p)
     \<and> (\<forall>q. c_similar (cs ! p) = Some q \<longrightarrow> p < q \<and> q < length cs \<and> kind (cs ! q) = kind (cs ! p)))"

lemma similar_okI:
  assumes "\<And>p. p < length cs \<Longrightarrow> 0 < c_size (cs ! p)"
    and "\<And>p q. p < length cs \<Longrightarrow> c_similar (cs ! p) = Some q \<Longrightarrow>
           p < q \<and> q < length cs \<and> kind (cs ! q) = kind (cs ! p)"
  shows "similar_ok cs"
  using assms unfolding similar_ok_def by blast

lemma similar_okD: "similar_ok cs \<Longrightarrow> p < length cs \<Longrightarrow> 0 < c_size (cs ! p)"
  unfolding similar_ok_def by blast

lemma similar_ok_link:
  "similar_ok cs \<Longrightarrow> p < length cs \<Longrightarrow> c_similar (cs ! p) = Some q \<Longrightarrow>
     p < q \<and> q < length cs \<and> kind (cs ! q) = kind (cs ! p)"
  unfolding similar_ok_def by blast

definition cts_ok :: "cshare \<Rightarrow> bool" where
  "cts_ok sh \<longleftrightarrow> similar_ok (cts sh) \<and> 12 \<le> length (cts sh) \<and> length (cts sh) \<le> ca_max sh
     \<and> c_initdef (cts sh ! 7) = None"

text \<open>What stays as it was while classes are added behind the existing ones.\<close>

definition grows :: "cshare \<Rightarrow> cshare \<Rightarrow> bool" where
  "grows sh sh' \<longleftrightarrow> names sh' = names sh \<and> params sh' = params sh \<and> paramdoms sh' = paramdoms sh
     \<and> lcnames sh' = lcnames sh \<and> length (cts sh) \<le> length (cts sh')
     \<and> (\<forall>p < length (cts sh). (cts sh' ! p)\<lparr>c_similar := None\<rparr> = (cts sh ! p)\<lparr>c_similar := None\<rparr>
          \<and> (\<forall>q. c_similar (cts sh ! p) = Some q \<longrightarrow> c_similar (cts sh' ! p) = Some q))"

lemma cts_grows_refl: "grows sh sh"
  by (simp add: grows_def)

lemma cts_grows_trans: "grows a b \<Longrightarrow> grows b c \<Longrightarrow> grows a c"
  unfolding grows_def by (metis order.strict_trans2 order.trans)

lemma grows_same:
  assumes "grows sh sh'" "p < length (cts sh)"
  shows "c_size (cts sh' ! p) = c_size (cts sh ! p)" "c_paramdom (cts sh' ! p) = c_paramdom (cts sh ! p)"
    "c_p0 (cts sh' ! p) = c_p0 (cts sh ! p)" "c_bcid (cts sh' ! p) = c_bcid (cts sh ! p)"
    "c_initdef (cts sh' ! p) = c_initdef (cts sh ! p)" "c_cid (cts sh' ! p) = c_cid (cts sh ! p)"
    "c_supcid (cts sh' ! p) = c_supcid (cts sh ! p)"
proof -
  have eq: "(cts sh' ! p)\<lparr>c_similar := None\<rparr> = (cts sh ! p)\<lparr>c_similar := None\<rparr>"
    using assms by (simp add: grows_def)
  have *: "f (cts sh' ! p) = f (cts sh ! p)" if "\<And>c. f (c\<lparr>c_similar := None\<rparr>) = f c" for f :: "kclass \<Rightarrow> 'a"
    using arg_cong [OF eq, of f] that by simp
  show "c_size (cts sh' ! p) = c_size (cts sh ! p)" by (rule *) simp
  show "c_paramdom (cts sh' ! p) = c_paramdom (cts sh ! p)" by (rule *) simp
  show "c_p0 (cts sh' ! p) = c_p0 (cts sh ! p)" by (rule *) simp
  show "c_bcid (cts sh' ! p) = c_bcid (cts sh ! p)" by (rule *) simp
  show "c_initdef (cts sh' ! p) = c_initdef (cts sh ! p)" by (rule *) simp
  show "c_cid (cts sh' ! p) = c_cid (cts sh ! p)" by (rule *) simp
  show "c_supcid (cts sh' ! p) = c_supcid (cts sh ! p)" by (rule *) simp
qed

lemma upd_CT_Some: "p < length (cts sh) \<Longrightarrow> upd_CT p f sh = Some (sh\<lparr>cts := (cts sh)[p := f (cts sh ! p)]\<rparr>)"
  by (simp add: upd_CT_def mem_get_def)

text \<open>The first fields of a class, as \<^verbatim>\<open>new_CT\<close> copies them.\<close>

definition copy_CT :: "kclass \<Rightarrow> nat \<Rightarrow> kclass" where
  "copy_CT b n = b\<lparr>c_cid := word_of_nat n,
      c_fnull := (if c_fnull b = DEFAULT_fnull then DEFAULT_fnullinit else c_fnull b),
      c_methods := None, c_shortName := None, c_nulval := None, c_similar := None, c_super := None\<rparr>"

lemma copy_CT_sel [simp]:
  "c_size (copy_CT b n) = c_size b" "c_similar (copy_CT b n) = None" "c_bcid (copy_CT b n) = c_bcid b"
  "c_initdef (copy_CT b n) = c_initdef b" "c_super (copy_CT b n) = None" "c_cflag (copy_CT b n) = c_cflag b"
  by (simp_all add: copy_CT_def)

lemma new_CT_copy_Some:
  assumes "p < length (cts sh)" "c_initdef (cts sh ! p) = None" "length (cts sh) \<le> ca_max sh"
  obtains m where "length (cts sh) < m"
    "new_CT_copy junk sh p = Some (sh\<lparr>cts := cts sh @ [copy_CT (cts sh ! p) (length (cts sh))], ca_max := m\<rparr>, length (cts sh))"
proof
  let ?m = "if length (cts sh) = ca_max sh then ca_max sh * 2 else ca_max sh"
  show "length (cts sh) < ?m" using assms by auto
  then show "new_CT_copy junk sh p
      = Some (sh\<lparr>cts := cts sh @ [copy_CT (cts sh ! p) (length (cts sh))], ca_max := ?m\<rparr>, length (cts sh))"
    using assms by (simp add: new_CT_copy_def alloc_CT_def call_initdef_def mem_get_def Let_def copy_CT_def nth_append)
qed

lemma similar_ok_snoc:
  assumes "similar_ok cs" "0 < c_size c" "c_similar c = None"
  shows "similar_ok (cs @ [c])"
proof (rule similar_okI)
  fix p assume p: "p < length (cs @ [c])"
  then consider "p < length cs" | "p = length cs" by fastforce
  then show "0 < c_size ((cs @ [c]) ! p)"
    by cases (use assms(2) similar_okD [OF assms(1)] in \<open>simp_all add: nth_append\<close>)
next
  fix p q assume p: "p < length (cs @ [c])" "c_similar ((cs @ [c]) ! p) = Some q"
  then consider "p < length cs" | "p = length cs" by fastforce
  then show "p < q \<and> q < length (cs @ [c]) \<and> kind ((cs @ [c]) ! q) = kind ((cs @ [c]) ! p)"
  proof cases
    case 1
    then have "c_similar (cs ! p) = Some q" using p(2) by (simp add: nth_append)
    from similar_ok_link [OF assms(1) 1 this] 1 show ?thesis by (simp add: nth_append)
  next
    case 2
    then show ?thesis using p(2) assms(3) by simp
  qed
qed

lemma similar_ok_update:
  assumes "similar_ok cs" "p < length cs" "0 < c_size c" "kind c = kind (cs ! p)"
    and "\<And>q. c_similar c = Some q \<Longrightarrow> p < q \<and> q < length cs \<and> kind (cs ! q) = kind c"
  shows "similar_ok (cs[p := c])"
proof (rule similar_okI)
  fix i assume "i < length (cs[p := c])"
  then show "0 < c_size (cs[p := c] ! i)"
    using assms(3) similar_okD [OF assms(1)] by (cases "i = p") simp_all
next
  fix i q assume i: "i < length (cs[p := c])" "c_similar (cs[p := c] ! i) = Some q"
  have k: "kind (cs[p := c] ! j) = kind (cs ! j)" if "j < length cs" for j
    using that assms(2,4) by (simp add: nth_list_update)
  show "i < q \<and> q < length (cs[p := c]) \<and> kind (cs[p := c] ! q) = kind (cs[p := c] ! i)"
  proof (cases "i = p")
    case True
    then show ?thesis using i assms(2,4) assms(5) [of q] k by simp
  next
    case False
    then show ?thesis using i similar_ok_link [OF assms(1), of i q] k by simp
  qed
qed

text \<open>
  One round of \<^verbatim>\<open>CT_body\<close> at the end of a chain: a class of twice the size is added.
\<close>

lemma CT_body_extend:
  assumes ok: "similar_ok (cts sh)" "length (cts sh) \<le> ca_max sh"
    and b: "bct < length (cts sh)" "c_initdef (cts sh ! bct) = None" and kind: "kind (cts sh ! bct) = kind (cts sh ! p)"
    and p: "p < length (cts sh)" "c_similar (cts sh ! p) = None" "c_size (cts sh ! p) < need"
  obtains sh1 where "CT_body_from junk sh bct p need = CT_body_from junk sh1 bct (length (cts sh)) need"
    "grows sh sh1" "similar_ok (cts sh1)" "length (cts sh1) \<le> ca_max sh1"
    "length (cts sh1) = Suc (length (cts sh))"
    "c_similar (cts sh1 ! length (cts sh)) = None" "c_similar (cts sh1 ! p) = Some (length (cts sh))"
    "c_size (cts sh1 ! length (cts sh)) = 2 * c_size (cts sh ! p)"
    "\<And>i. i < length (cts sh) \<Longrightarrow> i \<noteq> p \<Longrightarrow> cts sh1 ! i = cts sh ! i"
proof -
  let ?n = "length (cts sh)" and ?ct = "cts sh ! p"
  obtain m where m: "?n < m" "new_CT_copy junk sh bct
      = Some (sh\<lparr>cts := cts sh @ [copy_CT (cts sh ! bct) ?n], ca_max := m\<rparr>, ?n)"
    by (rule new_CT_copy_Some [OF b ok(2)])
  define new where "new = (copy_CT (cts sh ! bct) ?n)\<lparr>c_cflag := or (c_cflag (cts sh ! bct)) kClass_Private,
        c_size := c_size ?ct * 2, c_methods := c_methods ?ct\<rparr>"
  define sh1 where "sh1 = sh\<lparr>ca_max := m, cts := (cts sh)[p := ?ct\<lparr>c_similar := Some ?n\<rparr>] @ [new]\<rparr>"
  note pos = similar_okD [OF ok(1) p(1)]
  have run: "CT_body_from junk sh bct p need = CT_body_from junk sh1 bct ?n need"
    using p m by (subst CT_body_from.simps)
      (simp add: mem_get_def upd_CT_Some new_def sh1_def list_update_append nth_append)
  have len: "length (cts sh1) = Suc ?n" by (simp add: sh1_def)
  have at: "cts sh1 ! ?n = new" "cts sh1 ! p = ?ct\<lparr>c_similar := Some ?n\<rparr>"
    using p(1) by (simp_all add: sh1_def nth_append)
  have old: "cts sh1 ! i = cts sh ! i" if "i < ?n" "i \<noteq> p" for i
    using that by (simp add: sh1_def nth_append)
  have "similar_ok (cts sh @ [new])"
    using ok(1) pos by (intro similar_ok_snoc) (simp_all add: new_def)
  moreover have "kind new = kind ?ct" using kind by (simp add: kind_def new_def)
  ultimately have "similar_ok ((cts sh @ [new])[p := ?ct\<lparr>c_similar := Some ?n\<rparr>])"
    using p(1) pos by (intro similar_ok_update) (simp_all add: kind_def nth_append)
  then have "similar_ok (cts sh1)" using p(1) by (simp add: sh1_def list_update_append)
  moreover have "grows sh sh1"
    using p(1,2) by (auto simp: grows_def sh1_def nth_append nth_list_update)
  ultimately show ?thesis
    using run len at old m(1) by (intro that [of sh1]) (simp_all add: sh1_def new_def)
qed

lemma CT_body_stop:
  "p < length (cts sh) \<Longrightarrow> need \<le> c_size (cts sh ! p) \<Longrightarrow> CT_body_from junk sh bct p need = Some (sh, p)"
  by (subst CT_body_from.simps) (simp add: mem_get_def)

lemma CT_body_follow:
  "p < length (cts sh) \<Longrightarrow> c_size (cts sh ! p) < need \<Longrightarrow> c_similar (cts sh ! p) = Some q \<Longrightarrow>
     CT_body_from junk sh bct p need = CT_body_from junk sh bct q need"
  by (subst CT_body_from.simps) (simp add: mem_get_def)

text \<open>
  \<open>found sh bct p need sh' q\<close>: the search from \<open>p\<close> ends at \<open>q\<close>, which is large enough, and
  searching again finds it without making another class.
\<close>

definition found :: "garbage \<Rightarrow> cshare \<Rightarrow> nat \<Rightarrow> nat \<Rightarrow> nat \<Rightarrow> cshare \<Rightarrow> nat \<Rightarrow> bool" where
  "found junk sh bct p need sh' q \<longleftrightarrow>
     CT_body_from junk sh bct p need = Some (sh', q) \<and> q < length (cts sh') \<and> need \<le> c_size (cts sh' ! q)
     \<and> CT_body_from junk sh' bct p need = Some (sh', q)
     \<and> grows sh sh' \<and> similar_ok (cts sh') \<and> length (cts sh') \<le> ca_max sh'"

lemma found_stop:
  "p < length (cts sh) \<Longrightarrow> need \<le> c_size (cts sh ! p) \<Longrightarrow> similar_ok (cts sh) \<Longrightarrow>
     length (cts sh) \<le> ca_max sh \<Longrightarrow> found junk sh bct p need sh p"
  by (simp add: found_def CT_body_stop cts_grows_refl)

lemma found_follow:
  assumes "p < length (cts sh)" "c_size (cts sh ! p) < need" "c_similar (cts sh ! p) = Some q"
    and "found junk sh bct q need sh' r"
  shows "found junk sh bct p need sh' r"
proof -
  have g: "grows sh sh'" and run: "CT_body_from junk sh' bct q need = Some (sh', r)"
    using assms(4) by (simp_all add: found_def)
  have "p < length (cts sh')" "c_size (cts sh' ! p) < need" "c_similar (cts sh' ! p) = Some q"
    using assms(1,2,3) g grows_same(1) [OF g assms(1)] by (simp_all add: grows_def)
  then have "CT_body_from junk sh' bct p need = Some (sh', r)" using run by (simp add: CT_body_follow)
  then show ?thesis using assms by (simp add: found_def CT_body_follow)
qed

lemma CT_body_end:
  assumes "similar_ok (cts sh)" "length (cts sh) \<le> ca_max sh"
    and "bct < length (cts sh)" "c_initdef (cts sh ! bct) = None" "kind (cts sh ! bct) = kind (cts sh ! p)"
    and "p < length (cts sh)" "c_similar (cts sh ! p) = None"
  shows "\<exists>sh' q. found junk sh bct p need sh' q"
  using assms
proof (induction "need - c_size (cts sh ! p)" arbitrary: sh p rule: less_induct)
  case less
  show ?case
  proof (cases "need \<le> c_size (cts sh ! p)")
    case True
    then show ?thesis using found_stop less.prems by blast
  next
    case False
    obtain sh1 where sh1: "CT_body_from junk sh bct p need = CT_body_from junk sh1 bct (length (cts sh)) need"
      "grows sh sh1" "similar_ok (cts sh1)" "length (cts sh1) \<le> ca_max sh1"
      "length (cts sh1) = Suc (length (cts sh))"
      "c_similar (cts sh1 ! length (cts sh)) = None" "c_similar (cts sh1 ! p) = Some (length (cts sh))"
      "c_size (cts sh1 ! length (cts sh)) = 2 * c_size (cts sh ! p)"
      using CT_body_extend [OF less.prems, of need] False by (metis not_le)
    note pos = similar_okD [OF less.prems(1) less.prems(6)]
    have kind: "kind (cts sh1 ! bct) = kind (cts sh1 ! length (cts sh))"
      using similar_ok_link [OF sh1(3) _ sh1(7)] grows_same(4,5) [OF sh1(2) less.prems(3)]
        grows_same(4,5) [OF sh1(2) less.prems(6)] less.prems(5,6) sh1(5) by (simp add: kind_def)
    have "\<exists>sh' q. found junk sh1 bct (length (cts sh)) need sh' q"
      using sh1 less.prems pos False grows_same(5) [OF sh1(2) less.prems(3)] kind by (intro less.hyps) auto
    then obtain sh' q where f: "found junk sh1 bct (length (cts sh)) need sh' q" by blast
    have "found junk sh1 bct p need sh' q"
      using sh1 less.prems False grows_same(1) [OF sh1(2) less.prems(6)]
      by (intro found_follow [OF _ _ _ f]) auto
    then have "found junk sh bct p need sh' q"
      using f sh1(1,2) by (auto simp: found_def intro: cts_grows_trans)
    then show ?thesis by blast
  qed
qed

lemma CT_body_found:
  assumes "similar_ok (cts sh)" "length (cts sh) \<le> ca_max sh"
    and "bct < length (cts sh)" "c_initdef (cts sh ! bct) = None" "p < length (cts sh)"
    and "kind (cts sh ! bct) = kind (cts sh ! p)"
  shows "\<exists>sh' q. found junk sh bct p need sh' q"
  using assms
proof (induction "length (cts sh) - p" arbitrary: p rule: less_induct)
  case less
  show ?case
  proof (cases "need \<le> c_size (cts sh ! p)")
    case True
    then show ?thesis using found_stop less.prems by blast
  next
    case False
    show ?thesis
    proof (cases "c_similar (cts sh ! p)")
      case None
      then show ?thesis using CT_body_end less.prems by blast
    next
      case (Some q)
      from similar_ok_link [OF less.prems(1,5) this]
      have q: "p < q" "q < length (cts sh)" "kind (cts sh ! bct) = kind (cts sh ! q)" using less.prems(6) by simp_all
      then obtain sh' r where "found junk sh bct q need sh' r" using less.hyps less.prems(1-4) by fastforce
      then show ?thesis using found_follow [OF less.prems(5) _ Some] False by (metis not_le)
    qed
  qed
qed

section \<open>Parameter lists are interned\<close>

lemma cts_ok_grows:
  assumes "cts_ok sh" "grows sh sh'" "similar_ok (cts sh')" "length (cts sh') \<le> ca_max sh'"
  shows "cts_ok sh'"
  using assms grows_same(5) [OF assms(2), of 7] by (auto simp: cts_ok_def grows_def)

lemma new_Param_Some:
  assumes "cts_ok sh"
  obtains sh' where "new_Param junk sh r p = Some (sh', \<lparr>prtype = r, pps = p\<rparr>)" "grows sh sh'" "cts_ok sh'"
proof -
  have 7: "unat CLASS_Param = 7" by (simp add: class_ids)
  have ok: "similar_ok (cts sh)" "length (cts sh) \<le> ca_max sh" "7 < length (cts sh)" "c_initdef (cts sh ! 7) = None"
    using assms by (simp_all add: cts_ok_def)
  let ?need = "sizeof_kObjectHeader + 8 + length p * sizeof_kparam"
  obtain sh' q where f: "found junk sh 7 7 ?need sh' q"
    using CT_body_found [OF ok ok(3) refl] by blast
  then have q: "CT_body junk sh 7 8 (length p * sizeof_kparam) = Some (sh', q)" "q < length (cts sh')"
    "?need \<le> c_size (cts sh' ! q)" "grows sh sh'" "similar_ok (cts sh')" "length (cts sh') \<le> ca_max sh'"
    by (simp_all add: found_def CT_body_def)
  have "new_Param junk sh r p = Some (sh', \<lparr>prtype = r, pps = p\<rparr>)"
    using q(1-3) by (simp add: new_Param_def 7 mem_get_def sizeof_kObjectHeader_def)
  then show ?thesis using that q(4) cts_ok_grows [OF assms q(4-6)] by blast
qed

text \<open>
  A table of parameter lists: \<open>hashp\<close> is their hash and \<open>nf\<close> what distinguishes two of them.
\<close>

definition par_entries :: "(u32 \<Rightarrow> kparam list \<Rightarrow> u64) \<Rightarrow> kParam list \<Rightarrow> (u64 \<times> kParam \<times> u64) multiset" where
  "par_entries hashp ks = mset (map (\<lambda>i. (hashp (prtype (ks ! i)) (pps (ks ! i)), ks ! i, word_of_nat i)) [0..<length ks])"

definition par_holds :: "(u32 \<Rightarrow> kparam list \<Rightarrow> u64) \<Rightarrow> (kParam \<Rightarrow> 'n) \<Rightarrow> ptab \<Rightarrow> bool" where
  "par_holds hashp nf t \<longleftrightarrow> distinct (map nf (plist t)) \<and> length (plist t) < 2 ^ 32 - 1
     \<and> kmap_holds (pmap t) (par_entries hashp (plist t))"

lemma par_entries_mem:
  "(h, k, v) \<in># par_entries hashp ks \<longleftrightarrow>
     (\<exists>i < length ks. h = hashp (prtype (ks ! i)) (pps (ks ! i)) \<and> k = ks ! i \<and> v = word_of_nat i)"
  unfolding par_entries_def set_mset_mset set_map by (force simp: image_iff)

lemma par_entries_snoc:
  "par_entries hashp (ks @ [k]) = add_mset (hashp (prtype k) (pps k), k, word_of_nat (length ks)) (par_entries hashp ks)"
proof -
  have "map (\<lambda>i. (hashp (prtype ((ks @ [k]) ! i)) (pps ((ks @ [k]) ! i)), (ks @ [k]) ! i, word_of_nat i :: u64)) [0..<length ks]
      = map (\<lambda>i. (hashp (prtype (ks ! i)) (pps (ks ! i)), ks ! i, word_of_nat i)) [0..<length ks]"
    by (rule map_cong) (simp_all add: nth_append)
  moreover have "[0..<length (ks @ [k])] = [0..<length ks] @ [length ks]" by simp
  ultimately show ?thesis unfolding par_entries_def by (simp only: map_append mset_append) simp
qed

locale param_index =
  fixes hashp :: "u32 \<Rightarrow> kparam list \<Rightarrow> u64"
    and eqp :: "u32 \<Rightarrow> kparam list \<Rightarrow> kParam \<Rightarrow> bool"
    and nf :: "kParam \<Rightarrow> 'n"
  assumes eqp_iff: "eqp r p k \<longleftrightarrow> nf \<lparr>prtype = r, pps = p\<rparr> = nf k"
    and hash_nf: "nf \<lparr>prtype = r, pps = p\<rparr> = nf \<lparr>prtype = r', pps = p'\<rparr> \<Longrightarrow> hashp r p = hashp r' p'"
begin

lemma hash_key: "nf \<lparr>prtype = r, pps = p\<rparr> = nf k \<Longrightarrow> hashp r p = hashp (prtype k) (pps k)"
proof -
  assume *: "nf \<lparr>prtype = r, pps = p\<rparr> = nf k"
  have "\<lparr>prtype = prtype k, pps = pps k\<rparr> = k" by simp
  then show ?thesis using hash_nf [of r p "prtype k" "pps k"] * by (simp only:)
qed

lemma getparamid_known:
  assumes t: "par_holds hashp nf t" and i: "i < length (plist t)" "nf (plist t ! i) = nf \<lparr>prtype = r, pps = p\<rparr>"
  shows "Kmap_getparamid junk sh t (hashp r p) eqp r p = Some (sh, t, word_of_nat i)"
proof -
  let ?ks = "plist t"
  have d: "distinct (map nf ?ks)" and h: "kmap_holds (pmap t) (par_entries hashp ?ks)"
    using t by (simp_all add: par_holds_def)
  have uniq: "j = i" if "j < length ?ks" "nf (?ks ! j) = nf \<lparr>prtype = r, pps = p\<rparr>" for j
    using nth_eq_iff_index_eq [OF d, of i j] that i by simp
  have "(hashp r p, ?ks ! i, word_of_nat i) \<in># par_entries hashp ?ks"
    unfolding par_entries_mem using i hash_key [of r p "?ks ! i"] by auto
  from kidx.search_hit [OF h this, of "eqp r p"] i obtain k' v' where
    s: "kmap_search (pmap t) (hashp r p) (eqp r p) = Some (Some v')"
    "(hashp r p, k', v') \<in># par_entries hashp ?ks" "eqp r p k'"
    by (auto simp: eqp_iff)
  then have "v' = word_of_nat i" using uniq unfolding par_entries_mem eqp_iff by auto
  with s(1) show ?thesis by (simp add: Kmap_getparamid_def ucast_nat)
qed

lemma getparamid_new:
  assumes ok: "cts_ok sh" and t: "par_holds hashp nf t" and room: "length (plist t) < 2 ^ 32 - 2"
    and new: "nf \<lparr>prtype = r, pps = p\<rparr> \<notin> nf ` set (plist t)"
  obtains sh' t' where
    "Kmap_getparamid junk sh t (hashp r p) eqp r p = Some (sh', t', word_of_nat (length (plist t)))"
    "grows sh sh'" "cts_ok sh'" "par_holds hashp nf t'" "plist t' = plist t @ [\<lparr>prtype = r, pps = p\<rparr>]"
proof -
  let ?ks = "plist t" and ?pa = "\<lparr>prtype = r, pps = p\<rparr>"
  have d: "distinct (map nf ?ks)" and h: "kmap_holds (pmap t) (par_entries hashp ?ks)"
    using t by (simp_all add: par_holds_def)
  have miss: "kmap_search (pmap t) (hashp r p) (eqp r p) = Some None"
  proof (rule kidx.search_miss [OF h])
    fix k v assume "(hashp r p, k, v) \<in># par_entries hashp ?ks"
    then show "\<not> eqp r p k" using new unfolding par_entries_mem eqp_iff by auto
  qed
  obtain sh' where sh': "new_Param junk sh r p = Some (sh', ?pa)" "grows sh sh'" "cts_ok sh'"
    by (rule new_Param_Some [OF ok])
  obtain m where m: "map_addStringUnboxValue (j_par junk) (pmap t) (hashp r p) ?pa (word_of_nat (length ?ks)) = Some m"
    "kmap_holds m (add_mset (hashp r p, ?pa, word_of_nat (length ?ks)) (par_entries hashp ?ks))"
    using kidx.insert_holds [OF h] by blast
  let ?t' = "t\<lparr>plist := ?ks @ [?pa], pmap := m\<rparr>"
  have "par_holds hashp nf ?t'"
    using d m(2) new room par_entries_snoc [of hashp ?ks ?pa] by (auto simp: par_holds_def)
  moreover have "Kmap_getparamid junk sh t (hashp r p) eqp r p = Some (sh', ?t', word_of_nat (length ?ks))"
    using miss sh'(1) m(1) by (simp add: Kmap_getparamid_def Let_def ucast_nat)
  ultimately show ?thesis using that sh' by simp
qed

lemma getparamid_refines:
  assumes "cts_ok sh" "par_holds hashp nf t" "length (plist t) < 2 ^ 32 - 2"
  shows "\<exists>sh' t' i. Kmap_getparamid junk sh t (hashp r p) eqp r p = Some (sh', t', word_of_nat i)
     \<and> grows sh sh' \<and> cts_ok sh' \<and> par_holds hashp nf t' \<and> i < length (plist t')
     \<and> nf (plist t' ! i) = nf \<lparr>prtype = r, pps = p\<rparr> \<and> (\<exists>ls. plist t' = plist t @ ls \<and> length ls \<le> 1)"
proof (cases "nf \<lparr>prtype = r, pps = p\<rparr> \<in> nf ` set (plist t)")
  case True
  then obtain i where i: "i < length (plist t)" "nf (plist t ! i) = nf \<lparr>prtype = r, pps = p\<rparr>"
    by (metis imageE in_set_conv_nth)
  show ?thesis
    by (rule exI [of _ sh], rule exI [of _ t], rule exI [of _ i])
      (use i getparamid_known [OF assms(2) i] assms cts_grows_refl in auto)
next
  case False
  obtain sh' t' where 1: "Kmap_getparamid junk sh t (hashp r p) eqp r p = Some (sh', t', word_of_nat (length (plist t)))"
    "grows sh sh'" "cts_ok sh'" "par_holds hashp nf t'" "plist t' = plist t @ [\<lparr>prtype = r, pps = p\<rparr>]"
    by (rule getparamid_new [OF assms False])
  show ?thesis
    by (rule exI [of _ sh'], rule exI [of _ t'], rule exI [of _ "length (plist t)"]) (use 1 in simp)
qed

end

lemma list_all_eq_map:
  "length xs = length ys \<Longrightarrow> list_all (\<lambda>i. f (xs ! i) = f (ys ! i)) [0..<length xs] \<longleftrightarrow> map f xs = map f ys"
  unfolding list_all_iff list_eq_iff_nth_eq set_upt length_map by (metis atLeastLessThan_iff nth_map zero_le)

lemma equalsParamDom_iff: "equalsParamDom r p k \<longleftrightarrow> map pty p = map pty (pps k)"
proof (cases "length p = length (pps k)")
  case True
  then show ?thesis unfolding equalsParamDom_def list_all_eq_map [OF True] by simp
next
  case False
  then have "map pty p \<noteq> map pty (pps k)" by (metis length_map)
  with False show ?thesis unfolding equalsParamDom_def by simp
qed

lemma kparam_eq_iff: "x = y \<longleftrightarrow> pty x = pty y \<and> pfn x = pfn (y :: kparam)"
  by (cases x; cases y) simp

lemma equalsParam_iff: "equalsParam r p k \<longleftrightarrow> \<lparr>prtype = r, pps = p\<rparr> = k"
proof -
  have k: "\<lparr>prtype = r, pps = p\<rparr> = k \<longleftrightarrow> r = prtype k \<and> p = pps k" by (cases k) simp
  show ?thesis
  proof (cases "length p = length (pps k)")
    case True
    from list_all_eq_map [OF True, of "\<lambda>x. x"]
    show ?thesis using True unfolding equalsParam_def k kparam_eq_iff [symmetric] by simp
  next
    case False
    then have "p \<noteq> pps k" by metis
    with False show ?thesis unfolding equalsParam_def k by simp
  qed
qed

lemma hashparamdom_types: "hashparamdom p = fold (\<lambda>t h. ucast t + 31 * h) (map pty p) 0"
  unfolding hashparamdom_def by (simp add: fold_map comp_def)

interpretation pari: param_index hashparam equalsParam "\<lambda>k. k"
  by unfold_locales (simp_all add: equalsParam_iff)

interpretation domi: param_index "\<lambda>_. hashparamdom" equalsParamDom "\<lambda>k. map pty (pps k)"
  by unfold_locales (simp_all add: equalsParamDom_iff hashparamdom_types)

text \<open>The state of the two tables.\<close>

definition cshare_ok :: "cshare \<Rightarrow> bool" where
  "cshare_ok sh \<longleftrightarrow> cts_ok sh \<and> par_holds hashparam (\<lambda>k. k) (params sh)
     \<and> par_holds (\<lambda>_. hashparamdom) (\<lambda>k. map pty (pps k)) (paramdoms sh)"

lemma Kparam_refines:
  assumes "cshare_ok sh" "length (plist (params sh)) < 2 ^ 32 - 2"
  shows "\<exists>sh' i. Kparam junk sh r p = Some (sh', word_of_nat i) \<and> cshare_ok sh'
     \<and> i < length (plist (params sh')) \<and> plist (params sh') ! i = \<lparr>prtype = r, pps = p\<rparr>
     \<and> (\<exists>ls. plist (params sh') = plist (params sh) @ ls \<and> length ls \<le> 1)
     \<and> paramdoms sh' = paramdoms sh"
proof -
  obtain sh' t' i where 1: "Kmap_getparamid junk sh (params sh) (hashparam r p) equalsParam r p = Some (sh', t', word_of_nat i)"
    "grows sh sh'" "cts_ok sh'" "par_holds hashparam (\<lambda>k. k) t'" "i < length (plist t')"
    "plist t' ! i = \<lparr>prtype = r, pps = p\<rparr>" "\<exists>ls. plist t' = plist (params sh) @ ls \<and> length ls \<le> 1"
    using pari.getparamid_refines [where sh=sh and t="params sh" and junk=junk and r=r and p=p] assms by (auto simp: cshare_ok_def)
  have "cts_ok (sh'\<lparr>params := t'\<rparr>)" using 1(3) by (simp add: cts_ok_def)
  then show ?thesis using 1 assms
    by (intro exI [of _ "sh'\<lparr>params := t'\<rparr>"] exI [of _ i]) (simp add: Kparam_def cshare_ok_def grows_def)
qed

lemma Kparamdom_refines:
  assumes "cshare_ok sh" "length (plist (paramdoms sh)) < 2 ^ 32 - 2"
  shows "\<exists>sh' i. Kparamdom junk sh p = Some (sh', word_of_nat i) \<and> cshare_ok sh'
     \<and> i < length (plist (paramdoms sh')) \<and> map pty (pps (plist (paramdoms sh') ! i)) = map pty p
     \<and> (\<exists>ls. plist (paramdoms sh') = plist (paramdoms sh) @ ls \<and> length ls \<le> 1)
     \<and> grows (sh\<lparr>paramdoms := paramdoms sh'\<rparr>) sh'"
proof -
  obtain sh' t' i where 1: "Kmap_getparamid junk sh (paramdoms sh) (hashparamdom p) equalsParamDom CLASS_Tvoid p = Some (sh', t', word_of_nat i)"
    "grows sh sh'" "cts_ok sh'" "par_holds (\<lambda>_. hashparamdom) (\<lambda>k. map pty (pps k)) t'" "i < length (plist t')"
    "map pty (pps (plist t' ! i)) = map pty p" "\<exists>ls. plist t' = plist (paramdoms sh) @ ls \<and> length ls \<le> 1"
    using domi.getparamid_refines [where sh=sh and t="paramdoms sh" and junk=junk and r=CLASS_Tvoid and p=p] assms by (auto simp: cshare_ok_def)
  have "cts_ok (sh'\<lparr>paramdoms := t'\<rparr>)" using 1(3) by (simp add: cts_ok_def)
  moreover have "grows (sh\<lparr>paramdoms := t'\<rparr>) (sh'\<lparr>paramdoms := t'\<rparr>)" using 1(2) by (simp add: grows_def)
  ultimately show ?thesis using 1 assms
    by (intro exI [of _ "sh'\<lparr>paramdoms := t'\<rparr>"] exI [of _ i]) (simp add: Kparamdom_def cshare_ok_def grows_def)
qed

section \<open>Maps of words\<close>

text \<open>
  The contract of \<^verbatim>\<open>map_getu\<close> and \<^verbatim>\<open>map_addu\<close> for their clients, the class names here and
  the packages: a finite map to which unused hashes are added.
\<close>

locale word_map =
  fixes holds :: "'m \<Rightarrow> (u64 \<rightharpoonup> u64) \<Rightarrow> bool"
    and getu :: "'m \<Rightarrow> u64 \<Rightarrow> u64 \<Rightarrow> u64 option"
    and addu :: "'m \<Rightarrow> u64 \<Rightarrow> u64 \<Rightarrow> 'm option"
  assumes getu_holds: "holds m f \<Longrightarrow> getu m h def = Some (case f h of None \<Rightarrow> def | Some v \<Rightarrow> v)"
    and addu_holds: "holds m f \<Longrightarrow> f h = None \<Longrightarrow> \<exists>m'. addu m h v = Some m' \<and> holds m' (f(h \<mapsto> v))"
begin

text \<open>What is added is found, and nothing else changes.\<close>

lemma getu_addu:
  assumes "holds m f" "f h = None" "addu m h v = Some m'"
  shows "getu m' h' def = (if h' = h then Some v else getu m h' def)"
proof -
  obtain m'' where "addu m h v = Some m''" "holds m'' (f(h \<mapsto> v))" using addu_holds assms by blast
  then show ?thesis using assms by (auto simp: getu_holds)
qed

end

definition uholds :: "'k kmap \<Rightarrow> (u64 \<rightharpoonup> u64) \<Rightarrow> bool" where
  "uholds m f \<longleftrightarrow> (\<exists>M. kmap_models m M \<and> (\<forall>h k v. (h, k, v) \<in># M \<longrightarrow> f h = Some v)
     \<and> (\<forall>h v. f h = Some v \<longrightarrow> (\<exists>k. (h, k, v) \<in># M)))"

lemma map_addu_models:
  assumes "kmap_models m M"
  shows "\<exists>m' k. map_addu junk m h v = Some m' \<and> kmap_models m' (add_mset (h, k, v) M)"
proof -
  obtain cs fs where rep: "kmap_rep m cs fs []" "M = kdata m cs"
    using assms by (auto simp: kmap_models_iff)
  obtain m1 i cs1 fs1 where n: "Kmap_newentry junk m h = Some (m1, EP (arena_blk m1) i)"
    and rep1: "kmap_rep m1 cs1 fs1 [i]" and data1: "kdata m1 cs1 = kdata m cs"
    and e: "hcode (arena m1 ! i) = h" "nxt (arena m1 ! i) = None"
    using Kmap_newentry_rep [OF rep(1)] by blast
  have i: "i < length (arena m1)" using kmap_rep_set [OF rep1] kmap_repD [OF rep1] by auto
  have fresh: "i \<notin> set (concat cs1)" "i \<notin> set fs1" using kmap_rep_distinct [OF rep1] by auto
  define x where "x = (arena m1 ! i)\<lparr>uvalue := v\<rparr>"
  define m2 where "m2 = m1\<lparr>arena := (arena m1)[i := x]\<rparr>"
  have rep2: "kmap_rep m2 cs1 fs1 [i]" unfolding m2_def by (rule kmap_rep_rewrite [OF rep1 fresh])
  have x: "arena m2 ! i = x" "nxt (arena m2 ! i) = None" "edata x = (h, ekey x, v)"
    using i e by (simp_all add: m2_def x_def edata_def)
  have data2: "kdata m2 cs1 = M"
    using kdata_update [OF fresh(1), of m2 m1 x] data1 rep(2) by (simp add: m2_def)
  have "map_addu junk m h v = Kmap_add m2 (EP (arena_blk m2) i)"
    using n i by (simp add: map_addu_def deref_def store_def mem_get_def mem_put_def m2_def x_def)
  then show ?thesis using Kmap_add_rep [OF rep2 x(2)] x data2 unfolding kmap_models_iff by metis
qed

interpretation umap: word_map uholds map_getu "map_addu junk" for junk
proof unfold_locales
  fix m :: "'a kmap" and f h and def :: u64
  assume "uholds m f"
  then obtain M where M: "kmap_models m M" "\<And>h k v. (h, k, v) \<in># M \<Longrightarrow> f h = Some v"
    "\<And>h v. f h = Some v \<Longrightarrow> \<exists>k. (h, k, v) \<in># M"
    unfolding uholds_def by blast
  from kmap_lookup_models [OF M(1), of h]
  show "map_getu m h def = Some (case f h of None \<Rightarrow> def | Some v \<Rightarrow> v)"
  proof (elim disjE conjE exE)
    assume n: "Kmap_getentry m h = Some None" "\<forall>d \<in># M. fst d \<noteq> h"
    then have "f h = None" using M(3) by (metis fst_conv not_None_eq)
    with n(1) show ?thesis by (simp add: map_getu_def)
  next
    fix p x
    assume e: "Kmap_getentry m h = Some (Some p)" "deref m p = Some x" "hcode x = h" "edata x \<in># M"
    then have "f h = Some (uvalue x)" using M(2) [of h "ekey x" "uvalue x"] by (simp add: edata_def)
    with e show ?thesis by (simp add: map_getu_def)
  qed
next
  fix m :: "'a kmap" and f h v
  assume u: "uholds m f" and h: "f h = None"
  then obtain M where M: "kmap_models m M" "\<And>h k v. (h, k, v) \<in># M \<Longrightarrow> f h = Some v"
    "\<And>h v. f h = Some v \<Longrightarrow> \<exists>k. (h, k, v) \<in># M"
    unfolding uholds_def by blast
  obtain m' k where m': "map_addu junk m h v = Some m'" "kmap_models m' (add_mset (h, k, v) M)"
    using map_addu_models [OF M(1)] by blast
  have "uholds m' (f(h \<mapsto> v))"
    unfolding uholds_def
  proof (intro exI [of _ "add_mset (h, k, v) M"] conjI allI impI)
    show "kmap_models m' (add_mset (h, k, v) M)" by (fact m'(2))
    show "(f(h \<mapsto> v)) h' = Some v'" if "(h', k', v') \<in># add_mset (h, k, v) M" for h' k' v'
      using that M(2) h by force
    show "\<exists>k'. (h', k', v') \<in># add_mset (h, k, v) M" if "(f(h \<mapsto> v)) h' = Some v'" for h' v'
      using that M(3) by (auto split: if_splits)
  qed
  with m'(1) show "\<exists>m'. map_addu junk m h v = Some m' \<and> uholds m' (f(h \<mapsto> v))" by blast
qed

lemma uholds_init: "\<exists>m. Kmap_init junk n = Some m \<and> uholds m Map.empty"
  using Kmap_init_models [of junk n] unfolding uholds_def by force

end
