(* ===== verification/ClassFacts.thy ===== *)
theory ClassFacts
  imports Classes
begin

text \<open>
  What holds of the class table: signatures and instances of generic classes are unique, subtyping is
  decided, and starting up loads and names the built-in classes.
\<close>

section \<open>Instances of generic classes\<close>

text \<open>\<open>matching\<close> is the test of the search; the search is total and finds the first match.\<close>

definition matching :: "cshare \<Rightarrow> u32 \<Rightarrow> u32 \<Rightarrow> bool \<Rightarrow> nat \<Rightarrow> bool" where
  "matching sh d rt nf p \<longleftrightarrow> c_paramdom (cts sh ! p) = d \<and> (nf \<or> c_p0 (cts sh ! p) = rt)"

lemma find_similar_hit: "p < length (cts sh) \<Longrightarrow> matching sh d rt nf p \<Longrightarrow> find_similar sh p d rt nf = Some (Inl p)"
  by (subst find_similar.simps) (simp add: mem_get_def matching_def)

lemma find_similar_end:
  "p < length (cts sh) \<Longrightarrow> \<not> matching sh d rt nf p \<Longrightarrow> c_similar (cts sh ! p) = None \<Longrightarrow>
     find_similar sh p d rt nf = Some (Inr p)"
  by (subst find_similar.simps) (auto simp: mem_get_def matching_def)

lemma find_similar_next:
  "p < length (cts sh) \<Longrightarrow> \<not> matching sh d rt nf p \<Longrightarrow> c_similar (cts sh ! p) = Some q \<Longrightarrow>
     find_similar sh p d rt nf = find_similar sh q d rt nf"
  by (subst find_similar.simps) (auto simp: mem_get_def matching_def)

lemma matching_grows: "grows sh sh' \<Longrightarrow> p < length (cts sh) \<Longrightarrow> matching sh' d rt nf p \<longleftrightarrow> matching sh d rt nf p"
  by (simp add: matching_def grows_same)

text \<open>Induction along the links of a well-formed table.\<close>

lemma similar_induct [consumes 2, case_names link]:
  assumes "similar_ok (cts sh)" "p < length (cts sh)"
    and "\<And>p. p < length (cts sh) \<Longrightarrow> (\<And>q. c_similar (cts sh ! p) = Some q \<Longrightarrow> q < length (cts sh) \<Longrightarrow> p < q \<Longrightarrow> P q) \<Longrightarrow> P p"
  shows "P p"
  using assms(2)
proof (induction "length (cts sh) - p" arbitrary: p rule: less_induct)
  case less
  show ?case
  proof (rule assms(3) [OF less.prems])
    fix q assume "c_similar (cts sh ! p) = Some q" "q < length (cts sh)" "p < q"
    then show "P q" using less by simp
  qed
qed

lemma find_similar_total:
  assumes "similar_ok (cts sh)" "p < length (cts sh)"
  shows "\<exists>r. find_similar sh p d rt nf = Some r
     \<and> (case r of Inl q \<Rightarrow> p \<le> q \<and> q < length (cts sh) \<and> kind (cts sh ! q) = kind (cts sh ! p) \<and> matching sh d rt nf q
        | Inr q \<Rightarrow> p \<le> q \<and> q < length (cts sh) \<and> kind (cts sh ! q) = kind (cts sh ! p) \<and> c_similar (cts sh ! q) = None)"
  using assms
proof (induction rule: similar_induct)
  case (link p)
  show ?case
  proof (cases "matching sh d rt nf p")
    case True
    then show ?thesis using find_similar_hit link by fastforce
  next
    case False
    show ?thesis
    proof (cases "c_similar (cts sh ! p)")
      case None
      then show ?thesis using find_similar_end False link by fastforce
    next
      case (Some q)
      note q = similar_ok_link [OF assms(1) link(1) Some]
      obtain r where "find_similar sh q d rt nf = Some r"
        "case r of Inl s \<Rightarrow> q \<le> s \<and> s < length (cts sh) \<and> kind (cts sh ! s) = kind (cts sh ! q) \<and> matching sh d rt nf s
           | Inr s \<Rightarrow> q \<le> s \<and> s < length (cts sh) \<and> kind (cts sh ! s) = kind (cts sh ! q) \<and> c_similar (cts sh ! s) = None"
        using link(2) [OF Some] q by blast
      then show ?thesis using find_similar_next [OF link(1) False Some] q
        by (intro exI [of _ r]) (auto split: sum.splits)
    qed
  qed
qed

lemma find_similar_grows:
  assumes "similar_ok (cts sh)" "p < length (cts sh)" "grows sh sh'"
    and "find_similar sh p d rt nf = Some (Inl r)"
  shows "find_similar sh' p d rt nf = Some (Inl r)"
  using assms(1,2,4)
proof (induction rule: similar_induct)
  case (link p)
  have p: "p < length (cts sh')" using link(1) assms(3) by (simp add: grows_def)
  show ?case
  proof (cases "matching sh d rt nf p")
    case True
    then show ?thesis using link find_similar_hit [OF link(1) True] find_similar_hit [OF p] matching_grows [OF assms(3)]
      by simp
  next
    case False
    show ?thesis
    proof (cases "c_similar (cts sh ! p)")
      case None
      then show ?thesis using link find_similar_end [OF link(1) False None] by simp
    next
      case (Some q)
      note q = similar_ok_link [OF assms(1) link(1) Some]
      have "find_similar sh q d rt nf = Some (Inl r)"
        using link.prems find_similar_next [OF link(1) False Some] by simp
      then have "find_similar sh' q d rt nf = Some (Inl r)" using link(2) [OF Some] q by blast
      moreover have "c_similar (cts sh' ! p) = Some q" "\<not> matching sh' d rt nf p"
        using assms(3) link(1) Some False matching_grows [OF assms(3)] by (simp_all add: grows_def)
      ultimately show ?thesis using find_similar_next [OF p] by metis
    qed
  qed
qed

text \<open>Only the table matters for the search, and the return type only for function classes.\<close>

lemma find_similar_cts:
  assumes "similar_ok (cts sh)" "p < length (cts sh)" "cts sh' = cts sh"
  shows "find_similar sh' p d rt nf = find_similar sh p d rt nf"
  using assms(1,2)
proof (induction rule: similar_induct)
  case (link p)
  show ?case
  proof (cases "c_similar (cts sh ! p)")
    case None
    then show ?thesis by (subst (1 2) find_similar.simps) (auto simp: mem_get_def assms(3))
  next
    case (Some q)
    from link(2) [OF Some] similar_ok_link [OF assms(1) link(1) Some] Some
    show ?thesis by (subst (1 2) find_similar.simps) (auto simp: mem_get_def assms(3))
  qed
qed

lemma find_similar_rt:
  assumes "similar_ok (cts sh)" "p < length (cts sh)"
  shows "find_similar sh p d rt True = find_similar sh p d rt' True"
  using assms
proof (induction rule: similar_induct)
  case (link p)
  show ?case
  proof (cases "c_similar (cts sh ! p)")
    case None
    then show ?thesis by (subst (1 2) find_similar.simps) (simp add: mem_get_def)
  next
    case (Some q)
    from link(2) [OF Some] similar_ok_link [OF assms(1) link(1) Some] Some
    show ?thesis by (subst (1 2) find_similar.simps) (simp add: mem_get_def)
  qed
qed

text \<open>Linking a matching class to the end of the chain that was searched.\<close>

lemma find_similar_linked:
  assumes "similar_ok (cts sh)" "p < length (cts sh)" "grows sh sh'"
    and "find_similar sh p d rt nf = Some (Inr l)"
    and "c_similar (cts sh' ! l) = Some n" "n < length (cts sh')" "matching sh' d rt nf n"
  shows "find_similar sh' p d rt nf = Some (Inl n)"
  using assms(1,2,4)
proof (induction rule: similar_induct)
  case (link p)
  have p: "p < length (cts sh')" using link(1) assms(3) by (simp add: grows_def)
  have nm: "\<not> matching sh d rt nf p" using link find_similar_hit [OF link(1)] by fastforce
  then have nm': "\<not> matching sh' d rt nf p" using matching_grows [OF assms(3) link(1)] by simp
  show ?case
  proof (cases "c_similar (cts sh ! p)")
    case None
    then have "l = p" using link.prems find_similar_end [OF link(1) nm None] by simp
    then show ?thesis using find_similar_next [OF p nm'] find_similar_hit assms(5-7) by simp
  next
    case (Some q)
    note q = similar_ok_link [OF assms(1) link(1) Some]
    have "find_similar sh q d rt nf = Some (Inr l)"
      using link.prems find_similar_next [OF link(1) nm Some] by simp
    then have "find_similar sh' q d rt nf = Some (Inl n)" using link(2) [OF Some] q by blast
    moreover have "c_similar (cts sh' ! p) = Some q"
      using assms(3) link(1) Some by (simp add: grows_def)
    ultimately show ?thesis using find_similar_next [OF p nm'] by metis
  qed
qed

text \<open>
  One call on a class without an initialiser of its own. The parameter types get the number \<open>i\<close>,
  and the result \<open>q\<close> is an instance for them, which is found again.
\<close>

lemma CT_Generics_result:
  assumes ok: "cshare_ok sh" and room: "length (plist (paramdoms sh)) < 2 ^ 32 - 2"
    and c: "c < length (cts sh)" "c_initdef (cts sh ! c) = None" and p: "p \<noteq> []"
  defines "nf \<equiv> c_bcid (cts sh ! c) \<noteq> CLASS_Func"
  obtains sh' q i where "CT_Generics junk sh c rt p = Some (sh', q)" "cshare_ok sh'"
    "i < length (plist (paramdoms sh'))" "map pty (pps (plist (paramdoms sh') ! i)) = map pty p"
    "c \<le> q" "q < length (cts sh')" "matching sh' (word_of_nat i) rt nf q"
    "find_similar sh' c (word_of_nat i) rt nf = Some (Inl q)"
    "\<exists>ls. plist (paramdoms sh') = plist (paramdoms sh) @ ls \<and> length ls \<le> 1"
    "grows (sh\<lparr>paramdoms := paramdoms sh'\<rparr>) sh'" "kind (cts sh' ! q) = kind (cts sh ! c)"
proof -
  obtain sh1 i where 1: "Kparamdom junk sh p = Some (sh1, word_of_nat i)" "cshare_ok sh1"
    "i < length (plist (paramdoms sh1))" "map pty (pps (plist (paramdoms sh1) ! i)) = map pty p"
    "\<exists>ls. plist (paramdoms sh1) = plist (paramdoms sh) @ ls \<and> length ls \<le> 1"
    "grows (sh\<lparr>paramdoms := paramdoms sh1\<rparr>) sh1"
    using Kparamdom_refines [OF ok room, of junk p] by blast
  have ok1: "similar_ok (cts sh1)" "length (cts sh1) \<le> ca_max sh1"
    using 1(2) by (simp_all add: cshare_ok_def cts_ok_def)
  have c1: "c < length (cts sh1)" "c_initdef (cts sh1 ! c) = None" "c_bcid (cts sh1 ! c) = c_bcid (cts sh ! c)"
    using c 1(6) grows_same(4,5) [OF 1(6), of c] by (simp_all add: grows_def)
  let ?d = "word_of_nat i :: u32"
  obtain r where r: "find_similar sh1 c ?d rt nf = Some r"
    "case r of Inl q \<Rightarrow> c \<le> q \<and> q < length (cts sh1) \<and> kind (cts sh1 ! q) = kind (cts sh1 ! c) \<and> matching sh1 ?d rt nf q
       | Inr q \<Rightarrow> c \<le> q \<and> q < length (cts sh1) \<and> kind (cts sh1 ! q) = kind (cts sh1 ! c) \<and> c_similar (cts sh1 ! q) = None"
    using find_similar_total [OF ok1(1) c1(1)] by blast
  show ?thesis
  proof (cases r)
    case (Inl q)
    have "CT_Generics junk sh c rt p = Some (sh1, q)"
      using 1(1) c1 r(1) Inl by (simp add: CT_Generics_def mem_get_def Let_def nf_def)
    then show ?thesis using that [of sh1 q i] 1 r Inl c1 c by (simp add: kind_def)
  next
    case (Inr l)
    let ?n = "length (cts sh1)"
    obtain m where m: "?n < m" "new_CT_copy junk sh1 c
        = Some (sh1\<lparr>cts := cts sh1 @ [copy_CT (cts sh1 ! c) ?n], ca_max := m\<rparr>, ?n)"
      by (rule new_CT_copy_Some [OF c1(1,2) ok1(2)])
    define new where "new = (copy_CT (cts sh1 ! c) ?n)\<lparr>c_paramdom := ?d,
        c_p0 := (if nf then pty (p ! 0) else rt), c_methods := Some K_EMPTYARRAY, c_super := Some c\<rparr>"
    define sh2 where "sh2 = sh1\<lparr>ca_max := m, cts := (cts sh1)[l := (cts sh1 ! l)\<lparr>c_similar := Some ?n\<rparr>] @ [new]\<rparr>"
    have l: "c \<le> l" "l < ?n" "c_similar (cts sh1 ! l) = None" using r(2) Inr by simp_all
    have run: "CT_Generics junk sh c rt p = Some (sh2, ?n)"
      using 1(1) c1 r(1) Inr m l p
      by (simp add: CT_Generics_def mem_get_def Let_def nf_def upd_CT_Some sh2_def new_def
          list_update_append nth_append)
    have "similar_ok (cts sh1 @ [new])"
      using ok1(1) similar_okD [OF ok1(1) c1(1)] by (intro similar_ok_snoc) (simp_all add: new_def)
    moreover have "kind new = kind (cts sh1 ! l)"
      using r(2) Inr by (simp add: kind_def new_def)
    ultimately have "similar_ok ((cts sh1 @ [new])[l := (cts sh1 ! l)\<lparr>c_similar := Some ?n\<rparr>])"
      using l similar_okD [OF ok1(1) l(2)] by (intro similar_ok_update) (simp_all add: kind_def nth_append)
    then have s2: "similar_ok (cts sh2)" using l by (simp add: sh2_def list_update_append)
    have g: "grows sh1 sh2"
      using l by (auto simp: grows_def sh2_def nth_append nth_list_update)
  have pd: "paramdoms sh2 = paramdoms sh1" by (simp add: sh2_def)
  have g': "grows (sh\<lparr>paramdoms := paramdoms sh2\<rparr>) sh2"
      using cts_grows_trans [OF 1(6) g] pd by simp
    have ok2: "cshare_ok sh2"
      using cts_ok_grows [OF _ g s2] 1(2) m(1) g by (simp add: cshare_ok_def sh2_def)
    have at: "cts sh2 ! ?n = new" "c_similar (cts sh2 ! l) = Some ?n" "?n < length (cts sh2)"
      using l by (simp_all add: sh2_def nth_append)
    have mt: "matching sh2 ?d rt nf ?n" by (simp add: matching_def at(1) new_def)
    have "find_similar sh2 c ?d rt nf = Some (Inl ?n)"
      using find_similar_linked [OF ok1(1) c1(1) g _ at(2,3) mt] r(1) Inr by simp
    then show ?thesis
      using that [OF run ok2] 1(3-5) l at(1,3) mt g g' c1 c by (simp add: sh2_def kind_def new_def)
  qed
qed

section \<open>Properties of parameter lists and classes\<close>

lemma unat_code: "i < 2 ^ 32 \<Longrightarrow> unat (word_of_nat i :: u32) = i"
  by (simp add: unsigned_of_nat take_bit_nat_eq_self)

lemma code_inj: "i < 2 ^ 32 \<Longrightarrow> j < 2 ^ 32 \<Longrightarrow> (word_of_nat i :: u32) = word_of_nat j \<longleftrightarrow> i = j"
  using unat_code by metis

text \<open>
  C15: a signature is one number. Registering two signatures of methods gives the same number exactly
  if return type, parameter types and parameter names agree, and the number is the position of
  the signature in the list of signatures; the parameter objects always have room for their
  parameters.
\<close>

theorem Kparam_identifies:
  assumes "cshare_ok sh" "length (plist (params sh)) < 2 ^ 32 - 3"
  shows "\<exists>sh1 sh2 i j. Kparam junk sh r p = Some (sh1, i) \<and> Kparam junk sh1 r' p' = Some (sh2, j)
     \<and> (i = j \<longleftrightarrow> r = r' \<and> p = p')
     \<and> plist (params sh2) ! unat i = \<lparr>prtype = r, pps = p\<rparr>
     \<and> plist (params sh2) ! unat j = \<lparr>prtype = r', pps = p'\<rparr>"
proof -
  obtain sh1 i where 1: "Kparam junk sh r p = Some (sh1, word_of_nat i)" "cshare_ok sh1"
    "i < length (plist (params sh1))" "plist (params sh1) ! i = \<lparr>prtype = r, pps = p\<rparr>"
    "\<exists>ls. plist (params sh1) = plist (params sh) @ ls \<and> length ls \<le> 1"
    using Kparam_refines [OF assms(1), of junk r p] assms(2) by auto
  then have n: "length (plist (params sh1)) < 2 ^ 32 - 2" using assms(2) by auto
  obtain sh2 j where 2: "Kparam junk sh1 r' p' = Some (sh2, word_of_nat j)" "cshare_ok sh2"
    "j < length (plist (params sh2))" "plist (params sh2) ! j = \<lparr>prtype = r', pps = p'\<rparr>"
    "\<exists>ls. plist (params sh2) = plist (params sh1) @ ls \<and> length ls \<le> 1"
    using Kparam_refines [OF 1(2) n, of junk r' p'] by blast
  have i: "i < length (plist (params sh2))" "plist (params sh2) ! i = \<lparr>prtype = r, pps = p\<rparr>"
    using 1(3,4) 2(5) by (auto simp: nth_append)
  have len: "length (plist (params sh2)) < 2 ^ 32" using n 2(5) by auto
  have d: "distinct (plist (params sh2))" using 2(2) by (simp add: cshare_ok_def par_holds_def)
  have small: "i < 2 ^ 32" "j < 2 ^ 32" using i(1) 2(3) len by linarith+
  note c = unat_code [OF small(1)] unat_code [OF small(2)]
  have "(word_of_nat i :: u32) = word_of_nat j \<longleftrightarrow> i = j" by (rule code_inj [OF small])
  also have "\<dots> \<longleftrightarrow> plist (params sh2) ! i = plist (params sh2) ! j"
    by (rule nth_eq_iff_index_eq [OF d i(1) 2(3), symmetric])
  also have "\<dots> \<longleftrightarrow> r = r' \<and> p = p'" by (simp add: i(2) 2(4))
  finally have "(word_of_nat i :: u32) = word_of_nat j \<longleftrightarrow> r = r' \<and> p = p'" .
  then show ?thesis
    by (intro exI [of _ sh1] exI [of _ sh2] exI [of _ "word_of_nat i"] exI [of _ "word_of_nat j"])
      (simp only: 1(1) 2(1,4) i(2) c simp_thms)
qed

text \<open>
  C14: the instances of a generic class are unique. Two requests at the class itself give the same
  class exactly if the type parameters agree and, for function classes, the return types.
\<close>

theorem CT_Generics_identity:
  assumes ok: "cshare_ok sh" and room: "length (plist (paramdoms sh)) < 2 ^ 32 - 3"
    and c: "c < length (cts sh)" "c_initdef (cts sh ! c) = None" and p: "p \<noteq> []" "p' \<noteq> []"
  shows "\<exists>sh1 sh2 q q'. CT_Generics junk sh c rt p = Some (sh1, q) \<and> CT_Generics junk sh1 c rt' p' = Some (sh2, q')
     \<and> (q = q' \<longleftrightarrow> map pty p = map pty p' \<and> (c_bcid (cts sh ! c) = CLASS_Func \<longrightarrow> rt = rt'))"
proof -
  let ?nf = "c_bcid (cts sh ! c) \<noteq> CLASS_Func"
  have room': "length (plist (paramdoms sh)) < 2 ^ 32 - 2" using room by simp
  obtain sh1 q i where 1: "CT_Generics junk sh c rt p = Some (sh1, q)" "cshare_ok sh1"
    "i < length (plist (paramdoms sh1))" "map pty (pps (plist (paramdoms sh1) ! i)) = map pty p"
    "c \<le> q" "q < length (cts sh1)" "matching sh1 (word_of_nat i) rt ?nf q"
    "find_similar sh1 c (word_of_nat i) rt ?nf = Some (Inl q)"
    "\<exists>ls. plist (paramdoms sh1) = plist (paramdoms sh) @ ls \<and> length ls \<le> 1"
    "grows (sh\<lparr>paramdoms := paramdoms sh1\<rparr>) sh1"
    by (rule CT_Generics_result [OF ok room' c p(1), where junk = junk and rt = rt])
  have len1: "c < length (cts sh1)" using c(1) 1(10) by (simp add: grows_def)
  have c1: "c_initdef (cts sh1 ! c) = None" "c_bcid (cts sh1 ! c) = c_bcid (cts sh ! c)"
    using c grows_same(4,5) [OF 1(10), of c] by simp_all
  have n: "length (plist (paramdoms sh1)) < 2 ^ 32 - 2" using 1(9) room by auto
  obtain sh2 q' j where 2: "CT_Generics junk sh1 c rt' p' = Some (sh2, q')" "cshare_ok sh2"
    "j < length (plist (paramdoms sh2))" "map pty (pps (plist (paramdoms sh2) ! j)) = map pty p'"
    "c \<le> q'" "q' < length (cts sh2)" "matching sh2 (word_of_nat j) rt' ?nf q'"
    "find_similar sh2 c (word_of_nat j) rt' ?nf = Some (Inl q')"
    "\<exists>ls. plist (paramdoms sh2) = plist (paramdoms sh1) @ ls \<and> length ls \<le> 1"
    "grows (sh1\<lparr>paramdoms := paramdoms sh2\<rparr>) sh2"
    by (rule CT_Generics_result [OF 1(2) n len1 c1(1) p(2), where junk = junk and rt = rt', unfolded c1(2)])
  note g = 2(10)
  have i: "i < length (plist (paramdoms sh2))" "map pty (pps (plist (paramdoms sh2) ! i)) = map pty p"
    using 1(3,4) 2(9) by (auto simp: nth_append)
  have len: "length (plist (paramdoms sh2)) < 2 ^ 32" using n 2(9) by auto
  let ?ms = "map (\<lambda>k. map pty (pps k)) (plist (paramdoms sh2))"
  have d: "distinct ?ms" using 2(2) by (simp add: cshare_ok_def par_holds_def)
  have small: "i < 2 ^ 32" "j < 2 ^ 32" using i(1) 2(3) len by linarith+
  have "(word_of_nat i :: u32) = word_of_nat j \<longleftrightarrow> i = j" by (rule code_inj [OF small])
  also have "\<dots> \<longleftrightarrow> ?ms ! i = ?ms ! j"
    by (rule nth_eq_iff_index_eq [OF d, symmetric]) (simp_all add: i(1) 2(3))
  also have "\<dots> \<longleftrightarrow> map pty p = map pty p'" by (simp add: i 2(3,4))
  finally have same: "(word_of_nat i :: u32) = word_of_nat j \<longleftrightarrow> map pty p = map pty p'" .
  have q: "matching sh2 (word_of_nat i) rt ?nf q"
    using 1(6,7) matching_grows [OF g, of q] by (auto simp: matching_def)
  have sim: "similar_ok (cts sh1)" using 1(2) by (simp add: cshare_ok_def cts_ok_def)
  have "find_similar (sh1\<lparr>paramdoms := paramdoms sh2\<rparr>) c (word_of_nat i) rt ?nf = Some (Inl q)"
    using find_similar_cts [OF sim, of c "sh1\<lparr>paramdoms := paramdoms sh2\<rparr>"] len1 1(8) by simp
  from find_similar_grows [OF _ _ g this] sim len1
  have "find_similar sh2 c (word_of_nat i) rt ?nf = Some (Inl q)" by simp
  moreover have "find_similar sh2 c (word_of_nat i) rt' ?nf = find_similar sh2 c (word_of_nat i) rt ?nf"
    if "?nf \<or> rt = rt'"
    using that find_similar_rt [of sh2 c "word_of_nat i" rt' rt] 2(2,10) len1
    by (auto simp: cshare_ok_def cts_ok_def grows_def)
  ultimately have "q = q'" if "map pty p = map pty p'" "?nf \<or> rt = rt'"
    using 2(8) same that by simp
  moreover have "map pty p = map pty p' \<and> (?nf \<or> rt = rt')" if "q = q'"
    using q 2(7) that same by (auto simp: matching_def)
  ultimately show ?thesis using 1(1) 2(1) by blast
qed

text \<open>\<open>q\<close> is an instance for the parameters \<open>p\<close>.\<close>

definition instance_for :: "cshare \<Rightarrow> nat \<Rightarrow> kparam list \<Rightarrow> bool" where
  "instance_for sh q p \<longleftrightarrow> q < length (cts sh)
     \<and> (\<exists>i < length (plist (paramdoms sh)). map pty (pps (plist (paramdoms sh) ! i)) = map pty p
          \<and> c_paramdom (cts sh ! q) = word_of_nat i)"

lemma instance_grows:
  assumes "instance_for sh q p" "grows (sh\<lparr>paramdoms := paramdoms sh'\<rparr>) sh'"
    and "\<exists>ls. plist (paramdoms sh') = plist (paramdoms sh) @ ls \<and> length ls \<le> 1"
  shows "instance_for sh' q p"
proof -
  obtain i where i: "q < length (cts sh)" "i < length (plist (paramdoms sh))"
    "map pty (pps (plist (paramdoms sh) ! i)) = map pty p" "c_paramdom (cts sh ! q) = word_of_nat i"
    using assms(1) unfolding instance_for_def by blast
  then show ?thesis
    using assms(2,3) grows_same(2) [OF assms(2), of q] unfolding instance_for_def
    by (intro conjI exI [of _ i]) (auto simp: nth_append grows_def)
qed

lemma instance_paramdom:
  assumes "cshare_ok sh" "length (plist (paramdoms sh)) < 2 ^ 32" "instance_for sh q p" "instance_for sh q' p'"
  shows "c_paramdom (cts sh ! q) = c_paramdom (cts sh ! q') \<longleftrightarrow> map pty p = map pty p'"
proof -
  let ?ms = "map (\<lambda>k. map pty (pps k)) (plist (paramdoms sh))"
  obtain i j where i: "i < length ?ms" "?ms ! i = map pty p" "c_paramdom (cts sh ! q) = word_of_nat i"
    and j: "j < length ?ms" "?ms ! j = map pty p'" "c_paramdom (cts sh ! q') = word_of_nat j"
    using assms(3,4) unfolding instance_for_def by auto
  have d: "distinct ?ms" using assms(1) by (simp add: cshare_ok_def par_holds_def)
  have "c_paramdom (cts sh ! q) = c_paramdom (cts sh ! q') \<longleftrightarrow> i = j"
    unfolding i(3) j(3) using i(1) j(1) assms(2) by (intro code_inj) simp_all
  also have "\<dots> \<longleftrightarrow> map pty p = map pty p'"
    using nth_eq_iff_index_eq [OF d i(1) j(1)] i(2) j(2) by metis
  finally show ?thesis .
qed

lemma CT_Generics_instance:
  assumes ok: "cshare_ok sh" and room: "length (plist (paramdoms sh)) < 2 ^ 32 - 2"
    and c: "c < length (cts sh)" "c_initdef (cts sh ! c) = None" and p: "p \<noteq> []"
  obtains sh' q where "CT_Generics junk sh c rt p = Some (sh', q)" "cshare_ok sh'" "c \<le> q"
    "instance_for sh' q p" "kind (cts sh' ! q) = kind (cts sh ! c)"
    "\<exists>ls. plist (paramdoms sh') = plist (paramdoms sh) @ ls \<and> length ls \<le> 1"
    "grows (sh\<lparr>paramdoms := paramdoms sh'\<rparr>) sh'"
proof -
  obtain sh' q i where 1: "CT_Generics junk sh c rt p = Some (sh', q)" "cshare_ok sh'"
    "i < length (plist (paramdoms sh'))" "map pty (pps (plist (paramdoms sh') ! i)) = map pty p" "c \<le> q"
    "q < length (cts sh')" "matching sh' (word_of_nat i) rt (c_bcid (cts sh ! c) \<noteq> CLASS_Func) q"
    "\<exists>ls. plist (paramdoms sh') = plist (paramdoms sh) @ ls \<and> length ls \<le> 1"
    "grows (sh\<lparr>paramdoms := paramdoms sh'\<rparr>) sh'" "kind (cts sh' ! q) = kind (cts sh ! c)"
    by (rule CT_Generics_result [OF assms, where junk = junk and rt = rt])
  have "instance_for sh' q p"
    unfolding instance_for_def using 1(3,4,6,7) by (auto simp: matching_def)
  then show ?thesis using that 1(1,2,5,8-10) by blast
qed

text \<open>
  C37: asking an instance instead of the class misses the instances before it. Request two different
  instances of a class and then, at the younger one, the instance for the parameters of the
  older: the result is another class for these parameters. The parser does ask instances, for
  types written like \<^verbatim>\<open>Array[int][String]\<close>.
\<close>

theorem CT_Generics_duplicates:
  assumes ok: "cshare_ok sh" and room: "length (plist (paramdoms sh)) < 2 ^ 32 - 4"
    and c: "c < length (cts sh)" "c_initdef (cts sh ! c) = None"
    and p: "p \<noteq> []" "p' \<noteq> []" "map pty p \<noteq> map pty p'"
  shows "\<exists>sh1 sh2 sh3 q q' q3. CT_Generics junk sh c rt p = Some (sh1, q) \<and> CT_Generics junk sh1 c rt p' = Some (sh2, q')
     \<and> CT_Generics junk sh2 (max q q') rt (if q < q' then p else p') = Some (sh3, q3)
     \<and> q3 \<noteq> min q q' \<and> c_paramdom (cts sh3 ! q3) = c_paramdom (cts sh3 ! min q q')"
proof -
  obtain sh1 q where 1: "CT_Generics junk sh c rt p = Some (sh1, q)" "cshare_ok sh1" "c \<le> q"
    "instance_for sh1 q p" "kind (cts sh1 ! q) = kind (cts sh ! c)"
    "\<exists>ls. plist (paramdoms sh1) = plist (paramdoms sh) @ ls \<and> length ls \<le> 1"
    "grows (sh\<lparr>paramdoms := paramdoms sh1\<rparr>) sh1"
    by (rule CT_Generics_instance [OF ok _ c p(1), where junk = junk and rt = rt]) (use room in simp)
  have n1: "length (plist (paramdoms sh1)) < 2 ^ 32 - 3" using 1(6) room by auto
  have c1: "c < length (cts sh1)" "kind (cts sh1 ! c) = kind (cts sh ! c)"
    using 1(7) c grows_same(4,5) [OF 1(7), of c] by (simp_all add: grows_def kind_def)
  obtain sh2 q' where 2: "CT_Generics junk sh1 c rt p' = Some (sh2, q')" "cshare_ok sh2" "c \<le> q'"
    "instance_for sh2 q' p'" "kind (cts sh2 ! q') = kind (cts sh1 ! c)"
    "\<exists>ls. plist (paramdoms sh2) = plist (paramdoms sh1) @ ls \<and> length ls \<le> 1"
    "grows (sh1\<lparr>paramdoms := paramdoms sh2\<rparr>) sh2"
    by (rule CT_Generics_instance [OF 1(2) _ c1(1) _ p(2), where junk = junk and rt = rt])
      (use n1 c1 c in \<open>simp_all add: kind_def\<close>)
  have n2: "length (plist (paramdoms sh2)) < 2 ^ 32 - 2" using 2(6) n1 by auto
  have q: "instance_for sh2 q p" by (rule instance_grows [OF 1(4) 2(7,6)])
  have "c_paramdom (cts sh2 ! q) \<noteq> c_paramdom (cts sh2 ! q')"
    using instance_paramdom [OF 2(2) _ q 2(4)] p(3) n2 by simp
  then have ne: "q \<noteq> q'" by metis
  define lo hi r where "lo = min q q'" and "hi = max q q'" and "r = (if q < q' then p else p')"
  have lo: "instance_for sh2 lo r" "lo < hi" "r \<noteq> []" "lo < length (cts sh2)"
    using q 2(4) ne p by (auto simp: lo_def hi_def r_def instance_for_def)
  have "kind (cts sh2 ! q) = kind (cts sh ! c)"
    using grows_same(4,5) [OF 2(7), of q] 1(4,5) by (simp add: kind_def instance_for_def)
  then have hi: "hi < length (cts sh2)" "c_initdef (cts sh2 ! hi) = None"
    using q 2(4,5) c1 c by (auto simp: hi_def kind_def instance_for_def max_def)
  obtain sh3 q3 where 3: "CT_Generics junk sh2 hi rt r = Some (sh3, q3)" "cshare_ok sh3" "hi \<le> q3"
    "instance_for sh3 q3 r" "\<exists>ls. plist (paramdoms sh3) = plist (paramdoms sh2) @ ls \<and> length ls \<le> 1"
    "grows (sh2\<lparr>paramdoms := paramdoms sh3\<rparr>) sh3"
    by (rule CT_Generics_instance [OF 2(2) n2 hi lo(3), where junk = junk and rt = rt])
  have "length (plist (paramdoms sh3)) < 2 ^ 32" using 3(5) n2 by auto
  then have "c_paramdom (cts sh3 ! q3) = c_paramdom (cts sh3 ! lo)"
    using instance_paramdom [OF 3(2) _ 3(4) instance_grows [OF lo(1) 3(6,5)]] by simp
  then show ?thesis using 1(1) 2(1) 3(1,3) lo(2) by (auto simp: lo_def hi_def r_def)
qed

text \<open>\<open>superclass sh ct s\<close>: \<open>s\<close> is a proper superclass of \<open>ct\<close>, below \<^verbatim>\<open>Object\<close>.\<close>

inductive superclass :: "cshare \<Rightarrow> kclass \<Rightarrow> kclass \<Rightarrow> bool" for sh where
  direct: "c_supcid ct \<noteq> CLASS_Object \<Longrightarrow> CT_at sh (c_supcid ct) = Some s \<Longrightarrow> superclass sh ct s"
| above: "c_supcid ct \<noteq> CLASS_Object \<Longrightarrow> CT_at sh (c_supcid ct) = Some s \<Longrightarrow> superclass sh s t \<Longrightarrow> superclass sh ct t"

inductive_cases superclassE: "superclass sh ct t"

text \<open>A class is younger than its superclass, and its number is its position.\<close>

definition sup_ok :: "cshare \<Rightarrow> bool" where
  "sup_ok sh \<longleftrightarrow> (\<forall>p < length (cts sh). unat (c_cid (cts sh ! p)) = p
     \<and> (c_supcid (cts sh ! p) = CLASS_Object \<or> unat (c_supcid (cts sh ! p)) < p))"

lemma sup_okD:
  assumes "sup_ok sh" "p < length (cts sh)"
  shows "unat (c_cid (cts sh ! p)) = p"
    "c_supcid (cts sh ! p) \<noteq> CLASS_Object \<Longrightarrow> unat (c_supcid (cts sh ! p)) < p"
  using assms unfolding sup_ok_def by blast+

lemma supclass_loop_correct:
  assumes ok: "sup_ok sh" and "p < length (cts sh)" and t: "t < length (cts sh)"
  shows "supclass_loop sh (cts sh ! p) (c_cid (cts sh ! t)) = Some (superclass sh (cts sh ! p) (cts sh ! t))"
  using assms(2)
proof (induction p rule: less_induct)
  case (less p)
  let ?ct = "cts sh ! p"
  show ?case
  proof (cases "c_supcid ?ct = CLASS_Object")
    case True
    then show ?thesis by (subst supclass_loop.simps) (auto elim: superclassE)
  next
    case False
    let ?s = "unat (c_supcid ?ct)"
    have s: "?s < p" by (rule sup_okD(2) [OF ok less.prems False])
    then have at: "CT_at sh (c_supcid ?ct) = Some (cts sh ! ?s)" and sl: "?s < length (cts sh)"
      using less.prems by (simp_all add: CT_at_def mem_get_def)
    have ids: "c_cid (cts sh ! ?s) = c_cid (cts sh ! t) \<longleftrightarrow> ?s = t"
      using sup_okD(1) [OF ok sl] sup_okD(1) [OF ok t] by metis
    have cases: "superclass sh ?ct (cts sh ! t) \<longleftrightarrow> cts sh ! ?s = cts sh ! t \<or> superclass sh (cts sh ! ?s) (cts sh ! t)"
      using False at by (auto intro: superclass.intros elim: superclassE)
    have "cts sh ! ?s = cts sh ! t \<longleftrightarrow> ?s = t"
      using sup_okD(1) [OF ok sl] sup_okD(1) [OF ok t] by metis
    then show ?thesis
      using False at ids cases less.IH [OF s sl] by (subst supclass_loop.simps) auto
  qed
qed

text \<open>
  C30: subtyping is decided. In a table whose classes are younger than their superclasses the walk up the
  superclasses ends, and finds exactly whether the other class is \<^verbatim>\<open>Object\<close> or a proper superclass.
\<close>

theorem isSubType_decides:
  assumes "sup_ok sh" "p < length (cts sh)" "t < length (cts sh)"
  shows "DEFAULT_isSubType sh (cts sh ! p) (cts sh ! t)
       = Some (c_cid (cts sh ! t) = CLASS_Object \<or> superclass sh (cts sh ! p) (cts sh ! t))"
  using supclass_loop_correct [OF assms] by (simp add: DEFAULT_isSubType_def)

section \<open>The built-in classes are loaded\<close>

text \<open>Loading a definition without parameters and without an initialiser that runs adds one class.\<close>

definition class_of :: "kdefine_class \<Rightarrow> nat \<Rightarrow> kclass" where
  "class_of s n = zero_CT\<lparr>
     c_cflag := d_cflag s, c_cid := word_of_nat n,
     c_bcid := (if d_bcid s = 0 then word_of_nat n else d_bcid s),
     c_supcid := (if d_supcid s = 0 then CLASS_Object else d_supcid s),
     c_fields := d_fields s, c_fsize := d_fsize s, c_falloc := d_falloc s,
     c_size := size64 (d_size s),
     c_dbgname := (case d_structname s of None \<Rightarrow> lit ''N/A'' | Some n \<Rightarrow> n),
     c_p0 := 0, c_paramdom := 0,
     c_init := (case d_init s of None \<Rightarrow> DEFAULT_init | Some f \<Rightarrow> f),
     c_reftrace := (case d_reftrace s of None \<Rightarrow> DEFAULT_reftrace | Some f \<Rightarrow> f),
     c_p := (case d_p s of None \<Rightarrow> DEFAULT_p | Some f \<Rightarrow> f),
     c_unbox := (case d_unbox s of None \<Rightarrow> DEFAULT_unbox | Some f \<Rightarrow> f),
     c_free := (case d_free s of None \<Rightarrow> DEFAULT_free | Some f \<Rightarrow> f),
     c_fnull := (case d_fnull s of None \<Rightarrow> DEFAULT_fnullinit | Some f \<Rightarrow> f),
     c_realtype := (case d_realtype s of None \<Rightarrow> DEFAULT_realtype | Some f \<Rightarrow> f),
     c_isSubType := (case d_isSubType s of None \<Rightarrow> F_DEFAULT_isSubType | Some f \<Rightarrow> f),
     c_initdef := d_initdef s\<rparr>"

definition plain_def :: "kdefine_class \<Rightarrow> nat \<Rightarrow> bool" where
  "plain_def d n \<longleftrightarrow> d_cparams d = [] \<and> size64 (d_size d) \<le> 128
     \<and> (d_initdef d = None \<or> d_initdef d = Some F_Object_initdef \<and> word_of_nat n = CLASS_Object)"

lemma new_CT_def_plain:
  assumes "plain_def d (length (cts sh))" "length (cts sh) < ca_max sh"
  shows "new_CT_def junk sh d = Some (sh\<lparr>cts := cts sh @ [class_of d (length (cts sh))]\<rparr>, length (cts sh))"
  using assms
  by (auto simp: new_CT_def_def alloc_CT_def Let_def upd_CT_Some plain_def_def class_of_def call_initdef_def
      mem_get_def Object_initdef_def nth_append)

lemma load_defs_plain:
  assumes "\<And>i. i < length ds \<Longrightarrow> plain_def (ds ! i) (length (cts sh) + i) \<and> d_cid (ds ! i) = word_of_nat (length (cts sh) + i)"
    and "length (cts sh) + length ds \<le> ca_max sh"
  shows "load_defs junk sh ds = Some (sh\<lparr>cts := cts sh @ map (\<lambda>i. class_of (ds ! i) (length (cts sh) + i)) [0..<length ds]\<rparr>)"
  using assms
proof (induction ds arbitrary: sh)
  case Nil
  then show ?case by simp
next
  case (Cons d ds)
  let ?sh = "sh\<lparr>cts := cts sh @ [class_of d (length (cts sh))]\<rparr>"
  have "plain_def d (length (cts sh))" "d_cid d = word_of_nat (length (cts sh))"
    using Cons.prems(1) [of 0] by simp_all
  moreover from this have "new_CT_def junk sh d = Some (?sh, length (cts sh))"
    using Cons.prems(2) by (intro new_CT_def_plain) simp_all
  moreover have "load_defs junk ?sh ds
      = Some (?sh\<lparr>cts := cts ?sh @ map (\<lambda>i. class_of (ds ! i) (length (cts ?sh) + i)) [0..<length ds]\<rparr>)"
  proof (rule Cons.IH)
    fix i assume "i < length ds"
    then show "plain_def (ds ! i) (length (cts ?sh) + i) \<and> d_cid (ds ! i) = word_of_nat (length (cts ?sh) + i)"
      using Cons.prems(1) [of "Suc i"] by simp
  next
    show "length (cts ?sh) + length ds \<le> ca_max ?sh" using Cons.prems(2) by simp
  qed
  moreover have "[0..<length (d # ds)] = 0 # map Suc [0..<length ds]"
    by (simp add: upt_conv_Cons map_Suc_upt del: upt_Suc)
  ultimately show ?case by (simp add: comp_def)
qed

definition builtin :: "kclass list" where
  "builtin = map (\<lambda>i. class_of (DATATYPES ! i) i) [0..<12]"

lemma size64_small: "s \<le> 64 \<Longrightarrow> size64 s = 64"
  by (simp add: size64_def size64_loop.simps [of 0])

lemma size64_medium: "64 < s \<Longrightarrow> s \<le> 128 \<Longrightarrow> size64 s = 128"
  by (simp add: size64_def size64_loop.simps [of 0] size64_loop.simps [of "Suc 0"])

lemma DATATYPES_plain: "i < 12 \<Longrightarrow> plain_def (DATATYPES ! i) i \<and> d_cid (DATATYPES ! i) = word_of_nat i"
  by (simp add: numeral_eq_Suc less_Suc_eq, elim disjE)
     (simp_all add: DATATYPES_def plain_def_def TYPENAME_def CLASSNAME_def no_class_def class_ids
        size64_small size64_medium)

lemma loadInitStructData_Some:
  assumes "cts sh = []" "12 \<le> ca_max sh"
  shows "loadInitStructData junk sh = Some (sh\<lparr>cts := builtin[6 := (builtin ! 6)\<lparr>c_p0 := CLASS_Object\<rparr>]\<rparr>)"
proof -
  have 12: "length DATATYPES = 12" by (simp add: DATATYPES_def)
  have "load_defs junk sh DATATYPES = Some (sh\<lparr>cts := cts sh @ map (\<lambda>i. class_of (DATATYPES ! i) (length (cts sh) + i)) [0..<length DATATYPES]\<rparr>)"
    using DATATYPES_plain assms 12 by (intro load_defs_plain) simp_all
  then have "load_defs junk sh DATATYPES = Some (sh\<lparr>cts := builtin\<rparr>)"
    by (simp add: assms 12 builtin_def)
  moreover have "length builtin = 12" by (simp add: builtin_def)
  ultimately show ?thesis by (simp add: loadInitStructData_def upd_CT_Some class_ids)
qed

lemma builtin_nth: "i < 12 \<Longrightarrow> builtin ! i = class_of (DATATYPES ! i) i"
  by (simp add: builtin_def)

lemma class_of_sel [simp]:
  "c_size (class_of d n) = size64 (d_size d)" "c_similar (class_of d n) = None"
  "c_initdef (class_of d n) = d_initdef d" "c_cid (class_of d n) = word_of_nat n"
  "c_packid (class_of d n) = 0" "c_packdom (class_of d n) = 0" "c_methods (class_of d n) = None"
  "c_dbgname (class_of d n) = (case d_structname d of None \<Rightarrow> lit ''N/A'' | Some n \<Rightarrow> n)"
  "c_paramdom (class_of d n) = 0" "c_super (class_of d n) = None"
  "c_bcid (class_of d n) = (if d_bcid d = 0 then word_of_nat n else d_bcid d)"
  "c_supcid (class_of d n) = (if d_supcid d = 0 then CLASS_Object else d_supcid d)"
  by (simp_all add: class_of_def zero_CT_def)

lemma size64_pos: "0 < size64 s"
proof -
  have "0 < size64_loop k s" for k
    by (induction k s rule: size64_loop.induct) (subst size64_loop.simps, simp)
  then show ?thesis by (simp add: size64_def)
qed

lemma builtin_ok: "similar_ok (builtin[6 := (builtin ! 6)\<lparr>c_p0 := CLASS_Object\<rparr>])"
proof -
  have "similar_ok builtin"
    by (rule similar_okI) (simp_all add: builtin_def size64_pos)
  then show ?thesis
    by (intro similar_ok_update) (simp_all add: builtin_def size64_pos kind_def)
qed

section \<open>Starting up\<close>

lemma Kuname_frame:
  assumes "Kuname junk ns n def = Some (ns', i)"
  shows "packs ns' = packs ns" "symbols ns' = symbols ns" "fileids ns' = fileids ns"
  using assms by (auto simp: Kuname_def bind_Some_iff split: prod.splits)

lemma ct_word_nonzero: "p < 2 ^ 32 \<Longrightarrow> ct_word p \<noteq> 0"
proof
  assume p: "p < 2 ^ 32" and z: "ct_word p = 0"
  have "unat (ct_word p) = Suc p" using p by (simp add: ct_word_def unsigned_of_nat take_bit_nat_eq_self del: of_nat_Suc)
  with z show False by simp
qed

text \<open>The part of the state that naming classes uses: names already given, and classes by name.\<close>

definition naming :: "cshare \<Rightarrow> (u64 \<times> bytes) list \<Rightarrow> (u64 \<rightharpoonup> u64) \<Rightarrow> bool" where
  "naming sh ks f \<longleftrightarrow> sym_holds (unames (names sh)) ks \<and> uholds (lcnames sh) f
     \<and> slist (packs (names sh)) \<noteq> [] \<and> (\<forall>h v. f h = Some v \<longrightarrow> v \<noteq> 0)"

lemma CT_setName_new:
  assumes nm: "naming sh ks f" and p: "p < length (cts sh)" "p < 2 ^ 32"
    and pk: "c_packdom (cts sh ! p) = 0" "c_packid (cts sh ! p) = 0"
    and un: "unat (c_nameid (cts sh ! p)) < length ks"
    and free: "f (longid 0 (c_nameid (cts sh ! p))) = None"
  shows "\<exists>sh' ms sp. CT_setName junk sh p = Some sh'
     \<and> naming sh' ks (f(longid 0 (c_nameid (cts sh ! p)) \<mapsto> ct_word p))
     \<and> cts sh' = (cts sh)[p := (cts sh ! p)\<lparr>c_methods := ms, c_super := sp\<rparr>]
     \<and> ca_max sh' = ca_max sh \<and> params sh' = params sh \<and> paramdoms sh' = paramdoms sh \<and> names sh' = names sh"
proof -
  let ?ct = "cts sh ! p" and ?h = "longid 0 (c_nameid (cts sh ! p))"
  have u: "uholds (lcnames sh) f" and s: "sym_holds (unames (names sh)) ks"
    and pn: "slist (packs (names sh)) \<noteq> []" and nz: "\<forall>h v. f h = Some v \<longrightarrow> v \<noteq> 0"
    using nm by (simp_all add: naming_def)
  obtain m where m: "map_addu (j_lc junk) (lcnames sh) ?h (ct_word p) = Some m"
    "uholds m (f(?h \<mapsto> ct_word p))"
    using umap.addu_holds [OF u free] by blast
  have get: "map_getu (lcnames sh) ?h 0 = Some 0" using umap.getu_holds [OF u] free by simp
  define ms where "ms = (if c_methods ?ct = None then Some K_EMPTYARRAY else c_methods ?ct)"
  define sp where "sp = (if c_methods ?ct = None \<and> CLASS_Object < c_cid ?ct then Some (unat (c_supcid ?ct)) else c_super ?ct)"
  define sh' where "sh' = sh\<lparr>lcnames := m, cts := (cts sh)[p := ?ct\<lparr>c_methods := ms, c_super := sp\<rparr>]\<rparr>"
  have "CT_setName junk sh p = Some sh'"
    using p pk un get m(1) pn sym_holdsD(1) [OF s]
    by (cases "c_methods ?ct = None")
      (auto simp: CT_setName_def mem_get_def S_UN_def Let_def upd_CT_Some sh'_def ms_def sp_def cong: if_cong)
  moreover have "naming sh' ks (f(?h \<mapsto> ct_word p))"
    using s m(2) pn nz ct_word_nonzero [OF p(2)] by (auto simp: naming_def sh'_def)
  ultimately show ?thesis by (auto simp: sh'_def)
qed

lemma longid_0: "longid 0 u = ucast u"
  by (simp add: longid_def)

lemma longid_0_inj: "longid 0 u = longid 0 v \<longleftrightarrow> u = v"
proof
  assume e: "longid 0 u = longid 0 v"
  show "u = v"
  proof (rule bit_word_eqI)
    fix n assume n: "n < LENGTH(32)"
    have "bit (ucast u :: u64) n = bit (ucast v :: u64) n" using e by (simp add: longid_0)
    then show "bit u n = bit v n" using n by (simp add: bit_simps)
  qed
qed simp

text \<open>Naming changes no class beyond its name, its methods and where they are looked up.\<close>

definition unnamed :: "kclass \<Rightarrow> kclass" where
  "unnamed c = c\<lparr>c_nameid := 0, c_methods := None, c_super := None\<rparr>"

definition named :: "kclass list \<Rightarrow> kclass list \<Rightarrow> bool" where
  "named cs cs' \<longleftrightarrow> length cs' = length cs \<and> (\<forall>p < length cs. unnamed (cs' ! p) = unnamed (cs ! p))"

lemma named_refl: "named cs cs"
  by (simp add: named_def)

lemma named_trans: "named a b \<Longrightarrow> named b c \<Longrightarrow> named a c"
  by (simp add: named_def)

lemma named_update:
  "p < length cs \<Longrightarrow> named cs (cs[p := (cs ! p)\<lparr>c_nameid := n, c_methods := ms, c_super := sp\<rparr>])"
  by (simp add: named_def nth_list_update unnamed_def)

lemma named_sel:
  assumes "named cs cs'" "p < length cs"
  shows "c_size (cs' ! p) = c_size (cs ! p)" "c_similar (cs' ! p) = c_similar (cs ! p)"
    "c_initdef (cs' ! p) = c_initdef (cs ! p)" "c_cid (cs' ! p) = c_cid (cs ! p)"
    "c_supcid (cs' ! p) = c_supcid (cs ! p)" "c_packid (cs' ! p) = c_packid (cs ! p)"
    "c_packdom (cs' ! p) = c_packdom (cs ! p)" "c_dbgname (cs' ! p) = c_dbgname (cs ! p)"
    "c_bcid (cs' ! p) = c_bcid (cs ! p)"
proof -
  have eq: "unnamed (cs' ! p) = unnamed (cs ! p)" using assms by (simp add: named_def)
  have *: "f (cs' ! p) = f (cs ! p)" if "\<And>c. f (unnamed c) = f c" for f :: "kclass \<Rightarrow> 'a"
    using arg_cong [OF eq, of f] that by simp
  show "c_size (cs' ! p) = c_size (cs ! p)" by (rule *) (simp add: unnamed_def)
  show "c_similar (cs' ! p) = c_similar (cs ! p)" by (rule *) (simp add: unnamed_def)
  show "c_initdef (cs' ! p) = c_initdef (cs ! p)" by (rule *) (simp add: unnamed_def)
  show "c_cid (cs' ! p) = c_cid (cs ! p)" by (rule *) (simp add: unnamed_def)
  show "c_supcid (cs' ! p) = c_supcid (cs ! p)" by (rule *) (simp add: unnamed_def)
  show "c_packid (cs' ! p) = c_packid (cs ! p)" by (rule *) (simp add: unnamed_def)
  show "c_packdom (cs' ! p) = c_packdom (cs ! p)" by (rule *) (simp add: unnamed_def)
  show "c_dbgname (cs' ! p) = c_dbgname (cs ! p)" by (rule *) (simp add: unnamed_def)
  show "c_bcid (cs' ! p) = c_bcid (cs ! p)" by (rule *) (simp add: unnamed_def)
qed

lemma named_length: "named cs cs' \<Longrightarrow> length cs' = length cs"
  by (simp add: named_def)

lemma named_similar_ok:
  assumes "named cs cs'" "similar_ok cs"
  shows "similar_ok cs'"
proof (rule similar_okI)
  fix p assume "p < length cs'"
  then have p: "p < length cs" using named_length [OF assms(1)] by simp
  show "0 < c_size (cs' ! p)" using named_sel(1) [OF assms(1) p] similar_okD [OF assms(2) p] by simp
  fix q assume "c_similar (cs' ! p) = Some q"
  then have q: "p < q \<and> q < length cs \<and> kind (cs ! q) = kind (cs ! p)"
    using named_sel(2) [OF assms(1) p] similar_ok_link [OF assms(2) p] by simp
  then show "p < q \<and> q < length cs' \<and> kind (cs' ! q) = kind (cs' ! p)"
    using named_sel(3,9) [OF assms(1) p] named_sel(3,9) [OF assms(1), of q] named_length [OF assms(1)]
    by (simp add: kind_def)
qed

abbreviation hashed :: "bytes \<Rightarrow> u64 \<times> bytes" where "hashed n \<equiv> (strhash n, n)"

lemma name_one:
  assumes nm: "naming sh ks f" and i: "i < length (cts sh)" "length (cts sh) < 2 ^ 32"
    and pk: "c_packdom (cts sh ! i) = 0" "c_packid (cts sh ! i) = 0"
    and n: "0 \<notin> set (c_dbgname (cts sh ! i))" "hashed (c_dbgname (cts sh ! i)) \<notin> set ks"
    and room: "length ks < 2 ^ 32 - 2" and free: "f (longid 0 (word_of_nat (length ks))) = None"
  shows "\<exists>sh'. name_classes junk sh (i # is) = name_classes junk sh' is
     \<and> naming sh' (ks @ [hashed (c_dbgname (cts sh ! i))]) (f(longid 0 (word_of_nat (length ks)) \<mapsto> ct_word i))
     \<and> named (cts sh) (cts sh') \<and> ca_max sh' = ca_max sh \<and> params sh' = params sh \<and> paramdoms sh' = paramdoms sh"
proof -
  let ?n = "c_dbgname (cts sh ! i)" and ?k = "length ks"
  let ?ks' = "ks @ [hashed ?n]"
  have s: "sym_holds (unames (names sh)) ks" using nm by (simp add: naming_def)
  have "position ks (hashed ?n) = None" using n(2) by (simp only: position_None not_False_eq_True)
  then have "intern ks (hashed ?n) = (?ks', ?k)" by (simp add: intern_def)
  then obtain ns where ns: "Kuname (j_name junk) (names sh) ?n FN_NEWID = Some (ns, word_of_nat ?k)"
    "sym_holds (unames ns) ?ks'"
    using Kuname_refines [OF s n(1) room] by blast
  let ?c = "(cts sh ! i)\<lparr>c_nameid := word_of_nat ?k\<rparr>"
  let ?sh1 = "sh\<lparr>names := ns, cts := (cts sh)[i := ?c]\<rparr>"
  have nm1: "naming ?sh1 ?ks' f"
    using nm ns Kuname_frame [OF ns(1)] by (simp add: naming_def)
  have k: "unat (word_of_nat ?k :: u32) = ?k" using room by (simp add: unat_code)
  obtain sh' ms sp where sh': "CT_setName junk ?sh1 i = Some sh'"
    "naming sh' ?ks' (f(longid 0 (word_of_nat ?k) \<mapsto> ct_word i))"
    "cts sh' = (cts ?sh1)[i := (cts ?sh1 ! i)\<lparr>c_methods := ms, c_super := sp\<rparr>]"
    "ca_max sh' = ca_max sh" "params sh' = params sh" "paramdoms sh' = paramdoms sh"
    using CT_setName_new [OF nm1, of i junk] i pk k free by auto
  have "name_classes junk sh (i # is) = name_classes junk sh' is"
    using i ns(1) sh'(1) by (simp add: mem_get_def upd_CT_Some)
  moreover have "named (cts sh) (cts sh')"
    using named_update [OF i(1), where n = "word_of_nat ?k" and ms = ms and sp = sp] i(1) by (simp add: sh'(3))
  ultimately show ?thesis using sh' by blast
qed

lemma name_classes_ok:
  assumes "naming sh ks f" "distinct is" "length (cts sh) < 2 ^ 32"
    and "\<forall>i \<in> set is. i < length (cts sh) \<and> c_packdom (cts sh ! i) = 0 \<and> c_packid (cts sh ! i) = 0
           \<and> 0 \<notin> set (c_dbgname (cts sh ! i)) \<and> hashed (c_dbgname (cts sh ! i)) \<notin> set ks"
    and "distinct (map (\<lambda>i. c_dbgname (cts sh ! i)) is)" "length ks + length is < 2 ^ 32 - 2"
    and "\<forall>u. length ks \<le> unat u \<longrightarrow> f (longid 0 u) = None"
  shows "\<exists>sh' f'. name_classes junk sh is = Some sh'
     \<and> naming sh' (ks @ map (\<lambda>i. hashed (c_dbgname (cts sh ! i))) is) f'
     \<and> (\<forall>k < length is. f' (longid 0 (word_of_nat (length ks + k))) = Some (ct_word (is ! k)))
     \<and> (\<forall>u. unat u < length ks \<longrightarrow> f' (longid 0 u) = f (longid 0 u))
     \<and> named (cts sh) (cts sh') \<and> ca_max sh' = ca_max sh \<and> params sh' = params sh \<and> paramdoms sh' = paramdoms sh"
  using assms
proof (induction "is" arbitrary: sh ks f)
  case Nil
  then show ?case by (auto simp: named_refl)
next
  case (Cons i "is")
  let ?n = "c_dbgname (cts sh ! i)" and ?k = "length ks"
  have k: "unat (word_of_nat ?k :: u32) = ?k" using Cons.prems(6) by (simp add: unat_code)
  have "f (longid 0 (word_of_nat ?k)) = None" using Cons.prems(7) k by simp
  then obtain sh1 where 1: "name_classes junk sh (i # is) = name_classes junk sh1 is"
    "naming sh1 (ks @ [hashed ?n]) (f(longid 0 (word_of_nat ?k) \<mapsto> ct_word i))" "named (cts sh) (cts sh1)"
    "ca_max sh1 = ca_max sh" "params sh1 = params sh" "paramdoms sh1 = paramdoms sh"
    using name_one [OF Cons.prems(1), of i junk "is"] Cons.prems by auto
  let ?f = "f(longid 0 (word_of_nat ?k) \<mapsto> ct_word i)" and ?ks = "ks @ [hashed ?n]"
  have same: "c_dbgname (cts sh1 ! j) = c_dbgname (cts sh ! j)" if "j \<in> set is" for j
    using named_sel(8) [OF 1(3), of j] Cons.prems(4) that by simp
  have "\<exists>sh' f'. name_classes junk sh1 is = Some sh'
     \<and> naming sh' (?ks @ map (\<lambda>i. hashed (c_dbgname (cts sh1 ! i))) is) f'
     \<and> (\<forall>l < length is. f' (longid 0 (word_of_nat (length ?ks + l))) = Some (ct_word (is ! l)))
     \<and> (\<forall>u. unat u < length ?ks \<longrightarrow> f' (longid 0 u) = ?f (longid 0 u))
     \<and> named (cts sh1) (cts sh') \<and> ca_max sh' = ca_max sh1 \<and> params sh' = params sh1 \<and> paramdoms sh' = paramdoms sh1"
  proof (rule Cons.IH [OF 1(2)])
    show "\<forall>j \<in> set is. j < length (cts sh1) \<and> c_packdom (cts sh1 ! j) = 0 \<and> c_packid (cts sh1 ! j) = 0
           \<and> 0 \<notin> set (c_dbgname (cts sh1 ! j)) \<and> hashed (c_dbgname (cts sh1 ! j)) \<notin> set ?ks"
      using Cons.prems(4,5) named_sel(6,7) [OF 1(3)] same named_length [OF 1(3)] by (auto simp: image_iff)
    show "distinct (map (\<lambda>i. c_dbgname (cts sh1 ! i)) is)"
      using Cons.prems(5) same by (simp cong: map_cong)
    show "\<forall>u. length ?ks \<le> unat u \<longrightarrow> ?f (longid 0 u) = None"
      using Cons.prems(7) k by (auto simp: longid_0_inj)
  qed (use Cons.prems named_length [OF 1(3)] in auto)
  then obtain sh' f' where IH: "name_classes junk sh1 is = Some sh'"
    "naming sh' (?ks @ map (\<lambda>i. hashed (c_dbgname (cts sh1 ! i))) is) f'"
    "\<forall>l < length is. f' (longid 0 (word_of_nat (length ?ks + l))) = Some (ct_word (is ! l))"
    "\<forall>u. unat u < length ?ks \<longrightarrow> f' (longid 0 u) = ?f (longid 0 u)"
    "named (cts sh1) (cts sh')" "ca_max sh' = ca_max sh1" "params sh' = params sh1" "paramdoms sh' = paramdoms sh1"
    by blast
  have at: "f' (longid 0 (word_of_nat ?k)) = Some (ct_word i)" using IH(4) k by simp
  have "f' (longid 0 (word_of_nat (?k + l))) = Some (ct_word ((i # is) ! l))" if "l < length (i # is)" for l
  proof (cases l)
    case 0
    then show ?thesis using at by simp
  next
    case (Suc l')
    then show ?thesis using IH(3) that by (auto dest: spec [of _ l'])
  qed
  moreover have "f' (longid 0 u) = f (longid 0 u)" if "unat u < ?k" for u
    using IH(4) that k by (auto simp: longid_0_inj)
  moreover have "naming sh' (ks @ map (\<lambda>i. hashed (c_dbgname (cts sh ! i))) (i # is)) f'"
    using IH(2) same by (simp cong: map_cong)
  ultimately show ?case
    using 1 IH(1,5-8) by (intro exI [of _ sh'] exI [of _ f']) (auto intro: named_trans)
qed

lemma new_Param_empty:
  assumes "7 < length (cts sh)" "40 \<le> c_size (cts sh ! 7)"
  shows "new_Param junk sh r [] = Some (sh, \<lparr>prtype = r, pps = []\<rparr>)"
proof -
  have "unat CLASS_Param = 7" by (simp add: class_ids)
  then show ?thesis using CT_body_stop [OF assms(1), of 40] assms
    by (simp add: new_Param_def CT_body_def sizeof_kObjectHeader_def sizeof_kparam_def mem_get_def)
qed

lemma Kparam_empty_frame:
  assumes "7 < length (cts sh)" "40 \<le> c_size (cts sh ! 7)" "Kparam junk sh r [] = Some (sh', i)"
  shows "cts sh' = cts sh" "names sh' = names sh" "lcnames sh' = lcnames sh" "paramdoms sh' = paramdoms sh"
    "ca_max sh' = ca_max sh"
  using assms(3) new_Param_empty [OF assms(1,2)]
  by (auto simp: Kparam_def Kmap_getparamid_def bind_Some_iff Let_def split: option.splits prod.splits)

lemma Kparamdom_empty_frame:
  assumes "7 < length (cts sh)" "40 \<le> c_size (cts sh ! 7)" "Kparamdom junk sh [] = Some (sh', i)"
  shows "cts sh' = cts sh" "names sh' = names sh" "lcnames sh' = lcnames sh" "ca_max sh' = ca_max sh"
  using assms(3) new_Param_empty [OF assms(1,2)]
  by (auto simp: Kparamdom_def Kmap_getparamid_def bind_Some_iff Let_def split: option.splits prod.splits)

text \<open>The names given before the classes are named.\<close>

definition first_names :: "garbage \<Rightarrow> kshare \<Rightarrow> kshare option" where
  "first_names junk ns = do {
     (ns, _) \<leftarrow> Kfileid (j_name junk) ns (lit ''(konoha.c)'') FN_NEWID;
     (ns, _) \<leftarrow> Kpack (j_name junk) ns (lit ''konoha'') FN_NEWID;
     (ns, _) \<leftarrow> Kpack (j_name junk) ns (lit ''sugar'') FN_NEWID;
     (ns, _) \<leftarrow> Kuname (j_name junk) ns (lit ''T'') FN_NEWID;
     (ns, _) \<leftarrow> Ksymbol (j_name junk) ns [] 0 FN_NEWID SYMPOL_NAME;
     (ns, _) \<leftarrow> Ksymbol (j_name junk) ns (lit ''new'') 3 FN_NEWID SYMPOL_NAME;
     Some ns
   }"

lemma intern_len: "intern ks x = (ks', i) \<Longrightarrow> length ks' \<le> Suc (length ks) \<and> length ks \<le> length ks' \<and> ks' \<noteq> []"
  using position_Some [of ks x] by (auto simp: intern_def split: option.splits)

lemma getcode_some:
  assumes "sym_holds t ks" "0 \<notin> set n" "length ks < 100"
  obtains t' c ks' where "Kmap_getcode junk t n h FN_NEWID = Some (t', c)" "sym_holds t' ks'"
    "ks' = fst (intern ks (h, n))" "ks' \<noteq> []" "length ks' \<le> Suc (length ks)"
proof -
  obtain ks' i where i: "intern ks (h, n) = (ks', i)" by fastforce
  obtain t' where "Kmap_getcode junk t n h FN_NEWID = Some (t', word_of_nat i)" "sym_holds t' ks'"
    using getcode_refines [OF assms(1,2) _ i] assms(3) by auto
  then show ?thesis using that i intern_len [OF i] by auto
qed

lemma first_names_ok:
  assumes t: "sym_holds t []" and ns: "ns = \<lparr>fileids = t, packs = t, unames = t, symbols = t\<rparr>"
  obtains ns' where "first_names junk ns = Some ns'" "sym_holds (unames ns') [hashed (lit ''T'')]"
    "slist (packs ns') \<noteq> []"
proof -
  have z: "0 \<notin> set (lit ''(konoha.c)'')" "0 \<notin> set (lit ''konoha'')" "0 \<notin> set (lit ''sugar'')"
    "0 \<notin> set (lit ''T'')" by (simp_all add: lit_def)
  have norm: "ksymbol_norm [] 0 SYMPOL_NAME = Some ([], casehash [], 0)"
    "ksymbol_norm (lit ''new'') 3 SYMPOL_NAME = Some (lit ''new'', casehash (lit ''new''), 0)"
    by code_simp+
  obtain f1 c1 k1 where 1: "Kmap_getcode (j_name junk) t (lit ''(konoha.c)'') (strhash (lit ''(konoha.c)'')) FN_NEWID = Some (f1, c1)"
    by (rule getcode_some [OF t z(1)]) simp_all
  obtain p1 c2 k2 where 2: "Kmap_getcode (j_name junk) t (lit ''konoha'') (strhash (lit ''konoha'')) FN_NEWID = Some (p1, c2)"
    "sym_holds p1 k2" "k2 \<noteq> []" "length k2 \<le> 1"
    by (rule getcode_some [OF t z(2)]) simp_all
  obtain p2 c3 k3 where 3: "Kmap_getcode (j_name junk) p1 (lit ''sugar'') (strhash (lit ''sugar'')) FN_NEWID = Some (p2, c3)"
    "sym_holds p2 k3" "k3 \<noteq> []"
    by (rule getcode_some [OF 2(2) z(3)]) (use 2(4) in simp_all)
  obtain u1 c4 k4 where 4: "Kmap_getcode (j_name junk) t (lit ''T'') (strhash (lit ''T'')) FN_NEWID = Some (u1, c4)"
    "sym_holds u1 k4" "k4 = fst (intern [] (hashed (lit ''T'')))"
    by (rule getcode_some [OF t z(4), where junk = "j_name junk" and h = "strhash (lit ''T'')"]) simp_all
  obtain s1 c5 k5 where 5: "Kmap_getcode (j_name junk) t [] (casehash []) FN_NEWID = Some (s1, c5)"
    "sym_holds s1 k5" "length k5 \<le> 1"
    by (rule getcode_some [OF t, of "[]"]) simp_all
  obtain s2 c6 k6 where 6: "Kmap_getcode (j_name junk) s1 (lit ''new'') (casehash (lit ''new'')) FN_NEWID = Some (s2, c6)"
    by (rule getcode_some [OF 5(2), of "lit ''new''"]) (use 5(3) in \<open>simp_all add: lit_def\<close>)
  have "k4 = [hashed (lit ''T'')]" using 4(3) by (simp add: intern_def position_def)
  moreover have "slist p2 \<noteq> []" using sym_holdsD(1) [OF 3(2)] 3(3) by simp
  moreover have "first_names junk ns = Some \<lparr>fileids = f1, packs = p2, unames = u1, symbols = s2\<rparr>"
    by (simp add: first_names_def ns Kfileid_def Kpack_def Kuname_def Ksymbol_def 1 2(1) 3(1) 4(1) 5(1) 6 norm)
  ultimately show ?thesis using that 4(2) by simp
qed

lemma KCLASSTABLE_init_unfold:
  "KCLASSTABLE_init junk = do {
     lc \<leftarrow> Kmap_init (j_lc junk) 0;
     t \<leftarrow> symtab_init (j_name junk);
     pm \<leftarrow> Kmap_init (j_par junk) 0;
     let sh = \<lparr>names = \<lparr>fileids = t, packs = t, unames = t, symbols = t\<rparr>, cts = [],
               ca_max = K_CLASSTABLE_INIT * sizeof_kclass div 8,
               params = \<lparr>pmap = pm, plist = []\<rparr>, paramdoms = \<lparr>pmap = pm, plist = []\<rparr>, lcnames = lc\<rparr>;
     sh \<leftarrow> loadInitStructData junk sh;
     (sh, _) \<leftarrow> Kparam junk sh CLASS_Tvoid [];
     (sh, _) \<leftarrow> Kparamdom junk sh [];
     ns \<leftarrow> first_names junk (names sh);
     initStructData junk (sh\<lparr>names := ns\<rparr>)
   }"
  unfolding KCLASSTABLE_init_def first_names_def
  by (simp add: Option.bind_assoc case_prod_unfold Let_def)

lemma builtin_supcid: "i < 12 \<Longrightarrow> d_supcid (DATATYPES ! i) = 0"
  by (simp add: numeral_eq_Suc less_Suc_eq, elim disjE)
     (simp_all add: DATATYPES_def TYPENAME_def CLASSNAME_def no_class_def)

definition builtin_names :: "bytes list" where
  "builtin_names = map lit [''void'', ''var'', ''Object'', ''Boolean'', ''Int'', ''String'', ''Array'', ''Param'',
     ''Method'', ''Func'', ''System'', ''0'']"

lemma dbgnames: "map (\<lambda>i. c_dbgname (builtin ! i)) [0..<12] = builtin_names"
  by (simp add: builtin_names_def builtin_nth upt_conv_Cons DATATYPES_def TYPENAME_def CLASSNAME_def no_class_def)

lemma par_holds_empty: "kmap_models pm {#} \<Longrightarrow> par_holds hashp nf \<lparr>pmap = pm, plist = []\<rparr>"
  by (simp add: par_holds_def kmap_holds_def par_entries_def)

lemma KCLASSTABLE_init_ok:
  obtains sh where "KCLASSTABLE_init junk = Some sh" "cshare_ok sh" "sup_ok sh" "length (cts sh) = 12"
    "slist (unames (names sh)) = lit ''T'' # builtin_names"
    "map (\<lambda>i. map_getu (lcnames sh) (longid 0 (word_of_nat (Suc i))) 0) [0..<12] = map (\<lambda>i. Some (ct_word i)) [0..<12]"
    "length (plist (params sh)) \<le> 1" "length (plist (paramdoms sh)) \<le> 1"
    "kind (cts sh ! 6) = (None, CLASS_Array)" "kind (cts sh ! 9) = (None, CLASS_Func)"
proof -
  obtain lc where lc: "Kmap_init (j_lc junk) 0 = Some lc" "uholds lc Map.empty"
    using uholds_init by blast
  obtain t where t: "symtab_init (j_name junk) = Some t" "sym_holds t []"
    using symtab_init_ok by blast
  obtain pm where pm: "Kmap_init (j_par junk) 0 = Some pm" "kmap_models pm {#}"
    using Kmap_init_models by blast
  note ph = par_holds_empty [OF pm(2)]
  define ns0 where "ns0 = \<lparr>fileids = t, packs = t, unames = t, symbols = t\<rparr>"
  define cs where "cs = builtin[6 := (builtin ! 6)\<lparr>c_p0 := CLASS_Object\<rparr>]"
  have len: "length cs = 12" "length builtin = 12" by (simp_all add: cs_def builtin_def)
  have cs_nth: "unnamed (cs ! i)\<lparr>c_p0 := 0\<rparr> = unnamed (builtin ! i)\<lparr>c_p0 := 0\<rparr>" if "i < 12" for i
    using that len by (cases "i = 6") (simp_all add: cs_def unnamed_def)
  have b: "f (cs ! i) = f (builtin ! i)" if "i < 12" "\<And>c x. f (unnamed c\<lparr>c_p0 := x\<rparr>) = f c" for f :: "kclass \<Rightarrow> 'a" and i
    using arg_cong [OF cs_nth [OF that(1)], of f] that(2) by simp
  define sh0 where "sh0 = \<lparr>names = ns0, cts = [], ca_max = K_CLASSTABLE_INIT * sizeof_kclass div 8,
      params = \<lparr>pmap = pm, plist = []\<rparr>, paramdoms = \<lparr>pmap = pm, plist = []\<rparr>, lcnames = lc\<rparr>"
  define sh1 where "sh1 = sh0\<lparr>cts := cs\<rparr>"
  have load: "loadInitStructData junk sh0 = Some sh1"
    unfolding sh1_def cs_def by (rule loadInitStructData_Some) (simp_all add: sh0_def K_CLASSTABLE_INIT_def sizeof_kclass_def)
  have c7: "c_size (cs ! 7) = 64" "c_initdef (cs ! 7) = None"
    by (simp_all add: cs_def len builtin_nth DATATYPES_def CLASSNAME_def no_class_def size64_small)
  have ok1: "cshare_ok sh1"
    using builtin_ok c7 len by (simp add: ph cshare_ok_def cts_ok_def sh1_def sh0_def cs_def K_CLASSTABLE_INIT_def sizeof_kclass_def)
  obtain sh2 i2 where 2: "Kparam junk sh1 CLASS_Tvoid [] = Some (sh2, i2)" "cshare_ok sh2" "paramdoms sh2 = paramdoms sh1"
    "length (plist (params sh2)) \<le> 1"
    using Kparam_refines [OF ok1, of junk CLASS_Tvoid "[]"] by (auto simp: sh1_def sh0_def)
  have f2: "cts sh2 = cs" "names sh2 = ns0" "lcnames sh2 = lc"
    using Kparam_empty_frame [OF _ _ 2(1)] c7 len by (simp_all add: sh1_def sh0_def)
  obtain sh3 i3 where 3: "Kparamdom junk sh2 [] = Some (sh3, i3)" "cshare_ok sh3"
    "length (plist (paramdoms sh3)) \<le> 1" "params sh3 = params sh2"
    using Kparamdom_refines [OF 2(2), of junk "[]"] 2(3) by (auto simp: sh1_def sh0_def grows_def)
  have f3: "cts sh3 = cs" "names sh3 = ns0" "lcnames sh3 = lc"
    using Kparamdom_empty_frame [OF _ _ 3(1)] c7 len f2 by simp_all
  obtain ns where ns: "first_names junk ns0 = Some ns" "sym_holds (unames ns) [hashed (lit ''T'')]"
    "slist (packs ns) \<noteq> []"
    by (rule first_names_ok [OF t(2) ns0_def])
  define sh4 where "sh4 = sh3\<lparr>names := ns\<rparr>"
  have nm: "naming sh4 [hashed (lit ''T'')] Map.empty"
    using ns lc(2) f3 by (simp add: naming_def sh4_def)
  have dbg: "map (\<lambda>i. c_dbgname (cts sh4 ! i)) [0..<12] = builtin_names"
    unfolding dbgnames [symmetric] by (rule map_cong) (use b [of _ c_dbgname] f3 in \<open>simp_all add: sh4_def unnamed_def\<close>)
  have plain: "n \<noteq> lit ''T'' \<and> 0 \<notin> set n" if "n \<in> set builtin_names" for n
    using that by (auto simp: builtin_names_def lit_def)
  have db: "c_dbgname (cts sh4 ! i) \<in> set builtin_names" if "i < 12" for i
    unfolding dbg [symmetric] using that by simp
  have pk: "c_packdom (cts sh4 ! i) = 0 \<and> c_packid (cts sh4 ! i) = 0" if "i < 12" for i
    using b [OF that, of c_packdom] b [OF that, of c_packid] f3 that
    by (simp add: sh4_def unnamed_def builtin_nth)
  have "\<exists>sh' f'. name_classes junk sh4 [0..<12] = Some sh'
     \<and> naming sh' ([hashed (lit ''T'')] @ map (\<lambda>i. hashed (c_dbgname (cts sh4 ! i))) [0..<12]) f'
     \<and> (\<forall>k < length [0..<12]. f' (longid 0 (word_of_nat (length [hashed (lit ''T'')] + k))) = Some (ct_word ([0..<12] ! k)))
     \<and> (\<forall>u. unat u < length [hashed (lit ''T'')] \<longrightarrow> f' (longid 0 u) = None)
     \<and> named (cts sh4) (cts sh') \<and> ca_max sh' = ca_max sh4 \<and> params sh' = params sh4 \<and> paramdoms sh' = paramdoms sh4"
  proof (rule name_classes_ok [OF nm])
    show "\<forall>i \<in> set [0..<12]. i < length (cts sh4) \<and> c_packdom (cts sh4 ! i) = 0 \<and> c_packid (cts sh4 ! i) = 0
           \<and> 0 \<notin> set (c_dbgname (cts sh4 ! i)) \<and> hashed (c_dbgname (cts sh4 ! i)) \<notin> set [hashed (lit ''T'')]"
      using plain db pk f3 len by (simp add: sh4_def)
    show "distinct (map (\<lambda>i. c_dbgname (cts sh4 ! i)) [0..<12])"
      unfolding dbg by (simp add: builtin_names_def lit_def)
  qed (use f3 len in \<open>simp_all add: sh4_def\<close>)
  then obtain sh' f' where sh': "name_classes junk sh4 [0..<12] = Some sh'"
    "naming sh' (hashed (lit ''T'') # map (\<lambda>i. hashed (c_dbgname (cts sh4 ! i))) [0..<12]) f'"
    "\<And>k. k < 12 \<Longrightarrow> f' (longid 0 (word_of_nat (Suc k))) = Some (ct_word k)"
    "named (cts sh4) (cts sh')" "ca_max sh' = ca_max sh4" "params sh' = params sh4" "paramdoms sh' = paramdoms sh4"
    by auto
  have run: "KCLASSTABLE_init junk = Some sh'"
    using lc(1) t(1) pm(1) load 2(1) 3(1) ns(1) f3(2) sh'(1)
    by (simp add: KCLASSTABLE_init_unfold Let_def initStructData_def class_ids sh0_def [symmetric] ns0_def [symmetric]
        sh4_def [symmetric] del: upt_Suc)
  have l': "length (cts sh') = 12" using named_length [OF sh'(4)] f3 len by (simp add: sh4_def)
  have ok': "cshare_ok sh'"
    using 3(2) sh'(5-7) l' f3 len c7 named_sel(3) [OF sh'(4), of 7] named_similar_ok [OF sh'(4)]
    by (simp add: cshare_ok_def cts_ok_def sh4_def)
  have "unat (c_cid (cts sh' ! i)) = i \<and> c_supcid (cts sh' ! i) = CLASS_Object" if "i < 12" for i
    using named_sel(4,5) [OF sh'(4), of i] f3 len that b [OF that, of c_cid] b [OF that, of c_supcid]
      builtin_supcid [OF that]
    by (simp add: sh4_def unnamed_def builtin_nth unat_code)
  then have sup: "sup_ok sh'" using l' by (simp add: sup_ok_def)
  have un: "slist (unames (names sh')) = lit ''T'' # builtin_names"
    using sh'(2) dbg by (simp add: naming_def sym_holds_def comp_def del: upt_Suc)
  have "map (\<lambda>i. map_getu (lcnames sh') (longid 0 (word_of_nat (Suc i))) 0) [0..<12] = map (\<lambda>i. Some (ct_word i)) [0..<12]"
  proof (rule map_cong [OF refl])
    fix i :: nat assume "i \<in> set [0..<12]"
    then show "map_getu (lcnames sh') (longid 0 (word_of_nat (Suc i))) 0 = Some (ct_word i)"
      using sh'(2,3) umap.getu_holds [of "lcnames sh'" f'] by (simp add: naming_def del: of_nat_Suc)
  qed
  moreover have "kind (cts sh' ! i) = (None, word_of_nat i)" if "i = 6 \<or> i = 9" for i
    using named_sel(3,9) [OF sh'(4), of i] f3 len that b [of i c_initdef] b [of i c_bcid]
    by (auto simp: sh4_def unnamed_def kind_def builtin_nth DATATYPES_def CLASSNAME_def no_class_def)
  then have "kind (cts sh' ! 6) = (None, CLASS_Array)" "kind (cts sh' ! 9) = (None, CLASS_Func)"
    by (simp_all add: class_ids)
  moreover have "length (plist (params sh')) \<le> 1" "length (plist (paramdoms sh')) \<le> 1"
    using 2(4) 3(3,4) sh'(6,7) by (simp_all add: sh4_def)
  ultimately show ?thesis using that run ok' sup l' un by blast
qed

text \<open>
  C29: starting up succeeds whatever uninitialised memory holds, and leaves a well-formed class table: the
  twelve built-in classes with their subclass links, and each of them is found under its name.
\<close>

theorem KCLASSTABLE_init_ready:
  "\<exists>sh. KCLASSTABLE_init junk = Some sh \<and> cshare_ok sh \<and> sup_ok sh \<and> length (cts sh) = 12
     \<and> slist (unames (names sh)) = lit ''T'' # builtin_names
     \<and> map (\<lambda>i. map_getu (lcnames sh) (longid 0 (word_of_nat (Suc i))) 0) [0..<12]
       = map (\<lambda>i. Some (ct_word i)) [0..<12]"
  by (rule KCLASSTABLE_init_ok [of junk]) blast


theorem Kparam_identifies_witness:
  "\<exists>junk sh sh1 sh2 i j. KCLASSTABLE_init junk = Some sh
     \<and> Kparam junk sh CLASS_Int [\<lparr>pty = CLASS_Int, pfn = 3\<rparr>] = Some (sh1, i)
     \<and> Kparam junk sh1 CLASS_Int [\<lparr>pty = CLASS_Int, pfn = 4\<rparr>] = Some (sh2, j) \<and> i \<noteq> j"
proof -
  obtain sh where "KCLASSTABLE_init junk = Some sh" "cshare_ok sh" "length (plist (params sh)) \<le> 1"
    by (rule KCLASSTABLE_init_ok)
  with Kparam_identifies [of sh junk CLASS_Int "[\<lparr>pty = CLASS_Int, pfn = 3\<rparr>]" CLASS_Int "[\<lparr>pty = CLASS_Int, pfn = 4\<rparr>]"]
  show ?thesis by fastforce
qed

theorem CT_Generics_identity_witness:
  "\<exists>junk sh sh1 sh2 q q'. KCLASSTABLE_init junk = Some sh
     \<and> CT_Generics junk sh 9 CLASS_Int [\<lparr>pty = CLASS_Int, pfn = 0\<rparr>] = Some (sh1, q)
     \<and> CT_Generics junk sh1 9 CLASS_String [\<lparr>pty = CLASS_Int, pfn = 0\<rparr>] = Some (sh2, q') \<and> q \<noteq> q'"
proof -
  obtain sh where sh: "KCLASSTABLE_init junk = Some sh" "cshare_ok sh" "length (cts sh) = 12"
    "length (plist (paramdoms sh)) \<le> 1" "kind (cts sh ! 9) = (None, CLASS_Func)"
    by (rule KCLASSTABLE_init_ok)
  obtain sh1 sh2 q q' where r: "CT_Generics junk sh 9 CLASS_Int [\<lparr>pty = CLASS_Int, pfn = 0\<rparr>] = Some (sh1, q)"
    "CT_Generics junk sh1 9 CLASS_String [\<lparr>pty = CLASS_Int, pfn = 0\<rparr>] = Some (sh2, q')"
    "q = q' \<longleftrightarrow> (c_bcid (cts sh ! 9) = CLASS_Func \<longrightarrow> CLASS_Int = CLASS_String)"
    using CT_Generics_identity [of sh 9 "[\<lparr>pty = CLASS_Int, pfn = 0\<rparr>]" "[\<lparr>pty = CLASS_Int, pfn = 0\<rparr>]" junk CLASS_Int CLASS_String]
      sh by (auto simp: kind_def)
  then have "q \<noteq> q'" using sh(5) by (simp add: kind_def class_ids)
  with sh(1) r(1,2) show ?thesis by blast
qed

theorem CT_Generics_duplicates_witness:
  "\<exists>junk sh sh1 sh2 sh3 q q' q3. KCLASSTABLE_init junk = Some sh
     \<and> CT_Generics junk sh 6 0 [\<lparr>pty = CLASS_String, pfn = 0\<rparr>] = Some (sh1, q)
     \<and> CT_Generics junk sh1 6 0 [\<lparr>pty = CLASS_Int, pfn = 0\<rparr>] = Some (sh2, q')
     \<and> CT_Generics junk sh2 (max q q') 0
         (if q < q' then [\<lparr>pty = CLASS_String, pfn = 0\<rparr>] else [\<lparr>pty = CLASS_Int, pfn = 0\<rparr>]) = Some (sh3, q3)
     \<and> q3 \<noteq> min q q' \<and> c_paramdom (cts sh3 ! q3) = c_paramdom (cts sh3 ! min q q')"
proof -
  obtain sh where sh: "KCLASSTABLE_init junk = Some sh" "cshare_ok sh" "length (cts sh) = 12"
    "length (plist (paramdoms sh)) \<le> 1" "kind (cts sh ! 6) = (None, CLASS_Array)"
    by (rule KCLASSTABLE_init_ok)
  have ne: "map pty [\<lparr>pty = CLASS_String, pfn = 0\<rparr>] \<noteq> map pty [\<lparr>pty = CLASS_Int, pfn = 0 :: u32\<rparr>]"
    by (simp add: class_ids)
  have c: "6 < length (cts sh)" "c_initdef (cts sh ! 6) = None" "length (plist (paramdoms sh)) < 2 ^ 32 - 4"
    using sh(3-5) by (simp_all add: kind_def)
  from CT_Generics_duplicates [OF sh(2) c(3,1,2) _ _ ne] sh(1) show ?thesis by blast
qed

theorem isSubType_decides_witness:
  "\<exists>junk sh. KCLASSTABLE_init junk = Some sh
     \<and> DEFAULT_isSubType sh (cts sh ! 5) (cts sh ! 4) = Some (superclass sh (cts sh ! 5) (cts sh ! 4))"
proof -
  obtain sh where sh: "KCLASSTABLE_init junk = Some sh" "sup_ok sh" "length (cts sh) = 12"
    by (rule KCLASSTABLE_init_ok)
  moreover have "c_cid (cts sh ! 4) \<noteq> CLASS_Object"
    using sup_okD(1) [OF sh(2), of 4] sh(3) by (auto simp: class_ids)
  ultimately show ?thesis using isSubType_decides [of sh 5 4] by auto
qed

end
