(* ===== verification/Space.thy ===== *)
theory Space
  imports Classes Tokenizer
begin

text \<open>
  Name spaces (\<^verbatim>\<open>kKonohaSpace\<close> of \<^verbatim>\<open>src/sugar/struct.h\<close>): the syntax each space
  defines, its constants, its methods and those of classes, and what importing a package adds
  to a space (\<^verbatim>\<open>KonohaSpace_merge\<close> of \<^verbatim>\<open>src/sugar/sugar.c\<close>).

  Methods, method arrays, syntaxes and spaces are numbered by their allocation; array 0 is the
  shared \<^verbatim>\<open>K_EMPTYARRAY\<close>.
\<close>

section \<open>Data\<close>

datatype sfun =
  UndefinedParseExpr | ParseExpr_Term | ParseExpr_Op | ParseExpr_DOT | ParseExpr_Parenthesis
| ParseExpr_COMMA | ParseExpr_DOLLAR
| ParseStmt_Expr | ParseStmt_Type | ParseStmt_Usymbol | ParseStmt_Symbol | ParseStmt_Params
| ParseStmt_Block | ParseStmt_Toks
| UndefinedStmtTyCheck | StmtTyCheck_Expr | StmtTyCheck_TypeDecl | StmtTyCheck_ParamsDecl
| StmtTyCheck_MethodDecl | StmtTyCheck_if | StmtTyCheck_else | StmtTyCheck_return
| UndefinedExprTyCheck | ExprTyCheck_Symbol | ExprTyCheck_Usymbol | ExprTyCheck_Text | ExprTyCheck_Int
| ExprTyCheck_Type | ExprTyCheck_FuncStyleCall | ExprTyCheck_Block | ExprTyCheck_MethodCall
| ExprTyCheck_AND | ExprTyCheck_OR | ExprTyCheck_true | ExprTyCheck_false
| Other_function nat

record ksyntax =
  s_kw :: u32
  s_flag :: u32
  s_rule :: "token list option"
  s_ParseStmt :: "sfun option"
  s_ParseExpr :: sfun
  s_TopStmtTyCheck :: sfun
  s_StmtTyCheck :: sfun
  s_ExprTyCheck :: sfun
  s_ty :: u32
  s_priority :: int
  s_op2 :: u32
  s_op1 :: u32

record kMethod =
  m_func :: nat
  m_flag :: u64
  m_cid :: u32
  m_mn :: u32
  m_paramid :: u32
  m_paramdom :: u32
  m_delta :: u32
  m_packid :: u32

record kspace =
  ks_packid :: u32
  ks_packdom :: u32
  ks_parent :: "nat option"
  ks_syntaxMap :: "unit kmap option"
  ks_static_cid :: u32
  ks_function_cid :: u32
  ks_methods :: nat
  ks_cl :: "kvs list"
  ks_clmax :: nat

record world =
  csh :: cshare
  kwds :: rules
  mtds :: "kMethod list"
  marrs :: "nat list list"
  spaces :: "kspace list"
  syntaxes :: "ksyntax list"
  strs :: "bytes list"
  reports :: "bytes list"

definition MN_NONAME :: u32 where "MN_NONAME = - 1"

definition TY_TEXT :: u32 where "TY_TEXT = CLASS_Tvoid"
definition TY_TYPE :: u32 where "TY_TYPE = CLASS_Tvar"

definition kMethod_Public :: u64 where "kMethod_Public = 1"
definition kMethod_Static :: u64 where "kMethod_Static = 16"

definition kMethod_isPublic :: "kMethod \<Rightarrow> bool" where
  "kMethod_isPublic mtd \<longleftrightarrow> and (m_flag mtd) kMethod_Public = kMethod_Public"

definition kMethod_isStatic :: "kMethod \<Rightarrow> bool" where
  "kMethod_isStatic mtd \<longleftrightarrow> and (m_flag mtd) kMethod_Static = kMethod_Static"

definition MN_to :: "u32 \<Rightarrow> u32" where "MN_to c = or c MN_TOCID"

definition MN_as :: "u32 \<Rightarrow> u32" where
  "MN_as c = or c (or (KFLAG_H 1) (or (KFLAG_H 2) (KFLAG_H 3)))"

text \<open>A new space has no syntax, no constants and no methods of its own.\<close>

definition KonohaSpace_init :: "nat option \<Rightarrow> kspace" where
  "KonohaSpace_init parent = \<lparr>ks_packid = 0, ks_packdom = 0, ks_parent = parent, ks_syntaxMap = None,
     ks_static_cid = TY_unknown, ks_function_cid = CLASS_System, ks_methods = K_EMPTYARRAY,
     ks_cl = [], ks_clmax = 0\<rparr>"

text \<open>The package id is stored as the domain too; the parameter \<^verbatim>\<open>packdom\<close> is not used.\<close>

definition new_KonohaSpace :: "world \<Rightarrow> nat \<Rightarrow> u32 \<Rightarrow> u32 \<Rightarrow> world \<times> nat" where
  "new_KonohaSpace w rootks packdom packid =
     (w\<lparr>spaces := spaces w @ [(KonohaSpace_init (Some rootks))\<lparr>ks_packid := packid, ks_packdom := packid\<rparr>]\<rparr>,
      length (spaces w))"

definition upd_space :: "nat \<Rightarrow> (kspace \<Rightarrow> kspace) \<Rightarrow> world \<Rightarrow> world option" where
  "upd_space k f w = do {
     ks \<leftarrow> mem_get (spaces w) k;
     Some (w\<lparr>spaces := (spaces w)[k := f ks]\<rparr>)
   }"

section \<open>Syntax\<close>

text \<open>A syntax pointer as a machine word is \<^const>\<open>ct_word\<close> of its number.\<close>

definition own_syntax :: "kspace \<Rightarrow> u32 \<Rightarrow> nat option option" where
  "own_syntax ks kw =
     (case ks_syntaxMap ks of None \<Rightarrow> Some None
      | Some m \<Rightarrow> do {
          e \<leftarrow> Kmap_getentry m (ucast kw);
          r \<leftarrow> find_entry m (\<lambda>x. hcode x = ucast kw) e;
          (case r of None \<Rightarrow> Some None
           | Some q \<Rightarrow> do { x \<leftarrow> deref m q; Some (Some (unat (uvalue x) - 1)) })
        })"

text \<open>
  The search of \<^verbatim>\<open>KonohaSpace_syntax\<close> from a space outwards: the first space that defines the
  keyword, and what it defines.
\<close>

partial_function (option) syntax_search :: "world \<Rightarrow> nat option \<Rightarrow> u32 \<Rightarrow> (nat \<times> nat) option option" where
  "syntax_search w k kw =
     (case k of None \<Rightarrow> Some None
      | Some i \<Rightarrow> do {
          ks \<leftarrow> mem_get (spaces w) i;
          r \<leftarrow> own_syntax ks kw;
          (case r of Some p \<Rightarrow> Some (Some (i, p))
           | None \<Rightarrow> syntax_search w (ks_parent ks) kw)
        })"

declare syntax_search.simps [code]

definition new_syntax :: "u32 \<Rightarrow> ksyntax" where
  "new_syntax kw = \<lparr>s_kw = kw, s_flag = 0, s_rule = None, s_ParseStmt = None,
     s_ParseExpr = UndefinedParseExpr, s_TopStmtTyCheck = UndefinedStmtTyCheck,
     s_StmtTyCheck = UndefinedStmtTyCheck, s_ExprTyCheck = UndefinedExprTyCheck,
     s_ty = TY_unknown, s_priority = 0, s_op2 = MN_NONAME, s_op1 = MN_NONAME\<rparr>"

text \<open>A new entry is linked first and gets its syntax afterwards.\<close>

definition map_add_later :: "(nat \<Rightarrow> 'k kmape) \<Rightarrow> 'k kmap \<Rightarrow> u64 \<Rightarrow> u64 \<Rightarrow> 'k kmap option" where
  "map_add_later junk m h v = do {
     (m, e) \<leftarrow> Kmap_newentry junk m h;
     m \<leftarrow> Kmap_add m e;
     x \<leftarrow> deref m e;
     store m e (x\<lparr>uvalue := v\<rparr>)
   }"

definition add_syntax :: "garbage \<Rightarrow> world \<Rightarrow> nat \<Rightarrow> u32 \<Rightarrow> ksyntax \<Rightarrow> (world \<times> nat) option" where
  "add_syntax junk w ks0 kw syn = do {
     ks \<leftarrow> mem_get (spaces w) ks0;
     m \<leftarrow> (case ks_syntaxMap ks of None \<Rightarrow> Kmap_init (j_lc junk) 0 | Some m \<Rightarrow> Some m);
     let p = length (syntaxes w);
     m \<leftarrow> map_add_later (j_lc junk) m (ucast kw) (ct_word p);
     Some (w\<lparr>spaces := (spaces w)[ks0 := ks\<lparr>ks_syntaxMap := Some m\<rparr>], syntaxes := syntaxes w @ [syn]\<rparr>, p)
   }"

definition KonohaSpace_syntax ::
    "garbage \<Rightarrow> world \<Rightarrow> nat \<Rightarrow> u32 \<Rightarrow> bool \<Rightarrow> (world \<times> nat option) option" where
  "KonohaSpace_syntax junk w ks0 kw isnew = do {
     r \<leftarrow> syntax_search w (Some ks0) kw;
     (case r of
        Some (i, p) \<Rightarrow>
          if isnew \<and> ks0 \<noteq> i then do {
            parent \<leftarrow> mem_get (syntaxes w) p;
            (w, p) \<leftarrow> add_syntax junk w ks0 kw parent;
            Some (w, Some p)
          } else Some (w, Some p)
      | None \<Rightarrow>
          if isnew then do {
            (w, p) \<leftarrow> add_syntax junk w ks0 kw (new_syntax kw);
            Some (w, Some p)
          } else Some (w, None))
   }"

definition SYN_at :: "garbage \<Rightarrow> world \<Rightarrow> nat \<Rightarrow> u32 \<Rightarrow> ksyntax option option" where
  "SYN_at junk w ks kw = do {
     (w, r) \<leftarrow> KonohaSpace_syntax junk w ks kw False;
     (case r of None \<Rightarrow> Some None | Some p \<Rightarrow> map_option Some (mem_get (syntaxes w) p))
   }"

text \<open>Definitions of syntax (\<^verbatim>\<open>KDEFINE_SYNTAX\<close>).\<close>

record kdefine_syntax =
  y_name :: bytes
  y_flag :: u32
  y_rule :: "bytes option"
  y_op2 :: "bytes option"
  y_op1 :: "bytes option"
  y_priority :: int
  y_type :: u32
  y_ParseStmt :: "sfun option"
  y_ParseExpr :: "sfun option"
  y_TopStmtTyCheck :: "sfun option"
  y_StmtTyCheck :: "sfun option"
  y_ExprTyCheck :: "sfun option"

definition SYNFLAG_ExprTerm :: u32 where "SYNFLAG_ExprTerm = 1"
definition SYNFLAG_ExprOp :: u32 where "SYNFLAG_ExprOp = 2"
definition SYNFLAG_ExprLeftJoinOp2 :: u32 where "SYNFLAG_ExprLeftJoinOp2 = 4"
definition SYNFLAG_ExprPostfixOp2 :: u32 where "SYNFLAG_ExprPostfixOp2 = 8"

text \<open>
  Setting a function of a syntax. The method object around a function is shared between successive
  definitions; here a method of the syntax is the function it calls.
\<close>

definition setSyntaxMethod :: "sfun option \<Rightarrow> sfun \<Rightarrow> sfun" where
  "setSyntaxMethod f old = (case f of None \<Rightarrow> old | Some g \<Rightarrow> g)"

definition upd_syn :: "nat \<Rightarrow> (ksyntax \<Rightarrow> ksyntax) \<Rightarrow> world \<Rightarrow> world option" where
  "upd_syn p f w = do {
     s \<leftarrow> mem_get (syntaxes w) p;
     Some (w\<lparr>syntaxes := (syntaxes w)[p := f s]\<rparr>)
   }"

definition default_ParseExpr :: "ksyntax \<Rightarrow> ksyntax" where
  "default_ParseExpr syn =
     (if s_ParseExpr syn = UndefinedParseExpr then
        (if FLAG_is (s_flag syn) SYNFLAG_ExprOp then syn\<lparr>s_ParseExpr := ParseExpr_Op\<rparr>
         else if FLAG_is (s_flag syn) SYNFLAG_ExprTerm then syn\<lparr>s_ParseExpr := ParseExpr_Term\<rparr>
         else syn)
      else syn)"

definition method_symbol :: "garbage \<Rightarrow> world \<Rightarrow> bytes option \<Rightarrow> u32 \<Rightarrow> (world \<times> u32) option" where
  "method_symbol junk w name old =
     (case name of None \<Rightarrow> Some (w, old)
      | Some n \<Rightarrow> do {
          (ns, mn) \<leftarrow> Ksymbol (j_name junk) (names (csh w)) n 127 FN_NEWID SYMPOL_METHOD;
          Some (w\<lparr>csh := (csh w)\<lparr>names := ns\<rparr>\<rparr>, mn)
        })"

definition define_parts ::
    "kdefine_syntax \<Rightarrow> u32 \<Rightarrow> u32 \<Rightarrow> token list option \<Rightarrow> ksyntax \<Rightarrow> ksyntax" where
  "define_parts d op1 op2 rule syn = default_ParseExpr (syn\<lparr>
     s_flag := or (s_flag syn) (y_flag d),
     s_ty := (if y_type d \<noteq> 0 then y_type d else s_ty syn),
     s_op1 := op1, s_op2 := op2,
     s_priority := (if y_priority d > 0 then y_priority d else s_priority syn),
     s_rule := rule,
     s_ParseStmt := (case y_ParseStmt d of None \<Rightarrow> s_ParseStmt syn | Some f \<Rightarrow> Some f),
     s_ParseExpr := setSyntaxMethod (y_ParseExpr d) (s_ParseExpr syn),
     s_TopStmtTyCheck := setSyntaxMethod (y_TopStmtTyCheck d) (s_TopStmtTyCheck syn),
     s_StmtTyCheck := setSyntaxMethod (y_StmtTyCheck d) (s_StmtTyCheck syn),
     s_ExprTyCheck := setSyntaxMethod (y_ExprTyCheck d) (s_ExprTyCheck syn)\<rparr>)"

definition define_one :: "garbage \<Rightarrow> world \<Rightarrow> nat \<Rightarrow> kdefine_syntax \<Rightarrow> world option" where
  "define_one junk w ks d = do {
     (st, kw) \<leftarrow> keyword (j_name junk) (kwds w) (y_name d) FN_NEWID;
     (w, r) \<leftarrow> KonohaSpace_syntax junk (w\<lparr>kwds := st\<rparr>) ks kw True;
     p \<leftarrow> r;
     syn \<leftarrow> mem_get (syntaxes w) p;
     (w, op1) \<leftarrow> method_symbol junk w (y_op1 d) (s_op1 syn);
     (w, op2) \<leftarrow> method_symbol junk w (y_op2 d) (s_op2 syn);
     (w, rule) \<leftarrow> (case y_rule d of None \<Rightarrow> Some (w, s_rule syn)
        | Some r \<Rightarrow> do {
            (st, a) \<leftarrow> parseSyntaxRule (j_name junk) (kwds w) r 0 [];
            Some (w\<lparr>kwds := st\<rparr>, Some a)
          });
     w \<leftarrow> upd_syn p (define_parts d op1 op2 rule) w;
     (_, r) \<leftarrow> KonohaSpace_syntax junk w ks kw False;
     (if r = Some p then Some w else None)
   }"

fun KonohaSpace_defineSyntax :: "garbage \<Rightarrow> world \<Rightarrow> nat \<Rightarrow> kdefine_syntax list \<Rightarrow> world option" where
  "KonohaSpace_defineSyntax junk w ks [] = Some w"
| "KonohaSpace_defineSyntax junk w ks (d # ds) = do {
     w \<leftarrow> define_one junk w ks d;
     KonohaSpace_defineSyntax junk w ks ds
   }"

end
