(* ===== verification/Members.thy ===== *)
theory Members
  imports Space
begin

text \<open>
  The constants and methods of name spaces (\<^verbatim>\<open>src/sugar/struct.h\<close>), the class of a name,
  and what importing a package adds to a space (\<^verbatim>\<open>KonohaSpace_merge\<close>).

  The constants of a space are kept sorted by \<^verbatim>\<open>qsort\<close>, which leaves the order of equal elements
  open: it is the parameter \<open>qsort\<close>, and \<open>qsort_ok\<close> is what the C standard says of it.
\<close>

section \<open>Constants\<close>

definition FN_UNBOX :: "u32 \<Rightarrow> u32" where "FN_UNBOX fn = and fn (not FN_BOXED)"

definition comprKeyVal :: "kvs \<Rightarrow> kvs \<Rightarrow> int" where
  "comprKeyVal a b = sint (FN_UNBOX (vkey a)) - sint (FN_UNBOX (vkey b))"

definition qsort_ok :: "((kvs \<Rightarrow> kvs \<Rightarrow> int) \<Rightarrow> kvs list \<Rightarrow> kvs list) \<Rightarrow> bool" where
  "qsort_ok qsort \<longleftrightarrow>
     (\<forall>xs. mset (qsort comprKeyVal xs) = mset xs
         \<and> sorted_wrt (\<lambda>a b. comprKeyVal a b \<le> 0) (qsort comprKeyVal xs))"

text \<open>The binary search: the position of the constant, if any.\<close>

function const_search :: "kvs list \<Rightarrow> u32 \<Rightarrow> nat \<Rightarrow> nat \<Rightarrow> nat option option" where
  "const_search cl ukey mn mx =
     (if mn < mx then
        (let p = (mx + mn) div 2 in
         case mem_get cl p of None \<Rightarrow> None
         | Some kv \<Rightarrow>
             if FN_UNBOX (vkey kv) = ukey then Some (Some p)
             else if FN_UNBOX (vkey kv) < ukey then const_search cl ukey (p + 1) mx
             else const_search cl ukey mn p)
      else Some None)"
  by pat_completeness auto
termination by (relation "measure (\<lambda>(_, _, mn, mx). mx - mn)") auto

declare const_search.simps [simp del]

definition KonohaSpace_getConstNULL :: "kspace \<Rightarrow> u32 \<Rightarrow> kvs option option" where
  "KonohaSpace_getConstNULL ks ukey = do {
     r \<leftarrow> const_search (ks_cl ks) ukey 0 (length (ks_cl ks));
     Some (map_option (\<lambda>p. ks_cl ks ! p) r)
   }"

text \<open>
  The key is looked up as it stands. A name both spaces define is reported and not imported, unless
  the values agree.
\<close>

definition checkConflictedConst :: "world \<Rightarrow> kspace \<Rightarrow> kvs \<Rightarrow> (world \<times> bool) option" where
  "checkConflictedConst w ks kv = do {
     r \<leftarrow> KonohaSpace_getConstNULL ks (vkey kv);
     (case r of
        None \<Rightarrow> Some (w, False)
      | Some ksval \<Rightarrow>
          if vty kv = vty ksval \<and> uval kv = uval ksval then Some (w, True)
          else do {
            n \<leftarrow> S_UN (csh w) (FN_UNBOX (vkey kv));
            Some (w\<lparr>reports := reports w @ [lit ''conflicted name: '' @ n]\<rparr>, True)
          })
   }"

fun unconflicted :: "world \<Rightarrow> kspace \<Rightarrow> kvs list \<Rightarrow> (world \<times> kvs list) option" where
  "unconflicted w ks [] = Some (w, [])"
| "unconflicted w ks (kv # kvl) = do {
     (w, c) \<leftarrow> checkConflictedConst w ks kv;
     (w, r) \<leftarrow> unconflicted w ks kvl;
     Some (w, if c then r else kv # r)
   }"

text \<open>The first constants of a space are taken as they are.\<close>

definition KonohaSpace_mergeConstData ::
    "((kvs \<Rightarrow> kvs \<Rightarrow> int) \<Rightarrow> kvs list \<Rightarrow> kvs list) \<Rightarrow> world \<Rightarrow> nat \<Rightarrow> kvs list \<Rightarrow> world option" where
  "KonohaSpace_mergeConstData qsort w k kvl = do {
     ks \<leftarrow> mem_get (spaces w) k;
     let s = length (ks_cl ks);
     (w, kvl, mx) \<leftarrow> (if s = 0 then Some (w, kvl, length kvl + 8)
        else do {
          (w, kvl) \<leftarrow> unconflicted w ks kvl;
          Some (w, kvl, if kvl \<noteq> [] then s + length kvl + 8 else ks_clmax ks)
        });
     (if s + length kvl \<le> mx
      then upd_space k (\<lambda>ks. ks\<lparr>ks_cl := qsort comprKeyVal (ks_cl ks @ kvl), ks_clmax := mx\<rparr>) w
      else None)
   }"

text \<open>
  Constants a package defines: a name, a type and a word. A text is copied into a new string, whose
  pointer is \<^const>\<open>ct_word\<close> of its number.
\<close>

datatype cdata = C_text bytes | C_word u64

fun const_data :: "garbage \<Rightarrow> world \<Rightarrow> (bytes \<times> u32 \<times> cdata) list \<Rightarrow> (world \<times> kvs list) option" where
  "const_data junk w [] = Some (w, [])"
| "const_data junk w ((n, ty, d) # ds) = do {
     (ns, un) \<leftarrow> Kuname (j_name junk) (names (csh w)) n FN_NEWID;
     let w = w\<lparr>csh := (csh w)\<lparr>names := ns\<rparr>\<rparr>;
     let key = or un FN_BOXED;
     (w, kv) \<leftarrow> (case d of
         C_text s \<Rightarrow>
           (if ty = TY_TEXT then
              Some (w\<lparr>strs := strs w @ [s]\<rparr>, \<lparr>vkey = key, vty = CLASS_String, uval = ct_word (length (strs w))\<rparr>)
            else None)
       | C_word v \<Rightarrow>
           (if ty = TY_TEXT then None
            else do {
              u \<leftarrow> TY_isUnbox (csh w) ty;
              Some (w, if u \<or> ty = TY_TYPE then \<lparr>vkey = FN_UNBOX key, vty = ty, uval = v\<rparr>
                       else \<lparr>vkey = key, vty = ty, uval = v\<rparr>)
            }));
     (w, r) \<leftarrow> const_data junk w ds;
     Some (w, kv # r)
   }"

definition KonohaSpace_loadConstData ::
    "garbage \<Rightarrow> ((kvs \<Rightarrow> kvs \<Rightarrow> int) \<Rightarrow> kvs list \<Rightarrow> kvs list) \<Rightarrow> world \<Rightarrow> nat
     \<Rightarrow> (bytes \<times> u32 \<times> cdata) list \<Rightarrow> world option" where
  "KonohaSpace_loadConstData junk qsort w k d = do {
     (w, kvl) \<leftarrow> const_data junk w d;
     (if kvl \<noteq> [] then KonohaSpace_mergeConstData qsort w k kvl else Some w)
   }"

definition CT_isPrivate :: "kclass \<Rightarrow> bool" where
  "CT_isPrivate ct \<longleftrightarrow> FLAG_is (c_cflag ct) kClass_Private"

definition class_consts :: "cshare \<Rightarrow> u32 \<Rightarrow> kvs list" where
  "class_consts sh packid =
     map (\<lambda>i. \<lparr>vkey = c_nameid (cts sh ! i), vty = TY_TYPE, uval = ct_word i\<rparr>)
       (filter (\<lambda>i. \<not> CT_isPrivate (cts sh ! i) \<and> c_packid (cts sh ! i) = packid) [0..<length (cts sh)])"

definition KonohaSpace_importClassName ::
    "((kvs \<Rightarrow> kvs \<Rightarrow> int) \<Rightarrow> kvs list \<Rightarrow> kvs list) \<Rightarrow> world \<Rightarrow> nat \<Rightarrow> u32 \<Rightarrow> world option" where
  "KonohaSpace_importClassName qsort w k packid =
     (let kvl = class_consts (csh w) packid in
      if kvl \<noteq> [] then KonohaSpace_mergeConstData qsort w k kvl else Some w)"

text \<open>
  The class of a name, as the number of its allocation plus one; \<open>0\<close> is \<^verbatim>\<open>NULL\<close>. The default is
  compared with zero as an unsigned number and so never used.
\<close>

definition PN_konoha :: u32 where "PN_konoha = 0"

definition KonohaSpace_getCT ::
    "garbage \<Rightarrow> world \<Rightarrow> nat \<Rightarrow> bytes \<Rightarrow> u32 \<Rightarrow> u64 option" where
  "KonohaSpace_getCT junk w k name def = do {
     (_, un) \<leftarrow> Kuname (j_name junk) (names (csh w)) name FN_NONAME;
     (if un \<noteq> FN_NONAME then do {
        ct \<leftarrow> map_getu (lcnames (csh w)) (longid PN_konoha un) 0;
        (if ct = 0 then do {
           ks \<leftarrow> mem_get (spaces w) k;
           r \<leftarrow> KonohaSpace_getConstNULL ks un;
           (case r of None \<Rightarrow> Some 0
            | Some kv \<Rightarrow> if vty kv = TY_TYPE then Some (uval kv) else Some 0)
         } else Some ct)
      } else Some 0)
   }"

section \<open>Methods\<close>

text \<open>Adding to the shared empty array replaces it by an array of the owner's.\<close>

definition arr_add :: "nat \<Rightarrow> nat \<Rightarrow> world \<Rightarrow> world option" where
  "arr_add a mtd w = do {
     l \<leftarrow> mem_get (marrs w) a;
     Some (w\<lparr>marrs := (marrs w)[a := l @ [mtd]]\<rparr>)
   }"

definition CT_addMethod :: "world \<Rightarrow> nat \<Rightarrow> nat \<Rightarrow> world option" where
  "CT_addMethod w c mtd = do {
     ct \<leftarrow> mem_get (cts (csh w)) c;
     a \<leftarrow> c_methods ct;
     (if a = K_EMPTYARRAY then do {
        let a = length (marrs w);
        sh \<leftarrow> upd_CT c (\<lambda>ct. ct\<lparr>c_methods := Some a\<rparr>) (csh w);
        arr_add a mtd (w\<lparr>csh := sh, marrs := marrs w @ [[]]\<rparr>)
      } else arr_add a mtd w)
   }"

definition KonohaSpace_addMethod :: "world \<Rightarrow> nat \<Rightarrow> nat \<Rightarrow> world option" where
  "KonohaSpace_addMethod w k mtd = do {
     ks \<leftarrow> mem_get (spaces w) k;
     (if ks_methods ks = K_EMPTYARRAY then do {
        let a = length (marrs w);
        w \<leftarrow> upd_space k (\<lambda>ks. ks\<lparr>ks_methods := a\<rparr>) w;
        arr_add a mtd (w\<lparr>marrs := marrs w @ [[]]\<rparr>)
      } else arr_add (ks_methods ks) mtd w)
   }"

text \<open>The first method of an array with a property; a method number out of range is undefined.\<close>

fun find_method :: "world \<Rightarrow> (kMethod \<Rightarrow> bool) \<Rightarrow> nat list \<Rightarrow> nat option option" where
  "find_method w P [] = Some None"
| "find_method w P (i # is) = do {
     mtd \<leftarrow> mem_get (mtds w) i;
     (if P mtd then Some (Some i) else find_method w P is)
   }"

partial_function (option) CT_findMethodNULL :: "world \<Rightarrow> nat option \<Rightarrow> u32 \<Rightarrow> nat option option" where
  "CT_findMethodNULL w c mn =
     (case c of None \<Rightarrow> Some None
      | Some i \<Rightarrow> do {
          ct \<leftarrow> mem_get (cts (csh w)) i;
          a \<leftarrow> c_methods ct;
          l \<leftarrow> mem_get (marrs w) a;
          r \<leftarrow> find_method w (\<lambda>mtd. m_mn mtd = mn) l;
          (case r of Some m \<Rightarrow> Some (Some m) | None \<Rightarrow> CT_findMethodNULL w (c_super ct) mn)
        })"

declare CT_findMethodNULL.simps [code]

partial_function (option) space_method :: "world \<Rightarrow> nat option \<Rightarrow> u32 \<Rightarrow> u32 \<Rightarrow> nat option option" where
  "space_method w k cid mn =
     (case k of None \<Rightarrow> Some None
      | Some i \<Rightarrow> do {
          ks \<leftarrow> mem_get (spaces w) i;
          l \<leftarrow> mem_get (marrs w) (ks_methods ks);
          r \<leftarrow> find_method w (\<lambda>mtd. m_cid mtd = cid \<and> m_mn mtd = mn) l;
          (case r of Some m \<Rightarrow> Some (Some m) | None \<Rightarrow> space_method w (ks_parent ks) cid mn)
        })"

declare space_method.simps [code]

definition KonohaSpace_getMethodNULL :: "world \<Rightarrow> nat option \<Rightarrow> u32 \<Rightarrow> u32 \<Rightarrow> nat option option" where
  "KonohaSpace_getMethodNULL w k cid mn = do {
     r \<leftarrow> space_method w k cid mn;
     (case r of Some m \<Rightarrow> Some (Some m) | None \<Rightarrow> CT_findMethodNULL w (Some (unat cid)) mn)
   }"

partial_function (option) KonohaSpace_getStaticMethodNULL ::
    "world \<Rightarrow> nat option \<Rightarrow> u32 \<Rightarrow> nat option option" where
  "KonohaSpace_getStaticMethodNULL w k mn =
     (case k of None \<Rightarrow> Some None
      | Some i \<Rightarrow> do {
          ks \<leftarrow> mem_get (spaces w) i;
          r \<leftarrow> (if ks_static_cid ks \<noteq> TY_unknown then do {
                  m \<leftarrow> KonohaSpace_getMethodNULL w k (ks_static_cid ks) mn;
                  (case m of None \<Rightarrow> Some None
                   | Some m \<Rightarrow> do {
                       mtd \<leftarrow> mem_get (mtds w) m;
                       Some (if kMethod_isStatic mtd then Some m else None)
                     })
                } else Some None);
          (case r of Some m \<Rightarrow> Some (Some m) | None \<Rightarrow> KonohaSpace_getStaticMethodNULL w (ks_parent ks) mn)
        })"

declare KonohaSpace_getStaticMethodNULL.simps [code]

definition KonohaSpace_getCastMethodNULL :: "world \<Rightarrow> nat option \<Rightarrow> u32 \<Rightarrow> u32 \<Rightarrow> nat option option" where
  "KonohaSpace_getCastMethodNULL w k cid tcid = do {
     r \<leftarrow> KonohaSpace_getMethodNULL w k cid (MN_to tcid);
     (case r of Some m \<Rightarrow> Some (Some m) | None \<Rightarrow> KonohaSpace_getMethodNULL w k cid (MN_as tcid))
   }"

definition KonohaSpace_defineMethod :: "world \<Rightarrow> nat \<Rightarrow> nat \<Rightarrow> world option" where
  "KonohaSpace_defineMethod w k m = do {
     mtd \<leftarrow> mem_get (mtds w) m;
     ks \<leftarrow> mem_get (spaces w) k;
     let w = (if m_packid mtd = 0 then w\<lparr>mtds := (mtds w)[m := mtd\<lparr>m_packid := ks_packid ks\<rparr>]\<rparr> else w);
     ct \<leftarrow> CT_at (csh w) (m_cid mtd);
     (if c_packdom ct = ks_packdom ks \<and> kMethod_isPublic mtd
      then CT_addMethod w (unat (m_cid mtd)) m
      else KonohaSpace_addMethod w k m)
   }"

text \<open>A new method, whose function is given by a number, and its signature.\<close>

definition new_Method :: "world \<Rightarrow> u64 \<Rightarrow> u32 \<Rightarrow> u32 \<Rightarrow> nat \<Rightarrow> world \<times> nat" where
  "new_Method w flag cid mn func =
     (w\<lparr>mtds := mtds w @ [\<lparr>m_func = func, m_flag = flag, m_cid = cid, m_mn = mn,
        m_paramid = 0, m_paramdom = 0, m_delta = 0, m_packid = 0\<rparr>]\<rparr>, length (mtds w))"

definition KMethod_setParam ::
    "garbage \<Rightarrow> world \<Rightarrow> nat option \<Rightarrow> u32 \<Rightarrow> kparam list \<Rightarrow> (world \<times> kParam) option" where
  "KMethod_setParam junk w m rtype p = do {
     (sh, paramid) \<leftarrow> Kparam junk (csh w) rtype p;
     let w = w\<lparr>csh := sh\<rparr>;
     w \<leftarrow> (case m of None \<Rightarrow> Some w
        | Some m \<Rightarrow> do {
            (sh, pd) \<leftarrow> Kparamdom junk (csh w) p;
            mtd \<leftarrow> mem_get (mtds w) m;
            Some (w\<lparr>csh := sh, mtds := (mtds w)[m := mtd\<lparr>m_paramid := paramid, m_paramdom := pd\<rparr>]\<rparr>)
          });
     pa \<leftarrow> mem_get (plist (params (csh w))) (unat paramid);
     Some (w, pa)
   }"

text \<open>The table of methods a package registers: flag, function, return type, class, name, parameters.\<close>

type_synonym mdata = "u64 \<times> nat \<times> u32 \<times> u32 \<times> u32 \<times> kparam list"

fun KonohaSpace_loadMethodData :: "garbage \<Rightarrow> world \<Rightarrow> nat option \<Rightarrow> mdata list \<Rightarrow> world option" where
  "KonohaSpace_loadMethodData junk w ks [] = Some w"
| "KonohaSpace_loadMethodData junk w ks ((flag, f, rtype, cid, mn, p) # d) = do {
     let (w, m) = new_Method w flag cid mn f;
     (w, _) \<leftarrow> KMethod_setParam junk w (Some m) rtype p;
     mtd \<leftarrow> mem_get (mtds w) m;
     w \<leftarrow> (case ks of
         None \<Rightarrow> CT_addMethod w (unat cid) m
       | Some k \<Rightarrow> if kMethod_isPublic mtd then CT_addMethod w (unat cid) m else KonohaSpace_addMethod w k m);
     KonohaSpace_loadMethodData junk w ks d
   }"

section \<open>Importing\<close>

text \<open>
  The loop of \<^verbatim>\<open>KonohaSpace_merge\<close> over the methods of the package's space, adding to the array the
  importing space has, be it the shared empty one.
\<close>

partial_function (option) merge_methods :: "world \<Rightarrow> nat \<Rightarrow> nat \<Rightarrow> nat \<Rightarrow> world option" where
  "merge_methods w k target i = do {
     ks \<leftarrow> mem_get (spaces w) k;
     t \<leftarrow> mem_get (spaces w) target;
     l \<leftarrow> mem_get (marrs w) (ks_methods t);
     (if i < length l then do {
        mtd \<leftarrow> mem_get (mtds w) (l ! i);
        w \<leftarrow> (if kMethod_isPublic mtd \<and> m_packid mtd = ks_packid t
              then arr_add (ks_methods ks) (l ! i) w else Some w);
        merge_methods w k target (i + 1)
      } else Some w)
   }"

declare merge_methods.simps [code]

definition KonohaSpace_merge ::
    "((kvs \<Rightarrow> kvs \<Rightarrow> int) \<Rightarrow> kvs list \<Rightarrow> kvs list) \<Rightarrow> world \<Rightarrow> nat \<Rightarrow> nat \<Rightarrow> world option" where
  "KonohaSpace_merge qsort w k target = do {
     t \<leftarrow> mem_get (spaces w) target;
     w \<leftarrow> (if ks_packid t \<noteq> PN_konoha then KonohaSpace_importClassName qsort w k (ks_packid t) else Some w);
     w \<leftarrow> (if ks_cl t \<noteq> [] then KonohaSpace_mergeConstData qsort w k (ks_cl t) else Some w);
     merge_methods w k target 0
   }"

end
