(* ===== verification/SpaceFacts.thy ===== *)
theory SpaceFacts
  imports Members ClassFacts
begin

text \<open>
  What name spaces promise: a keyword means what the innermost space that defines it says, the
  constants of a space are a map that imports extend, and what importing does to the array of
  methods that all empty spaces and classes share.
\<close>

section \<open>The map of a space's syntax\<close>

lemma unat_code64: "n < 2 ^ 64 \<Longrightarrow> unat (word_of_nat n :: u64) = n"
  by (simp add: unsigned_of_nat take_bit_nat_eq_self)

lemma ct_word_inj:
  assumes "p < 2 ^ 64 - 1"
  shows "unat (ct_word p) = Suc p"
proof -
  have "p + 1 < 2 ^ 64" using assms by (rule less_diff_conv [THEN iffD1])
  from unat_code64 [OF this] show ?thesis by (simp only: ct_word_def Suc_eq_plus1)
qed

lemma update_orders:
  "x\<lparr>uvalue := v, nxt := n\<rparr> = x\<lparr>nxt := n, uvalue := v\<rparr>"
  "m\<lparr>arena := a, hentry := h\<rparr> = m\<lparr>hentry := h, arena := a\<rparr>"
  by simp_all

text \<open>It does not matter whether an entry gets its value before or after it is linked.\<close>

lemma add_then_store:
  assumes "blk e = arena_blk m" "idx e < length (arena m)"
  shows "do { m \<leftarrow> Kmap_add m e; x \<leftarrow> deref m e; store m e (x\<lparr>uvalue := v\<rparr>) }
       = do { x \<leftarrow> deref m e; m \<leftarrow> store m e (x\<lparr>uvalue := v\<rparr>); Kmap_add m e }"
  using assms
  by (cases "mem_get (hentry m) (bucket_of (hmax m) (hcode (arena m ! idx e)))")
     (auto simp: Kmap_add_def deref_def store_def mem_get_def mem_put_def Let_def update_orders split: if_splits)

lemma newentry_in_arena:
  assumes "Kmap_newentry junk m h = Some (m', e)"
  shows "blk e = arena_blk m' \<and> idx e < length (arena m')"
  using assms
  by (auto simp: Kmap_newentry_def deref_def store_def mem_get_def mem_put_def bind_Some_iff split: if_splits)

lemma map_add_later_eq: "map_add_later junk m h v = map_addu junk m h v"
proof (cases "Kmap_newentry junk m h")
  case (Some r)
  obtain m' e where r: "r = (m', e)" by fastforce
  show ?thesis
    using Some newentry_in_arena [of junk m h m' e] add_then_store [of e m' v]
    by (simp add: map_add_later_def map_addu_def r)
qed (simp add: map_add_later_def map_addu_def)

text \<open>The contract of a space's map: the locale of word maps gives what was added back.\<close>

lemma own_syntax_holds:
  assumes "ks_syntaxMap ks = Some m" "uholds m f"
  shows "own_syntax ks kw = Some (map_option (\<lambda>v. unat v - 1) (f (ucast kw)))"
proof -
  obtain M where M: "kmap_models m M" "\<And>h k v. (h, k, v) \<in># M \<Longrightarrow> f h = Some v"
    "\<And>h v. f h = Some v \<Longrightarrow> \<exists>k. (h, k, v) \<in># M"
    using assms(2) unfolding uholds_def by blast
  let ?h = "ucast kw :: u64"
  from kmap_lookup_models [OF M(1), of ?h] show ?thesis
  proof (elim disjE conjE exE)
    assume n: "Kmap_getentry m ?h = Some None" "\<forall>d \<in># M. fst d \<noteq> ?h"
    then have "f ?h = None" using M(3) by (metis fst_conv not_None_eq)
    with n(1) show ?thesis by (simp add: own_syntax_def assms(1) find_entry.simps [of m _ None])
  next
    fix p x
    assume e: "Kmap_getentry m ?h = Some (Some p)" "deref m p = Some x" "hcode x = ?h" "edata x \<in># M"
    then have "f ?h = Some (uvalue x)" using M(2) [of ?h "ekey x" "uvalue x"] by (simp add: edata_def)
    with e show ?thesis by (simp add: own_syntax_def assms(1) find_entry.simps [of m _ "Some p"])
  qed
qed

section \<open>Scoping\<close>

text \<open>The space and those around it, innermost first, and what a keyword means there.\<close>

inductive ancestry :: "world \<Rightarrow> nat option \<Rightarrow> nat list \<Rightarrow> bool" for w where
  outside: "ancestry w None []"
| inside: "i < length (spaces w) \<Longrightarrow> ancestry w (ks_parent (spaces w ! i)) is \<Longrightarrow> ancestry w (Some i) (i # is)"

inductive_cases ancestry_SomeE: "ancestry w (Some i) is"

fun scope :: "(nat \<Rightarrow> u64 \<rightharpoonup> nat) \<Rightarrow> nat list \<Rightarrow> u64 \<Rightarrow> (nat \<times> nat) option" where
  "scope M [] h = None"
| "scope M (i # is) h = (case M i h of Some p \<Rightarrow> Some (i, p) | None \<Rightarrow> scope M is h)"

definition syn_holds :: "world \<Rightarrow> (nat \<Rightarrow> u64 \<rightharpoonup> nat) \<Rightarrow> bool" where
  "syn_holds w M \<longleftrightarrow> length (syntaxes w) < 2 ^ 64 - 1
     \<and> (\<forall>i < length (spaces w). case ks_syntaxMap (spaces w ! i) of
            None \<Rightarrow> M i = Map.empty
          | Some m \<Rightarrow> uholds m (map_option ct_word \<circ> M i))
     \<and> (\<forall>i < length (spaces w). \<forall>p \<in> ran (M i). p < length (syntaxes w))"

lemma syn_holdsD:
  assumes "syn_holds w M"
  shows "length (syntaxes w) < 2 ^ 64 - 1"
    and "i < length (spaces w) \<Longrightarrow> ks_syntaxMap (spaces w ! i) = None \<Longrightarrow> M i = Map.empty"
    and "i < length (spaces w) \<Longrightarrow> ks_syntaxMap (spaces w ! i) = Some m \<Longrightarrow> uholds m (map_option ct_word \<circ> M i)"
    and "i < length (spaces w) \<Longrightarrow> M i h = Some p \<Longrightarrow> p < length (syntaxes w)"
  using assms unfolding syn_holds_def by (auto simp: ran_def)

lemma own_syntax_map:
  assumes "syn_holds w M" "i < length (spaces w)"
  shows "own_syntax (spaces w ! i) kw = Some (M i (ucast kw))"
proof (cases "ks_syntaxMap (spaces w ! i)")
  case None
  then show ?thesis using syn_holdsD(2) [OF assms None] by (simp add: own_syntax_def)
next
  case (Some m)
  have "unat (ct_word p) = Suc p" if "M i (ucast kw) = Some p" for p
    by (rule ct_word_inj) (use syn_holdsD(1) [OF assms(1)] syn_holdsD(4) [OF assms(1,2) that] in linarith)
  then have "map_option (\<lambda>v. unat v - 1) ((map_option ct_word \<circ> M i) (ucast kw)) = M i (ucast kw)"
    by (cases "M i (ucast kw)") simp_all
  then show ?thesis using own_syntax_holds [OF Some syn_holdsD(3) [OF assms Some], of kw] by simp
qed

lemma syntax_search_scope:
  assumes "syn_holds w M" "ancestry w k is"
  shows "syntax_search w k kw = Some (scope M is (ucast kw))"
  using assms(2)
proof (induction rule: ancestry.induct)
  case outside
  then show ?case by (simp add: syntax_search.simps [of w None])
next
  case (inside i "is")
  then show ?case
    by (subst syntax_search.simps)
       (simp add: own_syntax_map [OF assms(1)] mem_get_def split: option.split)
qed

lemma scope_own: "scope M (i # is) h = Some (j, p) \<Longrightarrow> M i h = None \<Longrightarrow> scope M is h = Some (j, p)"
  by simp

lemma scope_bound:
  assumes "syn_holds w M" "ancestry w k is" "scope M is h = Some (j, p)"
  shows "p < length (syntaxes w)"
  using assms(2,3)
  by (induction rule: ancestry.induct) (auto dest: syn_holdsD(4) [OF assms(1)] split: option.splits)

lemma scope_in: "scope M is h = Some (j, p) \<Longrightarrow> j \<in> set is \<and> M j h = Some p"
  by (induction "is") (auto split: option.splits)

lemma add_syntax_extends:
  assumes "syn_holds w M" "k < length (spaces w)" "M k (ucast kw) = None" "length (syntaxes w) < 2 ^ 64 - 2"
  obtains w' where "add_syntax junk w k kw syn = Some (w', length (syntaxes w))"
    "syn_holds w' (M(k := (M k)(ucast kw \<mapsto> length (syntaxes w))))"
    "syntaxes w' = syntaxes w @ [syn]" "length (spaces w') = length (spaces w)"
    "map ks_parent (spaces w') = map ks_parent (spaces w)"
proof -
  let ?p = "length (syntaxes w)" and ?ks = "spaces w ! k"
  have "\<exists>m. (case ks_syntaxMap ?ks of None \<Rightarrow> Kmap_init (j_lc junk) 0 | Some m \<Rightarrow> Some m) = Some m
      \<and> uholds m (map_option ct_word \<circ> M k)"
  proof (cases "ks_syntaxMap ?ks")
    case None
    have "map_option ct_word \<circ> M k = Map.empty"
      using syn_holdsD(2) [OF assms(1,2) None] by (simp add: comp_def)
    then show ?thesis using uholds_init [of "j_lc junk" 0] None by simp
  next
    case (Some m)
    then show ?thesis using syn_holdsD(3) [OF assms(1,2) Some] by simp
  qed
  then obtain m where m: "(case ks_syntaxMap ?ks of None \<Rightarrow> Kmap_init (j_lc junk) 0 | Some m \<Rightarrow> Some m) = Some m"
    "uholds m (map_option ct_word \<circ> M k)" by blast
  have "(map_option ct_word \<circ> M k) (ucast kw) = None" using assms(3) by simp
  from umap.addu_holds [OF m(2) this, of "j_lc junk" "ct_word ?p"] obtain m' where
    m': "map_addu (j_lc junk) m (ucast kw) (ct_word ?p) = Some m'"
    "uholds m' ((map_option ct_word \<circ> M k)(ucast kw \<mapsto> ct_word ?p))" by blast
  have f: "(map_option ct_word \<circ> M k)(ucast kw \<mapsto> ct_word ?p) = map_option ct_word \<circ> ((M k)(ucast kw \<mapsto> ?p))"
    by (auto simp: fun_eq_iff)
  define w' where "w' = w\<lparr>spaces := (spaces w)[k := ?ks\<lparr>ks_syntaxMap := Some m'\<rparr>], syntaxes := syntaxes w @ [syn]\<rparr>"
  have run: "add_syntax junk w k kw syn = Some (w', ?p)"
    using assms(2) m m' by (simp add: add_syntax_def mem_get_def map_add_later_eq w'_def)
  have "syn_holds w' (M(k := (M k)(ucast kw \<mapsto> ?p)))"
    unfolding syn_holds_def
  proof (intro conjI allI impI ballI)
    show "length (syntaxes w') < 2 ^ 64 - 1"
      using assms(4) unfolding w'_def by simp
  next
    fix i assume i: "i < length (spaces w')"
    show "case ks_syntaxMap (spaces w' ! i) of None \<Rightarrow> (M(k := (M k)(ucast kw \<mapsto> ?p))) i = Map.empty
        | Some m \<Rightarrow> uholds m (map_option ct_word \<circ> (M(k := (M k)(ucast kw \<mapsto> ?p))) i)"
    proof (cases "i = k")
      case True
      have "ks_syntaxMap (spaces w' ! i) = Some m'" by (simp add: w'_def True assms(2))
      moreover have "(M(k := (M k)(ucast kw \<mapsto> ?p))) i = (M k)(ucast kw \<mapsto> ?p)" by (simp add: True)
      ultimately show ?thesis using m'(2) unfolding f by (simp only: option.case)
    next
      case False
      then show ?thesis using syn_holdsD(2,3) [OF assms(1), of i] i
        by (simp add: w'_def split: option.split)
    qed
  next
    fix i p assume a: "i < length (spaces w')" "p \<in> ran ((M(k := (M k)(ucast kw \<mapsto> ?p))) i)"
    then obtain h where "M i h = Some p \<or> p = ?p" by (auto simp: ran_def split: if_splits)
    moreover have "i < length (spaces w)" using a(1) by (simp add: w'_def)
    ultimately show "p < length (syntaxes w')"
      using syn_holdsD(4) [OF assms(1), of i h p] by (auto simp: w'_def less_SucI)
  qed
  moreover have "map ks_parent (spaces w') = map ks_parent (spaces w)"
    by (rule nth_equalityI) (simp_all add: w'_def nth_list_update assms(2))
  ultimately show ?thesis using that run by (simp add: w'_def)
qed

lemma ancestry_parents:
  assumes "ancestry w k is" "map ks_parent (spaces w') = map ks_parent (spaces w)"
  shows "ancestry w' k is"
  using assms(1)
proof (induction rule: ancestry.induct)
  case (inside i "is")
  have "length (spaces w') = length (spaces w)" using assms(2) map_eq_imp_length_eq by blast
  moreover from this have "ks_parent (spaces w' ! i) = ks_parent (spaces w ! i)"
    using assms(2) inside(1) by (metis nth_map)
  ultimately show ?case using inside by (intro ancestry.inside) simp_all
qed (rule ancestry.outside)

lemma syntax_scoping:
  assumes "syn_holds w M" "ancestry w (Some k) is" "length (syntaxes w) < 2 ^ 64 - 2"
  shows "KonohaSpace_syntax junk w k kw False = Some (w, map_option snd (scope M is (ucast kw)))"
    and "\<exists>w' p. KonohaSpace_syntax junk w k kw True = Some (w', Some p)
       \<and> syn_holds w' (M(k := (M k)(ucast kw \<mapsto> p))) \<and> ancestry w' (Some k) is
       \<and> (case M k (ucast kw) of Some q \<Rightarrow> w' = w \<and> p = q
          | None \<Rightarrow> p = length (syntaxes w)
              \<and> syntaxes w' = syntaxes w @ [case scope M is (ucast kw) of
                   Some (j, q) \<Rightarrow> syntaxes w ! q | None \<Rightarrow> new_syntax kw])"
proof -
  note s = syntax_search_scope [OF assms(1,2), of kw]
  show "KonohaSpace_syntax junk w k kw False = Some (w, map_option snd (scope M is (ucast kw)))"
    by (simp add: KonohaSpace_syntax_def s split: option.split)
  obtain rest where k: "k < length (spaces w)" "is = k # rest" using assms(2) by (auto elim: ancestry_SomeE)
  show "\<exists>w' p. KonohaSpace_syntax junk w k kw True = Some (w', Some p)
       \<and> syn_holds w' (M(k := (M k)(ucast kw \<mapsto> p))) \<and> ancestry w' (Some k) is
       \<and> (case M k (ucast kw) of Some q \<Rightarrow> w' = w \<and> p = q
          | None \<Rightarrow> p = length (syntaxes w)
              \<and> syntaxes w' = syntaxes w @ [case scope M is (ucast kw) of
                   Some (j, q) \<Rightarrow> syntaxes w ! q | None \<Rightarrow> new_syntax kw])"
  proof (cases "M k (ucast kw)")
    case (Some q)
    then have "KonohaSpace_syntax junk w k kw True = Some (w, Some q)" "(M k)(ucast kw \<mapsto> q) = M k"
      by (simp_all add: KonohaSpace_syntax_def s k fun_upd_idem)
    then show ?thesis using Some assms(1,2) by (auto intro!: exI [of _ w] exI [of _ q])
  next
    case None
    define syn where "syn = (case scope M is (ucast kw) of
        Some (j, q) \<Rightarrow> syntaxes w ! q | None \<Rightarrow> new_syntax kw)"
    obtain w' where w': "add_syntax junk w k kw syn = Some (w', length (syntaxes w))"
      "syn_holds w' (M(k := (M k)(ucast kw \<mapsto> length (syntaxes w))))"
      "syntaxes w' = syntaxes w @ [syn]" "map ks_parent (spaces w') = map ks_parent (spaces w)"
      by (rule add_syntax_extends [OF assms(1) k(1) None assms(3), of junk syn]) blast
    have "KonohaSpace_syntax junk w k kw True = Some (w', Some (length (syntaxes w)))"
    proof (cases "scope M is (ucast kw)")
      case None
      then show ?thesis using w'(1) by (simp add: KonohaSpace_syntax_def s syn_def)
    next
      case (Some r)
      obtain j q where r: "r = (j, q)" by fastforce
      have "j \<noteq> k" using scope_in [of M "is" _ j q] Some r None by auto
      moreover have "q < length (syntaxes w)" using scope_bound [OF assms(1,2)] Some r by blast
      ultimately show ?thesis using w'(1) Some r by (simp add: KonohaSpace_syntax_def s syn_def mem_get_def)
    qed
    then show ?thesis using None w'(2,3) ancestry_parents [OF assms(2) w'(4)] by (simp add: syn_def)
  qed
qed

text \<open>
  C11: a keyword means what the innermost enclosing name space that defines it says. Looking a keyword up
  ends and gives that definition or none. Defining it in a space gives the space a syntax of its
  own, which starts as a copy of the one visible before, or empty; no other space's
  definitions and no older syntax changes, and what the space already defines itself is reused.
\<close>

theorem KonohaSpace_syntax_scoping:
  assumes "syn_holds w M" "ancestry w (Some k) is" "length (syntaxes w) < 2 ^ 64 - 2"
  shows "KonohaSpace_syntax junk w k kw False = Some (w, map_option snd (scope M is (ucast kw)))
    \<and> (\<exists>w' p. KonohaSpace_syntax junk w k kw True = Some (w', Some p)
       \<and> syn_holds w' (M(k := (M k)(ucast kw \<mapsto> p))) \<and> ancestry w' (Some k) is
       \<and> (case M k (ucast kw) of Some q \<Rightarrow> w' = w \<and> p = q
          | None \<Rightarrow> p = length (syntaxes w)
              \<and> syntaxes w' = syntaxes w @ [case scope M is (ucast kw) of
                   Some (j, q) \<Rightarrow> syntaxes w ! q | None \<Rightarrow> new_syntax kw]))"
  using syntax_scoping [OF assms] by (intro conjI)

text \<open>A world of two spaces, the root and a script's space, in which nothing is defined yet.\<close>

definition first_spaces :: "cshare \<Rightarrow> rules \<Rightarrow> world" where
  "first_spaces sh st = \<lparr>csh = sh, kwds = st, mtds = [], marrs = [[]],
     spaces = [KonohaSpace_init None, KonohaSpace_init (Some 0)], syntaxes = [], strs = [], reports = []\<rparr>"

lemma first_spaces_ok:
  "syn_holds (first_spaces sh st) (\<lambda>_. Map.empty)" "ancestry (first_spaces sh st) (Some 1) [1, 0]"
proof -
  show "syn_holds (first_spaces sh st) (\<lambda>_. Map.empty)"
    by (auto simp: syn_holds_def first_spaces_def KonohaSpace_init_def less_Suc_eq)
  have "ancestry (first_spaces sh st) (Some 0) [0]"
    by (rule ancestry.inside) (auto simp: first_spaces_def KonohaSpace_init_def intro: ancestry.outside)
  then show "ancestry (first_spaces sh st) (Some 1) [1, 0]"
    by (intro ancestry.inside) (simp_all add: first_spaces_def KonohaSpace_init_def)
qed

theorem KonohaSpace_syntax_scoping_witness:
  "\<exists>junk sh st w'. KonohaSpace_syntax junk (first_spaces sh st) 1 5 False = Some (first_spaces sh st, None)
     \<and> KonohaSpace_syntax junk (first_spaces sh st) 1 5 True = Some (w', Some 0) \<and> syntaxes w' = [new_syntax 5]"
  using KonohaSpace_syntax_scoping [OF first_spaces_ok, where kw = 5]
  by (fastforce simp: first_spaces_def)

section \<open>Constants\<close>

abbreviation ckey :: "kvs \<Rightarrow> u32" where "ckey kv \<equiv> FN_UNBOX (vkey kv)"

definition const_map :: "kvs list \<Rightarrow> u32 \<rightharpoonup> kvs" where
  "const_map cl = map_of (map (\<lambda>kv. (ckey kv, kv)) cl)"

definition consts_ok :: "kspace \<Rightarrow> bool" where
  "consts_ok ks \<longleftrightarrow> sorted (map ckey (ks_cl ks)) \<and> distinct (map ckey (ks_cl ks))
     \<and> length (ks_cl ks) \<le> ks_clmax ks"

lemma sint_unbox: "sint (FN_UNBOX k) = uint (FN_UNBOX k)"
proof -
  have b: "\<not> bit (uint (FN_UNBOX k)) 31"
    by (simp add: FN_UNBOX_def FN_BOXED_def bit_simps bit_uint_iff)
  have "take_bit 31 (uint (FN_UNBOX k)) = uint (FN_UNBOX k)"
  proof (rule bit_eqI)
    fix n
    show "bit (take_bit 31 (uint (FN_UNBOX k))) n = bit (uint (FN_UNBOX k)) n"
      using b by (cases "n < 31"; cases "n = 31") (auto simp: bit_simps bit_uint_iff dest: bit_imp_le_length)
  qed
  then show ?thesis using b by (simp add: sint_uint signed_take_bit_eq_if_positive)
qed

lemma comprKeyVal_le: "comprKeyVal a b \<le> 0 \<longleftrightarrow> ckey a \<le> ckey b"
  by (simp add: comprKeyVal_def sint_unbox word_le_def)

lemma qsort_okD:
  assumes "qsort_ok qsort"
  shows "mset (qsort comprKeyVal xs) = mset xs" "sorted (map ckey (qsort comprKeyVal xs))"
  using assms by (auto simp: qsort_ok_def comprKeyVal_le sorted_map)

lemma const_map_mset:
  assumes "mset xs = mset ys" "distinct (map ckey xs)"
  shows "const_map xs = const_map ys" "distinct (map ckey ys)"
proof -
  show d: "distinct (map ckey ys)" using assms by (metis mset_eq_imp_distinct_iff mset_map)
  have "map_of (map (\<lambda>kv. (ckey kv, kv)) xs) = map_of (map (\<lambda>kv. (ckey kv, kv)) ys)"
    by (rule map_of_inject_set [THEN iffD2])
       (use assms d mset_eq_setD [OF assms(1)] in \<open>simp_all add: comp_def\<close>)
  then show "const_map xs = const_map ys" by (simp add: const_map_def)
qed

lemma const_map_append: "const_map (xs @ ys) = const_map ys ++ const_map xs"
  by (simp add: const_map_def)

lemma const_map_None: "const_map cl u = None \<longleftrightarrow> u \<notin> ckey ` set cl"
  by (simp add: const_map_def map_of_eq_None_iff image_image)

lemma const_map_Some:
  "distinct (map ckey cl) \<Longrightarrow> const_map cl u = Some kv \<longleftrightarrow> kv \<in> set cl \<and> ckey kv = u"
  by (auto simp: const_map_def comp_def dest!: map_of_SomeD intro!: map_of_is_SomeI)

text \<open>The binary search stays in bounds, ends, and finds a constant of the range if there is one.\<close>

lemma const_search_spec:
  assumes "sorted (map ckey cl)" "mx \<le> length cl"
  shows "(\<exists>p. const_search cl u mn mx = Some (Some p) \<and> p < length cl \<and> ckey (cl ! p) = u)
       \<or> (const_search cl u mn mx = Some None \<and> (\<forall>i. mn \<le> i \<and> i < mx \<longrightarrow> ckey (cl ! i) \<noteq> u))"
  using assms
proof (induction cl u mn mx rule: const_search.induct)
  case (1 cl u mn mx)
  let ?p = "(mx + mn) div 2"
  show ?case
  proof (cases "mn < mx")
    case False
    then show ?thesis by (auto simp: const_search.simps [of cl u mn mx])
  next
    case True
    then have p: "mn \<le> ?p" "?p < mx" "?p < length cl" using "1.prems"(2) by linarith+
    have mono: "ckey (cl ! i) \<le> ckey (cl ! j)" if "i \<le> j" "j < length cl" for i j
      using sorted_nth_mono [OF "1.prems"(1), of i j] that by simp
    consider "ckey (cl ! ?p) = u" | "ckey (cl ! ?p) < u" | "u < ckey (cl ! ?p)" by (metis linorder_cases)
    then show ?thesis
    proof cases
      case 1
      then show ?thesis using True p by (subst (1 2) const_search.simps) (simp add: mem_get_def Let_def)
    next
      case 2
      have "const_search cl u mn mx = const_search cl u (?p + 1) mx"
        using True p 2 by (subst const_search.simps) (auto simp: mem_get_def Let_def)
      moreover have below: "ckey (cl ! i) \<noteq> u" if "i < ?p + 1" for i
        using mono [of i ?p] p(3) 2 that by fastforce
      moreover have "(\<exists>q. const_search cl u (?p + 1) mx = Some (Some q) \<and> q < length cl \<and> ckey (cl ! q) = u)
         \<or> (const_search cl u (?p + 1) mx = Some None \<and> (\<forall>i. ?p + 1 \<le> i \<and> i < mx \<longrightarrow> ckey (cl ! i) \<noteq> u))"
        by (rule "1.IH"(1) [OF True refl]) (use p 2 "1.prems" in \<open>auto simp: mem_get_def\<close>)
      moreover have "\<forall>i. mn \<le> i \<and> i < mx \<longrightarrow> ckey (cl ! i) \<noteq> u"
        if "\<forall>i. ?p + 1 \<le> i \<and> i < mx \<longrightarrow> ckey (cl ! i) \<noteq> u" using that below leI by blast
      ultimately show ?thesis by metis
    next
      case 3
      have "const_search cl u mn mx = const_search cl u mn ?p"
        using True p 3 by (subst const_search.simps) (auto simp: mem_get_def Let_def)
      moreover have above: "ckey (cl ! i) \<noteq> u" if "?p \<le> i" "i < mx" for i
        using mono [of ?p i] "1.prems"(2) 3 that by fastforce
      moreover have "(\<exists>q. const_search cl u mn ?p = Some (Some q) \<and> q < length cl \<and> ckey (cl ! q) = u)
         \<or> (const_search cl u mn ?p = Some None \<and> (\<forall>i. mn \<le> i \<and> i < ?p \<longrightarrow> ckey (cl ! i) \<noteq> u))"
        by (rule "1.IH"(2) [OF True refl]) (use p 3 "1.prems" in \<open>auto simp: mem_get_def\<close>)
      moreover have "\<forall>i. mn \<le> i \<and> i < mx \<longrightarrow> ckey (cl ! i) \<noteq> u"
        if "\<forall>i. mn \<le> i \<and> i < ?p \<longrightarrow> ckey (cl ! i) \<noteq> u" using that above leI by blast
      ultimately show ?thesis by metis
    qed
  qed
qed

lemma getConst_map:
  assumes "sorted (map ckey (ks_cl ks))" "distinct (map ckey (ks_cl ks))"
  shows "KonohaSpace_getConstNULL ks u = Some (const_map (ks_cl ks) u)"
  using const_search_spec [OF assms(1) order.refl, of u 0]
proof (elim disjE exE conjE)
  fix p assume p: "const_search (ks_cl ks) u 0 (length (ks_cl ks)) = Some (Some p)"
    "p < length (ks_cl ks)" "ckey (ks_cl ks ! p) = u"
  then have "const_map (ks_cl ks) u = Some (ks_cl ks ! p)" by (simp add: const_map_Some [OF assms(2)])
  then show ?thesis using p(1) by (simp add: KonohaSpace_getConstNULL_def)
next
  assume n: "const_search (ks_cl ks) u 0 (length (ks_cl ks)) = Some None"
    "\<forall>i. 0 \<le> i \<and> i < length (ks_cl ks) \<longrightarrow> ckey (ks_cl ks ! i) \<noteq> u"
  then have "const_map (ks_cl ks) u = None" by (auto simp: const_map_None in_set_conv_nth)
  then show ?thesis using n(1) by (simp add: KonohaSpace_getConstNULL_def)
qed

text \<open>Constants that are looked up under the key they are stored under.\<close>

definition plain :: "cshare \<Rightarrow> kvs list \<Rightarrow> bool" where
  "plain sh kvl \<longleftrightarrow> list_all (\<lambda>kv. ckey kv = vkey kv \<and> S_UN sh (vkey kv) \<noteq> None) kvl"

lemma unconflicted_ok:
  assumes "sorted (map ckey (ks_cl ks))" "distinct (map ckey (ks_cl ks))" "plain (csh w) kvl"
  shows "\<exists>r. unconflicted w ks kvl
     = Some (w\<lparr>reports := r\<rparr>, filter (\<lambda>kv. const_map (ks_cl ks) (ckey kv) = None) kvl)"
  using assms(3)
proof (induction kvl arbitrary: w)
  case Nil
  show ?case by (rule exI [of _ "reports w"]) simp
next
  case (Cons kv kvl)
  have k: "ckey kv = vkey kv" "S_UN (csh w) (vkey kv) \<noteq> None" "plain (csh w) kvl"
    using Cons.prems by (simp_all add: plain_def)
  obtain r where r: "checkConflictedConst w ks kv
      = Some (w\<lparr>reports := r\<rparr>, const_map (ks_cl ks) (ckey kv) \<noteq> None)"
  proof (cases "const_map (ks_cl ks) (vkey kv)")
    case None
    then show ?thesis using that [of "reports w"] k(1)
      by (simp add: checkConflictedConst_def getConst_map [OF assms(1,2)])
  next
    case (Some c)
    then have "checkConflictedConst w ks kv = (if vty kv = vty c \<and> uval kv = uval c then Some (w, True)
        else do { n \<leftarrow> S_UN (csh w) (ckey kv);
                  Some (w\<lparr>reports := reports w @ [lit ''conflicted name: '' @ n]\<rparr>, True) })"
      by (simp add: checkConflictedConst_def getConst_map [OF assms(1,2)])
    moreover obtain n where "S_UN (csh w) (ckey kv) = Some n" using k(1,2) by auto
    ultimately show ?thesis using that [of "reports w"] that [of "reports w @ [lit ''conflicted name: '' @ n]"] Some k(1)
      by (cases "vty kv = vty c \<and> uval kv = uval c") auto
  qed
  have "plain (csh (w\<lparr>reports := r\<rparr>)) kvl" using k(3) by simp
  from Cons.IH [OF this] obtain r' where
    "unconflicted (w\<lparr>reports := r\<rparr>) ks kvl
       = Some (w\<lparr>reports := r'\<rparr>, filter (\<lambda>kv. const_map (ks_cl ks) (ckey kv) = None) kvl)" by auto
  then show ?case using r by auto
qed

lemma const_map_filter:
  "const_map (filter (\<lambda>kv. const_map cl (ckey kv) = None) kvl) ++ const_map cl = const_map kvl ++ const_map cl"
proof (rule ext)
  fix u
  show "(const_map (filter (\<lambda>kv. const_map cl (ckey kv) = None) kvl) ++ const_map cl) u
      = (const_map kvl ++ const_map cl) u"
  proof (cases "const_map cl u")
    case None
    have "const_map (filter (\<lambda>kv. const_map cl (ckey kv) = None) kvl) u = const_map kvl u"
      using None by (induction kvl) (auto simp: const_map_def)
    then show ?thesis using None by (simp add: map_add_def)
  qed (simp add: map_add_def)
qed

lemma distinct_filter_map: "distinct (map f xs) \<Longrightarrow> distinct (map f (filter P xs))"
  by (induction xs) auto


definition insertion :: "(kvs \<Rightarrow> kvs \<Rightarrow> int) \<Rightarrow> kvs list \<Rightarrow> kvs list" where
  "insertion cmp xs = sort_key ckey xs"

lemma insertion_ok: "qsort_ok insertion"
  using sorted_sort_key [of ckey] unfolding sorted_map by (simp add: qsort_ok_def insertion_def comprKeyVal_le)

definition one_const :: "cshare \<Rightarrow> rules \<Rightarrow> world" where
  "one_const sh st = (first_spaces sh st)\<lparr>spaces :=
     [(KonohaSpace_init None)\<lparr>ks_cl := [\<lparr>vkey = 2, vty = 4, uval = 7\<rparr>], ks_clmax := 9\<rparr>]\<rparr>"

lemma unbox_small: "FN_UNBOX 1 = 1" "FN_UNBOX 2 = 2"
  by (simp_all add: FN_UNBOX_def FN_BOXED_def)


text \<open>
  object constants are never recognised as duplicates. The lookup of the conflict test compares
  the boxed key with keys whose box is removed, so importing a constant of an object into a space that
  already has it reports nothing and stores it a second time.
\<close>

theorem boxed_constants_duplicate:
  assumes "qsort_ok qsort" "k < length (spaces w)" "kv \<in> set (ks_cl (spaces w ! k))" "FN_isBOXED (vkey kv)"
  shows "\<exists>w'. KonohaSpace_mergeConstData qsort w k [kv] = Some w' \<and> reports w' = reports w
     \<and> count (mset (ks_cl (spaces w' ! k))) kv = Suc (count (mset (ks_cl (spaces w ! k))) kv)"
proof -
  let ?ks = "spaces w ! k"
  have ne: "FN_UNBOX x \<noteq> vkey kv" for x
  proof
    assume "FN_UNBOX x = vkey kv"
    moreover have "bit (vkey kv) 31"
      using assms(4) bit_and_iff [of "vkey kv" FN_BOXED 31] by (simp add: FN_isBOXED_def FN_BOXED_def)
    moreover have "\<not> bit (FN_UNBOX x) 31" by (simp add: FN_UNBOX_def FN_BOXED_def bit_simps)
    ultimately show False by simp
  qed
  have search: "const_search cl (vkey kv) mn mx = Some None" if "mx \<le> length cl" for cl mn mx
    using that
  proof (induction cl "vkey kv" mn mx rule: const_search.induct)
    case (1 cl mn mx)
    then show ?case using ne by (subst const_search.simps) (auto simp: mem_get_def Let_def)
  qed
  have c: "checkConflictedConst w ?ks kv = Some (w, False)"
    using search [OF order.refl] by (simp add: checkConflictedConst_def KonohaSpace_getConstNULL_def)
  have n: "length (ks_cl ?ks) \<noteq> 0" using assms(3) by auto
  have "KonohaSpace_mergeConstData qsort w k [kv] = Some (w\<lparr>spaces := (spaces w)[k :=
      ?ks\<lparr>ks_cl := qsort comprKeyVal (ks_cl ?ks @ [kv]), ks_clmax := 9 + length (ks_cl ?ks)\<rparr>]\<rparr>)"
    using assms(2) c n by (simp add: KonohaSpace_mergeConstData_def mem_get_def upd_space_def)
  then show ?thesis using qsort_okD(1) [OF assms(1), of "ks_cl ?ks @ [kv]"] assms(2) by simp
qed

theorem boxed_constants_duplicate_witness:
  "\<exists>sh st w'. KonohaSpace_mergeConstData insertion
       (first_spaces sh st\<lparr>spaces := [(KonohaSpace_init None)\<lparr>ks_cl := [\<lparr>vkey = FN_BOXED, vty = 5, uval = 1\<rparr>]\<rparr>]\<rparr>)
       0 [\<lparr>vkey = FN_BOXED, vty = 5, uval = 1\<rparr>] = Some w'
     \<and> count (mset (ks_cl (spaces w' ! 0))) \<lparr>vkey = FN_BOXED, vty = 5, uval = 1\<rparr> = 2"
proof -
  fix sh st
  let ?kv = "\<lparr>vkey = FN_BOXED, vty = 5, uval = 1\<rparr> :: kvs"
  let ?w = "first_spaces sh st\<lparr>spaces := [(KonohaSpace_init None)\<lparr>ks_cl := [?kv]\<rparr>]\<rparr>"
  have "FN_isBOXED (vkey ?kv)" "?kv \<in> set (ks_cl (spaces ?w ! 0))" "0 < length (spaces ?w)"
    by (simp_all add: FN_isBOXED_def)
  from boxed_constants_duplicate [OF insertion_ok this(3,2,1)] show ?thesis by fastforce
qed

section \<open>Methods\<close>

text \<open>A class and the classes its methods are looked up in after it.\<close>

inductive lineage :: "cshare \<Rightarrow> nat option \<Rightarrow> nat list \<Rightarrow> bool" for sh where
  outside_class: "lineage sh None []"
| inside_class: "c < length (cts sh) \<Longrightarrow> lineage sh (c_super (cts sh ! c)) cs \<Longrightarrow> lineage sh (Some c) (c # cs)"

text \<open>The arrays of methods, of their owners and their elements, exist.\<close>

definition methods_ok :: "world \<Rightarrow> bool" where
  "methods_ok w \<longleftrightarrow>
     list_all (list_all (\<lambda>m. m < length (mtds w))) (marrs w)
     \<and> list_all (\<lambda>ks. ks_methods ks < length (marrs w)) (spaces w)
     \<and> list_all (\<lambda>ct. \<exists>a < length (marrs w). c_methods ct = Some a) (cts (csh w))"

definition space_methods :: "world \<Rightarrow> nat \<Rightarrow> nat list" where
  "space_methods w k = marrs w ! ks_methods (spaces w ! k)"

definition class_methods :: "world \<Rightarrow> nat \<Rightarrow> nat list" where
  "class_methods w c = (case c_methods (cts (csh w) ! c) of None \<Rightarrow> [] | Some a \<Rightarrow> marrs w ! a)"

lemma find_method_find:
  "list_all (\<lambda>m. m < length (mtds w)) l \<Longrightarrow> find_method w P l = Some (List.find (\<lambda>m. P (mtds w ! m)) l)"
  by (induction l) (auto simp: mem_get_def)

lemma find_append_case:
  "List.find P (xs @ ys) = (case List.find P xs of Some x \<Rightarrow> Some x | None \<Rightarrow> List.find P ys)"
  by (induction xs) auto

lemma CT_findMethodNULL_lineage:
  assumes "methods_ok w" "lineage (csh w) c cs"
  shows "CT_findMethodNULL w c mn = Some (List.find (\<lambda>m. m_mn (mtds w ! m) = mn) (concat (map (class_methods w) cs)))"
  using assms(2)
proof (induction rule: lineage.induct)
  case outside_class
  then show ?case by (simp add: CT_findMethodNULL.simps [of w None])
next
  case (inside_class c cs)
  obtain a where a: "a < length (marrs w)" "c_methods (cts (csh w) ! c) = Some a"
    "list_all (\<lambda>m. m < length (mtds w)) (marrs w ! a)"
    using assms(1) inside_class(1) by (auto simp: methods_ok_def list_all_length)
  have "class_methods w c = marrs w ! a" using a(2) by (simp add: class_methods_def)
  then show ?case
    using inside_class a
    by (subst CT_findMethodNULL.simps) (simp add: mem_get_def find_method_find find_append_case split: option.split)
qed

lemma space_method_ancestry:
  assumes "methods_ok w" "ancestry w k ks"
  shows "space_method w k cid mn
    = Some (List.find (\<lambda>m. m_cid (mtds w ! m) = cid \<and> m_mn (mtds w ! m) = mn) (concat (map (space_methods w) ks)))"
  using assms(2)
proof (induction rule: ancestry.induct)
  case outside
  then show ?case by (simp add: space_method.simps [of w None])
next
  case (inside i "is")
  have a: "ks_methods (spaces w ! i) < length (marrs w)"
    "list_all (\<lambda>m. m < length (mtds w)) (marrs w ! ks_methods (spaces w ! i))"
    using assms(1) inside(1) by (auto simp: methods_ok_def list_all_length)
  have "space_methods w i = marrs w ! ks_methods (spaces w ! i)" by (simp add: space_methods_def)
  then show ?case
    using inside a
    by (subst space_method.simps) (simp add: mem_get_def find_method_find find_append_case split: option.split)
qed

text \<open>
  C13: a method call is resolved in a fixed order. The lookup ends, stays in bounds and gives the first
  method for the class and the name in the name spaces from the innermost outwards and, when
  there is none, the first with the name in the class and the classes it inherits from.
\<close>

theorem KonohaSpace_getMethodNULL_resolves:
  assumes "methods_ok w" "ancestry w (Some k) ks" "lineage (csh w) (Some (unat cid)) cs"
  shows "KonohaSpace_getMethodNULL w (Some k) cid mn = Some
     (case List.find (\<lambda>m. m_cid (mtds w ! m) = cid \<and> m_mn (mtds w ! m) = mn) (concat (map (space_methods w) ks)) of
        Some m \<Rightarrow> Some m
      | None \<Rightarrow> List.find (\<lambda>m. m_mn (mtds w ! m) = mn) (concat (map (class_methods w) cs)))"
  by (simp add: KonohaSpace_getMethodNULL_def space_method_ancestry [OF assms(1,2)]
      CT_findMethodNULL_lineage [OF assms(1,3)] split: option.split)

lemma unconflicted_frame: "unconflicted w ks kvl = Some (w', r) \<Longrightarrow> \<exists>rs. w' = w\<lparr>reports := rs\<rparr>"
proof (induction kvl arbitrary: w r)
  case Nil
  then show ?case by (auto intro: exI [of _ "reports w"])
next
  case (Cons kv kvl)
  then obtain w1 c r' where s: "checkConflictedConst w ks kv = Some (w1, c)" "unconflicted w1 ks kvl = Some (w', r')"
    by (auto simp: bind_Some_iff)
  have "\<exists>rs. w1 = w\<lparr>reports := rs\<rparr>"
  proof (cases "KonohaSpace_getConstNULL ks (vkey kv)")
    case None
    then show ?thesis using s(1) by (simp add: checkConflictedConst_def)
  next
    case (Some r)
    then show ?thesis using s(1)
      by (cases r) (auto simp: checkConflictedConst_def bind_Some_iff intro: exI [of _ "reports w"] split: if_splits)
  qed
  then show ?case using Cons.IH [OF s(2)] by auto
qed

definition same_methods :: "world \<Rightarrow> world \<Rightarrow> bool" where
  "same_methods w w' \<longleftrightarrow> marrs w' = marrs w \<and> mtds w' = mtds w \<and> csh w' = csh w
     \<and> map ks_methods (spaces w') = map ks_methods (spaces w)
     \<and> map ks_packid (spaces w') = map ks_packid (spaces w)"

lemma mergeConstData_frame:
  assumes "KonohaSpace_mergeConstData qsort w k kvl = Some w'"
  shows "same_methods w w'"
proof -
  let ?step = "\<lambda>ks. if length (ks_cl ks) = 0 then Some (w, kvl, length kvl + 8)
        else do {
          (w, kvl) \<leftarrow> unconflicted w ks kvl;
          Some (w, kvl, if kvl \<noteq> [] then length (ks_cl ks) + length kvl + 8 else ks_clmax ks)
        }"
  obtain ks where ks: "mem_get (spaces w) k = Some ks"
    using assms by (auto simp: KonohaSpace_mergeConstData_def bind_Some_iff)
  define S where "S = ?step ks"
  have e: "Option.bind S (\<lambda>(w, kvl, mx). if length (ks_cl ks) + length kvl \<le> mx
      then upd_space k (\<lambda>ks. ks\<lparr>ks_cl := qsort comprKeyVal (ks_cl ks @ kvl), ks_clmax := mx\<rparr>) w else None) = Some w'"
    using assms unfolding KonohaSpace_mergeConstData_def ks Let_def S_def by (simp only: bind.simps)
  then obtain w1 kvl' mx where s: "S = Some (w1, kvl', mx)"
    "upd_space k (\<lambda>ks. ks\<lparr>ks_cl := qsort comprKeyVal (ks_cl ks @ kvl'), ks_clmax := mx\<rparr>) w1 = Some w'"
    by (cases S) (auto split: if_splits)
  note s = s [unfolded S_def]
  have "\<exists>rs. w1 = w\<lparr>reports := rs\<rparr>"
  proof (cases "ks_cl ks = []")
    case True
    then show ?thesis using s(1) by (auto intro: exI [of _ "reports w"])
  next
    case False
    then show ?thesis using s(1) unconflicted_frame by (fastforce simp: bind_Some_iff)
  qed
  then obtain rs where w1: "w1 = w\<lparr>reports := rs\<rparr>" ..
  obtain ks' where w': "w' = w1\<lparr>spaces := (spaces w)[k := ks'\<lparr>ks_cl := qsort comprKeyVal (ks_cl ks' @ kvl'), ks_clmax := mx\<rparr>]\<rparr>"
    "ks' = spaces w ! k" "k < length (spaces w)"
    using s(2) by (auto simp: upd_space_def mem_get_def w1 bind_Some_iff split: if_splits)
  have "map ks_methods (spaces w') = map ks_methods (spaces w)" "map ks_packid (spaces w') = map ks_packid (spaces w)"
    using w'(2,3) by (simp_all add: w'(1) map_update list_update_same_conv)
  then show ?thesis by (simp add: same_methods_def w'(1) w1)
qed

lemma same_methods_refl: "same_methods w w"
  by (simp add: same_methods_def)

lemma same_methods_trans: "same_methods w1 w2 \<Longrightarrow> same_methods w2 w3 \<Longrightarrow> same_methods w1 w3"
  by (simp add: same_methods_def)

lemma same_methodsD:
  assumes "same_methods w w'"
  shows "marrs w' = marrs w" "mtds w' = mtds w" "csh w' = csh w" "length (spaces w') = length (spaces w)"
    "k < length (spaces w) \<Longrightarrow> ks_methods (spaces w' ! k) = ks_methods (spaces w ! k)"
    "k < length (spaces w) \<Longrightarrow> ks_packid (spaces w' ! k) = ks_packid (spaces w ! k)"
proof -
  have m: "map ks_methods (spaces w') = map ks_methods (spaces w)"
    "map ks_packid (spaces w') = map ks_packid (spaces w)" using assms by (simp_all add: same_methods_def)
  show l: "length (spaces w') = length (spaces w)" using m(1) by (rule map_eq_imp_length_eq)
  show "k < length (spaces w) \<Longrightarrow> ks_methods (spaces w' ! k) = ks_methods (spaces w ! k)"
    "k < length (spaces w) \<Longrightarrow> ks_packid (spaces w' ! k) = ks_packid (spaces w ! k)"
    using m l by (metis nth_map)+
qed (use assms in \<open>simp_all add: same_methods_def\<close>)

definition exported :: "world \<Rightarrow> nat \<Rightarrow> nat \<Rightarrow> bool" where
  "exported w t m \<longleftrightarrow> kMethod_isPublic (mtds w ! m) \<and> m_packid (mtds w ! m) = ks_packid (spaces w ! t)"

text \<open>What the loop leaves in the array it adds to.\<close>

lemma merge_methods_adds:
  assumes "k < length (spaces w)" "t < length (spaces w)" "ks_methods (spaces w ! k) = a"
    "ks_methods (spaces w ! t) = b" "a \<noteq> b" "a < length (marrs w)" "b < length (marrs w)"
    "list_all (\<lambda>m. m < length (mtds w)) (marrs w ! b)"
  shows "merge_methods w k t i
    = Some (w\<lparr>marrs := (marrs w)[a := marrs w ! a @ filter (exported w t) (drop i (marrs w ! b))]\<rparr>)"
  using assms
proof (induction "length (marrs w ! b) - i" arbitrary: w i)
  case 0
  then show ?case by (subst merge_methods.simps) (simp add: mem_get_def)
next
  case (Suc n)
  let ?l = "marrs w ! b"
  have i: "i < length ?l" using Suc(2) by simp
  then have m: "?l ! i < length (mtds w)" using Suc.prems(8) by (simp add: list_all_length)
  have d: "drop i ?l = ?l ! i # drop (Suc i) ?l" using i by (simp add: Cons_nth_drop_Suc)
  define w1 where "w1 = (if exported w t (?l ! i) then w\<lparr>marrs := (marrs w)[a := marrs w ! a @ [?l ! i]]\<rparr> else w)"
  have step: "merge_methods w k t i = merge_methods w1 k t (i + 1)"
    using Suc.prems i m by (subst merge_methods.simps)
      (simp add: mem_get_def arr_add_def exported_def w1_def)
  have eqs: "spaces w1 = spaces w" "mtds w1 = mtds w" "marrs w1 ! b = ?l" "length (marrs w1) = length (marrs w)"
    using Suc.prems(5) by (simp_all add: w1_def)
  have "merge_methods w1 k t (i + 1)
      = Some (w1\<lparr>marrs := (marrs w1)[a := marrs w1 ! a @ filter (exported w1 t) (drop (i + 1) (marrs w1 ! b))]\<rparr>)"
    by (rule Suc.hyps(1)) (use Suc.hyps(2) Suc.prems eqs in simp_all)
  moreover have "exported w1 t = exported w t" by (simp add: exported_def eqs fun_eq_iff)
  ultimately show ?case using Suc.prems(6) d step eqs by (simp add: w1_def)
qed

text \<open>
  C36: importing into a space without methods of its own changes every class without methods.
  The methods of the package are added to the shared empty array, so afterwards the
  lookup in any class whose methods were never set finds them by name alone, whichever class they
  were defined for.
\<close>

theorem merge_pollutes_empty_classes:
  assumes "KonohaSpace_merge qsort w k t = Some w'" "methods_ok w"
    "k < length (spaces w)" "t < length (spaces w)"
    "ks_methods (spaces w ! k) = K_EMPTYARRAY" "ks_methods (spaces w ! t) \<noteq> K_EMPTYARRAY"
    "marrs w ! K_EMPTYARRAY = []" "m \<in> set (space_methods w t)" "exported w t m"
    "lineage (csh w) (Some c) cs" "c_methods (cts (csh w) ! c) = Some K_EMPTYARRAY"
  shows "\<exists>m' \<in> set (space_methods w t). CT_findMethodNULL w' (Some c) (m_mn (mtds w ! m)) = Some (Some m')
     \<and> m_mn (mtds w ! m') = m_mn (mtds w ! m)"
proof -
  obtain w1 where w1: "same_methods w w1" "merge_methods w1 k t 0 = Some w'"
    using assms(1) mergeConstData_frame same_methods_trans same_methods_refl
    by (auto simp: KonohaSpace_merge_def KonohaSpace_importClassName_def mem_get_def bind_Some_iff Let_def
        split: if_splits) blast+
  note f = same_methodsD [OF w1(1)]
  let ?b = "ks_methods (spaces w ! t)"
  have ok: "?b < length (marrs w)" "0 < length (marrs w)" "list_all (\<lambda>m. m < length (mtds w)) (marrs w ! ?b)"
    using assms(2,4) by (auto simp: methods_ok_def list_all_length)
  have ex: "exported w1 t = exported w t" by (simp add: exported_def f(2) f(6) [OF assms(4)] fun_eq_iff)
  define l where "l = filter (exported w t) (marrs w ! ?b)"
  have w': "w' = w1\<lparr>marrs := (marrs w)[0 := l]\<rparr>"
    using merge_methods_adds [of k w1 t 0 ?b 0] w1(2) assms(3-7) f ok ex
    by (simp add: K_EMPTYARRAY_def l_def)
  have "set l \<subseteq> set (marrs w ! ?b)" by (auto simp: l_def)
  then have "list_all (\<lambda>m. m < length (mtds w')) l" using ok(3) by (auto simp: w' f list_all_iff)
  then have ok': "methods_ok w'"
    using assms(2) f(4,5) ok(2)
    by (auto simp: methods_ok_def w' f(1-3) list_all_length nth_list_update split: if_splits)
  obtain rest where cs: "cs = c # rest" "c < length (cts (csh w))"
    using assms(10) by (auto elim: lineage.cases)
  have at: "class_methods w' c = l"
    using assms(11) ok(2) by (simp add: class_methods_def w' f(3) K_EMPTYARRAY_def)
  have "lineage (csh w') (Some c) cs" using assms(10) by (simp add: w' f(3))
  from CT_findMethodNULL_lineage [OF ok' this, of "m_mn (mtds w ! m)"]
  have find: "CT_findMethodNULL w' (Some c) (m_mn (mtds w ! m))
      = Some (List.find (\<lambda>i. m_mn (mtds w ! i) = m_mn (mtds w ! m)) (l @ concat (map (class_methods w') rest)))"
    by (simp add: cs at) (simp add: w' f(2))
  have "m \<in> set l" using assms(8,9) by (simp add: l_def space_methods_def)
  then obtain m' where m': "List.find (\<lambda>i. m_mn (mtds w ! i) = m_mn (mtds w ! m)) l = Some m'"
    by (metis (mono_tags, lifting) find_None_iff not_Some_eq)
  then have "m' \<in> set l" "m_mn (mtds w ! m') = m_mn (mtds w ! m)" by (auto simp: find_Some_iff)
  then show ?thesis using find m' by (auto simp: l_def space_methods_def find_append_case)
qed

text \<open>Two classes without methods and two spaces, of which the second has a method for class 1.\<close>

definition import_world :: "cshare \<Rightarrow> rules \<Rightarrow> world" where
  "import_world sh st = (first_spaces (sh\<lparr>cts := replicate 2 (zero_CT\<lparr>c_methods := Some 0\<rparr>)\<rparr>) st)\<lparr>
     mtds := [\<lparr>m_func = 0, m_flag = kMethod_Public, m_cid = 1, m_mn = 9,
       m_paramid = 0, m_paramdom = 0, m_delta = 0, m_packid = 0\<rparr>], marrs := [[], [0]],
     spaces := [KonohaSpace_init None, (KonohaSpace_init (Some 0))\<lparr>ks_methods := 1\<rparr>]\<rparr>"

lemma import_world_ok:
  "methods_ok (import_world sh st)" "ancestry (import_world sh st) (Some 1) [1, 0]"
  "c < 2 \<Longrightarrow> lineage (csh (import_world sh st)) (Some c) [c]"
proof -
  have two: "i < Suc (Suc 0) \<longleftrightarrow> i = 0 \<or> i = 1" for i :: nat by auto
  show "methods_ok (import_world sh st)"
    by (auto simp: methods_ok_def import_world_def first_spaces_def KonohaSpace_init_def K_EMPTYARRAY_def zero_CT_def
        numeral_2_eq_2)
  have "ancestry (import_world sh st) (Some 0) [0]"
    by (rule ancestry.inside) (auto simp: import_world_def first_spaces_def KonohaSpace_init_def intro: ancestry.outside)
  then show "ancestry (import_world sh st) (Some 1) [1, 0]"
    by (intro ancestry.inside) (simp_all add: import_world_def first_spaces_def KonohaSpace_init_def)
  show "lineage (csh (import_world sh st)) (Some c) [c]" if "c < 2"
    using that by (intro inside_class)
      (auto simp: import_world_def first_spaces_def zero_CT_def two numeral_2_eq_2 intro: outside_class)
qed

theorem KonohaSpace_getMethodNULL_resolves_witness:
  "\<exists>sh st. KonohaSpace_getMethodNULL (import_world sh st) (Some 1) 1 9 = Some (Some 0)
     \<and> KonohaSpace_getMethodNULL (import_world sh st) (Some 1) 0 9 = Some None"
  using KonohaSpace_getMethodNULL_resolves [OF import_world_ok(1,2), where cid = 1 and cs = "[1]" and mn = 9]
    KonohaSpace_getMethodNULL_resolves [OF import_world_ok(1,2), where cid = 0 and cs = "[0]" and mn = 9] import_world_ok(3)
  by (simp add: space_methods_def class_methods_def import_world_def first_spaces_def KonohaSpace_init_def
      zero_CT_def K_EMPTYARRAY_def)

theorem merge_pollutes_empty_classes_witness:
  "\<exists>sh st w'. KonohaSpace_merge insertion (import_world sh st) 0 1 = Some w'
     \<and> CT_findMethodNULL w' (Some 0) 9 = Some (Some 0)"
proof -
  fix sh st
  let ?w = "import_world sh st"
  have run: "\<exists>w'. KonohaSpace_merge insertion ?w 0 1 = Some w'"
    using merge_methods_adds [of 0 ?w 1 0 1 0]
    by (auto simp: KonohaSpace_merge_def import_world_def first_spaces_def KonohaSpace_init_def PN_konoha_def
        mem_get_def K_EMPTYARRAY_def)
  then obtain w' where w': "KonohaSpace_merge insertion ?w 0 1 = Some w'" ..
  have e: "exported ?w 1 0" "0 \<in> set (space_methods ?w 1)" "set (space_methods ?w 1) = {0}"
    by (simp_all add: exported_def space_methods_def import_world_def first_spaces_def KonohaSpace_init_def
        kMethod_isPublic_def)
  have l: "lineage (csh ?w) (Some 0) [0]" by (rule import_world_ok(3)) simp
  have "m_mn (mtds ?w ! 0) = 9" by (simp add: import_world_def)
  then have "CT_findMethodNULL w' (Some 0) 9 = Some (Some 0)"
    using merge_pollutes_empty_classes [OF w' import_world_ok(1) _ _ _ _ _ e(2,1) l] e(3)
    by (simp add: import_world_def first_spaces_def KonohaSpace_init_def K_EMPTYARRAY_def zero_CT_def)
  then show ?thesis using w' by blast
qed

end
