(* ===== verification/Reader.thy ===== *)
theory Reader
  imports Strings Lexing
begin

text \<open>
  Reading a script file in pieces (\<^verbatim>\<open>readquote\<close>, \<^verbatim>\<open>readcomment\<close>, \<^verbatim>\<open>readchunk\<close>,
  \<^verbatim>\<open>isemptychunk\<close> and \<^verbatim>\<open>KonohaSpace_loadstream\<close> of \<^verbatim>\<open>src/sugar/sugar.c\<close>).

  A stream is the bytes not read yet and its end-of-file mark. A chunk ends at an empty line outside
  of blocks, comments and texts, and is evaluated with the number of its first line.
\<close>

section \<open>Reading a chunk\<close>

record stream =
  rest :: bytes
  feof :: bool

text \<open>A character of the file as the \<^verbatim>\<open>int\<close> that \<^verbatim>\<open>fgetc\<close> returns.\<close>

definition putc :: "byte karray \<Rightarrow> byte \<Rightarrow> byte karray option" where
  "putc wb ch = Kwb_putc wb [uint ch, -1]"

definition count_line :: "byte \<Rightarrow> u64 \<Rightarrow> u64" where
  "count_line ch line = (if ch = chr CHR 0x0A then line + 1 else line)"

fun readquote :: "bytes \<Rightarrow> byte \<Rightarrow> byte \<Rightarrow> u64 \<Rightarrow> byte karray \<Rightarrow> (stream \<times> u64 \<times> byte karray) option" where
  "readquote [] prev quote line wb = Some (\<lparr>rest = [], feof = True\<rparr>, line, wb)"
| "readquote (ch # t) prev quote line wb =
     (if ch = chr CHR 0x0D then readquote t prev quote line wb
      else let line = count_line ch line in do {
        wb \<leftarrow> putc wb ch;
        (if ch = quote \<and> prev \<noteq> chr CHR 0x5C then Some (\<lparr>rest = t, feof = False\<rparr>, line, wb)
         else readquote t ch quote line wb)
      })"

fun readcomment :: "bytes \<Rightarrow> byte \<Rightarrow> int \<Rightarrow> u64 \<Rightarrow> byte karray \<Rightarrow> (stream \<times> u64 \<times> byte karray) option" where
  "readcomment [] prev level line wb = Some (\<lparr>rest = [], feof = True\<rparr>, line, wb)"
| "readcomment (ch # t) prev level line wb =
     (if ch = chr CHR 0x0D then readcomment t prev level line wb
      else let line = count_line ch line in do {
        wb \<leftarrow> putc wb ch;
        let level = (if prev = chr CHR ''*'' \<and> ch = chr CHR ''/'' then level - 1 else level);
        let level = (if prev = chr CHR ''/'' \<and> ch = chr CHR ''*'' then level + 1 else level);
        (if level = 0 then Some (\<lparr>rest = t, feof = False\<rparr>, line, wb)
         else readcomment t ch level line wb)
      })"

lemma readquote_shorter: "readquote t prev quote line wb = Some (fp, r) \<Longrightarrow> length (rest fp) \<le> length t"
  by (induction t prev quote line wb rule: readquote.induct)
     (force simp: Let_def bind_Some_iff split: if_splits)+

lemma readcomment_shorter: "readcomment t prev level line wb = Some (fp, r) \<Longrightarrow> length (rest fp) \<le> length t"
  by (induction t prev level line wb rule: readcomment.induct)
     (force simp: Let_def bind_Some_iff split: if_splits)+

text \<open>
  The loop of \<^verbatim>\<open>readchunk\<close>. After a comment or a text it goes on with the character before it as the
  previous one, and with the end-of-file mark the reader of the text left.
\<close>

definition is_quote :: "byte \<Rightarrow> bool" where
  "is_quote ch \<longleftrightarrow> ch = chr CHR 0x27 \<or> ch = chr CHR 0x22 \<or> ch = chr CHR 0x60"

function chunk_loop ::
    "bytes \<Rightarrow> byte \<Rightarrow> bool \<Rightarrow> u64 \<Rightarrow> byte karray \<Rightarrow> (stream \<times> u64 \<times> byte karray) option" where
  "chunk_loop src prev isBLOCK line wb =
     (case src of [] \<Rightarrow> Some (\<lparr>rest = [], feof = True\<rparr>, line, wb)
      | ch # t \<Rightarrow>
          if ch = chr CHR 0x0D then chunk_loop t prev isBLOCK line wb
          else let line = count_line ch line in
            (case putc wb ch of None \<Rightarrow> None
             | Some wb \<Rightarrow>
                if prev = chr CHR ''/'' \<and> ch = chr CHR ''*'' then
                  (case readcomment t 0 1 line wb of None \<Rightarrow> None
                   | Some (fp, line, wb) \<Rightarrow> chunk_loop (rest fp) prev isBLOCK line wb)
                else if is_quote ch then
                  (case readquote t ch ch line wb of None \<Rightarrow> None
                   | Some (fp, line, wb) \<Rightarrow> chunk_loop (rest fp) prev isBLOCK line wb)
                else if \<not> isBLOCK \<and> prev = chr CHR 0x0A \<and> ch = chr CHR 0x0A
                  then Some (\<lparr>rest = t, feof = False\<rparr>, line, wb)
                else chunk_loop t ch
                  (if prev = chr CHR 0x0A \<and> ch = chr CHR ''}'' then False
                   else if prev = chr CHR ''{'' then True else isBLOCK) line wb))"
  by pat_completeness auto
termination
  by (relation "measure (\<lambda>(src, _). length src)")
     (auto dest: readcomment_shorter readquote_shorter)

declare chunk_loop.simps [simp del]

definition readchunk :: "stream \<Rightarrow> u64 \<Rightarrow> byte karray \<Rightarrow> (stream \<times> u64 \<times> byte karray) option" where
  "readchunk fp line wb = chunk_loop (rest fp) 0 False line wb"

text \<open>The name notwithstanding, the value is true for a chunk that is not empty.\<close>

fun isemptychunk :: "bytes \<Rightarrow> nat \<Rightarrow> bool option" where
  "isemptychunk t 0 = Some False"
| "isemptychunk [] (Suc len) = None"
| "isemptychunk (c # t) (Suc len) = (if isspace c then isemptychunk t len else Some True)"

section \<open>Evaluating a stream\<close>

datatype kstatus = K_CONTINUE | K_BREAK | K_FAILED

text \<open>
  The script of a chunk: what stands behind \<^verbatim>\<open>konoha\<close> when the chunk begins with \<^verbatim>\<open>#!\<close>.
  The length that is tested for emptiness stays that of the whole chunk, and the text is read
  from memory, in which a zero follows it.
\<close>

definition script_of :: "bytes \<Rightarrow> bytes option option" where
  "script_of t =
     (if 2 < length t \<and> t ! 0 = chr CHR ''#'' \<and> t ! 1 = chr CHR ''!''
      then do {
        r \<leftarrow> strstr (t @ [0]) (lit ''konoha'' @ [0]);
        Some (map_option (\<lambda>p. drop (p + 6) t) r)
      } else Some (Some t))"

text \<open>
  \<^verbatim>\<open>KonohaSpace_loadstream\<close>: \<open>evals\<close> is \<^verbatim>\<open>MODSUGAR_eval\<close> on the state \<open>'s\<close> of the interpreter; the
  name space it is given is not passed on. The shared buffer is \<open>m\<close>.
\<close>

partial_function (option) loadstream_loop ::
    "(bytes \<Rightarrow> u64 \<Rightarrow> 's \<Rightarrow> 's \<times> kstatus) \<Rightarrow> stream \<Rightarrow> u64 \<Rightarrow> kwb \<Rightarrow> byte karray \<Rightarrow> 's
     \<Rightarrow> ('s \<times> kstatus \<times> byte karray) option" where
  "loadstream_loop evals fp line wb m s =
     (if feof fp then Some (s, K_CONTINUE, m) else do {
        let chunkheadline = line;
        (fp, line, m) \<leftarrow> readchunk fp line m;
        (m, p) \<leftarrow> Kwb_top m wb True;
        let len = bytesize m - kwb.pos wb;
        t \<leftarrow> mem_read (bytebuf m) p len;
        r \<leftarrow> script_of t;
        (case r of
           None \<Rightarrow> Some (s, K_FAILED, m)
         | Some script \<Rightarrow> do {
             ne \<leftarrow> isemptychunk (script @ drop (p + len) (bytebuf m)) len;
             let (s, status) = (if ne then evals script chunkheadline s else (s, K_CONTINUE));
             (if status \<noteq> K_CONTINUE then Some (s, status, m)
              else do { m \<leftarrow> Kwb_free m wb; loadstream_loop evals fp line wb m s })
           })
      })"

declare loadstream_loop.simps [code]

definition KonohaSpace_loadstream ::
    "(bytes \<Rightarrow> u64 \<Rightarrow> 's \<Rightarrow> 's \<times> kstatus) \<Rightarrow> stream \<Rightarrow> u64 \<Rightarrow> byte karray \<Rightarrow> 's
     \<Rightarrow> ('s \<times> kstatus \<times> byte karray) option" where
  "KonohaSpace_loadstream evals fp line m s = do {
     let wb = Kwb_init m;
     (s, status, m) \<leftarrow> loadstream_loop evals fp line wb m s;
     m \<leftarrow> Kwb_free m wb;
     Some (s, status, m)
   }"

section \<open>Nothing of a file is lost\<close>

definition strip :: "bytes \<Rightarrow> bytes" where
  "strip t = filter (\<lambda>c. c \<noteq> chr CHR 0x0D) t"

definition newlines :: "bytes \<Rightarrow> nat" where
  "newlines t = length (filter (\<lambda>c. c = chr CHR 0x0A) t)"

lemma strip_simps [simp]:
  "strip [] = []" "strip (c # t) = (if c = chr CHR 0x0D then strip t else c # strip t)"
  "strip (s @ t) = strip s @ strip t"
  by (simp_all add: strip_def)

lemma newlines_simps [simp]:
  "newlines [] = 0" "newlines (c # t) = (if c = chr CHR 0x0A then Suc (newlines t) else newlines t)"
  "newlines (s @ t) = newlines s + newlines t"
  by (simp_all add: newlines_def)

lemma newlines_strip [simp]: "newlines (strip t) = newlines t"
  by (induction t) auto

lemma count_line_eq: "count_line c line = line + word_of_nat (newlines [c])"
  by (simp add: count_line_def)

lemma putc_ok:
  assumes "karray_ok 1 m"
  shows "\<exists>m'. putc m c = Some m' \<and> karray_ok 1 m' \<and> content m' = content m @ [c]"
proof -
  have "putc m c = Kwb_write m [c]"
  proof -
    have "uint c \<noteq> -1" using uint_ge_0 [of c] by linarith
    then show ?thesis by (simp add: putc_def Kwb_putc_def)
  qed
  then show ?thesis using kwb.write_total [OF assms, of "[c]"] kwb.write_ok [OF assms] kwb.write_text [OF assms]
    by auto
qed

text \<open>
  The readers have read \<open>used\<close> of the file: it is in the buffer without carriage returns, and
  its lines are counted.
\<close>

definition has_read ::
    "bytes \<Rightarrow> u64 \<Rightarrow> byte karray \<Rightarrow> bytes \<Rightarrow> (stream \<times> u64 \<times> byte karray) option \<Rightarrow> bool" where
  "has_read t line wb used r \<longleftrightarrow> (\<exists>fp m. r = Some (fp, line + word_of_nat (newlines used), m)
     \<and> t = used @ rest fp \<and> karray_ok 1 m \<and> content m = content wb @ strip used \<and> (feof fp \<longrightarrow> rest fp = []))"

lemma has_read_nil: "karray_ok 1 wb \<Longrightarrow> has_read t line wb [] (Some (\<lparr>rest = t, feof = t = []\<rparr>, line, wb))"
  by (simp add: has_read_def)

lemma has_read_cons:
  assumes "has_read t (count_line c line) m used r" "content m = content wb @ [c]" "c \<noteq> chr CHR 0x0D"
  shows "has_read (c # t) line wb (c # used) r"
  using assms by (fastforce simp: has_read_def count_line_eq add_ac)

lemma has_read_cr:
  "has_read t line wb used r \<Longrightarrow> has_read (chr CHR 0x0D # t) line wb (chr CHR 0x0D # used) r"
  by (fastforce simp: has_read_def)

lemma has_read_stop:
  assumes "karray_ok 1 m" "content m = content wb @ [c]" "c \<noteq> chr CHR 0x0D" "feof fp \<longrightarrow> rest fp = []"
  shows "has_read (c # rest fp) line wb [c] (Some (fp, count_line c line, m))"
  using assms by (simp add: has_read_def count_line_eq)

lemma readquote_reads: "karray_ok 1 wb \<Longrightarrow> \<exists>used. has_read t line wb used (readquote t prev quote line wb)"
proof (induction t arbitrary: prev line wb)
  case Nil
  then show ?case by (auto simp: has_read_def intro: exI [of _ "[]"])
next
  case (Cons ch t)
  show ?case
  proof (cases "ch = chr CHR 0x0D")
    case True
    then show ?thesis using Cons has_read_cr by fastforce
  next
    case False
    obtain m where m: "putc wb ch = Some m" "karray_ok 1 m" "content m = content wb @ [ch]"
      using putc_ok [OF Cons.prems] by blast
    obtain used where "has_read t (count_line ch line) m used (readquote t ch quote (count_line ch line) m)"
      using Cons.IH [OF m(2)] by blast
    from has_read_cons [OF this m(3) False]
      has_read_stop [OF m(2,3) False, of "\<lparr>rest = t, feof = False\<rparr>" line]
    show ?thesis using False m(1) by (auto simp: Let_def)
  qed
qed

lemma readcomment_reads: "karray_ok 1 wb \<Longrightarrow> \<exists>used. has_read t line wb used (readcomment t prev level line wb)"
proof (induction t arbitrary: prev level line wb)
  case Nil
  then show ?case by (auto simp: has_read_def intro: exI [of _ "[]"])
next
  case (Cons ch t)
  show ?case
  proof (cases "ch = chr CHR 0x0D")
    case True
    then show ?thesis using Cons has_read_cr by fastforce
  next
    case False
    obtain m where m: "putc wb ch = Some m" "karray_ok 1 m" "content m = content wb @ [ch]"
      using putc_ok [OF Cons.prems] by blast
    have "\<exists>used. has_read (ch # t) line wb used (readcomment t ch l (count_line ch line) m)" for l
      using Cons.IH [OF m(2)] has_read_cons [OF _ m(3) False] by blast
    then show ?thesis
      using has_read_stop [OF m(2,3) False, of "\<lparr>rest = t, feof = False\<rparr>" line] False m(1)
      by (auto simp: Let_def)
  qed
qed

lemma has_read_then:
  assumes "has_read t line wb used (Some (fp, line', m))" "has_read (rest fp) line' m used' r"
  shows "has_read t line wb (used @ used') r"
  using assms by (fastforce simp: has_read_def add_ac)

lemma has_read_after:
  assumes "has_read t line wb used r" "\<And>fp line' m. r = Some (fp, line', m) \<Longrightarrow> karray_ok 1 m
    \<Longrightarrow> \<exists>used'. has_read (rest fp) line' m used' (k fp line' m)"
  shows "\<exists>used'. has_read t line wb (used @ used') (case r of None \<Rightarrow> None | Some (fp, line', m) \<Rightarrow> k fp line' m)"
proof -
  obtain fp m where r: "r = Some (fp, line + word_of_nat (newlines used), m)" "karray_ok 1 m"
    using assms(1) by (auto simp: has_read_def)
  from assms(2) [OF r] obtain used' where
    "has_read (rest fp) (line + word_of_nat (newlines used)) m used' (k fp (line + word_of_nat (newlines used)) m)" ..
  then show ?thesis using has_read_then assms(1) r(1) by fastforce
qed

lemma chunk_loop_reads:
  "karray_ok 1 wb \<Longrightarrow> \<exists>used. has_read src line wb used (chunk_loop src prev isBLOCK line wb) \<and> (src \<noteq> [] \<longrightarrow> used \<noteq> [])"
proof (induction src arbitrary: prev isBLOCK line wb rule: measure_induct_rule [where f = length])
  case (less src)
  show ?case
  proof (cases src)
    case Nil
    then show ?thesis using less.prems by (auto simp: chunk_loop.simps [of "[]"] has_read_def intro: exI [of _ "[]"])
  next
    case (Cons ch t)
    have IH: "\<exists>used. has_read t' line wb used (chunk_loop t' prev isBLOCK line wb)"
      if "length t' \<le> length t" "karray_ok 1 wb" for t' prev isBLOCK line wb
      using less.IH [of t' wb line prev isBLOCK] that Cons by auto
    have more: "length (rest fp) \<le> length t" if "has_read t line' m used (Some (fp, r))" for line' m used fp r
      using that by (auto simp: has_read_def)
    show ?thesis
    proof (cases "ch = chr CHR 0x0D")
      case True
      then have "chunk_loop src prev isBLOCK line wb = chunk_loop t prev isBLOCK line wb"
        by (subst chunk_loop.simps) (simp add: Cons)
      then show ?thesis using IH [OF order.refl less.prems] has_read_cr Cons True by (metis list.distinct(1))
    next
      case False
      obtain m where m: "putc wb ch = Some m" "karray_ok 1 m" "content m = content wb @ [ch]"
        using putc_ok [OF less.prems] by blast
      let ?l = "count_line ch line"
      let ?C = "case readcomment t 0 1 ?l m of None \<Rightarrow> None | Some (fp, line, wb) \<Rightarrow> chunk_loop (rest fp) prev isBLOCK line wb"
      let ?Q = "case readquote t ch ch ?l m of None \<Rightarrow> None | Some (fp, line, wb) \<Rightarrow> chunk_loop (rest fp) prev isBLOCK line wb"
      let ?B = "if prev = chr CHR 0x0A \<and> ch = chr CHR ''}'' then False
                else if prev = chr CHR ''{'' then True else isBLOCK"
      have "chunk_loop src prev isBLOCK line wb =
        (if prev = chr CHR ''/'' \<and> ch = chr CHR ''*'' then ?C else if is_quote ch then ?Q
         else if \<not> isBLOCK \<and> prev = chr CHR 0x0A \<and> ch = chr CHR 0x0A
           then Some (\<lparr>rest = t, feof = False\<rparr>, ?l, m)
         else chunk_loop t ch ?B ?l m)"
        by (subst chunk_loop.simps) (simp only: Cons list.case False if_False m(1) option.case Let_def)
      moreover have "\<exists>used. has_read t ?l m used ?C"
      proof -
        obtain u where u: "has_read t ?l m u (readcomment t 0 1 ?l m)" using readcomment_reads [OF m(2)] by blast
        from has_read_after [OF u, where k = "\<lambda>fp line wb. chunk_loop (rest fp) prev isBLOCK line wb"] IH more u
        show ?thesis by metis
      qed
      moreover have "\<exists>used. has_read t ?l m used ?Q"
      proof -
        obtain u where u: "has_read t ?l m u (readquote t ch ch ?l m)" using readquote_reads [OF m(2)] by blast
        from has_read_after [OF u, where k = "\<lambda>fp line wb. chunk_loop (rest fp) prev isBLOCK line wb"] IH more u
        show ?thesis by metis
      qed
      moreover have "\<exists>used. has_read t ?l m used (Some (\<lparr>rest = t, feof = False\<rparr>, ?l, m))"
        using m(2) by (auto simp: has_read_def intro: exI [of _ "[]"])
      moreover have "\<exists>used. has_read t ?l m used (chunk_loop t ch ?B ?l m)" by (rule IH [OF order.refl m(2)])
      ultimately have "\<exists>used. has_read t ?l m used (chunk_loop src prev isBLOCK line wb)" by (simp only: split: if_split) simp
      then show ?thesis using has_read_cons [OF _ m(3) False] Cons by blast
    qed
  qed
qed

section \<open>Chunks\<close>

text \<open>The chunks a stream is cut into, each with the number of its first line.\<close>

fun number_lines :: "u64 \<Rightarrow> bytes list \<Rightarrow> (bytes \<times> u64) list" where
  "number_lines line [] = []"
| "number_lines line (c # cs) = (c, line) # number_lines (line + word_of_nat (newlines c)) cs"

definition blank :: "bytes \<Rightarrow> bool" where "blank t \<longleftrightarrow> list_all isspace t"

lemma isemptychunk_blank: "isemptychunk (t @ x) (length t) = Some (\<not> blank t)"
  by (induction t) (auto simp: blank_def)

definition record_chunk :: "bytes \<Rightarrow> u64 \<Rightarrow> (bytes \<times> u64) list \<Rightarrow> (bytes \<times> u64) list \<times> kstatus" where
  "record_chunk script line s = (s @ [(script, line)], K_CONTINUE)"

lemma script_plain: "chr CHR ''#'' \<notin> set t \<Longrightarrow> script_of t = Some (Some t)"
  by (cases t) (auto simp: script_of_def)

lemma loadstream_loop_chunks:
  assumes "chr CHR ''#'' \<notin> set src" "karray_ok 1 m0" "karray_ok 1 m" "content m = content m0"
  shows "\<exists>cs m'. concat cs = strip src
     \<and> loadstream_loop record_chunk \<lparr>rest = src, feof = False\<rparr> line (Kwb_init m0) m s
       = Some (s @ filter (\<lambda>(c, l). \<not> blank c) (number_lines line cs), K_CONTINUE, m')
     \<and> karray_ok 1 m' \<and> content m' = content m0"
  using assms
proof (induction src arbitrary: line m s rule: measure_induct_rule [where f = length])
  case (less src)
  let ?wb = "Kwb_init m0"
  obtain used where u: "has_read src line m used (chunk_loop src 0 False line m)" "src \<noteq> [] \<longrightarrow> used \<noteq> []"
    using chunk_loop_reads [OF less.prems(3)] by blast
  obtain fp m1 where r: "chunk_loop src 0 False line m = Some (fp, line + word_of_nat (newlines used), m1)"
    "src = used @ rest fp" "karray_ok 1 m1" "content m1 = content m0 @ strip used" "feof fp \<longrightarrow> rest fp = []"
    using u(1) less.prems(4) by (auto simp: has_read_def)
  obtain m2 where top: "Kwb_top m1 ?wb True = Some (m2, pos ?wb)" "karray_ok 1 m2" "content m2 = content m0 @ strip used"
    using Kwb_top_total [OF r(3), of ?wb] r(4) by auto
  have size: "length (content m2) = bytesize m2" "length (content m0) = bytesize m0"
    using top(2) less.prems(2) by (auto simp: content_def karray_ok_def)
  then have len: "bytesize m2 - pos ?wb = length (strip used)" "bytesize m2 = bytesize m0 + length (strip used)"
    using top(3) by (simp_all add: Kwb_init_def)
  have buf: "bytesize m2 \<le> length (bytebuf m2)" "take (bytesize m2) (bytebuf m2) = content m0 @ strip used"
    using top(2,3) by (simp_all add: karray_ok_def content_def)
  have script: "mem_read (bytebuf m2) (pos ?wb) (length (strip used)) = Some (strip used)"
  proof -
    have "take (length (strip used)) (drop (bytesize m0) (bytebuf m2)) = strip used"
      using buf(2) len(2) size(2) by (metis add_diff_cancel_left' append_eq_conv_conj drop_take)
    then show ?thesis using buf(1) len(2) by (simp add: mem_read_def Kwb_init_def)
  qed
  have "chr CHR ''#'' \<notin> set (strip used)" using less.prems(1) r(2) by (auto simp: strip_def)
  note plain = script_plain [OF this]
  obtain m3 where free: "Kwb_free m2 ?wb = Some m3" "karray_ok 1 m3" "content m3 = content m0"
    using Kwb_free_back [OF less.prems(2) top(2,3)] by blast
  let ?s = "if blank (strip used) then s else s @ [(strip used, line)]"
  let ?line = "line + word_of_nat (newlines used)"
  have step: "loadstream_loop record_chunk \<lparr>rest = src, feof = False\<rparr> line ?wb m s
      = loadstream_loop record_chunk fp ?line ?wb m3 ?s"
    using free(1)
    by (subst loadstream_loop.simps)
       (simp add: readchunk_def r(1) top(1) script plain len(1) isemptychunk_blank record_chunk_def)
  show ?case
  proof (cases "feof fp")
    case True
    then have "strip src = strip used" using r(2,5) by simp
    moreover have "loadstream_loop record_chunk fp ?line ?wb m3 ?s = Some (?s, K_CONTINUE, m3)"
      using True by (subst loadstream_loop.simps) simp
    ultimately show ?thesis using step free(2,3)
      by (intro exI [of _ "[strip used]"] exI [of _ m3]) simp
  next
    case False
    have ne: "src \<noteq> []"
    proof
      assume "src = []"
      then show False using r(1) False by (auto simp: chunk_loop.simps [of "[]"])
    qed
    have "length src = length used + length (rest fp)" "set src = set used \<union> set (rest fp)"
      using r(2) by (metis length_append, metis set_append)
    then have "length (rest fp) < length src" "chr CHR ''#'' \<notin> set (rest fp)"
      using u(2) ne less.prems(1) by (simp_all add: length_greater_0_conv [symmetric] del: length_greater_0_conv)
    from less.IH [OF this less.prems(2) free(2,3), of ?line ?s] obtain cs m' where IH:
      "concat cs = strip (rest fp)"
      "loadstream_loop record_chunk \<lparr>rest = rest fp, feof = False\<rparr> ?line ?wb m3 ?s
        = Some (?s @ filter (\<lambda>(c, l). \<not> blank c) (number_lines ?line cs), K_CONTINUE, m')"
      "karray_ok 1 m'" "content m' = content m0" by blast
    have "fp = \<lparr>rest = rest fp, feof = False\<rparr>" using False by simp
    then show ?thesis using step IH r(2)
      by (intro exI [of _ "strip used # cs"] exI [of _ m']) simp
  qed
qed


definition small_buffer :: "byte karray" where
  "small_buffer = karray_init 1 \<lparr>bytesize = 0, bytebuf = [], bytemax = 0\<rparr> 64"

lemma small_buffer_ok: "karray_ok 1 small_buffer" "content small_buffer = []"
  by (simp_all add: small_buffer_def karray_init_def karray_ok_def content_def)


lemma chunk_next:
  assumes "karray_ok 1 wb" "ch \<noteq> chr CHR 0x0D" "\<not> is_quote ch" "\<not> (prev = chr CHR ''/'' \<and> ch = chr CHR ''*'')"
    "\<not> (prev = chr CHR 0x0A \<and> ch = chr CHR 0x0A)" "prev \<noteq> chr CHR ''{''"
  obtains m where "chunk_loop (ch # t) prev False line wb = chunk_loop t ch False (count_line ch line) m"
    "karray_ok 1 m" "content m = content wb @ [ch]"
proof -
  obtain m where m: "putc wb ch = Some m" "karray_ok 1 m" "content m = content wb @ [ch]"
    using putc_ok [OF assms(1)] by blast
  have "chunk_loop (ch # t) prev False line wb = chunk_loop t ch False (count_line ch line) m"
    using m(1) assms(2-6) by (subst chunk_loop.simps) (auto simp: Let_def)
  then show ?thesis using that m(2,3) by blast
qed

lemma readquote_plain:
  assumes "karray_ok 1 wb" "chr CHR 0x0D \<notin> set s" "quote \<notin> set s" "chr CHR 0x5C \<notin> set s"
    "prev \<noteq> chr CHR 0x5C" "quote \<noteq> chr CHR 0x0D"
  shows "\<exists>m. readquote (s @ quote # t) prev quote line wb
      = Some (\<lparr>rest = t, feof = False\<rparr>, line + word_of_nat (newlines (s @ [quote])), m)
    \<and> karray_ok 1 m \<and> content m = content wb @ s @ [quote]"
  using assms
proof (induction s arbitrary: prev line wb)
  case Nil
  then show ?case using putc_ok [OF Nil(1), of quote] by (auto simp: Let_def count_line_eq)
next
  case (Cons c s)
  obtain m where m: "putc wb c = Some m" "karray_ok 1 m" "content m = content wb @ [c]"
    using putc_ok [OF Cons.prems(1)] by blast
  then show ?case
    using Cons.IH [OF m(2), of c "count_line c line"] Cons.prems by (auto simp: Let_def count_line_eq add_ac)
qed

text \<open>
  a line that holds only a text cuts a statement in two. After a text the reader compares the next
  character with the one before the text, so the line end behind the text counts as an empty
  line: a call whose argument stands on its own line is cut inside its parentheses,
  although the file has no empty line.
\<close>

theorem readchunk_cuts_behind_text:
  assumes "karray_ok 1 m" "set s \<inter> {chr CHR 0x0D, chr CHR 0x22, chr CHR 0x5C} = {}"
  shows "\<exists>line' m'. readchunk \<lparr>rest = lit ''f('' @ [chr CHR 0x0A, chr CHR 0x22] @ s @ [chr CHR 0x22, chr CHR 0x0A] @ t,
         feof = False\<rparr> line m = Some (\<lparr>rest = t, feof = False\<rparr>, line', m')
     \<and> content m' = content m @ lit ''f('' @ [chr CHR 0x0A, chr CHR 0x22] @ s @ [chr CHR 0x22, chr CHR 0x0A]"
proof -
  let ?q = "chr CHR 0x22" and ?n = "chr CHR 0x0A"
  let ?t3 = "?q # s @ ?q # ?n # t"
  obtain m1 where 1: "chunk_loop (chr CHR ''f'' # chr CHR ''('' # ?n # ?t3) 0 False line m
      = chunk_loop (chr CHR ''('' # ?n # ?t3) (chr CHR ''f'') False (count_line (chr CHR ''f'') line) m1"
    "karray_ok 1 m1" "content m1 = content m @ [chr CHR ''f'']"
    by (rule chunk_next [OF assms(1), of "chr CHR ''f''" 0]) (auto simp: is_quote_def chr_def)
  obtain l1 where l1: "l1 = count_line (chr CHR ''f'') line" by simp
  obtain m2 where 2: "chunk_loop (chr CHR ''('' # ?n # ?t3) (chr CHR ''f'') False l1 m1
      = chunk_loop (?n # ?t3) (chr CHR ''('') False (count_line (chr CHR ''('') l1) m2"
    "karray_ok 1 m2" "content m2 = content m1 @ [chr CHR ''('']"
    by (rule chunk_next [OF 1(2), of "chr CHR ''(''" "chr CHR ''f''"]) (auto simp: is_quote_def)
  obtain l2 where l2: "l2 = count_line (chr CHR ''('') l1" by simp
  obtain m3 where 3: "chunk_loop (?n # ?t3) (chr CHR ''('') False l2 m2
      = chunk_loop ?t3 ?n False (count_line ?n l2) m3"
    "karray_ok 1 m3" "content m3 = content m2 @ [?n]"
    by (rule chunk_next [OF 2(2), of ?n "chr CHR ''(''"]) (auto simp: is_quote_def)
  obtain l3 where l3: "l3 = count_line ?n l2" by simp
  obtain m4 where 4: "putc m3 ?q = Some m4" "karray_ok 1 m4" "content m4 = content m3 @ [?q]"
    using putc_ok [OF 3(2)] by blast
  obtain m5 where 5: "readquote (s @ ?q # ?n # t) ?q ?q (count_line ?q l3) m4
      = Some (\<lparr>rest = ?n # t, feof = False\<rparr>, count_line ?q l3 + word_of_nat (newlines (s @ [?q])), m5)"
    "karray_ok 1 m5" "content m5 = content m4 @ s @ [?q]"
    using readquote_plain [OF 4(2), of s ?q ?q "?n # t" "count_line ?q l3"] assms(2) by auto
  obtain l5 where l5: "l5 = count_line ?q l3 + word_of_nat (newlines (s @ [?q]))" by simp
  obtain m6 where 6: "putc m5 ?n = Some m6" "content m6 = content m5 @ [?n]" using putc_ok [OF 5(2)] by blast
  have "chunk_loop ?t3 ?n False l3 m3 = chunk_loop (?n # t) ?n False l5 m5"
    using 4(1) 5(1) by (subst chunk_loop.simps) (simp add: is_quote_def Let_def l5)
  moreover have "chunk_loop (?n # t) ?n False l5 m5 = Some (\<lparr>rest = t, feof = False\<rparr>, count_line ?n l5, m6)"
    using 6(1) by (subst chunk_loop.simps) (simp add: is_quote_def Let_def)
  ultimately show ?thesis using 1 2 3 4(3) 5(3) 6(2)
    by (auto simp: readchunk_def lit_def l1 l2 l3)
qed

theorem readchunk_cuts_behind_text_witness:
  "\<exists>line' m'. readchunk \<lparr>rest = lit ''f('' @ [chr CHR 0x0A, chr CHR 0x22] @ lit ''x'' @ [chr CHR 0x22, chr CHR 0x0A] @ lit '');'',
       feof = False\<rparr> 1 small_buffer = Some (\<lparr>rest = lit '');'', feof = False\<rparr>, line', m')"
  using readchunk_cuts_behind_text [OF small_buffer_ok(1), of "lit ''x''" "lit '');''" 1]
  by (auto simp: lit_def)

end
