(* ===== verification/Parser.thy ===== *)
theory Parser
  imports Members
begin

text \<open>
  The expression parser of \<^verbatim>\<open>src/sugar/ast.h\<close>. A statement's tokens have become a list of
  trees, in which a group in parentheses is one token with its own list; the parser looks for the
  operator that binds loosest, splits the list there and calls the function the operator's syntax
  names.

  The recursion runs through function pointers, so the calls of \<^verbatim>\<open>Stmt_newExpr2\<close> are fuelled: each
  function takes the parser for the next level as \<open>rec\<close>. \<open>SY\<close> gives the syntax of a keyword in
  the statement's name space. A token whose meaning changes to a method name is changed in the
  expression only; the list is not read there again. \<open>None\<close> is an access out of bounds, a null pointer
  or a failed assertion.
\<close>

section \<open>Data\<close>

definition KW_Symbol :: u32 where "KW_Symbol = 2"
definition KW_Type :: u32 where "KW_Type = 7"
definition KW_Parenthesis :: u32 where "KW_Parenthesis = 8"
definition KW_ExprMethodCall :: u32 where "KW_ExprMethodCall = 12"
definition KW_DOT :: u32 where "KW_DOT = 14"
definition KW_COMMA :: u32 where "KW_COMMA = 16 + KW_DOT"

datatype kexpr =
    NULLEXPR
  | ETerm "u32 option" token
  | ECons u32 "kelem list"
and kelem = ETok token | EExpr kexpr | ENull

type_synonym syntab = "u32 \<Rightarrow> ksyntax option"
type_synonym parser = "token list \<Rightarrow> nat \<Rightarrow> nat \<Rightarrow> tenv \<Rightarrow> (kexpr \<times> tenv) option"

definition syntax_table :: "garbage \<Rightarrow> world \<Rightarrow> nat \<Rightarrow> syntab" where
  "syntax_table junk w ks kw = (case SYN_at junk w ks kw of Some r \<Rightarrow> r | None \<Rightarrow> None)"

datatype mntype = MNTYPE_method | MNTYPE_unary | MNTYPE_binary

definition mntype_code :: "mntype \<Rightarrow> u32" where
  "mntype_code t = (case t of MNTYPE_method \<Rightarrow> 0 | MNTYPE_unary \<Rightarrow> 1 | MNTYPE_binary \<Rightarrow> 2)"

definition kToken_setmn :: "token \<Rightarrow> u32 \<Rightarrow> mntype \<Rightarrow> token" where
  "kToken_setmn tk mn t = Token TK_MN (tkw tk) (ttext tk) (tline tk) (mntype_code t) mn"

section \<open>Messages\<close>

definition SUGAR_ERR :: "u64 \<Rightarrow> bytes \<Rightarrow> tenv \<Rightarrow> tenv" where
  "SUGAR_ERR line msg env = fst (vperrorf PE_ERR line msg env)"

definition Token_p :: "token \<Rightarrow> bytes \<Rightarrow> tenv \<Rightarrow> kexpr \<times> tenv" where
  "Token_p tk msg env = (NULLEXPR, SUGAR_ERR (tline tk) msg env)"

fun token_texts :: "token list \<Rightarrow> bytes list option" where
  "token_texts [] = Some []"
| "token_texts (tk # tks) = do { s \<leftarrow> kToken_s tk; r \<leftarrow> token_texts tks; Some (s # r) }"

definition WARN_Ignored :: "token list \<Rightarrow> nat \<Rightarrow> nat \<Rightarrow> tenv \<Rightarrow> tenv option" where
  "WARN_Ignored tls s e env =
     (if s < e then do {
        tks \<leftarrow> mem_read tls s (e - s);
        ts \<leftarrow> token_texts tks;
        Some (fst (vperrorf PE_WARN (tline (tls ! s))
          (lit ''ignored tokens: '' @ hd ts @ concat (map ((#) (chr CHR '' '')) (tl ts))) env))
      } else Some env)"

section \<open>Finding the operator\<close>

definition Stmt_isUnaryOp :: "syntab \<Rightarrow> token \<Rightarrow> bool option" where
  "Stmt_isUnaryOp SY tk = map_option (\<lambda>syn. s_op1 syn \<noteq> MN_NONAME) (SY (tkw tk))"

function Stmt_skipUnaryOp :: "syntab \<Rightarrow> token list \<Rightarrow> nat \<Rightarrow> nat \<Rightarrow> nat option" where
  "Stmt_skipUnaryOp SY tls s e =
     (if s < e then
        (case mem_get tls s of None \<Rightarrow> None
         | Some tk \<Rightarrow>
            (case Stmt_isUnaryOp SY tk of None \<Rightarrow> None
             | Some b \<Rightarrow> if b then Stmt_skipUnaryOp SY tls (s + 1) e else Some s))
      else Some s)"
  by pat_completeness auto
termination by (relation "measure (\<lambda>(_, _, s, e). e - s)") auto

declare Stmt_skipUnaryOp.simps [simp del]

lemma skipUnaryOp_bounds: "Stmt_skipUnaryOp SY tls s e = Some i \<Longrightarrow> s \<le> i \<and> (s \<le> e \<longrightarrow> i \<le> e)"
proof (induction SY tls s e rule: Stmt_skipUnaryOp.induct)
  case (1 SY tls s e)
  show ?case
  proof (cases "s < e")
    case True
    with "1.prems" obtain tk b where "mem_get tls s = Some tk" "Stmt_isUnaryOp SY tk = Some b"
      "(if b then Stmt_skipUnaryOp SY tls (s + 1) e else Some s) = Some i"
      by (subst (asm) Stmt_skipUnaryOp.simps) (auto split: option.splits)
    with True "1.IH"[of tk b] show ?thesis by (auto split: if_splits)
  next
    case False
    with "1.prems" show ?thesis by (subst (asm) Stmt_skipUnaryOp.simps) auto
  qed
qed

text \<open>
  The best operator so far is its position, its syntax and its priority. A syntax with a
  positive priority is taken when it binds looser than the best one, or as loose and is not
  left-joined. Behind an operator that is not a postfix the search goes on behind the unary operators.
\<close>

definition better :: "int \<Rightarrow> ksyntax \<Rightarrow> bool" where
  "better prif syn \<longleftrightarrow> prif < s_priority syn
     \<or> (prif = s_priority syn \<and> \<not> FLAG_is (s_flag syn) SYNFLAG_ExprLeftJoinOp2)"

function find_loop ::
    "syntab \<Rightarrow> token list \<Rightarrow> nat \<Rightarrow> nat \<Rightarrow> (nat \<times> ksyntax) option \<Rightarrow> int \<Rightarrow> (nat \<times> ksyntax) option option" where
  "find_loop SY tls i e best prif =
     (if i < e then
        (case mem_get tls i of None \<Rightarrow> None
         | Some tk \<Rightarrow>
            (case SY (tkw tk) of None \<Rightarrow> None
             | Some syn \<Rightarrow>
                if 0 < s_priority syn then
                  (let (best, prif) = (if better prif syn then (Some (i, syn), s_priority syn) else (best, prif))
                   in if \<not> FLAG_is (s_flag syn) SYNFLAG_ExprPostfixOp2 then
                        (case Stmt_skipUnaryOp SY tls (i + 1) e of None \<Rightarrow> None
                         | Some j \<Rightarrow> find_loop SY tls j e best prif)
                      else find_loop SY tls (i + 1) e best prif)
                else find_loop SY tls (i + 1) e best prif))
      else Some best)"
  by pat_completeness auto
termination
  by (relation "measure (\<lambda>(_, _, i, e, _). e - i)") (auto dest: skipUnaryOp_bounds)

declare find_loop.simps [simp del]

definition Stmt_findBinaryOp :: "syntab \<Rightarrow> token list \<Rightarrow> nat \<Rightarrow> nat \<Rightarrow> (nat \<times> ksyntax) option option" where
  "Stmt_findBinaryOp SY tls s e = do {
     i \<leftarrow> Stmt_skipUnaryOp SY tls s e;
     find_loop SY tls (i + 1) e None 0
   }"

section \<open>Building expressions\<close>

text \<open>A missing part makes the whole expression the null expression.\<close>

fun cons_parts :: "kelem list \<Rightarrow> bool" where
  "cons_parts [] \<longleftrightarrow> True"
| "cons_parts (EExpr NULLEXPR # _) \<longleftrightarrow> False"
| "cons_parts (_ # es) \<longleftrightarrow> cons_parts es"

definition new_ConsExpr :: "ksyntax option \<Rightarrow> kelem list \<Rightarrow> kexpr option" where
  "new_ConsExpr syn es =
     (case syn of None \<Rightarrow> None
      | Some syn \<Rightarrow> Some (if cons_parts es then ECons (s_kw syn) es else NULLEXPR))"

text \<open>Adding to an expression that is not a list, such as the null expression, fails the assertion.\<close>

definition Expr_add :: "kexpr \<Rightarrow> kexpr \<Rightarrow> kexpr option" where
  "Expr_add expr e =
     (case expr of ECons k es \<Rightarrow> Some (if e \<noteq> NULLEXPR then ECons k (es @ [EExpr e]) else NULLEXPR)
      | _ \<Rightarrow> None)"

definition Expr_rightJoin :: "kexpr \<Rightarrow> token list \<Rightarrow> nat \<Rightarrow> nat \<Rightarrow> tenv \<Rightarrow> (kexpr \<times> tenv) option" where
  "Expr_rightJoin expr tls c e env =
     (if c < e \<and> expr \<noteq> NULLEXPR then do { env \<leftarrow> WARN_Ignored tls c e env; Some (expr, env) }
      else Some (expr, env))"

text \<open>The loop over the parameters between commas, from position \<open>i\<close> and the last comma's \<open>start\<close>.\<close>

function params_loop ::
    "parser \<Rightarrow> kexpr \<Rightarrow> token list \<Rightarrow> nat \<Rightarrow> nat \<Rightarrow> nat \<Rightarrow> tenv \<Rightarrow> (kexpr \<times> nat \<times> tenv) option" where
  "params_loop rec expr tls start i e env =
     (if i < e then
        (case mem_get tls i of None \<Rightarrow> None
         | Some tk \<Rightarrow>
            if tkw tk = KW_COMMA then
              (case rec tls start i env of None \<Rightarrow> None
               | Some (p, env) \<Rightarrow>
                  (case Expr_add expr p of None \<Rightarrow> None
                   | Some expr \<Rightarrow> params_loop rec expr tls (i + 1) (i + 1) e env))
            else params_loop rec expr tls start (i + 1) e env)
      else Some (expr, start, env))"
  by pat_completeness auto
termination by (relation "measure (\<lambda>(_, _, _, _, i, e, _). e - i)") auto

declare params_loop.simps [simp del]

definition Stmt_addExprParams ::
    "parser \<Rightarrow> kexpr \<Rightarrow> token list \<Rightarrow> nat \<Rightarrow> nat \<Rightarrow> bool \<Rightarrow> tenv \<Rightarrow> (kexpr \<times> tenv) option" where
  "Stmt_addExprParams rec expr tls s e allowEmpty env = do {
     (expr, start, env) \<leftarrow> params_loop rec expr tls s s e env;
     (if \<not> allowEmpty \<or> start < max s e then do {
        (p, env) \<leftarrow> rec tls start (max s e) env;
        expr \<leftarrow> Expr_add expr p;
        Some (expr, env)
      } else Some (expr, env))
   }"

section \<open>The parsers of expressions\<close>

definition parse_undefined :: "token list \<Rightarrow> nat \<Rightarrow> tenv \<Rightarrow> (kexpr \<times> tenv) option" where
  "parse_undefined tls c env = do {
     tk \<leftarrow> mem_get tls c;
     s \<leftarrow> kToken_s tk;
     Some (Token_p tk (lit ''undefined expression parser for '' @ [chr CHR 0x27] @ s @ [chr CHR 0x27]) env)
   }"

definition parse_Term :: "syntab \<Rightarrow> token list \<Rightarrow> nat \<Rightarrow> nat \<Rightarrow> nat \<Rightarrow> tenv \<Rightarrow> (kexpr \<times> tenv) option" where
  "parse_Term SY tls s c e env =
     (if s = c then do {
        tk \<leftarrow> mem_get tls c;
        Expr_rightJoin (ETerm (map_option s_kw (SY (tkw tk))) tk) tls (c + 1) e env
      } else None)"

definition parse_Op ::
    "syntab \<Rightarrow> parser \<Rightarrow> ksyntax \<Rightarrow> token list \<Rightarrow> nat \<Rightarrow> nat \<Rightarrow> nat \<Rightarrow> tenv \<Rightarrow> (kexpr \<times> tenv) option" where
  "parse_Op SY rec syn tls s c e env = do {
     tk \<leftarrow> mem_get tls c;
     (rexpr, env) \<leftarrow> rec tls (c + 1) e env;
     let mn = (if s = c then s_op1 syn else s_op2 syn);
     let call = (mn \<noteq> MN_NONAME \<and> s_ExprTyCheck syn = UndefinedExprTyCheck);
     let tk = (if call then kToken_setmn tk mn (if s = c then MNTYPE_unary else MNTYPE_binary) else tk);
     let syn = (if call then SY KW_ExprMethodCall else Some syn);
     (if s = c then do {
        expr \<leftarrow> new_ConsExpr syn [ETok tk, EExpr rexpr];
        Some (expr, env)
      } else do {
        (lexpr, env) \<leftarrow> rec tls s c env;
        expr \<leftarrow> new_ConsExpr syn [ETok tk, EExpr lexpr, EExpr rexpr];
        Some (expr, env)
      })
   }"

definition isFieldName :: "token list \<Rightarrow> nat \<Rightarrow> nat \<Rightarrow> bool option" where
  "isFieldName tls c e =
     (if c + 1 < e then map_option (\<lambda>tk. tt tk \<in> {TK_SYMBOL, TK_USYMBOL, TK_MSYMBOL}) (mem_get tls (c + 1))
      else Some False)"

definition parse_DOT ::
    "parser \<Rightarrow> ksyntax \<Rightarrow> token list \<Rightarrow> nat \<Rightarrow> nat \<Rightarrow> nat \<Rightarrow> tenv \<Rightarrow> (kexpr \<times> tenv) option" where
  "parse_DOT rec syn tls s c e env =
     (if s < c then do {
        f \<leftarrow> isFieldName tls c e;
        (if f then do {
           (expr, env) \<leftarrow> rec tls s c env;
           name \<leftarrow> mem_get tls (c + 1);
           expr \<leftarrow> new_ConsExpr (Some syn) [ETok name, EExpr expr];
           Expr_rightJoin expr tls (c + 2) e env
         } else do {
           tk \<leftarrow> mem_get tls (if c + 1 < e then c + 1 else c);
           s \<leftarrow> kToken_s tk;
           Some (Token_p tk (lit ''expected field name: not '' @ s) env)
         })
      } else None)"

definition sub_tokens :: "token \<Rightarrow> token list option" where
  "sub_tokens tk = (case ttext tk of Sub ts \<Rightarrow> Some ts | Text _ \<Rightarrow> None)"

text \<open>A call: the callee's last part decides between a method call and the call of a function.\<close>

definition call_head :: "syntab \<Rightarrow> kexpr \<Rightarrow> kexpr option" where
  "call_head SY lexpr =
     (case lexpr of
        NULLEXPR \<Rightarrow> None
      | ETerm kw tk \<Rightarrow> do {
          kw \<leftarrow> kw;
          (if kw = KW_DOT then map_option (\<lambda>syn. ETerm (Some (s_kw syn)) tk) (SY KW_ExprMethodCall)
           else if kw \<noteq> KW_ExprMethodCall then new_ConsExpr (SY KW_Parenthesis) [EExpr lexpr, ENull]
           else Some lexpr)
        }
      | ECons kw es \<Rightarrow>
          (if kw = KW_DOT then map_option (\<lambda>syn. ECons (s_kw syn) es) (SY KW_ExprMethodCall)
           else if kw \<noteq> KW_ExprMethodCall then new_ConsExpr (SY KW_Parenthesis) [EExpr lexpr, ENull]
           else Some lexpr))"

definition parse_Parenthesis ::
    "syntab \<Rightarrow> parser \<Rightarrow> token list \<Rightarrow> nat \<Rightarrow> nat \<Rightarrow> nat \<Rightarrow> tenv \<Rightarrow> (kexpr \<times> tenv) option" where
  "parse_Parenthesis SY rec tls s c e env = do {
     tk \<leftarrow> mem_get tls c;
     (if s = c then do {
        sub \<leftarrow> sub_tokens tk;
        (expr, env) \<leftarrow> rec sub 0 (length sub) env;
        Expr_rightJoin expr tls (c + 1) e env
      } else do {
        (lexpr, env) \<leftarrow> rec tls s c env;
        (if lexpr = NULLEXPR then Some (lexpr, env)
         else do {
           lexpr \<leftarrow> call_head SY lexpr;
           sub \<leftarrow> sub_tokens tk;
           (lexpr, env) \<leftarrow> Stmt_addExprParams rec lexpr sub 0 (length sub) True env;
           Expr_rightJoin lexpr tls (c + 1) e env
         })
      })
   }"

definition parse_COMMA ::
    "parser \<Rightarrow> ksyntax \<Rightarrow> token list \<Rightarrow> nat \<Rightarrow> nat \<Rightarrow> nat \<Rightarrow> tenv \<Rightarrow> (kexpr \<times> tenv) option" where
  "parse_COMMA rec syn tls s c e env = do {
     tk \<leftarrow> mem_get tls c;
     expr \<leftarrow> new_ConsExpr (Some syn) [ETok tk];
     Stmt_addExprParams rec expr tls s e False env
   }"

text \<open>
  Calling the function of a syntax. The functions that packages add and the block literal
  (\<^verbatim>\<open>ParseExpr_DOLLAR\<close>), which needs the parser of statements, are not modelled.
\<close>

definition ParseExpr ::
    "syntab \<Rightarrow> parser \<Rightarrow> ksyntax option \<Rightarrow> token list \<Rightarrow> nat \<Rightarrow> nat \<Rightarrow> nat \<Rightarrow> tenv \<Rightarrow> (kexpr \<times> tenv) option" where
  "ParseExpr SY rec syn tls s c e env =
     (case syn of None \<Rightarrow> parse_undefined tls c env
      | Some syn \<Rightarrow>
          (case s_ParseExpr syn of
             UndefinedParseExpr \<Rightarrow> parse_undefined tls c env
           | ParseExpr_Term \<Rightarrow> parse_Term SY tls s c e env
           | ParseExpr_Op \<Rightarrow> parse_Op SY rec syn tls s c e env
           | ParseExpr_DOT \<Rightarrow> parse_DOT rec syn tls s c e env
           | ParseExpr_Parenthesis \<Rightarrow> parse_Parenthesis SY rec tls s c e env
           | ParseExpr_COMMA \<Rightarrow> parse_COMMA rec syn tls s c e env
           | _ \<Rightarrow> None))"

text \<open>The body of \<^verbatim>\<open>Stmt_newExpr2\<close> on a statement at \<open>line\<close>.\<close>

definition newExpr2_body :: "syntab \<Rightarrow> u64 \<Rightarrow> parser \<Rightarrow> parser" where
  "newExpr2_body SY line rec tls s e env =
     (if s < e then do {
        r \<leftarrow> Stmt_findBinaryOp SY tls s e;
        (case r of
           Some (c, syn) \<Rightarrow> ParseExpr SY rec (Some syn) tls s c e env
         | None \<Rightarrow> do {
             tk \<leftarrow> mem_get tls s;
             ParseExpr SY rec (SY (tkw tk)) tls s s e env
           })
      }
      else if 1 < s then do {
        tk \<leftarrow> mem_get tls (s - 1);
        m \<leftarrow> kToken_s tk;
        Some (NULLEXPR, SUGAR_ERR line (lit ''expected expression after '' @ m) env)
      }
      else if e < length tls then do {
        m \<leftarrow> kToken_s (tls ! e);
        Some (NULLEXPR, SUGAR_ERR line (lit ''expected expression before '' @ m) env)
      }
      else Some (NULLEXPR, SUGAR_ERR line (lit ''expected expression'') env))"

primrec Stmt_newExpr2 :: "syntab \<Rightarrow> u64 \<Rightarrow> nat \<Rightarrow> parser" where
  "Stmt_newExpr2 SY line 0 = (\<lambda>_ _ _ _. None)"
| "Stmt_newExpr2 SY line (Suc n) = newExpr2_body SY line (Stmt_newExpr2 SY line n)"

section \<open>The default syntax\<close>

text \<open>
  A row of the table, whose parts that are not written are zero, and the table of
  \<^verbatim>\<open>defineDefaultSyntax\<close>. The rows come in the order of the keywords' numbers. \<open>default_syntax\<close> is
  the syntax a row defines in a new space, with the number of a method's name as \<open>mn\<close> gives it and the
  rule, which the parser of expressions does not read, left out.
\<close>

definition row :: "bytes \<Rightarrow> kdefine_syntax" where
  "row n = \<lparr>y_name = n, y_flag = 0, y_rule = None, y_op2 = None, y_op1 = None, y_priority = 0, y_type = 0,
     y_ParseStmt = None, y_ParseExpr = None, y_TopStmtTyCheck = None, y_StmtTyCheck = None, y_ExprTyCheck = None\<rparr>"

definition SYNFLAG_StmtBreakExec :: u32 where "SYNFLAG_StmtBreakExec = 0x100"

definition default_table :: "kdefine_syntax list" where \<open>
  default_table = [
     (row (lit ''$ERR''))\<lparr>y_flag := SYNFLAG_StmtBreakExec\<rparr>,
     (row (lit ''$expr''))\<lparr>y_rule := Some (lit ''$expr''), y_ParseStmt := Some ParseStmt_Expr, y_TopStmtTyCheck := Some StmtTyCheck_Expr, y_StmtTyCheck := Some StmtTyCheck_Expr\<rparr>,
     (row (lit ''$SYMBOL''))\<lparr>y_flag := SYNFLAG_ExprTerm, y_ParseStmt := Some ParseStmt_Symbol, y_ExprTyCheck := Some ExprTyCheck_Symbol\<rparr>,
     (row (lit ''$USYMBOL''))\<lparr>y_flag := SYNFLAG_ExprTerm, y_ParseStmt := Some ParseStmt_Usymbol, y_ExprTyCheck := Some ExprTyCheck_Usymbol\<rparr>,
     (row (lit ''$TEXT''))\<lparr>y_flag := SYNFLAG_ExprTerm, y_ExprTyCheck := Some ExprTyCheck_Text\<rparr>,
     (row (lit ''$INT''))\<lparr>y_flag := SYNFLAG_ExprTerm, y_ExprTyCheck := Some ExprTyCheck_Int\<rparr>,
     (row (lit ''$FLOAT''))\<lparr>y_flag := SYNFLAG_ExprTerm\<rparr>,
     (row (lit ''$type''))\<lparr>y_flag := SYNFLAG_ExprTerm, y_rule := Some (lit ''$type $expr''), y_ParseStmt := Some ParseStmt_Type, y_StmtTyCheck := Some StmtTyCheck_TypeDecl, y_ExprTyCheck := Some ExprTyCheck_Type\<rparr>,
     (row (lit ''()''))\<lparr>y_flag := SYNFLAG_ExprPostfixOp2, y_priority := 16, y_ParseExpr := Some ParseExpr_Parenthesis, y_ExprTyCheck := Some ExprTyCheck_FuncStyleCall\<rparr>,
     (row (lit ''[]'')),
     (row (lit ''{}'')),
     (row (lit ''$block''))\<lparr>y_ParseStmt := Some ParseStmt_Block, y_ExprTyCheck := Some ExprTyCheck_Block\<rparr>,
     (row (lit ''$params''))\<lparr>y_ParseStmt := Some ParseStmt_Params, y_TopStmtTyCheck := Some StmtTyCheck_ParamsDecl, y_ExprTyCheck := Some ExprTyCheck_MethodCall\<rparr>,
     (row (lit ''$toks''))\<lparr>y_ParseStmt := Some ParseStmt_Toks\<rparr>,
     (row (lit ''.''))\<lparr>y_priority := 16, y_ParseExpr := Some ParseExpr_DOT\<rparr>,
     (row (lit ''/''))\<lparr>y_flag := SYNFLAG_ExprOp, y_op2 := Some (lit ''opDIV''), y_priority := 32\<rparr>,
     (row (lit ''%''))\<lparr>y_flag := SYNFLAG_ExprOp, y_op2 := Some (lit ''opMOD''), y_priority := 32\<rparr>,
     (row (lit ''*''))\<lparr>y_flag := SYNFLAG_ExprOp, y_op2 := Some (lit ''opMUL''), y_priority := 32\<rparr>,
     (row (lit ''+''))\<lparr>y_flag := SYNFLAG_ExprOp, y_op2 := Some (lit ''opADD''), y_op1 := Some (lit ''opPLUS''), y_priority := 64\<rparr>,
     (row (lit ''-''))\<lparr>y_flag := SYNFLAG_ExprOp, y_op2 := Some (lit ''opSUB''), y_op1 := Some (lit ''opMINUS''), y_priority := 64\<rparr>,
     (row (lit ''<''))\<lparr>y_flag := SYNFLAG_ExprOp, y_op2 := Some (lit ''opLT''), y_priority := 256\<rparr>,
     (row (lit ''<=''))\<lparr>y_flag := SYNFLAG_ExprOp, y_op2 := Some (lit ''opLTE''), y_priority := 256\<rparr>,
     (row (lit ''>''))\<lparr>y_flag := SYNFLAG_ExprOp, y_op2 := Some (lit ''opGT''), y_priority := 256\<rparr>,
     (row (lit ''>=''))\<lparr>y_flag := SYNFLAG_ExprOp, y_op2 := Some (lit ''opGTE''), y_priority := 256\<rparr>,
     (row (lit ''==''))\<lparr>y_flag := SYNFLAG_ExprOp, y_op2 := Some (lit ''opEQ''), y_priority := 512\<rparr>,
     (row (lit ''!=''))\<lparr>y_flag := SYNFLAG_ExprOp, y_op2 := Some (lit ''opNEQ''), y_priority := 512\<rparr>,
     (row (lit ''&&''))\<lparr>y_flag := SYNFLAG_ExprOp, y_priority := 1024, y_ExprTyCheck := Some ExprTyCheck_AND\<rparr>,
     (row (lit ''||''))\<lparr>y_flag := SYNFLAG_ExprOp, y_priority := 2048, y_ExprTyCheck := Some ExprTyCheck_OR\<rparr>,
     (row (lit ''!''))\<lparr>y_flag := SYNFLAG_ExprOp, y_op1 := Some (lit ''opNOT'')\<rparr>,
     (row (lit ''=''))\<lparr>y_flag := or SYNFLAG_ExprOp SYNFLAG_ExprLeftJoinOp2, y_priority := 4096\<rparr>,
     (row (lit '',''))\<lparr>y_op2 := Some (lit ''*''), y_priority := 8192, y_ParseExpr := Some ParseExpr_COMMA\<rparr>,
     (row (lit ''$''))\<lparr>y_ParseExpr := Some ParseExpr_DOLLAR\<rparr>,
     (row (lit ''void''))\<lparr>y_rule := Some (lit ''$type [$USYMBOL "."] $SYMBOL $params [$block]''), y_type := CLASS_Tvoid, y_TopStmtTyCheck := Some StmtTyCheck_MethodDecl\<rparr>,
     (row (lit ''boolean''))\<lparr>y_type := CLASS_Boolean\<rparr>,
     (row (lit ''int''))\<lparr>y_type := CLASS_Int\<rparr>,
     (row (lit ''true''))\<lparr>y_flag := SYNFLAG_ExprTerm, y_ExprTyCheck := Some ExprTyCheck_true\<rparr>,
     (row (lit ''false''))\<lparr>y_flag := SYNFLAG_ExprTerm, y_ExprTyCheck := Some ExprTyCheck_false\<rparr>,
     (row (lit ''if''))\<lparr>y_rule := Some (lit ''"if" "(" $expr ")" $block ["else" else: $block]''), y_TopStmtTyCheck := Some StmtTyCheck_if, y_StmtTyCheck := Some StmtTyCheck_if\<rparr>,
     (row (lit ''else''))\<lparr>y_rule := Some (lit ''"else" $block''), y_TopStmtTyCheck := Some StmtTyCheck_else, y_StmtTyCheck := Some StmtTyCheck_else\<rparr>,
     (row (lit ''return''))\<lparr>y_flag := SYNFLAG_StmtBreakExec, y_rule := Some (lit ''"return" [$expr]''), y_StmtTyCheck := Some StmtTyCheck_return\<rparr>]\<close>

definition defineDefaultSyntax :: "garbage \<Rightarrow> world \<Rightarrow> nat \<Rightarrow> world option" where
  "defineDefaultSyntax junk w ks = KonohaSpace_defineSyntax junk w ks default_table"

definition default_syntax :: "(bytes \<Rightarrow> u32) \<Rightarrow> syntab" where
  "default_syntax mn kw = map_option
     (\<lambda>d. define_parts d (case_option MN_NONAME mn (y_op1 d)) (case_option MN_NONAME mn (y_op2 d)) None (new_syntax kw))
     (mem_get default_table (unat kw))"

end
