(* ===== verification/ParserEnds.thy ===== *)
theory ParserEnds
  imports Parser
begin

text \<open>
  The expression parser ends: every call it makes is on fewer tokens, counted with those inside of
  groups. The only parser of an operator that keeps the range it got is that of the comma, and it ends
  because the range has a comma to be split at.
\<close>

section \<open>Tokens of a range, with those inside of groups\<close>

primrec tok_weight :: "token \<Rightarrow> nat" and body_weight :: "tbody \<Rightarrow> nat" where
  "tok_weight (Token t k b l p c) = Suc (body_weight b)"
| "body_weight (Text s) = 0"
| "body_weight (Sub ts) = sum_list (map tok_weight ts)"

definition range_weight :: "token list \<Rightarrow> nat \<Rightarrow> nat \<Rightarrow> nat" where
  "range_weight tls s e = sum_list (map tok_weight (take (e - s) (drop s tls)))"

lemma tok_weight_pos: "0 < tok_weight t"
  by (cases t) simp

lemma range_weight_split:
  assumes "s \<le> c" "c \<le> e"
  shows "range_weight tls s e = range_weight tls s c + range_weight tls c e"
proof -
  have "take (e - s) (drop s tls) = take (c - s) (drop s tls) @ take (e - c) (drop c tls)"
    using assms take_add[of "c - s" "e - c" "drop s tls"] by (simp add: add.commute)
  then show ?thesis by (simp add: range_weight_def)
qed

lemma range_weight_first:
  "c < e \<Longrightarrow> c < length tls \<Longrightarrow> range_weight tls c e = tok_weight (tls ! c) + range_weight tls (Suc c) e"
  by (simp add: range_weight_def take_Cons' flip: Cons_nth_drop_Suc)

lemma range_weight_mono: "s \<le> a \<Longrightarrow> b \<le> e \<Longrightarrow> range_weight tls a b \<le> range_weight tls s e"
proof (cases "a \<le> b")
  case True
  assume "s \<le> a" "b \<le> e"
  with True show ?thesis using range_weight_split[of s a e tls] range_weight_split[of a b e tls] by simp
qed (simp add: range_weight_def)

lemma range_weight_less:
  assumes "s \<le> a" "b \<le> e" "s \<le> j" "j < e" "j < length tls" "b \<le> j \<or> j < a"
  shows "range_weight tls a b < range_weight tls s e"
proof -
  have "range_weight tls s e = range_weight tls s j + tok_weight (tls ! j) + range_weight tls (Suc j) e"
    using assms(3-5) range_weight_split[of s j e tls] range_weight_first[of j e tls] by simp
  moreover have "range_weight tls a b \<le> range_weight tls s j \<or> range_weight tls a b \<le> range_weight tls (Suc j) e"
    using assms(1,2,6) range_weight_mono[of s a b j tls] range_weight_mono[of "Suc j" a b e tls] by auto
  ultimately show ?thesis using tok_weight_pos[of "tls ! j"] by linarith
qed

lemma range_weight_group:
  assumes "s \<le> c" "c < e" "mem_get tls c = Some tk" "sub_tokens tk = Some ts"
  shows "range_weight ts a b < range_weight tls s e"
proof -
  have "range_weight ts a b \<le> range_weight ts 0 (length ts + b)"
    by (rule range_weight_mono) simp_all
  then have "range_weight ts a b \<le> sum_list (map tok_weight ts)" by (simp add: range_weight_def)
  also have "\<dots> < tok_weight tk"
    using assms(4) by (cases tk) (auto simp: sub_tokens_def split: tbody.splits)
  also have "\<dots> \<le> range_weight tls c e"
    using assms(2,3) range_weight_first[of c e tls] by (auto simp: mem_get_def split: if_splits)
  also have "\<dots> \<le> range_weight tls s e"
    using assms(1) by (rule range_weight_mono) simp
  finally show ?thesis .
qed

section \<open>The operator that is found lies inside of the range\<close>

lemma find_loop_range:
  "find_loop SY tls i e best prif = Some (Some (c, syn))
    \<Longrightarrow> best = Some (c, syn) \<or> (i \<le> c \<and> c < e \<and> c < length tls \<and> SY (tkw (tls ! c)) = Some syn)"
proof (induction SY tls i e best prif rule: find_loop.induct)
  case (1 SY tls i e best prif)
  show ?case
  proof (cases "i < e \<and> i < length tls")
    case True
    then have tk: "i < e" "mem_get tls i = Some (tls ! i)" by (simp_all add: mem_get_def)
    with "1.prems" obtain sy where sy: "SY (tkw (tls ! i)) = Some sy"
      by (subst (asm) find_loop.simps) (auto split: option.splits)
    define best' where "best' = (if better prif sy then (Some (i, sy), s_priority sy) else (best, prif))"
    consider "\<not> 0 < s_priority sy" "find_loop SY tls (i + 1) e best prif = Some (Some (c, syn))"
      | j where "0 < s_priority sy" "\<not> FLAG_is (s_flag sy) SYNFLAG_ExprPostfixOp2"
          "Stmt_skipUnaryOp SY tls (i + 1) e = Some j"
          "find_loop SY tls j e (fst best') (snd best') = Some (Some (c, syn))"
      | "0 < s_priority sy" "FLAG_is (s_flag sy) SYNFLAG_ExprPostfixOp2"
          "find_loop SY tls (i + 1) e (fst best') (snd best') = Some (Some (c, syn))"
      using "1.prems" tk sy unfolding best'_def
      by (subst (asm) find_loop.simps) (auto simp: Let_def split: if_splits option.splits)
    then have "fst best' = Some (c, syn) \<or> best = Some (c, syn)
        \<or> (i \<le> c \<and> c < e \<and> c < length tls \<and> SY (tkw (tls ! c)) = Some syn)"
    proof cases
      case 1
      then show ?thesis using "1.IH"(3)[OF tk sy] by auto
    next
      case (2 j)
      then show ?thesis using "1.IH"(1)[OF tk sy 2(1) best'_def _ 2(2,3), of "fst best'" "snd best'"]
          skipUnaryOp_bounds[OF 2(3)] by auto
    next
      case 3
      then show ?thesis using "1.IH"(2)[OF tk sy 3(1) best'_def _ _ 3(3)] by auto
    qed
    then show ?thesis using True sy by (auto simp: best'_def split: if_splits)
  next
    case False
    with "1.prems" show ?thesis by (subst (asm) find_loop.simps) (auto simp: mem_get_def split: if_splits)
  qed
qed


lemma findBinaryOp_range:
  "Stmt_findBinaryOp SY tls s e = Some (Some (c, syn))
    \<Longrightarrow> s < c \<and> c < e \<and> c < length tls \<and> SY (tkw (tls ! c)) = Some syn"
  unfolding Stmt_findBinaryOp_def bind_Some_iff
  by (auto dest!: find_loop_range skipUnaryOp_bounds)

section \<open>Calls of the parsers of operators\<close>

text \<open>Two parsers for the next level that agree where they are called give the same result.\<close>

lemma params_loop_cong:
  assumes "start \<le> i" "\<And>a b env. start \<le> a \<Longrightarrow> i \<le> b \<Longrightarrow> b < e \<Longrightarrow> b < length tls
    \<Longrightarrow> r tls a b env = r' tls a b env"
  shows "params_loop r x tls start i e env = params_loop r' x tls start i e env"
  using assms
proof (induction r x tls start i e env rule: params_loop.induct)
  case (1 r x tls start i e env)
  show ?case
  proof (cases "i < e \<and> i < length tls")
    case True
    then have tk: "i < e" "mem_get tls i = Some (tls ! i)" "r tls start i env = r' tls start i env"
      using "1.prems"(2)[of start i env] by (simp_all add: mem_get_def)
    show ?thesis
    proof (cases "tkw (tls ! i) = KW_COMMA")
      case comma: True
      have "params_loop r y tls (i + 1) (i + 1) e env' = params_loop r' y tls (i + 1) (i + 1) e env'"
        if "r tls start i env = Some (p, env')" "Expr_add x p = Some y" for p y env'
        using "1.IH"(1)[OF tk(1,2) comma that(1) _ that(2)] "1.prems" by simp
      with tk comma show ?thesis
        by (subst (1 2) params_loop.simps) (auto split: option.splits)
    next
      case False
      with tk "1.IH"(2)[OF tk(1,2) False] "1.prems" show ?thesis
        by (subst (1 2) params_loop.simps) simp
    qed
  qed (subst (1 2) params_loop.simps, auto simp: mem_get_def)
qed

lemma params_loop_start:
  "params_loop r x tls start i e env = Some (y, start', env') \<Longrightarrow> start \<le> i
    \<Longrightarrow> (start' = start \<or> (start < start' \<and> start' - 1 < e \<and> start' - 1 < length tls))
      \<and> (\<forall>j. i \<le> j \<longrightarrow> j < e \<longrightarrow> tkw (tls ! j) = KW_COMMA \<longrightarrow> j < start')"
proof (induction r x tls start i e env rule: params_loop.induct)
  case (1 r x tls start i e env)
  show ?case
  proof (cases "i < e")
    case True
    with "1.prems"(1) have "i < length tls"
      by (subst (asm) params_loop.simps) (auto simp: mem_get_def split: if_splits)
    then have tk: "i < length tls" "mem_get tls i = Some (tls ! i)" by (simp_all add: mem_get_def)
    show ?thesis
    proof (cases "tkw (tls ! i) = KW_COMMA")
      case comma: True
      with "1.prems"(1) True tk obtain p env2 z where
        "r tls start i env = Some (p, env2)" "Expr_add x p = Some z"
        "params_loop r z tls (i + 1) (i + 1) e env2 = Some (y, start', env')"
        by (subst (asm) params_loop.simps) (auto split: option.splits)
      note ih = "1.IH"(1)[OF True tk(2) comma this(1) refl this(2,3) order_refl]
      have "start < start' \<and> start' - 1 < e \<and> start' - 1 < length tls"
        using ih "1.prems"(2) True tk by auto
      moreover have "j < start'" if "i \<le> j" "j < e" "tkw (tls ! j) = KW_COMMA" for j
        using ih that by (cases "j = i") auto
      ultimately show ?thesis by blast
    next
      case False
      with "1.prems"(1) True tk have "params_loop r x tls start (i + 1) e env = Some (y, start', env')"
        by (subst (asm) params_loop.simps) simp
      then have ih: "(start' = start \<or> (start < start' \<and> start' - 1 < e \<and> start' - 1 < length tls))
          \<and> (\<forall>j. i + 1 \<le> j \<longrightarrow> j < e \<longrightarrow> tkw (tls ! j) = KW_COMMA \<longrightarrow> j < start')"
        using "1.IH"(2)[OF True tk(2) False] "1.prems"(2) by simp
      moreover have "j < start'" if "i \<le> j" "j < e" "tkw (tls ! j) = KW_COMMA" for j
        using ih that False by (cases "j = i") auto
      ultimately show ?thesis by blast
    qed
  next
    case False
    with "1.prems" show ?thesis by (subst (asm) params_loop.simps) auto
  qed
qed


lemma addExprParams_cong:
  assumes "s \<le> e" "\<not> (\<forall>i. s \<le> i \<longrightarrow> i < e \<longrightarrow> tkw (tls ! i) \<noteq> KW_COMMA) \<or> range_weight tls s e < w"
    and "range_weight tls s e \<le> w"
    and "\<And>a b env. range_weight tls a b < w \<Longrightarrow> r tls a b env = r' tls a b env"
  shows "Stmt_addExprParams r x tls s e allow env = Stmt_addExprParams r' x tls s e allow env"
proof -
  have less: "range_weight tls a b < w" if "s \<le> a" "b \<le> e" "s \<le> j" "j < e" "j < length tls" "b \<le> j \<or> j < a" for a b j
    using range_weight_less[OF that] assms(3) by simp
  have loop: "params_loop r x tls s s e env = params_loop r' x tls s s e env"
  proof (rule params_loop_cong)
    fix a b env assume "s \<le> a" "s \<le> b" "b < e" "b < length tls"
    then show "r tls a b env = r' tls a b env" by (intro assms(4) less[of a b b]) auto
  qed simp
  have last: "r tls start e env' = r' tls start e env'"
    if "params_loop r' x tls s s e env = Some (y, start, env')" for y start env'
  proof (rule assms(4))
    from params_loop_start[OF that] assms(2) range_weight_mono[of s start e e tls]
    show "range_weight tls start e < w"
      using less[of start e "start - 1"] by fastforce
  qed
  show ?thesis unfolding Stmt_addExprParams_def loop
    using assms(1) by (intro bind_option_cong refl) (auto simp: last max_absorb2)
qed


text \<open>The parser of an operator at \<open>c\<close> in the range calls the next level on fewer tokens only.\<close>

lemma ParseExpr_cong:
  assumes "s \<le> c" "c < e" "c < length tls"
    and comma: "\<And>sy. syn = Some sy \<Longrightarrow> s_ParseExpr sy = ParseExpr_COMMA \<Longrightarrow> tkw (tls ! c) = KW_COMMA"
    and smaller: "\<And>ts a b env. range_weight ts a b < range_weight tls s e \<Longrightarrow> r ts a b env = r' ts a b env"
  shows "ParseExpr SY r syn tls s c e env = ParseExpr SY r' syn tls s c e env"
proof -
  have tk: "mem_get tls c = Some (tls ! c)" using assms(3) by (simp add: mem_get_def)
  have left: "r tls s c env = r' tls s c env" for env
    using assms(1-3) by (intro smaller range_weight_less[where j = c]) auto
  have right: "r tls (Suc c) e env = r' tls (Suc c) e env" for env
    using assms(1-3) by (intro smaller range_weight_less[where j = c]) auto
  have group: "r ts a b env = r' ts a b env" if "sub_tokens (tls ! c) = Some ts" for ts a b env
    using range_weight_group[OF assms(1,2) tk that] by (intro smaller)
  have args: "Stmt_addExprParams r x ts 0 (length ts) True env = Stmt_addExprParams r' x ts 0 (length ts) True env"
    if "sub_tokens (tls ! c) = Some ts" for ts x env
    by (rule addExprParams_cong[where w = "range_weight tls s e"])
      (use range_weight_group[OF assms(1,2) tk that, of 0 "length ts"] smaller in auto)
  have list: "Stmt_addExprParams r x tls s e False env = Stmt_addExprParams r' x tls s e False env"
    if "tkw (tls ! c) = KW_COMMA" for x env
    by (rule addExprParams_cong[where w = "range_weight tls s e"]) (use assms(1-3) that smaller in auto)
  have "parse_Op SY r sy tls s c e env = parse_Op SY r' sy tls s c e env" for sy
    by (simp add: parse_Op_def left right cong: if_cong)
  moreover have "parse_DOT r sy tls s c e env = parse_DOT r' sy tls s c e env" for sy
    by (simp add: parse_DOT_def left cong: if_cong)
  moreover have "parse_Parenthesis SY r tls s c e env = parse_Parenthesis SY r' tls s c e env"
    by (cases "sub_tokens (tls ! c)") (simp_all add: parse_Parenthesis_def tk left group args cong: if_cong)
  moreover have "syn = Some sy \<Longrightarrow> s_ParseExpr sy = ParseExpr_COMMA
      \<Longrightarrow> parse_COMMA r sy tls s c e env = parse_COMMA r' sy tls s c e env" for sy
    using comma by (simp add: parse_COMMA_def list)
  ultimately show ?thesis by (simp add: ParseExpr_def split: option.splits sfun.splits)
qed

lemma newExpr2_body_cong:
  assumes "\<And>kw sy. SY kw = Some sy \<Longrightarrow> s_ParseExpr sy = ParseExpr_COMMA \<Longrightarrow> kw = KW_COMMA"
    and "\<And>ts a b env. range_weight ts a b < range_weight tls s e \<Longrightarrow> r ts a b env = r' ts a b env"
  shows "newExpr2_body SY line r tls s e env = newExpr2_body SY line r' tls s e env"
proof (cases "s < e")
  case True
  have "ParseExpr SY r (Some sy) tls s c e env = ParseExpr SY r' (Some sy) tls s c e env"
    if "Stmt_findBinaryOp SY tls s e = Some (Some (c, sy))" for c sy
    using findBinaryOp_range[OF that] by (intro ParseExpr_cong assms) (auto intro: assms(1))
  moreover have "ParseExpr SY r (SY (tkw tk)) tls s s e env = ParseExpr SY r' (SY (tkw tk)) tls s s e env"
    if "mem_get tls s = Some tk" for tk
    using that True by (intro ParseExpr_cong assms) (auto intro: assms(1) simp: mem_get_def split: if_splits)
  ultimately show ?thesis
    by (auto simp: newExpr2_body_def fun_eq_iff intro!: bind_option_cong split: option.splits)
qed (simp add: newExpr2_body_def)

text \<open>
  C10: The parser ends on every range of tokens: with more fuel than the range has tokens, those inside of
  groups counted, the answer does not depend on what stands in for a parser without fuel, so
  the fuel is never used up. It asks of the syntax that only the comma's is parsed as a list.
\<close>

theorem Stmt_newExpr2_terminates:
  assumes "\<And>kw sy. SY kw = Some sy \<Longrightarrow> s_ParseExpr sy = ParseExpr_COMMA \<Longrightarrow> kw = KW_COMMA"
    and "range_weight tls s e < n"
  shows "(newExpr2_body SY line ^^ n) r tls s e env = Stmt_newExpr2 SY line n tls s e env"
  using assms(2)
proof (induction n arbitrary: tls s e env)
  case (Suc n)
  have "newExpr2_body SY line ((newExpr2_body SY line ^^ n) r) tls s e env
      = newExpr2_body SY line (Stmt_newExpr2 SY line n) tls s e env"
    by (rule newExpr2_body_cong) (use assms(1) Suc in auto)
  then show ?case by simp
qed simp


text \<open>The default syntax parses only the comma as a list.\<close>

lemma define_parts_COMMA:
  "s_ParseExpr (define_parts d a b r (new_syntax kw)) = ParseExpr_COMMA \<longleftrightarrow> y_ParseExpr d = Some ParseExpr_COMMA"
  by (auto simp: define_parts_def new_syntax_def setSyntaxMethod_def default_ParseExpr_def split: option.splits)

lemma default_table_COMMA:
  "list_all (\<lambda>i. y_ParseExpr (default_table ! i) = Some ParseExpr_COMMA \<longrightarrow> i = 30) [0..<length default_table]"
  by (simp add: default_table_def row_def upt_rec)

lemma default_syntax_COMMA:
  assumes "default_syntax mn kw = Some sy" "s_ParseExpr sy = ParseExpr_COMMA"
  shows "kw = KW_COMMA"
proof -
  have "unat kw < length default_table" "y_ParseExpr (default_table ! unat kw) = Some ParseExpr_COMMA"
    using assms by (auto simp: default_syntax_def define_parts_COMMA mem_get_def split: if_splits)
  then have "unat kw = 30" using default_table_COMMA by (simp add: list_all_iff)
  then have "unat kw = unat (30 :: u32)" by simp
  then show ?thesis by (simp only: word_unat_eq_iff KW_COMMA_def KW_DOT_def) simp
qed

theorem Stmt_newExpr2_terminates_witness:
  "\<forall>r env. (newExpr2_body (default_syntax (\<lambda>_. 5)) 0 ^^ 4) r
      [Token TK_SYMBOL KW_Symbol (Text []) 0 0 0, Token TK_OPERATOR KW_COMMA (Text []) 0 0 0,
       Token TK_SYMBOL KW_Symbol (Text []) 0 0 0] 0 3 env
    = Stmt_newExpr2 (default_syntax (\<lambda>_. 5)) 0 4
      [Token TK_SYMBOL KW_Symbol (Text []) 0 0 0, Token TK_OPERATOR KW_COMMA (Text []) 0 0 0,
       Token TK_SYMBOL KW_Symbol (Text []) 0 0 0] 0 3 env"
  by (intro allI Stmt_newExpr2_terminates) (auto simp: range_weight_def intro: default_syntax_COMMA)

end
