(* ===== verification/Trees.thy ===== *)
theory Trees
  imports Parser
begin

text \<open>
  From the tokens of a script to trees (\<^verbatim>\<open>Token_resolved\<close>, \<^verbatim>\<open>TokenType_resolveGenerics\<close>,
  \<^verbatim>\<open>appendKeyword\<close>, \<^verbatim>\<open>makeTree\<close> and \<^verbatim>\<open>selectStmtLine\<close> of \<^verbatim>\<open>src/sugar/ast.h\<close>): a statement's
  tokens get their keywords, groups in parentheses and brackets become single tokens, and generic types
  become classes.

  The code appends the tokens to a list it is given; here a function returns the tokens it appends. It
  changes a token of the source before it appends it; the source is not read at that place again but by
  messages, which here quote the token as it was. \<open>None\<close> is an access out of bounds or a failed assertion.
\<close>

section \<open>What names mean\<close>

text \<open>
  The name space as the parser asks it: the number of a keyword, the syntax of a keyword, and the class of
  a name, as \<^const>\<open>KonohaSpace_getCT\<close> gives it.
\<close>

record scope =
  sc_keyword :: "bytes \<Rightarrow> u32 option"
  sc_syntax :: syntab
  sc_class :: "bytes \<Rightarrow> u32 option option"

definition scope_of :: "garbage \<Rightarrow> world \<Rightarrow> nat \<Rightarrow> scope" where
  "scope_of junk w ks = \<lparr>
     sc_keyword = (\<lambda>s. map_option snd (keyword (j_name junk) (kwds w) s FN_NONAME)),
     sc_syntax = syntax_table junk w ks,
     sc_class = (\<lambda>s. do {
       ct \<leftarrow> KonohaSpace_getCT junk w ks s TY_unknown;
       (if ct = 0 then Some None
        else do { c \<leftarrow> mem_get (cts (csh w)) (unat ct - 1); Some (Some (c_cid c)) })
     })\<rparr>"

text \<open>What parsing changes: the class table, the keywords, and the messages.\<close>

record pst =
  psh :: cshare
  pkwds :: rules
  penv :: tenv

definition set_kw :: "u32 \<Rightarrow> token \<Rightarrow> token" where
  "set_kw k tk = Token (tt tk) k (ttext tk) (tline tk) (lpos tk) (topch tk)"

definition TK_isType :: "token \<Rightarrow> bool" where
  "TK_isType tk \<longleftrightarrow> tkw tk = KW_Type"

definition TK_type :: "token \<Rightarrow> u32" where
  "TK_type tk = topch tk"

definition set_type :: "u32 \<Rightarrow> token \<Rightarrow> token" where
  "set_type ty tk = Token (tt tk) KW_Type (ttext tk) (tline tk) (lpos tk) ty"

definition Token_resolved :: "scope \<Rightarrow> token \<Rightarrow> (token \<times> bool) option" where
  "Token_resolved sc tk = do {
     s \<leftarrow> text_of tk;
     kw \<leftarrow> sc_keyword sc s;
     Some (if kw = FN_NONAME then (tk, False)
       else (case sc_syntax sc kw of None \<Rightarrow> (tk, False)
         | Some syn \<Rightarrow> (if s_ty syn \<noteq> TY_unknown then set_type (s_ty syn) tk else set_kw kw tk, True)))
   }"

section \<open>Generic types\<close>

text \<open>The types in brackets; anything else but a comma makes it no type.\<close>

fun type_params :: "token list \<Rightarrow> u32 list option" where
  "type_params [] = Some []"
| "type_params (tk # tks) =
     (if TK_isType tk then map_option ((#) (TK_type tk)) (type_params tks)
      else if topch tk = scast (chr CHR '','') then type_params tks
      else None)"

definition perr :: "u64 \<Rightarrow> bytes \<Rightarrow> pst \<Rightarrow> pst" where
  "perr line msg st = st\<lparr>penv := SUGAR_ERR line msg (penv st)\<rparr>"

definition class_params :: "u32 list \<Rightarrow> kparam list" where
  "class_params ps = map (\<lambda>t. \<lparr>pty = t, pfn = 0\<rparr>) ps"

text \<open>
  The names in the parameter list of a class are left uninitialised and not read again; they are zero
  here. The result is the type token with its new class, or no token if the brackets are no parameters.
\<close>

definition TokenType_resolveGenerics ::
    "garbage \<Rightarrow> token \<Rightarrow> token \<Rightarrow> pst \<Rightarrow> (token option \<times> pst) option" where
  "TokenType_resolveGenerics junk tk tkP st =
     (if tt tkP = AST_BRACKET then do {
        sub \<leftarrow> sub_tokens tkP;
        (case type_params sub of
           None \<Rightarrow> Some (None, st)
         | Some [] \<Rightarrow> do {
             (sh, c) \<leftarrow> CT_p0 junk (psh st) (unat CLASS_Array) (TK_type tk);
             ct \<leftarrow> mem_get (cts sh) c;
             Some (Some (set_type (c_cid ct) tk), st\<lparr>psh := sh\<rparr>)
           }
         | Some (p # ps) \<Rightarrow> do {
             ct \<leftarrow> CT_at (psh st) (TK_type tk);
             (if c_bcid ct = CLASS_Func then do {
                (sh, c) \<leftarrow> CT_Generics junk (psh st) (unat (TK_type tk)) p (class_params ps);
                ct \<leftarrow> mem_get (cts sh) c;
                Some (Some (set_type (c_cid ct) tk), st\<lparr>psh := sh\<rparr>)
              }
              else if c_p0 ct = CLASS_Tvoid then do {
                (sh, ns) \<leftarrow> CT_shortName (psh st) [unat (TK_type tk)];
                Some (Some tk, perr (tline tk) (lit ''not generic type: '' @ hd ns) (st\<lparr>psh := sh\<rparr>))
              }
              else do {
                (sh, c) \<leftarrow> CT_Generics junk (psh st) (unat (TK_type tk)) CLASS_Tvoid (class_params (p # ps));
                ct \<leftarrow> mem_get (cts sh) c;
                Some (Some (set_type (c_cid ct) tk), st\<lparr>psh := sh\<rparr>)
              })
           })
      } else Some (None, st))"

section \<open>Trees\<close>

text \<open>
  A parser of a group at a position of the source up to its end: the token of the group, the last
  position, and the error token if there is one.
\<close>

type_synonym grouper = "ktoken \<Rightarrow> nat \<Rightarrow> byte \<Rightarrow> pst \<Rightarrow> (token \<times> nat \<times> token option \<times> pst) option"

text \<open>The keyword of a single token; \<open>False\<close> is an operator that is none.\<close>

definition classify :: "scope \<Rightarrow> token \<Rightarrow> (token \<times> bool) option" where
  "classify sc tk =
     (let tk = (if kw_of (tt tk) < kw_of TK_OPERATOR then set_kw (kw_of (tt tk)) tk else tk) in
      if tt tk = TK_SYMBOL then map_option (\<lambda>(tk, _). (tk, True)) (Token_resolved sc tk)
      else if tt tk = TK_USYMBOL then do {
        (tk, r) \<leftarrow> Token_resolved sc tk;
        (if r then Some (tk, True) else do {
           s \<leftarrow> text_of tk;
           c \<leftarrow> sc_class sc s;
           Some (case c of None \<Rightarrow> tk | Some cid \<Rightarrow> set_type cid tk, True)
         })
      }
      else if tt tk = TK_OPERATOR then Token_resolved sc tk
      else if tt tk = TK_CODE then Some (set_kw (kw_of AST_BRACE) tk, True)
      else Some (tk, True))"

text \<open>
  The brackets behind a type: the tokens appended for the type and the position of the last token that was
  used. The number of rounds is bounded by the tokens left.
\<close>

primrec generics_loop ::
    "nat \<Rightarrow> garbage \<Rightarrow> grouper \<Rightarrow> token list \<Rightarrow> nat \<Rightarrow> token \<Rightarrow> nat \<Rightarrow> token option \<Rightarrow> pst
     \<Rightarrow> (token list \<times> nat \<times> token option \<times> pst) option" where
  "generics_loop 0 junk grp tls e tk next err st = None"
| "generics_loop (Suc k) junk grp tls e tk next err st =
     (if next + 1 < e then do {
        tkB \<leftarrow> mem_get tls (next + 1);
        (if topch tkB \<noteq> scast (chr CHR ''['') then Some ([tk], next, err, st)
         else do {
           (tkB, next, err', st) \<leftarrow> grp AST_BRACKET (next + 1) (chr CHR '']'') st;
           let err = (if err' = None then err else err');
           (r, st) \<leftarrow> TokenType_resolveGenerics junk tk tkB st;
           (case r of
              None \<Rightarrow> Some ([tk, tkB], next, err, st)
            | Some tk \<Rightarrow> generics_loop k junk grp tls e tk next err st)
         })
      } else Some ([tk], next, err, st))"

text \<open>
  The tokens that are appended, the position of the last token that was used, the error token if there is
  one, and the token at the position as it was changed.
\<close>

definition appendKeyword ::
    "garbage \<Rightarrow> scope \<Rightarrow> grouper \<Rightarrow> token list \<Rightarrow> nat \<Rightarrow> nat \<Rightarrow> pst
     \<Rightarrow> (token list \<times> nat \<times> token option \<times> token \<times> pst) option" where
  "appendKeyword junk sc grp tls s e st = do {
     tk \<leftarrow> mem_get tls s;
     (tk, ok) \<leftarrow> classify sc tk;
     (if \<not> ok then do {
        t \<leftarrow> kToken_s tk;
        let st = perr (tline tk) (lit ''undefined token: '' @ t) st;
        let tk = Token_toERR (last (errors (penv st))) tk;
        Some ([], e, Some tk, tk, st)
      }
      else if TK_isType tk then do {
        (ts, next, err, st) \<leftarrow> generics_loop (e + 1) junk grp tls e tk s None st;
        Some (ts, next, err, hd ts, st)
      }
      else if kw_of TK_INDENT < tkw tk then Some ([tk], s, None, tk, st)
      else Some ([], s, None, tk, st))
   }"

text \<open>
  The loop of \<^verbatim>\<open>makeTree\<close> from position \<open>i\<close>: the tokens of the group so far, the token read last, and
  the place a missing bracket is reported to be before.
\<close>

definition group_token :: "ktoken \<Rightarrow> token \<Rightarrow> byte \<Rightarrow> token list \<Rightarrow> token" where
  "group_token t tk closech sub = Token t (kw_of t) (Sub sub) (tline tk) (scast closech) (topch tk)"

definition close_error ::
    "token list \<Rightarrow> nat \<Rightarrow> token \<Rightarrow> byte \<Rightarrow> token \<Rightarrow> nat \<Rightarrow> pst \<Rightarrow> (token \<times> nat \<times> token option \<times> pst) option" where
  "close_error tls e tkP closech tk pcb st =
     (if tt tk \<noteq> TK_ERR then do {
        p \<leftarrow> mem_get tls pcb;
        t \<leftarrow> kToken_s p;
        let st = perr (tline tk) ([chr CHR 0x27, closech, chr CHR 0x27] @ lit '' is expected (probably before '' @ t @ lit '')'') st;
        let tkP = Token_toERR (last (errors (penv st))) tkP;
        Some (tkP, e, Some tkP, st)
      } else do {
        t \<leftarrow> text_of tk;
        let tkP = Token_toERR t tkP;
        Some (tkP, e, Some tkP, st)
      })"

function tree_loop ::
    "garbage \<Rightarrow> scope \<Rightarrow> grouper \<Rightarrow> token list \<Rightarrow> nat \<Rightarrow> byte \<Rightarrow> nat \<Rightarrow> token list \<Rightarrow> token \<Rightarrow> nat \<Rightarrow> token option \<Rightarrow> pst
     \<Rightarrow> (token list \<times> (nat + token \<times> nat) \<times> token option \<times> pst) option" where
  "tree_loop junk sc grp tls e closech i sub tk pcb err st =
     (if e \<le> i then Some (sub, Inr (tk, pcb), err, st)
      else (case mem_get tls i of None \<Rightarrow> None
        | Some tk \<Rightarrow>
            if tkw tk \<noteq> 0 then tree_loop junk sc grp tls e closech (i + 1) (sub @ [tk]) tk pcb err st
            else if tt tk = TK_ERR then Some (sub, Inr (tk, pcb), err, st)
            else if topch tk = scast (chr CHR ''{'') then None
            else if topch tk = scast (chr CHR ''('') \<or> topch tk = scast (chr CHR ''['') then
              (case (if topch tk = scast (chr CHR ''('') then grp AST_PARENTHESIS i (chr CHR '')'') st
                     else grp AST_BRACKET i (chr CHR '']'') st) of None \<Rightarrow> None
               | Some (t, j, err', st) \<Rightarrow>
                   if j < i then None
                   else tree_loop junk sc grp tls e closech (j + 1) (sub @ [t]) tk pcb
                          (if err' = None then err else err') st)
            else if topch tk = scast closech then Some (sub, Inl i, err, st)
            else (let pcb = (if (closech = chr CHR '')'' \<or> closech = chr CHR '']'') \<and> tt tk = TK_CODE then i else pcb)
              in if tt tk = TK_INDENT \<and> closech \<noteq> chr CHR ''}''
                 then tree_loop junk sc grp tls e closech (i + 1) sub tk pcb err st
                 else (case appendKeyword junk sc grp tls i e st of None \<Rightarrow> None
                   | Some (ts, j, err', tk, st) \<Rightarrow>
                       if j < i then None
                       else tree_loop junk sc grp tls e closech (j + 1) (sub @ ts) tk pcb
                              (if err' = None then err else err') st))))"
  by pat_completeness auto
termination by (relation "measure (\<lambda>(_, _, _, _, e, _, i, _). e - i)") auto

declare tree_loop.simps [simp del]

definition makeTree_body ::
    "garbage \<Rightarrow> scope \<Rightarrow> grouper \<Rightarrow> token list \<Rightarrow> nat \<Rightarrow> grouper" where
  "makeTree_body junk sc grp tls e t s closech st = do {
     tk \<leftarrow> mem_get tls s;
     (if tkw tk \<noteq> 0 then None else do {
        (sub, r, err, st) \<leftarrow> tree_loop junk sc grp tls e closech (s + 1) [] tk (e - 1) None st;
        let tkP = group_token t tk closech sub;
        (case r of
           Inl i \<Rightarrow> Some (tkP, i, err, st)
         | Inr (tk, pcb) \<Rightarrow> close_error tls e tkP closech tk pcb st)
      })
   }"

text \<open>Groups in groups, to a depth the number of tokens bounds.\<close>

primrec makeTree :: "nat \<Rightarrow> garbage \<Rightarrow> scope \<Rightarrow> token list \<Rightarrow> nat \<Rightarrow> grouper" where
  "makeTree 0 junk sc tls e = (\<lambda>_ _ _ _. None)"
| "makeTree (Suc n) junk sc tls e = makeTree_body junk sc (makeTree n junk sc tls e) tls e"

section \<open>Lines of statements\<close>

text \<open>Annotations and indents in front of a statement.\<close>

function line_head ::
    "grouper \<Rightarrow> token list \<Rightarrow> nat \<Rightarrow> nat \<Rightarrow> u32 \<Rightarrow> token list \<Rightarrow> token option \<Rightarrow> pst
     \<Rightarrow> (nat \<times> u32 \<times> token list \<times> token option \<times> pst) option" where
  "line_head grp tls e i indent dst err st =
     (if e \<le> i + 1 then Some (i, indent, dst, err, st)
      else (case mem_get tls i of None \<Rightarrow> None
        | Some tk \<Rightarrow> (case mem_get tls (i + 1) of None \<Rightarrow> None
        | Some tk1 \<Rightarrow>
            if 0 < tkw tk then Some (i, indent, dst, err, st)
            else if topch tk = scast (chr CHR ''@'') \<and> (tt tk1 = TK_SYMBOL \<or> tt tk1 = TK_USYMBOL) then
              (let dst = dst @ [set_kw 0 (set_tt TK_METANAME tk1)] in
               if i + 2 < e \<and> topch (tls ! (i + 2)) = scast (chr CHR ''('') then
                 (case grp AST_PARENTHESIS (i + 2) (chr CHR '')'') st of None \<Rightarrow> None
                  | Some (t, j, err', st) \<Rightarrow>
                      if j < i then None
                      else line_head grp tls e (j + 1) indent (dst @ [t]) (if err' = None then err else err') st)
               else line_head grp tls e (i + 2) indent dst err st)
            else if tt tk = TK_METANAME then
              (if tt tk1 = AST_PARENTHESIS then line_head grp tls e (i + 2) indent (dst @ [tk, tk1]) err st
               else line_head grp tls e (i + 1) indent (dst @ [tk]) err st)
            else if tt tk \<noteq> TK_INDENT then Some (i, indent, dst, err, st)
            else line_head grp tls e (i + 1) (if indent = 0 then lpos tk else indent) dst err st)))"
  by pat_completeness auto
termination by (relation "measure (\<lambda>(_, _, e, i, _). e - i)") auto

declare line_head.simps [simp del]

function line_loop ::
    "garbage \<Rightarrow> scope \<Rightarrow> grouper \<Rightarrow> token list \<Rightarrow> nat \<Rightarrow> byte \<Rightarrow> u32 \<Rightarrow> nat \<Rightarrow> token list \<Rightarrow> token option \<Rightarrow> pst
     \<Rightarrow> (token list \<times> nat \<times> token option \<times> pst) option" where
  "line_loop junk sc grp tls e delim indent i dst err st =
     (if e \<le> i then Some (dst, i, err, st)
      else (case mem_get tls i of None \<Rightarrow> None
        | Some tk \<Rightarrow>
            if topch tk = scast delim \<and> tt tk = TK_OPERATOR then Some (dst, i + 1, err, st)
            else if 0 < tkw tk then line_loop junk sc grp tls e delim indent (i + 1) (dst @ [tk]) err st
            else if topch tk = scast (chr CHR ''('') \<or> topch tk = scast (chr CHR ''['') then
              (case (if topch tk = scast (chr CHR ''('') then grp AST_PARENTHESIS i (chr CHR '')'') st
                     else grp AST_BRACKET i (chr CHR '']'') st) of None \<Rightarrow> None
               | Some (t, j, err', st) \<Rightarrow>
                   if j < i then None
                   else line_loop junk sc grp tls e delim indent (j + 1) (dst @ [t])
                          (if err' = None then err else err') st)
            else (let err = (if tt tk = TK_ERR then Some tk else err) in
              if tt tk = TK_INDENT then
                (if lpos tk \<le> indent then Some (dst, i + 1, err, st)
                 else line_loop junk sc grp tls e delim indent (i + 1) dst err st)
              else (case appendKeyword junk sc grp tls i e st of None \<Rightarrow> None
                | Some (ts, j, err', tk, st) \<Rightarrow>
                    if j < i then None
                    else line_loop junk sc grp tls e delim indent (j + 1) (dst @ ts)
                           (if err' = None then err else err') st))))"
  by pat_completeness auto
termination by (relation "measure (\<lambda>(_, _, _, _, e, _, _, i, _). e - i)") auto

declare line_loop.simps [simp del]

text \<open>
  The next line of the source: its tokens, where the next one begins, the indent of the block, and the
  error token if there is one.
\<close>

definition selectStmtLine ::
    "garbage \<Rightarrow> scope \<Rightarrow> token list \<Rightarrow> nat \<Rightarrow> nat \<Rightarrow> byte \<Rightarrow> u32 \<Rightarrow> pst
     \<Rightarrow> (token list \<times> nat \<times> u32 \<times> token option \<times> pst) option" where
  "selectStmtLine junk sc tls s e delim indent st =
     (if length tls < e then None else do {
        let grp = makeTree (length tls) junk sc tls e;
        (i, indent, dst, err, st) \<leftarrow> line_head grp tls e s indent [] None st;
        (dst, i, err, st) \<leftarrow> line_loop junk sc grp tls e delim indent i dst err st;
        Some (dst, i, indent, err, st)
      })"

end
