(* ===== verification/Statements.thy ===== *)
theory Statements
  imports Trees ParserEnds Strings "HOL-Library.AList"
begin

text \<open>
  The parser of statements of \<^verbatim>\<open>src/sugar/ast.h\<close>: a block is cut into lines, and each line is
  matched against the rule of the syntax that its first token, or an operator in it, has.

  A statement is its line, the keyword of its syntax, its state and its properties by keyword. Blocks in
  blocks are parsed by the parser for the next level, \<open>bkp\<close>. \<open>None\<close> is an access out of bounds, a
  null pointer or a failed assertion.
\<close>

section \<open>Data\<close>

definition KW_Err :: u32 where "KW_Err = 0"
definition KW_Expr :: u32 where "KW_Expr = 1"
definition KW_StmtTypeDecl :: u32 where "KW_StmtTypeDecl = KW_Type"
definition KW_void :: u32 where "KW_void = 18 + KW_DOT"
definition KW_StmtMethodDecl :: u32 where "KW_StmtMethodDecl = KW_void"

definition TSTMT_UNDEFINED :: nat where "TSTMT_UNDEFINED = 0"
definition TSTMT_ERR :: nat where "TSTMT_ERR = 1"

datatype kstmt = Stmt (st_line: u64) (st_syn: u32) (st_build: nat) (st_props: "(u32 \<times> sval) list")
  and sval = VExpr kexpr | VTok token | VToks "token list" | VBlock "kstmt list" | VTrue | VText bytes

type_synonym props = "(u32 \<times> sval) list"
type_synonym blocker = "token list \<Rightarrow> nat \<Rightarrow> nat \<Rightarrow> byte \<Rightarrow> pst \<Rightarrow> (kstmt list \<times> pst) option"

text \<open>The names of keywords and statements in messages.\<close>

definition T_kw :: "pst \<Rightarrow> u32 \<Rightarrow> bytes option" where
  "T_kw st kw = mem_get (slist (kws (pkwds st))) (unat kw)"

definition T_statement :: "pst \<Rightarrow> u32 \<Rightarrow> bytes option" where
  "T_statement st kw = do {
     s \<leftarrow> T_kw st kw;
     Some (snprintf 80 (if kw = KW_StmtMethodDecl then lit ''function declaration''
       else if kw = KW_StmtTypeDecl then lit ''variable declaration''
       else if kw = KW_Expr then lit ''expression''
       else s @ lit '' statement''))
   }"

text \<open>The parser of expressions with fuel for every token of the range.\<close>

definition newExpr :: "scope \<Rightarrow> u64 \<Rightarrow> token list \<Rightarrow> nat \<Rightarrow> nat \<Rightarrow> pst \<Rightarrow> (kexpr \<times> pst) option" where
  "newExpr sc line tls s e st = do {
     (x, env) \<leftarrow> Stmt_newExpr2 (sc_syntax sc) line (Suc (range_weight tls s e)) tls s e (penv st);
     Some (x, st\<lparr>penv := env\<rparr>)
   }"

section \<open>The patterns of rules\<close>

text \<open>
  A function for a pattern gives the position behind what it took, or none, and files what it found in the
  statement under a name.
\<close>

definition stmt_Expr :: "scope \<Rightarrow> u64 \<Rightarrow> u32 \<Rightarrow> token list \<Rightarrow> nat \<Rightarrow> nat \<Rightarrow> props \<Rightarrow> pst \<Rightarrow> (nat option \<times> props \<times> pst) option" where
  "stmt_Expr sc line name tls s e ps st = do {
     (x, st) \<leftarrow> newExpr sc line tls s e st;
     Some (if x \<noteq> NULLEXPR then (Some e, AList.update name (VExpr x) ps, st) else (None, ps, st))
   }"

definition stmt_token :: "(token \<Rightarrow> bool) \<Rightarrow> u32 \<Rightarrow> token list \<Rightarrow> nat \<Rightarrow> props \<Rightarrow> pst \<Rightarrow> (nat option \<times> props \<times> pst) option" where
  "stmt_token P name tls s ps st = do {
     tk \<leftarrow> mem_get tls s;
     Some (if P tk then (Some (s + 1), AList.update name (VTok tk) ps, st) else (None, ps, st))
   }"

definition stmt_Params :: "blocker \<Rightarrow> u32 \<Rightarrow> token list \<Rightarrow> nat \<Rightarrow> props \<Rightarrow> pst \<Rightarrow> (nat option \<times> props \<times> pst) option" where
  "stmt_Params bkp name tls s ps st = do {
     tk \<leftarrow> mem_get tls s;
     (if tt tk = AST_PARENTHESIS then do {
        sub \<leftarrow> sub_tokens tk;
        let ss = (if sub \<noteq> [] \<and> tkw (hd sub) = KW_void then 1 else 0);
        (bk, st) \<leftarrow> bkp sub ss (length sub) (chr CHR '','') st;
        Some (Some (s + 1), AList.update name (VBlock bk) ps, st)
      } else Some (None, ps, st))
   }"

definition stmt_Block :: "blocker \<Rightarrow> u32 \<Rightarrow> token list \<Rightarrow> nat \<Rightarrow> nat \<Rightarrow> props \<Rightarrow> pst \<Rightarrow> (nat option \<times> props \<times> pst) option" where
  "stmt_Block bkp name tls s e ps st = do {
     tk \<leftarrow> mem_get tls s;
     (if tt tk = TK_CODE then Some (Some (s + 1), AList.update name (VTok tk) ps, st)
      else if tt tk = AST_BRACE then do {
        sub \<leftarrow> sub_tokens tk;
        (bk, st) \<leftarrow> bkp sub 0 (length sub) (chr CHR '';'') st;
        Some (Some (s + 1), AList.update name (VBlock bk) ps, st)
      } else do {
        (bk, st) \<leftarrow> bkp tls s e (chr CHR '';'') st;
        Some (Some e, AList.update name (VBlock bk) ps, st)
      })
   }"

definition stmt_Toks :: "u32 \<Rightarrow> token list \<Rightarrow> nat \<Rightarrow> nat \<Rightarrow> props \<Rightarrow> pst \<Rightarrow> (nat option \<times> props \<times> pst) option" where
  "stmt_Toks name tls s e ps st =
     (if s < e then do {
        ts \<leftarrow> mem_read tls s (e - s);
        Some (Some e, AList.update name (VToks ts) ps, st)
      } else Some (None, ps, st))"

text \<open>Calling the function of a pattern; those that packages add are not modelled.\<close>

definition ParseStmt ::
    "scope \<Rightarrow> blocker \<Rightarrow> sfun \<Rightarrow> u64 \<Rightarrow> u32 \<Rightarrow> token list \<Rightarrow> nat \<Rightarrow> nat \<Rightarrow> props \<Rightarrow> pst
     \<Rightarrow> (nat option \<times> props \<times> pst) option" where
  "ParseStmt sc bkp f line name tls s e ps st =
     (case f of ParseStmt_Expr \<Rightarrow> stmt_Expr sc line name tls s e ps st
      | ParseStmt_Type \<Rightarrow> stmt_token TK_isType name tls s ps st
      | ParseStmt_Usymbol \<Rightarrow> stmt_token (\<lambda>tk. tt tk = TK_USYMBOL) name tls s ps st
      | ParseStmt_Symbol \<Rightarrow> stmt_token (\<lambda>tk. tt tk = TK_SYMBOL) name tls s ps st
      | ParseStmt_Params \<Rightarrow> stmt_Params bkp name tls s ps st
      | ParseStmt_Block \<Rightarrow> stmt_Block bkp name tls s e ps st
      | ParseStmt_Toks \<Rightarrow> stmt_Toks name tls s e ps st
      | _ \<Rightarrow> None)"

section \<open>Matching a rule\<close>

definition lookAheadKeyword :: "token list \<Rightarrow> nat \<Rightarrow> nat \<Rightarrow> token \<Rightarrow> nat option" where
  "lookAheadKeyword tls s e rule = List.find (\<lambda>i. i < length tls \<and> tkw (tls ! i) = tkw rule) [s..<e]"

type_synonym match_result = "(nat option \<times> props \<times> pst) option"

definition needs :: "u32 \<Rightarrow> token \<Rightarrow> (bytes \<Rightarrow> bytes) \<Rightarrow> props \<Rightarrow> pst \<Rightarrow> match_result" where
  "needs syn tk msg ps st = do {
     s \<leftarrow> T_statement st syn;
     Some (None, ps, perr (tline tk) (msg s) st)
   }"

definition needs_code :: "u32 \<Rightarrow> token \<Rightarrow> token \<Rightarrow> props \<Rightarrow> pst \<Rightarrow> match_result" where
  "needs_code syn tk rule ps st = do {
     k \<leftarrow> T_kw st (tkw rule);
     needs syn tk (\<lambda>s. s @ lit '' needs '' @ [chr CHR 0x27] @ k @ [chr CHR 0x27]) ps st
   }"

text \<open>When the rule or the tokens end: what the rule still has must be optional, and other tokens are ignored.\<close>

definition match_end :: "u32 \<Rightarrow> token list \<Rightarrow> u64 \<Rightarrow> token list \<Rightarrow> nat \<Rightarrow> nat \<Rightarrow> bool \<Rightarrow> props \<Rightarrow> pst \<Rightarrow> match_result" where
  "match_end syn rules line tls ti e optional ps st =
     (if optional then Some (Some ti, ps, st)
      else (case List.find (\<lambda>r. tt r \<noteq> AST_OPTIONAL) rules of
         Some rule \<Rightarrow> do {
           s \<leftarrow> T_statement st syn;
           k \<leftarrow> T_kw st (tkw rule);
           Some (None, ps, perr line (s @ lit '' needs syntax pattern: '' @ k) st)
         }
       | None \<Rightarrow> do {
           env \<leftarrow> WARN_Ignored tls ti e (penv st);
           Some (Some ti, ps, st\<lparr>penv := env\<rparr>)
         }))"

text \<open>
  A pattern of a rule on the tokens up to \<open>c\<close>: the position behind it and the statement. A pattern that
  fails without a message gets one.
\<close>

definition match_pattern ::
    "scope \<Rightarrow> blocker \<Rightarrow> u64 \<Rightarrow> u32 \<Rightarrow> token \<Rightarrow> sfun \<Rightarrow> token list \<Rightarrow> nat \<Rightarrow> nat \<Rightarrow> bool \<Rightarrow> props \<Rightarrow> pst \<Rightarrow> match_result" where
  "match_pattern sc bkp sline syn rule f tls ti c optional ps st = do {
     (next, ps, st') \<leftarrow> ParseStmt sc bkp f sline (lpos rule) tls ti c ps st;
     (if next \<noteq> None \<or> optional \<or> err_count (penv st') \<noteq> err_count (penv st) then Some (next, ps, st')
      else do {
        tk \<leftarrow> mem_get tls ti;
        t \<leftarrow> kToken_s tk;
        k \<leftarrow> T_kw st' (tkw rule);
        needs syn tk (\<lambda>s. s @ lit '' needs syntax pattern '' @ k @ lit '', not '' @ t @ lit '' ..'') ps st'
      })
   }"

lemma sub_tokens_weight:
  assumes "sub_tokens tk = Some ts"
  shows "sum_list (map tok_weight ts) < tok_weight tk"
  using assms by (cases tk) (auto simp: sub_tokens_def split: tbody.splits)

text \<open>
  Matching the rules from position \<open>ti\<close> on; an optional rule that does not match gives the position \<open>s\<close>
  where it began. A pattern that is followed by a word of the rule ends where the word stands.
\<close>

function match_loop ::
    "scope \<Rightarrow> blocker \<Rightarrow> u64 \<Rightarrow> u32 \<Rightarrow> token list \<Rightarrow> u64 \<Rightarrow> token list \<Rightarrow> nat \<Rightarrow> nat \<Rightarrow> nat \<Rightarrow> bool \<Rightarrow> props \<Rightarrow> pst
     \<Rightarrow> match_result" where
  "match_loop sc bkp sline syn [] line tls s ti e optional ps st = match_end syn [] line tls ti e optional ps st"
| "match_loop sc bkp sline syn (rule # rules) line tls s ti e optional ps st =
     (if e \<le> ti then match_end syn (rule # rules) line tls ti e optional ps st
      else (case mem_get tls ti of None \<Rightarrow> None
        | Some tk \<Rightarrow>
            if tt rule = TK_CODE then
              (if tkw rule \<noteq> tkw tk then
                 (if optional then Some (Some s, ps, st) else needs_code syn tk rule ps st)
               else match_loop sc bkp sline syn rules (tline tk) tls s (ti + 1) e optional ps st)
            else if tt rule = TK_METANAME then
              (case sc_syntax sc (tkw rule) \<bind> s_ParseStmt of
                 None \<Rightarrow> do {
                   k \<leftarrow> T_kw st (tkw rule);
                   Some (None, ps, perr (tline tk) (lit ''unknown syntax pattern: '' @ k) st)
                 }
               | Some f \<Rightarrow>
                   (if rules \<noteq> [] \<and> tt (hd rules) = TK_CODE then
                      (case lookAheadKeyword tls (ti + 1) e (hd rules) of
                         None \<Rightarrow> if optional then Some (Some s, ps, st) else needs_code syn tk rule ps st
                       | Some c \<Rightarrow>
                           (case match_pattern sc bkp sline syn rule f tls ti c optional ps st of None \<Rightarrow> None
                            | Some (next, ps, st) \<Rightarrow>
                                if next = None then Some (if optional then Some s else None, ps, st)
                                else match_loop sc bkp sline syn (tl rules) (tline tk) tls s (c + 1) e optional ps st))
                    else
                      (case match_pattern sc bkp sline syn rule f tls ti e optional ps st of None \<Rightarrow> None
                       | Some (next, ps, st) \<Rightarrow>
                           (case next of None \<Rightarrow> Some (if optional then Some s else None, ps, st)
                            | Some n \<Rightarrow> match_loop sc bkp sline syn rules (tline tk) tls s n e optional ps st))))
            else if tt rule = AST_OPTIONAL then
              (case sub_tokens rule of None \<Rightarrow> None
               | Some sub \<Rightarrow>
                   (case match_loop sc bkp sline syn sub (tline tk) tls ti ti e True ps st of None \<Rightarrow> None
                    | Some (next, ps, st) \<Rightarrow>
                        (case next of None \<Rightarrow> Some (None, ps, st)
                         | Some n \<Rightarrow> match_loop sc bkp sline syn rules (tline tk) tls s n e optional ps st)))
            else if tt rule \<in> {AST_PARENTHESIS, AST_BRACE, AST_BRACKET} then
              (if tt tk = tt rule \<and> topch rule = topch tk then
                 (case sub_tokens rule of None \<Rightarrow> None
                  | Some sub \<Rightarrow> (case sub_tokens tk of None \<Rightarrow> None
                     | Some ts \<Rightarrow>
                         (case match_loop sc bkp sline syn sub (tline tk) ts 0 0 (length ts) False ps st of None \<Rightarrow> None
                          | Some (next, ps, st) \<Rightarrow>
                              if next = None then Some (None, ps, st)
                              else match_loop sc bkp sline syn rules (tline tk) tls s (ti + 1) e optional ps st)))
               else if optional then Some (Some s, ps, st)
               else needs syn tk (\<lambda>x. x @ lit '' needs '' @ [chr CHR 0x27, ucast (topch rule), chr CHR 0x27]) ps st)
            else match_loop sc bkp sline syn rules (tline tk) tls s ti e optional ps st))"
  by pat_completeness auto

termination
  by (relation "measure (\<lambda>(_, _, _, _, rules, _). sum_list (map tok_weight rules))")
     (auto simp: tok_weight_pos neq_Nil_conv dest: sub_tokens_weight)

declare match_loop.simps [simp del]


section \<open>Statements and blocks\<close>

definition lookAhead :: "pst \<Rightarrow> token list \<Rightarrow> nat \<Rightarrow> nat \<Rightarrow> token option" where
  "lookAhead st tls s e = (if s < e then mem_get tls s else Some (nulltk (penv st)))"

text \<open>The first operator behind position \<open>i\<close> whose syntax has a rule of its own.\<close>

primrec operator_rule :: "syntab \<Rightarrow> token list \<Rightarrow> ksyntax option option" where
  "operator_rule SY [] = Some None"
| "operator_rule SY (tk # tks) =
     (case SY (tkw tk) of None \<Rightarrow> None
      | Some syn \<Rightarrow> if s_rule syn \<noteq> None \<and> 0 < s_priority syn then Some (Some syn) else operator_rule SY tks)"

definition getSyntaxRule :: "scope \<Rightarrow> token list \<Rightarrow> nat \<Rightarrow> nat \<Rightarrow> pst \<Rightarrow> ksyntax option" where
  "getSyntaxRule sc tls s e st = do {
     tk \<leftarrow> mem_get tls s;
     (if TK_isType tk then do {
        tk1 \<leftarrow> lookAhead st tls (s + 1) e;
        (if tt tk1 = TK_SYMBOL \<or> tt tk1 = TK_USYMBOL then do {
           tk2 \<leftarrow> lookAhead st tls (s + 2) e;
           sc_syntax sc (if tt tk2 = AST_PARENTHESIS \<or> tkw tk2 = KW_DOT then KW_StmtMethodDecl else KW_StmtTypeDecl)
         } else sc_syntax sc KW_Expr)
      } else do {
        syn \<leftarrow> sc_syntax sc (tkw tk);
        (if s_rule syn = None then do {
           tks \<leftarrow> mem_read tls (s + 1) (e - (s + 1));
           r \<leftarrow> operator_rule (sc_syntax sc) tks;
           (case r of Some syn \<Rightarrow> Some syn | None \<Rightarrow> sc_syntax sc KW_Expr)
         } else Some syn)
      })
   }"

text \<open>The syntax that was found, and whether the line matched its rule.\<close>

definition parseSyntaxRule_on ::
    "scope \<Rightarrow> blocker \<Rightarrow> u64 \<Rightarrow> token list \<Rightarrow> nat \<Rightarrow> nat \<Rightarrow> props \<Rightarrow> pst \<Rightarrow> (ksyntax \<times> bool \<times> props \<times> pst) option" where
  "parseSyntaxRule_on sc bkp line tls s e ps st = do {
     syn \<leftarrow> getSyntaxRule sc tls s e st;
     (case s_rule syn of
        Some rules \<Rightarrow> do {
          (next, ps, st) \<leftarrow> match_loop sc bkp line (s_kw syn) rules line tls s s e False ps st;
          Some (syn, next \<noteq> None, ps, st)
        }
      | None \<Rightarrow> do {
          k \<leftarrow> T_kw st (s_kw syn);
          Some (syn, False, ps, perr line (lit ''undefined syntax rule for '' @ [chr CHR 0x27] @ k @ [chr CHR 0x27]) st)
        })
   }"

text \<open>
  Annotations become properties under the keyword \<open>@name\<close>. The name is written into 64 bytes but read back
  with its full length; a longer one reads what lies behind.
\<close>

function addAnnotation ::
    "garbage \<Rightarrow> scope \<Rightarrow> u64 \<Rightarrow> token list \<Rightarrow> nat \<Rightarrow> nat \<Rightarrow> props \<Rightarrow> pst \<Rightarrow> (nat \<times> props \<times> pst) option" where
  "addAnnotation junk sc line tls i e ps st =
     (if e \<le> i then Some (i, ps, st)
      else (case mem_get tls i of None \<Rightarrow> None
        | Some tk \<Rightarrow>
            if tt tk \<noteq> TK_METANAME then Some (i, ps, st)
            else if e \<le> i + 1 then addAnnotation junk sc line tls (i + 1) e ps st
            else (case do {
                t \<leftarrow> Tokenizer.text_of tk;
                n \<leftarrow> mem_read (snprintf 64 (chr CHR ''@'' # t) @ [0]) 0 (length t + 1);
                (ks, kw) \<leftarrow> keyword (j_name junk) (pkwds st) n FN_NEWID;
                let st = st\<lparr>pkwds := ks\<rparr>;
                tk1 \<leftarrow> mem_get tls (i + 1);
                (if tt tk1 = AST_PARENTHESIS then do {
                   sub \<leftarrow> sub_tokens tk1;
                   (x, st) \<leftarrow> newExpr sc line sub 0 (length sub) st;
                   Some (i + 2, AList.update kw (VExpr x) ps, st)
                 } else Some (i + 1, AList.update kw VTrue ps, st))
              } of None \<Rightarrow> None
               | Some (j, ps, st) \<Rightarrow> if j \<le> i then None else addAnnotation junk sc line tls j e ps st)))"
  by pat_completeness auto
termination by (relation "measure (\<lambda>(_, _, _, _, i, e, _). e - i)") auto

declare addAnnotation.simps [simp del]

text \<open>The first message from number \<open>eno\<close> on that reports an error; there being none aborts.\<close>

definition kstrerror :: "pst \<Rightarrow> nat \<Rightarrow> bytes option" where
  "kstrerror st eno = List.find
     (\<lambda>m. case strstr (m @ [0]) (lit ''(error)'' @ [0]) of Some (Some _) \<Rightarrow> True | _ \<Rightarrow> False)
     (drop eno (errors (penv st)))"

definition addStmtLine ::
    "garbage \<Rightarrow> scope \<Rightarrow> blocker \<Rightarrow> token list \<Rightarrow> nat \<Rightarrow> nat \<Rightarrow> token option \<Rightarrow> pst \<Rightarrow> (kstmt \<times> pst) option" where
  "addStmtLine junk sc bkp tls s e err st = do {
     tk \<leftarrow> mem_get tls s;
     let line = tline tk;
     (case err of
        Some tkERR \<Rightarrow> do {
          err_syn \<leftarrow> sc_syntax sc KW_Err;
          m \<leftarrow> Tokenizer.text_of tkERR;
          Some (Stmt line (s_kw err_syn) TSTMT_ERR [(KW_Err, VText m)], st)
        }
      | None \<Rightarrow> do {
          let estart = length (errors (penv st));
          (i, ps, st) \<leftarrow> addAnnotation junk sc line tls s e [] st;
          (syn, ok, ps, st) \<leftarrow> parseSyntaxRule_on sc bkp line tls i e ps st;
          (if ok then Some (Stmt line (s_kw syn) TSTMT_UNDEFINED ps, st)
           else do {
             err_syn \<leftarrow> sc_syntax sc KW_Err;
             m \<leftarrow> kstrerror st estart;
             Some (Stmt line (s_kw err_syn) TSTMT_ERR (AList.update KW_Err (VText m) ps), st)
           })
        })
   }"

text \<open>
  The loop of \<^verbatim>\<open>new_Block\<close>: each line is appended to the source behind its end, parsed there, and cut
  off again.
\<close>

function block_lines ::
    "garbage \<Rightarrow> scope \<Rightarrow> blocker \<Rightarrow> token list \<Rightarrow> byte \<Rightarrow> nat \<Rightarrow> nat \<Rightarrow> u32 \<Rightarrow> kstmt list \<Rightarrow> pst \<Rightarrow> (kstmt list \<times> pst) option" where
  "block_lines junk sc bkp tls delim i e indent bk st =
     (if e \<le> i then Some (bk, st)
      else (case selectStmtLine junk sc tls i e delim indent st of None \<Rightarrow> None
        | Some (ts, j, indent, err, st) \<Rightarrow>
            if j \<le> i then None
            else if ts = [] then block_lines junk sc bkp tls delim j e indent bk st
            else (case addStmtLine junk sc bkp (tls @ ts) (length tls) (length tls + length ts) err st of None \<Rightarrow> None
              | Some (stmt, st) \<Rightarrow> block_lines junk sc bkp tls delim j e indent (bk @ [stmt]) st)))"
  by pat_completeness auto
termination by (relation "measure (\<lambda>(_, _, _, _, _, i, e, _). e - i)") auto

declare block_lines.simps [simp del]

primrec new_Block :: "nat \<Rightarrow> garbage \<Rightarrow> scope \<Rightarrow> blocker" where
  "new_Block 0 junk sc = (\<lambda>_ _ _ _ _. None)"
| "new_Block (Suc n) junk sc =
     (\<lambda>tls s e delim st. block_lines junk sc (new_Block n junk sc) tls delim s e 0 [] st)"

end
