(* ===== verification/ParserFacts.thy ===== *)
theory ParserFacts
  imports Parser
begin

text \<open>
  What the expression parser promises: it ends on every list of tokens, it finds again the tree of
  operators, groups, fields and calls a text was printed from, and where it does not do what the text
  says.
\<close>

section \<open>Trees of expressions and their tokens\<close>

datatype expr =
    Atom token
  | Group token expr
  | Unary token expr
  | Binary expr token expr
  | Dot expr token token
  | Call expr token "expr list"

definition with_sub :: "token \<Rightarrow> token list \<Rightarrow> token" where
  "with_sub t ts = Token (tt t) (tkw t) (Sub ts) (tline t) (lpos t) (topch t)"

fun commas :: "token \<Rightarrow> token list list \<Rightarrow> token list" where
  "commas c [] = []"
| "commas c [ts] = ts"
| "commas c (ts # u # tss) = ts @ c # commas c (u # tss)"

fun print :: "token \<Rightarrow> expr \<Rightarrow> token list" where
  "print c (Atom t) = [t]"
| "print c (Group t e) = [with_sub t (print c e)]"
| "print c (Unary t e) = t # print c e"
| "print c (Binary a t b) = print c a @ t # print c b"
| "print c (Dot a t n) = print c a @ [t, n]"
| "print c (Call f t xs) = print c f @ [with_sub t (commas c (map (print c) xs))]"

text \<open>The expression that the parser builds for a tree.\<close>

definition op_node :: "syntab \<Rightarrow> bool \<Rightarrow> token \<Rightarrow> kexpr list \<Rightarrow> kexpr" where
  "op_node SY unary t es =
     (let syn = the (SY (tkw t)); mn = (if unary then s_op1 syn else s_op2 syn);
          call = (mn \<noteq> MN_NONAME \<and> s_ExprTyCheck syn = UndefinedExprTyCheck)
      in ECons (s_kw (if call then the (SY KW_ExprMethodCall) else syn))
           (ETok (if call then kToken_setmn t mn (if unary then MNTYPE_unary else MNTYPE_binary) else t)
            # map EExpr es))"

definition add_args :: "kexpr option \<Rightarrow> kexpr list \<Rightarrow> kexpr" where
  "add_args f es = (case f of Some (ECons k hs) \<Rightarrow> ECons k (hs @ map EExpr es) | _ \<Rightarrow> NULLEXPR)"

fun elab :: "syntab \<Rightarrow> expr \<Rightarrow> kexpr" where
  "elab SY (Atom t) = ETerm (Some (s_kw (the (SY (tkw t))))) t"
| "elab SY (Group t e) = elab SY e"
| "elab SY (Unary t e) = op_node SY True t [elab SY e]"
| "elab SY (Binary a t b) = op_node SY False t [elab SY a, elab SY b]"
| "elab SY (Dot a t n) = ECons (s_kw (the (SY (tkw t)))) [ETok n, EExpr (elab SY a)]"
| "elab SY (Call f t xs) = add_args (call_head SY (elab SY f)) (map (elab SY) xs)"

text \<open>Unary operators in front, the first operand's own syntax where it could be an operator, and the
  operators the search meets behind it.\<close>

fun lead :: "expr \<Rightarrow> nat" where
  "lead (Unary t e) = Suc (lead e)"
| "lead (Binary a t b) = lead a"
| "lead (Dot a t n) = lead a"
| "lead (Call f t xs) = lead f"
| "lead _ = 0"

definition positive :: "nat \<Rightarrow> ksyntax option \<Rightarrow> (nat \<times> ksyntax) list" where
  "positive i r = (case r of None \<Rightarrow> [] | Some syn \<Rightarrow> if 0 < s_priority syn then [(i, syn)] else [])"

fun first_op :: "syntab \<Rightarrow> expr \<Rightarrow> nat \<Rightarrow> (nat \<times> ksyntax) list" where
  "first_op SY (Atom t) i = []"
| "first_op SY (Group t e) i = positive i (SY (tkw t))"
| "first_op SY (Unary t e) i = first_op SY e i"
| "first_op SY (Binary a t b) i = first_op SY a i"
| "first_op SY (Dot a t n) i = first_op SY a i"
| "first_op SY (Call f t xs) i = first_op SY f i"

definition width :: "expr \<Rightarrow> nat" where
  "width x = length (print (Token TK_NONE 0 (Text []) 0 0 0) x)"

fun ops :: "syntab \<Rightarrow> expr \<Rightarrow> nat \<Rightarrow> (nat \<times> ksyntax) list" where
  "ops SY (Binary a t b) i =
     ops SY a i @ (i + width a, the (SY (tkw t)))
       # first_op SY b (i + width a + 1 + lead b) @ ops SY b (i + width a + 1)"
| "ops SY (Dot a t n) i = ops SY a i @ [(i + width a, the (SY (tkw t)))]"
| "ops SY (Call f t xs) i = ops SY f i @ [(i + width f, the (SY (tkw t)))]"
| "ops SY _ i = []"

text \<open>
  A tree prints to its own text when each token has the syntax of its place and each operator binds
  looser than those its text stands next to: than all operators on its left, or as loose and not
  left-joined, and no operator on its right is better.
\<close>

definition has_syntax :: "syntab \<Rightarrow> token \<Rightarrow> (ksyntax \<Rightarrow> bool) \<Rightarrow> bool" where
  "has_syntax SY t P \<longleftrightarrow> tkw t \<noteq> KW_COMMA \<and> (case SY (tkw t) of None \<Rightarrow> False | Some syn \<Rightarrow> P syn)"

definition postfix :: "ksyntax \<Rightarrow> bool" where
  "postfix syn \<longleftrightarrow> FLAG_is (s_flag syn) SYNFLAG_ExprPostfixOp2"

definition loosest :: "syntab \<Rightarrow> expr \<Rightarrow> token \<Rightarrow> (nat \<times> ksyntax) list \<Rightarrow> bool" where
  "loosest SY a t rs \<longleftrightarrow> (\<forall>x\<in>snd ` set (ops SY a 0). better (s_priority x) (the (SY (tkw t))))
     \<and> (\<forall>x\<in>snd ` set rs. \<not> better (s_priority (the (SY (tkw t)))) x)"

fun wf_expr :: "syntab \<Rightarrow> expr \<Rightarrow> bool" where
  "wf_expr SY (Atom t) \<longleftrightarrow> has_syntax SY t
     (\<lambda>s. s_op1 s = MN_NONAME \<and> s_priority s \<le> 0 \<and> s_ParseExpr s = ParseExpr_Term)"
| "wf_expr SY (Group t e) \<longleftrightarrow> wf_expr SY e \<and> has_syntax SY t
     (\<lambda>s. s_op1 s = MN_NONAME \<and> postfix s \<and> s_ParseExpr s = ParseExpr_Parenthesis)"
| "wf_expr SY (Unary t e) \<longleftrightarrow> wf_expr SY e \<and> ops SY e 0 = [] \<and> has_syntax SY t
     (\<lambda>s. s_op1 s \<noteq> MN_NONAME \<and> s_ParseExpr s = ParseExpr_Op)"
| "wf_expr SY (Binary a t b) \<longleftrightarrow> wf_expr SY a \<and> wf_expr SY b \<and> loosest SY a t (first_op SY b 0 @ ops SY b 0) \<and> has_syntax SY t
     (\<lambda>s. 0 < s_priority s \<and> \<not> postfix s \<and> s_ParseExpr s = ParseExpr_Op)"
| "wf_expr SY (Dot a t n) \<longleftrightarrow> wf_expr SY a \<and> loosest SY a t [] \<and> has_syntax SY t
       (\<lambda>s. 0 < s_priority s \<and> s_ParseExpr s = ParseExpr_DOT)
     \<and> tt n \<in> {TK_SYMBOL, TK_USYMBOL, TK_MSYMBOL}
     \<and> has_syntax SY n (\<lambda>s. s_op1 s = MN_NONAME \<and> s_priority s \<le> 0)"
| "wf_expr SY (Call f t xs) \<longleftrightarrow> wf_expr SY f \<and> loosest SY f t [] \<and> has_syntax SY t
       (\<lambda>s. 0 < s_priority s \<and> postfix s \<and> s_ParseExpr s = ParseExpr_Parenthesis)
     \<and> (case call_head SY (elab SY f) of Some (ECons k es) \<Rightarrow> True | _ \<Rightarrow> False)
     \<and> (\<forall>x\<in>set xs. wf_expr SY x)"

fun nodes :: "expr \<Rightarrow> nat" where
  "nodes (Atom t) = 1"
| "nodes (Group t e) = Suc (nodes e)"
| "nodes (Unary t e) = Suc (nodes e)"
| "nodes (Binary a t b) = Suc (nodes a + nodes b)"
| "nodes (Dot a t n) = Suc (nodes a)"
| "nodes (Call f t xs) = Suc (nodes f + sum_list (map nodes xs))"

section \<open>Tokens at a place of a list\<close>

definition at_place :: "token list \<Rightarrow> nat \<Rightarrow> token list \<Rightarrow> bool" where
  "at_place tls s ts \<longleftrightarrow> (\<forall>i<length ts. mem_get tls (s + i) = Some (ts ! i))"

lemma at_place_Nil [simp]: "at_place tls s []"
  by (simp add: at_place_def)

lemma at_place_Cons [simp]:
  "at_place tls s (t # ts) \<longleftrightarrow> mem_get tls s = Some t \<and> at_place tls (Suc s) ts"
  by (simp add: at_place_def All_less_Suc2)

lemma at_place_append [simp]:
  "at_place tls s (a @ b) \<longleftrightarrow> at_place tls s a \<and> at_place tls (s + length a) b"
proof (induction a arbitrary: s)
  case (Cons t a)
  show ?case by (simp add: Cons.IH[of "Suc s"])
qed simp

lemma at_place_whole: "at_place (pre @ ts @ post) (length pre) ts"
  by (auto simp: at_place_def mem_get_def nth_append)

lemma width_simps [simp]:
  "width (Atom t) = 1" "width (Group t e) = 1" "width (Unary t e) = Suc (width e)"
  "width (Binary a t b) = Suc (width a + width b)" "width (Dot a t n) = width a + 2"
  "width (Call f t xs) = Suc (width f)"
  by (simp_all add: width_def)

lemma length_print [simp]: "length (print c x) = width x"
  by (induction x) simp_all

lemma width_pos [simp]: "0 < width x"
  by (induction x) simp_all

lemma width_neq [simp]: "width x \<noteq> 0"
  using width_pos[of x] by linarith

lemma lead_less: "lead x < width x"
  by (induction x) simp_all

lemma first_op_syntaxes: "map snd (first_op SY x i) = map snd (first_op SY x j)"
  by (induction x) (auto simp: positive_def split: option.splits)

lemma ops_syntaxes: "map snd (ops SY x i) = map snd (ops SY x j)"
proof (induction x arbitrary: i j)
  case (Binary a t b)
  show ?case
    using Binary.IH(1)[of i j] Binary.IH(2)[of "i + width a + 1" "j + width a + 1"]
      first_op_syntaxes[of SY b "i + width a + 1 + lead b" "j + width a + 1 + lead b"]
    by simp
qed auto


section \<open>What the search for the operator meets\<close>

lemma has_syntaxE [elim]:
  assumes "has_syntax SY t P"
  obtains syn where "SY (tkw t) = Some syn" "P syn" "tkw t \<noteq> KW_COMMA"
  using assms by (auto simp: has_syntax_def split: option.splits)

lemma has_syntaxD: "has_syntax SY t P \<Longrightarrow> \<exists>syn. SY (tkw t) = Some syn \<and> P syn \<and> tkw t \<noteq> KW_COMMA"
  by auto

definition step :: "nat \<times> ksyntax \<Rightarrow> (nat \<times> ksyntax) option \<times> int \<Rightarrow> (nat \<times> ksyntax) option \<times> int" where
  "step x bp = (if better (snd bp) (snd x) then (Some x, s_priority (snd x)) else bp)"

lemma skip_Unary:
  "s < e \<Longrightarrow> mem_get tls s = Some t \<Longrightarrow> SY (tkw t) = Some syn \<Longrightarrow> s_op1 syn \<noteq> MN_NONAME
    \<Longrightarrow> Stmt_skipUnaryOp SY tls s e = Stmt_skipUnaryOp SY tls (Suc s) e"
  by (subst Stmt_skipUnaryOp.simps) (simp add: Stmt_isUnaryOp_def)

lemma skip_other:
  "s < e \<Longrightarrow> mem_get tls s = Some t \<Longrightarrow> SY (tkw t) = Some syn \<Longrightarrow> s_op1 syn = MN_NONAME
    \<Longrightarrow> Stmt_skipUnaryOp SY tls s e = Some s"
  by (subst Stmt_skipUnaryOp.simps) (simp add: Stmt_isUnaryOp_def)

lemma skip_lead:
  assumes "wf_expr SY x" "at_place tls s (print c x)" "s + width x \<le> e"
  shows "Stmt_skipUnaryOp SY tls s e = Some (s + lead x)"
  using assms
proof (induction x arbitrary: s)
  case (Unary t x)
  then show ?case by (auto simp: skip_Unary)
qed (auto simp: skip_other with_sub_def)

text \<open>One step of the loop, by the kind of token.\<close>

lemma find_plain:
  "i < e \<Longrightarrow> mem_get tls i = Some t \<Longrightarrow> SY (tkw t) = Some syn \<Longrightarrow> s_priority syn \<le> 0
    \<Longrightarrow> find_loop SY tls i e b p = find_loop SY tls (Suc i) e b p"
  by (subst find_loop.simps) simp

lemma find_postfix:
  "i < e \<Longrightarrow> mem_get tls i = Some t \<Longrightarrow> SY (tkw t) = Some syn \<Longrightarrow> 0 < s_priority syn \<Longrightarrow> postfix syn
    \<Longrightarrow> find_loop SY tls i e b p = case_prod (find_loop SY tls (Suc i) e) (step (i, syn) (b, p))"
  by (subst find_loop.simps) (simp add: step_def postfix_def)

lemma find_infix:
  "i < e \<Longrightarrow> mem_get tls i = Some t \<Longrightarrow> SY (tkw t) = Some syn \<Longrightarrow> 0 < s_priority syn \<Longrightarrow> \<not> postfix syn
    \<Longrightarrow> Stmt_skipUnaryOp SY tls (Suc i) e = Some j
    \<Longrightarrow> find_loop SY tls i e b p = case_prod (find_loop SY tls j e) (step (i, syn) (b, p))"
  by (subst find_loop.simps) (simp add: step_def postfix_def)

lemmas find_steps = find_plain find_postfix find_infix

lemma find_first:
  assumes "wf_expr SY x" "at_place tls s (print c x)" "s + width x \<le> e"
  shows "find_loop SY tls (s + lead x) e b p
    = case_prod (find_loop SY tls (Suc (s + lead x)) e) (fold step (first_op SY x (s + lead x)) (b, p))"
  using assms
proof (induction x arbitrary: s)
  case (Unary t x)
  then show ?case using Unary.IH[of "Suc s"] by simp
next
  case (Group t x)
  then obtain syn where "SY (tkw t) = Some syn" "postfix syn" by auto
  then show ?case using Group.prems
    by (cases "0 < s_priority syn") (simp_all add: find_postfix find_plain with_sub_def positive_def)
next
  case (Atom t)
  then show ?case by (auto simp: find_plain)
qed simp_all

lemma find_scan:
  assumes "wf_expr SY x" "at_place tls s (print c x)" "s + width x \<le> e"
  shows "find_loop SY tls (Suc (s + lead x)) e b p
    = case_prod (find_loop SY tls (s + width x) e) (fold step (ops SY x s) (b, p))"
  using assms
proof (induction x arbitrary: s b p)
  case (Unary t x)
  then have "ops SY x (Suc s) = []" using ops_syntaxes[of SY x "Suc s" 0] by auto
  with Unary show ?case using Unary.IH[of "Suc s"] by simp
next
  case (Binary x t y)
  then obtain syn where syn: "SY (tkw t) = Some syn" "0 < s_priority syn" "\<not> postfix syn" by auto
  from Binary.prems have y: "wf_expr SY y" "at_place tls (Suc (s + width x)) (print c y)"
    "Suc (s + width x) + width y \<le> e" by auto
  have "find_loop SY tls (s + width x) e b p
      = case_prod (find_loop SY tls (Suc (s + width x) + lead y) e) (step (s + width x, syn) (b, p))" for b p
    using Binary.prems syn skip_lead[OF y] by (intro find_infix) auto
  then show ?case
    using Binary.IH(1)[of s b p] Binary.prems syn Binary.IH(2)[OF y] find_first[OF y]
    by (simp add: add.assoc split: prod.splits)
next
  case (Dot x t n)
  then obtain syn sn where syn: "SY (tkw t) = Some syn" "0 < s_priority syn"
    and sn: "SY (tkw n) = Some sn" "s_op1 sn = MN_NONAME" "s_priority sn \<le> 0"
    by (auto dest!: has_syntaxD)
  from Dot.prems have at: "mem_get tls (s + width x) = Some t" "mem_get tls (Suc (s + width x)) = Some n"
    "Suc (s + width x) < e" by auto
  have "find_loop SY tls (s + width x) e b p
      = case_prod (find_loop SY tls (s + width x + 2) e) (step (s + width x, syn) (b, p))" for b p
  proof (cases "postfix syn")
    case True
    with at syn sn show ?thesis by (auto simp: find_postfix find_plain split: prod.splits)
  next
    case False
    have "find_loop SY tls (s + width x) e b p
      = case_prod (find_loop SY tls (Suc (s + width x)) e) (step (s + width x, syn) (b, p))"
      using False at syn sn by (intro find_infix[where t = t]) (auto simp: skip_other)
    with at sn show ?thesis by (auto simp: find_plain split: prod.splits)
  qed
  then show ?case using Dot.IH[of s b p] Dot.prems syn by (simp split: prod.splits)
next
  case (Call x t xs)
  then obtain syn where syn: "SY (tkw t) = Some syn" "0 < s_priority syn" "postfix syn" by auto
  have "find_loop SY tls (s + width x) e b p
      = case_prod (find_loop SY tls (Suc (s + width x)) e) (step (s + width x, syn) (b, p))" for b p
    using Call.prems syn
    by (intro find_postfix[where t = "with_sub t (commas c (map (print c) xs))"]) (auto simp: with_sub_def)
  then show ?case using Call.IH(1)[of s b p] Call.prems syn by (simp split: prod.splits)
qed (auto simp: with_sub_def)

lemma find_end: "find_loop SY tls e e b p = Some b"
  by (subst find_loop.simps) simp

lemma find_ops:
  assumes "wf_expr SY x" "at_place tls s (print c x)"
  shows "Stmt_findBinaryOp SY tls s (s + width x) = Some (fst (fold step (ops SY x s) (None, 0)))"
  using skip_lead[OF assms, of "s + width x"] find_scan[OF assms, of "s + width x" None 0]
  by (simp add: Stmt_findBinaryOp_def find_end split: prod.splits)

text \<open>The loosest operator is the one that is found.\<close>

lemma fold_better:
  "\<forall>x\<in>snd ` set xs. better (s_priority x) y \<Longrightarrow> better (snd bp) y \<Longrightarrow> better (snd (fold step xs bp)) y"
  by (induction xs arbitrary: bp) (auto simp: step_def)

lemma fold_worse: "\<forall>x\<in>snd ` set xs. \<not> better (snd bp) x \<Longrightarrow> fold step xs bp = bp"
  by (induction xs) (auto simp: step_def)

lemma fold_loosest:
  assumes "\<forall>x\<in>snd ` set xs. better (s_priority x) y" "\<forall>x\<in>snd ` set zs. \<not> better (s_priority y) x"
    and "0 < s_priority y"
  shows "fst (fold step (xs @ (i, y) # zs) (None, 0)) = Some (i, y)"
  using fold_better[OF assms(1), of "(None, 0)"] fold_worse[of zs "(Some (i, y), s_priority y)"] assms
  by (simp add: step_def better_def)

lemma loosest_ops:
  assumes "loosest SY a t zs" "map snd zs' = map snd zs" "SY (tkw t) = Some syn" "0 < s_priority syn"
  shows "fst (fold step (ops SY a i @ (j, syn) # zs') (None, 0)) = Some (j, syn)"
proof (rule fold_loosest)
  have "snd ` set (ops SY a i) = snd ` set (ops SY a 0)" "snd ` set zs' = snd ` set zs"
    using ops_syntaxes[of SY a i 0] assms(2) by (metis set_map)+
  with assms show "\<forall>x\<in>snd ` set (ops SY a i). better (s_priority x) syn"
    "\<forall>x\<in>snd ` set zs'. \<not> better (s_priority syn) x"
    by (simp_all add: loosest_def)
qed fact


section \<open>Parsing what was printed\<close>

lemma new_ConsExpr_Some: "cons_parts es \<Longrightarrow> new_ConsExpr (Some syn) es = Some (ECons (s_kw syn) es)"
  by (simp add: new_ConsExpr_def)

lemma cons_parts_EExpr [simp]: "cons_parts (EExpr e # es) \<longleftrightarrow> e \<noteq> NULLEXPR \<and> cons_parts es"
  by (cases e) auto

lemma elab_not_null: "wf_expr SY x \<Longrightarrow> elab SY x \<noteq> NULLEXPR"
  by (induction x) (auto simp: op_node_def Let_def add_args_def split: option.splits kexpr.splits)

lemma rightJoin_end: "Expr_rightJoin x tls e e env = Some (x, env)"
  by (simp add: Expr_rightJoin_def)

lemma no_comma: "wf_expr SY x \<Longrightarrow> \<forall>t\<in>set (print c x). tkw t \<noteq> KW_COMMA"
  by (induction x) (auto simp: with_sub_def)

lemma params_skip:
  assumes "at_place tls i ts" "\<forall>t\<in>set ts. tkw t \<noteq> KW_COMMA" "i + length ts \<le> e"
  shows "params_loop rec x tls start i e env = params_loop rec x tls start (i + length ts) e env"
  using assms
proof (induction ts arbitrary: i)
  case (Cons t ts)
  have "params_loop rec x tls start i e env = params_loop rec x tls start (Suc i) e env"
    by (subst params_loop.simps) (use Cons.prems in auto)
  with Cons show ?case by simp
qed simp

lemma params_comma:
  "i < e \<Longrightarrow> mem_get tls i = Some t \<Longrightarrow> tkw t = KW_COMMA \<Longrightarrow> rec tls start i env = Some (p, env')
    \<Longrightarrow> Expr_add x p = Some y
    \<Longrightarrow> params_loop rec x tls start i e env = params_loop rec y tls (Suc i) (Suc i) e env'"
  by (subst params_loop.simps) simp

lemma Expr_add_ECons: "x \<noteq> NULLEXPR \<Longrightarrow> Expr_add (ECons k es) x = Some (ECons k (es @ [EExpr x]))"
  by (simp add: Expr_add_def)

lemma addExprParams_args:
  assumes "\<forall>x\<in>set xs. wf_expr SY x \<and>
      (\<forall>p. at_place tls p (print c x) \<longrightarrow> rec tls p (p + width x) env = Some (elab SY x, env))"
    and "at_place tls s (commas c (map (print c) xs))" "tkw c = KW_COMMA"
  shows "Stmt_addExprParams rec (ECons k es) tls s (s + length (commas c (map (print c) xs))) True env
    = Some (ECons k (es @ map (EExpr \<circ> elab SY) xs), env)"
  using assms
proof (induction c "map (print c) xs" arbitrary: xs s es rule: commas.induct)
  case (1 c)
  then show ?case by (simp add: Stmt_addExprParams_def params_loop.simps)
next
  case (2 c ts)
  then obtain x where x: "xs = [x]" "wf_expr SY x" by (cases xs) auto
  have "params_loop rec (ECons k es) tls s s (s + width x) env
      = params_loop rec (ECons k es) tls s (s + width x) (s + width x) env"
    using params_skip[OF _ no_comma[OF x(2), of c], of tls s] 2 x by auto
  also have "\<dots> = Some (ECons k es, s, env)" by (simp add: params_loop.simps)
  finally show ?case using 2 x by (simp add: Stmt_addExprParams_def Expr_add_ECons elab_not_null)
next
  case (3 c ts u tss)
  then obtain x ys where xs: "xs = x # ys" "u # tss = map (print c) ys" "ts = print c x" "wf_expr SY x"
    by (cases xs) auto
  define e where "e = s + length (commas c (map (print c) xs))"
  have e: "e = Suc (s + width x) + length (commas c (map (print c) ys))"
    using xs(1) by (simp add: e_def flip: xs(2))
  have m: "s \<le> e" "Suc (s + width x) \<le> e" using e by simp_all
  have at: "at_place tls s (print c x)" "mem_get tls (s + width x) = Some c"
    "at_place tls (Suc (s + width x)) (commas c (map (print c) ys))"
    using 3(4) xs(1) by (simp_all flip: xs(2))
  have "params_loop rec (ECons k es) tls s s e env
      = params_loop rec (ECons k es) tls s (s + width x) e env"
    using params_skip[OF at(1) no_comma[OF xs(4)]] e by simp
  also have "\<dots> = params_loop rec (ECons k (es @ [EExpr (elab SY x)])) tls (Suc (s + width x)) (Suc (s + width x)) e env"
    using at(1,2) e 3(3,5) xs(1,4)
    by (intro params_comma[where t = c and p = "elab SY x"]) (simp_all add: Expr_add_ECons elab_not_null)
  finally have "Stmt_addExprParams rec (ECons k es) tls s e True env
      = Stmt_addExprParams rec (ECons k (es @ [EExpr (elab SY x)])) tls (Suc (s + width x)) e True env"
    by (simp add: Stmt_addExprParams_def max_absorb2 m cong: if_cong)
  then show ?case
    using 3(1)[OF xs(2), of "Suc (s + width x)"] 3(3,5) at(3) xs(1) e by (simp add: e_def add.assoc)
qed


lemma parse_printed:
  assumes "wf_expr SY x" "SY KW_ExprMethodCall = Some msyn" "tkw c = KW_COMMA"
    and "at_place tls s (print c x)" "nodes x \<le> n"
  shows "Stmt_newExpr2 SY line n tls s (s + width x) env = Some (elab SY x, env)"
  using assms(1,4,5)
proof (induction x arbitrary: tls s n)
  case (Atom t)
  then obtain m where "n = Suc m" by (cases n) auto
  with Atom show ?case using find_ops[OF Atom(1,2)]
    by (auto simp: newExpr2_body_def ParseExpr_def parse_Term_def rightJoin_end)
next
  case (Group t x)
  then obtain m where "n = Suc m" by (cases n) auto
  with Group show ?case using find_ops[OF Group(2,3)] Group.IH[of "print c x" 0 m] at_place_whole[of "[]" "print c x" "[]"]
    by (auto simp: newExpr2_body_def ParseExpr_def parse_Parenthesis_def sub_tokens_def with_sub_def rightJoin_end)
next
  case (Unary t x)
  then obtain m where "n = Suc m" by (cases n) auto
  with Unary show ?case using find_ops[OF Unary(2,3)] Unary.IH[of tls "Suc s" m] elab_not_null[of SY x]
    by (auto simp: newExpr2_body_def ParseExpr_def parse_Op_def op_node_def new_ConsExpr_Some Let_def assms(2))
next
  case (Binary x t y)
  then obtain m where n: "n = Suc m" by (cases n) auto
  from Binary.prems obtain syn where syn: "SY (tkw t) = Some syn" "0 < s_priority syn" "s_ParseExpr syn = ParseExpr_Op"
    by auto
  have "Stmt_findBinaryOp SY tls s (s + width (Binary x t y)) = Some (Some (s + width x, syn))"
    using find_ops[OF Binary.prems(1,2)] Binary.prems(1) syn
      loosest_ops[of SY x t "first_op SY y 0 @ ops SY y 0"
        "first_op SY y (Suc (s + width x + lead y)) @ ops SY y (Suc (s + width x))" syn s "s + width x"]
      first_op_syntaxes[of SY y "Suc (s + width x + lead y)" 0] ops_syntaxes[of SY y "Suc (s + width x)" 0]
    by simp
  moreover have "Stmt_newExpr2 SY line m tls s (s + width x) env = Some (elab SY x, env)"
    "Stmt_newExpr2 SY line m tls (Suc (s + width x)) (Suc (s + width x) + width y) env = Some (elab SY y, env)"
    using Binary n Binary.IH(2)[of tls "Suc (s + width x)" m] by simp_all
  ultimately show ?case using Binary.prems n syn elab_not_null[of SY x] elab_not_null[of SY y]
    by (auto simp: newExpr2_body_def ParseExpr_def parse_Op_def op_node_def new_ConsExpr_Some Let_def assms(2) add.assoc)
next
  case (Dot x t a)
  then obtain m where n: "n = Suc m" by (cases n) auto
  from Dot.prems obtain syn where syn: "SY (tkw t) = Some syn" "0 < s_priority syn" "s_ParseExpr syn = ParseExpr_DOT"
    by (auto dest!: has_syntaxD)
  have "Stmt_findBinaryOp SY tls s (s + width (Dot x t a)) = Some (Some (s + width x, syn))"
    using find_ops[OF Dot.prems(1,2)] loosest_ops[of SY x t "[]" "[]" syn] Dot.prems(1) syn by simp
  moreover have "Stmt_newExpr2 SY line m tls s (s + width x) env = Some (elab SY x, env)"
    using Dot n by simp
  ultimately show ?case using Dot.prems n syn elab_not_null[of SY x]
    by (auto simp: newExpr2_body_def ParseExpr_def parse_DOT_def isFieldName_def new_ConsExpr_Some rightJoin_end)
next
  case (Call x t xs)
  then obtain m where n: "n = Suc m" by (cases n) auto
  from Call.prems obtain syn where syn: "SY (tkw t) = Some syn" "0 < s_priority syn"
    "s_ParseExpr syn = ParseExpr_Parenthesis" by auto
  from Call.prems obtain k hs where h: "call_head SY (elab SY x) = Some (ECons k hs)"
    by (auto split: option.splits kexpr.splits)
  have "Stmt_findBinaryOp SY tls s (s + width (Call x t xs)) = Some (Some (s + width x, syn))"
    using find_ops[OF Call.prems(1,2)] loosest_ops[of SY x t "[]" "[]" syn] Call.prems(1) syn by simp
  moreover have "Stmt_newExpr2 SY line m tls s (s + width x) env = Some (elab SY x, env)"
    using Call n by simp
  moreover have "y \<in> set xs \<Longrightarrow> nodes y \<le> m" for y
    using Call.prems(3) n member_le_sum_list[of "nodes y" "map nodes xs"] by simp
  then have "Stmt_addExprParams (Stmt_newExpr2 SY line m) (ECons k hs) (commas c (map (print c) xs)) 0
      (0 + length (commas c (map (print c) xs))) True env = Some (ECons k (hs @ map (EExpr \<circ> elab SY) xs), env)"
    using Call at_place_whole[of "[]" "commas c (map (print c) xs)" "[]"]
    by (intro addExprParams_args assms) auto
  ultimately show ?case using Call.prems n syn elab_not_null[of SY x] h
    by (auto simp: newExpr2_body_def ParseExpr_def parse_Parenthesis_def sub_tokens_def with_sub_def add_args_def
        rightJoin_end)
qed


section \<open>Properties\<close>

text \<open>
  C2: Parsing finds the tree a text was printed from: the tokens of a tree of operands, groups, unary and
  binary operators, fields and calls, in which each operator binds looser than the operators
  on its left and no tighter than those on its right (as loose on the right only when left-joined), are
  parsed as the expression of the tree, at any place of a list of tokens and without a message, and
  fuel for each node of the tree is enough.
\<close>

theorem Stmt_newExpr2_roundtrip:
  assumes "wf_expr SY x" "SY KW_ExprMethodCall = Some msyn" "tkw c = KW_COMMA" "nodes x \<le> n"
  shows "Stmt_newExpr2 SY line n (pre @ print c x @ post) (length pre) (length pre + length (print c x)) env
    = Some (elab SY x, env)"
  using parse_printed[OF assms(1-3) at_place_whole assms(4)] by simp

text \<open>
  C34: Calling the result of an operator does not call it: when the tree in front of the parentheses is
  itself the call of a method (\<open>-f\<close>, \<open>(a + b)\<close>, \<open>a.m(x)\<close>), the parameters in the parentheses are
  added to that call, so \<open>-f(x)\<close> is \<open>f.opMINUS(x)\<close> and \<open>a.m(x)(y)\<close> is \<open>a.m(x, y)\<close>.
\<close>

theorem call_of_operator_merges:
  assumes "wf_expr SY (Call f p xs)" "SY KW_ExprMethodCall = Some msyn" "tkw c = KW_COMMA"
    and "elab SY f = ECons KW_ExprMethodCall es"
  shows "Stmt_newExpr2 SY line (nodes (Call f p xs)) (print c (Call f p xs)) 0 (length (print c (Call f p xs))) env
    = Some (ECons KW_ExprMethodCall (es @ map EExpr (map (elab SY) xs)), env)"
proof -
  have "call_head SY (elab SY f) = Some (ECons KW_ExprMethodCall es)"
    using assms(4) by (simp add: call_head_def KW_ExprMethodCall_def KW_DOT_def)
  then show ?thesis
    using parse_printed[OF assms(1-3), of "print c (Call f p xs)" 0 "nodes (Call f p xs)" line env]
      at_place_whole[of "[]" "print c (Call f p xs)" "[]"]
    by (simp add: add_args_def)
qed

lemma params_null:
  "params_loop r x tls start i e env = Some (y, start', env') \<Longrightarrow> x = NULLEXPR \<Longrightarrow> y = NULLEXPR \<and> start' = start"
proof (induction r x tls start i e env rule: params_loop.induct)
  case (1 r x tls start i e env)
  show ?case
  proof (cases "i < e")
    case True
    with "1.prems" obtain tk where tk: "mem_get tls i = Some tk" "tkw tk \<noteq> KW_COMMA"
      "params_loop r x tls start (i + 1) e env = Some (y, start', env')"
      by (subst (asm) params_loop.simps) (auto simp: Expr_add_def split: option.splits if_splits)
    from "1.IH"(2)[OF True tk] "1.prems"(2) show ?thesis by simp
  next
    case False
    with "1.prems" show ?thesis by (subst (asm) params_loop.simps) simp
  qed
qed



section \<open>Examples in the default syntax\<close>

definition ex_tok :: "u32 \<Rightarrow> token" where "ex_tok k = Token TK_SYMBOL k (Text []) 0 0 0"

definition ex_syntax :: syntab where "ex_syntax = default_syntax (\<lambda>_. 5)"

text \<open>\<open>- a + b * c.d(e, f) == (g - h)\<close>\<close>

definition ex_name :: expr where "ex_name = Atom (ex_tok KW_Symbol)"

definition ex_expr :: expr where
  "ex_expr = Binary
     (Binary (Unary (ex_tok 19) ex_name) (ex_tok 18)
       (Binary ex_name (ex_tok 17)
         (Call (Dot ex_name (ex_tok 14) (ex_tok KW_Symbol)) (ex_tok KW_Parenthesis) [ex_name, ex_name])))
     (ex_tok 24) (Group (ex_tok KW_Parenthesis) (Binary ex_name (ex_tok 19) ex_name))"

lemma ex_rows:
  "ex_syntax 2 = Some ((new_syntax 2)\<lparr>s_flag := 1, s_ParseStmt := Some ParseStmt_Symbol, s_ParseExpr := ParseExpr_Term, s_ExprTyCheck := ExprTyCheck_Symbol\<rparr>)"
  "ex_syntax 8 = Some ((new_syntax 8)\<lparr>s_flag := 8, s_ParseExpr := ParseExpr_Parenthesis, s_priority := 16,
     s_ExprTyCheck := ExprTyCheck_FuncStyleCall\<rparr>)"
  "ex_syntax 12 = Some ((new_syntax 12)\<lparr>s_ParseStmt := Some ParseStmt_Params, s_TopStmtTyCheck := StmtTyCheck_ParamsDecl,
     s_ExprTyCheck := ExprTyCheck_MethodCall\<rparr>)"
  "ex_syntax 14 = Some ((new_syntax 14)\<lparr>s_ParseExpr := ParseExpr_DOT, s_priority := 16\<rparr>)"
  "ex_syntax 17 = Some ((new_syntax 17)\<lparr>s_flag := 2, s_ParseExpr := ParseExpr_Op, s_priority := 32, s_op2 := 5\<rparr>)"
  "ex_syntax 18 = Some ((new_syntax 18)\<lparr>s_flag := 2, s_ParseExpr := ParseExpr_Op, s_priority := 64, s_op2 := 5, s_op1 := 5\<rparr>)"
  "ex_syntax 19 = Some ((new_syntax 19)\<lparr>s_flag := 2, s_ParseExpr := ParseExpr_Op, s_priority := 64, s_op2 := 5, s_op1 := 5\<rparr>)"
  "ex_syntax 24 = Some ((new_syntax 24)\<lparr>s_flag := 2, s_ParseExpr := ParseExpr_Op, s_priority := 512, s_op2 := 5\<rparr>)"
  by (simp_all add: ex_syntax_def default_syntax_def default_table_def mem_get_def row_def define_parts_def
      new_syntax_def default_ParseExpr_def setSyntaxMethod_def FLAG_is_def SYNFLAG_ExprOp_def SYNFLAG_ExprTerm_def
      SYNFLAG_ExprPostfixOp2_def)

lemmas ex_simps = ex_rows ex_name_def ex_tok_def KW_Symbol_def KW_Parenthesis_def KW_ExprMethodCall_def
  KW_COMMA_def KW_DOT_def has_syntax_def new_syntax_def postfix_def loosest_def better_def positive_def
  FLAG_is_def SYNFLAG_ExprPostfixOp2_def SYNFLAG_ExprLeftJoinOp2_def MN_NONAME_def op_node_def call_head_def
  new_ConsExpr_def add_args_def kToken_setmn_def

lemma ex_expr_wf: "wf_expr ex_syntax ex_expr"
  by (simp add: ex_expr_def ex_simps)

theorem Stmt_newExpr2_roundtrip_witness:
  "\<forall>pre post env. Stmt_newExpr2 ex_syntax 0 15 (pre @ print (ex_tok KW_COMMA) ex_expr @ post)
      (length pre) (length pre + length (print (ex_tok KW_COMMA) ex_expr)) env = Some (elab ex_syntax ex_expr, env)"
  by (intro allI Stmt_newExpr2_roundtrip [OF ex_expr_wf])
    (simp_all add: ex_rows ex_tok_def KW_ExprMethodCall_def ex_expr_def ex_name_def)

text \<open>\<open>-f(x)\<close>, and \<open>a.m(x)(y)\<close>\<close>

definition ex_negated :: expr where
  "ex_negated = Call (Unary (ex_tok 19) ex_name) (ex_tok KW_Parenthesis) [ex_name]"

theorem call_of_operator_merges_witness:
  "\<forall>env. Stmt_newExpr2 ex_syntax 0 (nodes ex_negated) (print (ex_tok KW_COMMA) ex_negated) 0
      (length (print (ex_tok KW_COMMA) ex_negated)) env
    = Some (ECons KW_ExprMethodCall ([ETok (kToken_setmn (ex_tok 19) 5 MNTYPE_unary), EExpr (elab ex_syntax ex_name)]
        @ map EExpr (map (elab ex_syntax) [ex_name])), env)"
  unfolding ex_negated_def
  by (intro allI call_of_operator_merges) (simp_all add: ex_simps)


end
