(* ===== verification/TreeFacts.thy ===== *)
theory TreeFacts
  imports Trees ParserFacts
begin

text \<open>
  Making trees undoes writing them down: the tokens of groups, written with their brackets and without
  their keywords, are collected into the same groups again, and a line ends at its delimiter.
\<close>

section \<open>Writing trees down\<close>

primrec flat :: "token \<Rightarrow> token list" and flat_body :: "tbody \<Rightarrow> ktoken \<Rightarrow> u64 \<Rightarrow> u32 \<Rightarrow> u32 \<Rightarrow> token list" where
  "flat (Token k kw b l p c) = flat_body b k l p c"
| "flat_body (Text s) = (\<lambda>k l p c. [Token k 0 (Text s) l p c])"
| "flat_body (Sub ts) = (\<lambda>k l p c. Token TK_OPERATOR 0 (Text [ucast c]) l 0 c # concat (map flat ts)
     @ [Token TK_OPERATOR 0 (Text [ucast p]) l 0 p])"

abbreviation flats :: "token list \<Rightarrow> token list" where
  "flats ts \<equiv> concat (map flat ts)"

text \<open>
  A token with a keyword its text has, that is no type and no bracket, and groups of such tokens.
\<close>

definition bracket_pair :: "ktoken \<Rightarrow> u32 \<Rightarrow> u32 \<Rightarrow> bool" where
  "bracket_pair k c p \<longleftrightarrow> (k = AST_PARENTHESIS \<and> c = scast (chr CHR ''('') \<and> p = scast (chr CHR '')''))
     \<or> (k = AST_BRACKET \<and> c = scast (chr CHR ''['') \<and> p = scast (chr CHR '']''))"

definition plain_char :: "u32 \<Rightarrow> bool" where
  "plain_char c \<longleftrightarrow> c \<notin> {scast (chr CHR ''(''), scast (chr CHR ''[''), scast (chr CHR '')''), scast (chr CHR '']''),
     scast (chr CHR ''{''), scast (chr CHR ''@'')}"

definition leaf_ok :: "scope \<Rightarrow> token \<Rightarrow> token \<Rightarrow> bool" where
  "leaf_ok sc r t \<longleftrightarrow> classify sc r = Some (t, True) \<and> \<not> TK_isType t \<and> 1 < tkw t \<and> plain_char (topch r)
     \<and> tt r \<notin> {TK_ERR, TK_INDENT, TK_METANAME}"

primrec tree_ok :: "scope \<Rightarrow> token \<Rightarrow> bool"
    and body_ok :: "scope \<Rightarrow> tbody \<Rightarrow> ktoken \<Rightarrow> u32 \<Rightarrow> u64 \<Rightarrow> u32 \<Rightarrow> u32 \<Rightarrow> bool" where
  "tree_ok sc (Token k kw b l p c) = body_ok sc b k kw l p c"
| "body_ok sc (Text s) = (\<lambda>k kw l p c. leaf_ok sc (Token k 0 (Text s) l p c) (Token k kw (Text s) l p c))"
| "body_ok sc (Sub ts) = (\<lambda>k kw l p c. bracket_pair k c p \<and> kw = kw_of k \<and> list_all (tree_ok sc) ts)"

primrec depth :: "token \<Rightarrow> nat" and body_depth :: "tbody \<Rightarrow> nat" where
  "depth (Token k kw b l p c) = body_depth b"
| "body_depth (Text s) = 0"
| "body_depth (Sub ts) = Suc (sum_list (map depth ts))"

section \<open>Making trees\<close>

lemma kw_of_INDENT: "kw_of TK_INDENT = 1"
  by (simp add: kw_of_def position_def upt_rec)

lemma bracket_chars:
  "(scast (chr CHR ''('') :: u32) = 40" "(scast (chr CHR '')'') :: u32) = 41" "(scast (chr CHR ''['') :: u32) = 91"
  "(scast (chr CHR '']'') :: u32) = 93" "(scast (chr CHR ''{'') :: u32) = 123" "(scast (chr CHR ''@'') :: u32) = 64"
  by (simp_all add: chr_def)

lemma scast_inj: "(scast (a :: byte) :: u32) = scast b \<longleftrightarrow> a = b"
proof -
  have "ucast (scast x :: u32) = x" for x :: byte
    by transfer (simp add: take_bit_signed_take_bit)
  then show ?thesis by metis
qed

lemma appendKeyword_leaf:
  assumes "leaf_ok sc r t" "mem_get tls i = Some r"
  shows "appendKeyword junk sc grp tls i e st = Some ([t], i, None, t, st)"
  using assms by (simp add: appendKeyword_def leaf_ok_def kw_of_INDENT)

text \<open>A parser of groups that finds the groups of a list wherever they stand.\<close>

definition is_group :: "token \<Rightarrow> bool" where
  "is_group t \<longleftrightarrow> (case ttext t of Sub _ \<Rightarrow> True | Text _ \<Rightarrow> False)"

definition finds_groups :: "grouper \<Rightarrow> token list \<Rightarrow> nat \<Rightarrow> token list \<Rightarrow> bool" where
  "finds_groups grp tls e ts \<longleftrightarrow> (\<forall>t\<in>set ts. is_group t \<longrightarrow> (\<forall>s st. at_place tls s (flat t) \<longrightarrow> s + length (flat t) \<le> e
     \<longrightarrow> grp (tt t) s (if tt t = AST_PARENTHESIS then chr CHR '')'' else chr CHR '']'') st
         = Some (t, s + length (flat t) - 1, None, st)))"

lemma tree_loop_leaf:
  assumes "leaf_ok sc r t" "tkw r = 0" "mem_get tls i = Some r" "i < e" "closech = chr CHR '')'' \<or> closech = chr CHR '']''"
  shows "\<exists>tk' pcb'. tree_loop junk sc grp tls e closech i sub tk pcb None st
    = tree_loop junk sc grp tls e closech (i + 1) (sub @ [t]) tk' pcb' None st"
proof -
  have c: "topch r \<noteq> scast (chr CHR ''{'')" "topch r \<noteq> scast (chr CHR ''('')" "topch r \<noteq> scast (chr CHR ''['')"
    "topch r \<noteq> scast closech" "tt r \<noteq> TK_ERR" "tt r \<noteq> TK_INDENT"
    using assms(1,5) by (auto simp: leaf_ok_def plain_char_def)
  show ?thesis
    using assms(2-4) c appendKeyword_leaf [OF assms(1,3), of junk grp e st]
    by (intro exI [of _ t] exI, subst tree_loop.simps) (simp add: Let_def)
qed

lemma tree_loop_group:
  assumes "tree_ok sc t" "is_group t" "finds_groups grp tls e [t]" "at_place tls i (flat t)" "i + length (flat t) \<le> e"
  shows "\<exists>tk'. tree_loop junk sc grp tls e closech i sub tk pcb None st
    = tree_loop junk sc grp tls e closech (i + length (flat t)) (sub @ [t]) tk' pcb None st"
proof -
  obtain k kw ts l p c where t: "t = Token k kw (Sub ts) l p c"
    using assms(2) by (cases t) (auto simp: is_group_def split: tbody.splits)
  then have b: "bracket_pair k c p" using assms(1) by simp
  define r where "r = Token TK_OPERATOR 0 (Text [ucast c]) l 0 c"
  have r: "mem_get tls i = Some r" "i < e" "tkw r = 0" "tt r = TK_OPERATOR" "topch r = c"
    using assms(4,5) by (simp_all add: t r_def)
  have g: "grp (tt t) i (if tt t = AST_PARENTHESIS then chr CHR '')'' else chr CHR '']'') st
      = Some (t, i + length (flat t) - 1, None, st)"
    using assms(2-5) by (simp add: finds_groups_def)
  have n: "i + length (flat t) - 1 + 1 = i + length (flat t)" "\<not> i + length (flat t) - 1 < i" by (simp_all add: t)
  show ?thesis
    using r b g n by (intro exI [of _ r], subst tree_loop.simps) (auto simp: bracket_pair_def bracket_chars t)
qed

lemma tree_loop_flats:
  assumes "list_all (tree_ok sc) ts" "finds_groups grp tls e ts" "at_place tls i (flats ts)" "i + length (flats ts) \<le> e"
    and "closech = chr CHR '')'' \<or> closech = chr CHR '']''"
  shows "\<exists>tk' pcb'. tree_loop junk sc grp tls e closech i sub tk pcb None st
    = tree_loop junk sc grp tls e closech (i + length (flats ts)) (sub @ ts) tk' pcb' None st"
  using assms(1-4)
proof (induction ts arbitrary: i sub tk pcb)
  case Nil
  then show ?case by auto
next
  case (Cons t ts)
  have "\<exists>tk' pcb'. tree_loop junk sc grp tls e closech i sub tk pcb None st
    = tree_loop junk sc grp tls e closech (i + length (flat t)) (sub @ [t]) tk' pcb' None st"
  proof (cases "is_group t")
    case True
    then show ?thesis using tree_loop_group [of sc t grp tls e i] Cons.prems by (fastforce simp: finds_groups_def)
  next
    case False
    then obtain k kw s l p c where t: "t = Token k kw (Text s) l p c"
      by (cases t) (auto simp: is_group_def split: tbody.splits)
    then show ?thesis
      using tree_loop_leaf [of sc "Token k 0 (Text s) l p c" t tls i e] Cons.prems assms(5) by simp
  qed
  moreover have "finds_groups grp tls e ts" using Cons.prems(2) by (simp add: finds_groups_def)
  ultimately show ?case
    using Cons.IH [of "i + length (flat t)" "sub @ [t]"] Cons.prems by (fastforce simp: add.assoc)
qed

lemma makeTree_flat:
  assumes "tree_ok sc t" "is_group t" "at_place tls s (flat t)" "s + length (flat t) \<le> e" "depth t \<le> n"
  shows "makeTree n junk sc tls e (tt t) s (if tt t = AST_PARENTHESIS then chr CHR '')'' else chr CHR '']'') st
    = Some (t, s + length (flat t) - 1, None, st)"
  using assms
proof (induction n arbitrary: t s st)
  case 0
  then show ?case by (cases t) (auto simp: is_group_def split: tbody.splits)
next
  case (Suc n)
  obtain k kw ts l p c where t: "t = Token k kw (Sub ts) l p c"
    using Suc.prems(2) by (cases t) (auto simp: is_group_def split: tbody.splits)
  then have b: "bracket_pair k c p" "kw = kw_of k" "list_all (tree_ok sc) ts" using Suc.prems(1) by simp_all
  have d: "x \<in> set ts \<Longrightarrow> depth x \<le> n" for x
    using Suc.prems(5) member_le_sum_list [of "depth x" "map depth ts"] by (simp add: t)
  have g: "finds_groups (makeTree n junk sc tls e) tls e ts"
    using Suc.IH b(3) d by (auto simp: finds_groups_def list_all_iff)
  define ch where "ch = (if k = AST_PARENTHESIS then chr CHR '')'' else chr CHR '']'')"
  have ch: "ch = chr CHR '')'' \<or> ch = chr CHR '']''" "scast ch = p" by (use b(1) in \<open>auto simp: ch_def bracket_pair_def\<close>)
  have at: "mem_get tls s = Some (Token TK_OPERATOR 0 (Text [ucast c]) l 0 c)" "at_place tls (s + 1) (flats ts)"
    "mem_get tls (s + 1 + length (flats ts)) = Some (Token TK_OPERATOR 0 (Text [ucast p]) l 0 p)"
    "s + 1 + length (flats ts) < e"
    using Suc.prems(3,4) by (simp_all add: t)
  obtain tk' pcb' where "tree_loop junk sc (makeTree n junk sc tls e) tls e ch (s + 1) [] (Token TK_OPERATOR 0 (Text [ucast c]) l 0 c) (e - 1) None st
      = tree_loop junk sc (makeTree n junk sc tls e) tls e ch (s + 1 + length (flats ts)) ts tk' pcb' None st"
    using tree_loop_flats [OF b(3) g at(2) _ ch(1), of junk "[]"] at(4) by fastforce
  also have "\<dots> = Some (ts, Inl (s + 1 + length (flats ts)), None, st)"
    using at(3,4) b(1) ch(2) by (subst tree_loop.simps) (auto simp: bracket_pair_def bracket_chars)
  finally show ?case
    using at(1) b(2) ch(2) by (simp add: makeTree_body_def t group_token_def flip: ch_def)
qed


section \<open>Selecting a line\<close>

definition ends_line :: "byte \<Rightarrow> token \<Rightarrow> bool" where
  "ends_line delim t \<longleftrightarrow> tt t = TK_OPERATOR \<and> topch t = scast delim"

text \<open>The indents in front of a line: the first one that is met is the block's.\<close>

definition is_indent :: "token \<Rightarrow> bool" where
  "is_indent t \<longleftrightarrow> tt t = TK_INDENT \<and> tkw t = 0 \<and> topch t \<noteq> scast (chr CHR ''@'')"

definition first_indent :: "token list \<Rightarrow> u32 \<Rightarrow> u32" where
  "first_indent inds indent = fold (\<lambda>t x. if x = 0 then lpos t else x) inds indent"

lemma line_head_indents:
  assumes "list_all is_indent inds" "at_place tls i (inds @ [r])" "i + length inds + 1 < e" "e \<le> length tls"
    and "tkw r = 0" "topch r \<noteq> scast (chr CHR ''@'')" "tt r \<notin> {TK_METANAME, TK_INDENT}"
  shows "line_head grp tls e i indent [] None st = Some (i + length inds, first_indent inds indent, [], None, st)"
  using assms(1-4)
proof (induction inds arbitrary: i indent)
  case Nil
  then show ?case using assms(5-7) by (subst line_head.simps) (auto simp: mem_get_def first_indent_def)
next
  case (Cons t inds)
  then have "line_head grp tls e i indent [] None st
      = line_head grp tls e (i + 1) (if indent = 0 then lpos t else indent) [] None st"
    by (subst line_head.simps) (auto simp: mem_get_def is_indent_def)
  then show ?case using Cons by (simp add: first_indent_def)
qed

lemma line_loop_leaf:
  assumes "leaf_ok sc r t" "tkw r = 0" "mem_get tls i = Some r" "i < e" "\<not> ends_line delim r"
  shows "line_loop junk sc grp tls e delim indent i dst None st
    = line_loop junk sc grp tls e delim indent (i + 1) (dst @ [t]) None st"
proof -
  have c: "topch r \<noteq> scast (chr CHR ''('')" "topch r \<noteq> scast (chr CHR ''['')" "tt r \<noteq> TK_ERR" "tt r \<noteq> TK_INDENT"
    using assms(1) by (auto simp: leaf_ok_def plain_char_def)
  show ?thesis
    using assms(2-5) c appendKeyword_leaf [OF assms(1,3), of junk grp e st]
    by (subst line_loop.simps) (auto simp: Let_def ends_line_def)
qed

lemma line_loop_group:
  assumes "tree_ok sc t" "is_group t" "finds_groups grp tls e [t]" "at_place tls i (flat t)" "i + length (flat t) \<le> e"
    and "delim \<notin> {chr CHR ''('', chr CHR ''[''}"
  shows "line_loop junk sc grp tls e delim indent i dst None st
    = line_loop junk sc grp tls e delim indent (i + length (flat t)) (dst @ [t]) None st"
proof -
  obtain k kw ts l p c where t: "t = Token k kw (Sub ts) l p c"
    using assms(2) by (cases t) (auto simp: is_group_def split: tbody.splits)
  then have b: "bracket_pair k c p" using assms(1) by simp
  define r where "r = Token TK_OPERATOR 0 (Text [ucast c]) l 0 c"
  have r: "mem_get tls i = Some r" "i < e" "tkw r = 0" "tt r = TK_OPERATOR" "topch r = c"
    using assms(4,5) by (simp_all add: t r_def)
  have g: "grp (tt t) i (if tt t = AST_PARENTHESIS then chr CHR '')'' else chr CHR '']'') st
      = Some (t, i + length (flat t) - 1, None, st)"
    using assms(2-5) by (simp add: finds_groups_def)
  have n: "i + length (flat t) - 1 + 1 = i + length (flat t)" "\<not> i + length (flat t) - 1 < i" by (simp_all add: t)
  have "c \<noteq> scast delim" using b assms(6) by (auto simp: bracket_pair_def scast_inj)
  then show ?thesis
    using r b g n by (subst line_loop.simps) (auto simp: bracket_pair_def bracket_chars t)
qed

lemma line_loop_flats:
  assumes "list_all (tree_ok sc) ts" "finds_groups grp tls e ts" "at_place tls i (flats ts)" "i + length (flats ts) \<le> e"
    and "delim \<notin> {chr CHR ''('', chr CHR ''[''}" "\<forall>t\<in>set ts. \<not> ends_line delim t"
  shows "line_loop junk sc grp tls e delim indent i dst None st
    = line_loop junk sc grp tls e delim indent (i + length (flats ts)) (dst @ ts) None st"
  using assms
proof (induction ts arbitrary: i dst)
  case (Cons t ts)
  have "line_loop junk sc grp tls e delim indent i dst None st
    = line_loop junk sc grp tls e delim indent (i + length (flat t)) (dst @ [t]) None st"
  proof (cases "is_group t")
    case True
    then show ?thesis using line_loop_group [of sc t grp tls e i] Cons.prems by (fastforce simp: finds_groups_def)
  next
    case False
    then obtain k kw s l p c where t: "t = Token k kw (Text s) l p c"
      by (cases t) (auto simp: is_group_def split: tbody.splits)
    then show ?thesis
      using line_loop_leaf [of sc "Token k 0 (Text s) l p c" t tls i e] Cons.prems by (simp add: ends_line_def)
  qed
  moreover have "finds_groups grp tls e ts" using Cons.prems(2) by (simp add: finds_groups_def)
  ultimately show ?case
    using Cons.IH [of "i + length (flat t)" "dst @ [t]"] Cons.prems by (simp add: add.assoc)
qed simp

lemma depth_flat: "depth t \<le> length (flat t)" "body_depth b \<le> length (flat_body b k l p c)"
proof (induction t and b arbitrary: and k l p c)
  case (Sub ts)
  have "sum_list (map depth ts) \<le> length (flats ts)"
    using Sub by (induction ts) (auto intro: add_mono)
  then show ?case by simp
qed auto

lemma flats_first:
  assumes "list_all (tree_ok sc) ts" "ts \<noteq> []"
  obtains r rs where "flats ts = r # rs" "tkw r = 0" "topch r \<noteq> scast (chr CHR ''@'')" "tt r \<notin> {TK_METANAME, TK_INDENT}"
proof -
  obtain t us where ts: "ts = t # us" using assms(2) by (cases ts) auto
  obtain k kw b l p c where t: "t = Token k kw b l p c" by (cases t)
  show thesis
  proof (cases b)
    case (Text s)
    with assms ts t show ?thesis by (intro that) (auto simp: leaf_ok_def plain_char_def)
  next
    case (Sub x)
    with assms ts t have "c \<noteq> scast (chr CHR ''@'')" by (auto simp: bracket_pair_def bracket_chars)
    with Sub ts t show ?thesis by (intro that) auto
  qed
qed

text \<open>
  Selecting a line undoes writing it down. A line of trees, written as single tokens behind indents and
  ended by a delimiter, is selected as its trees, with every group collected into one token and every
  token given its keyword, whatever stands before and behind it; the next line begins behind the
  delimiter, and nothing is reported.
\<close>

lemma selectStmtLine_written:
  assumes "list_all (tree_ok sc) ts" "ts \<noteq> []" "list_all is_indent inds"
    and "tkw d = 0" "ends_line delim d" "delim \<notin> {chr CHR ''('', chr CHR ''[''}" "\<forall>t\<in>set ts. \<not> ends_line delim t"
  shows "selectStmtLine junk sc (pre @ inds @ flats ts @ d # post) (length pre)
      (length (pre @ inds @ flats ts @ d # post)) delim indent st
    = Some (ts, length pre + length inds + length (flats ts) + 1, first_indent inds indent, None, st)"
proof -
  define tls where "tls = pre @ inds @ flats ts @ d # post"
  define grp where "grp = makeTree (length tls) junk sc tls (length tls)"
  obtain r rs where r: "flats ts = r # rs" "tkw r = 0" "topch r \<noteq> scast (chr CHR ''@'')" "tt r \<notin> {TK_METANAME, TK_INDENT}"
    by (rule flats_first [OF assms(1,2)])
  have at: "at_place tls (length pre) (inds @ flats ts @ [d])"
    using at_place_whole [of pre "inds @ flats ts @ [d]" post] by (simp add: tls_def)
  have head: "line_head grp tls (length tls) (length pre) indent [] None st
      = Some (length pre + length inds, first_indent inds indent, [], None, st)"
    by (rule line_head_indents [where r = r]) (use assms(3) at r in \<open>simp_all add: tls_def\<close>)
  have "finds_groups grp tls (length tls) ts"
    unfolding finds_groups_def grp_def
  proof (intro ballI impI allI)
    fix t s st assume t: "t \<in> set ts" "is_group t" "at_place tls s (flat t)" "s + length (flat t) \<le> length tls"
    then show "makeTree (length tls) junk sc tls (length tls) (tt t) s
        (if tt t = AST_PARENTHESIS then chr CHR '')'' else chr CHR '']'') st = Some (t, s + length (flat t) - 1, None, st)"
      using assms(1) depth_flat(1) [of t] by (intro makeTree_flat) (auto simp: list_all_iff)
  qed
  then have "line_loop junk sc grp tls (length tls) delim x (length pre + length inds) [] None st
      = line_loop junk sc grp tls (length tls) delim x (length pre + length inds + length (flats ts)) ts None st" for x
    using line_loop_flats [OF assms(1) _ _ _ assms(6,7), of grp tls "length tls" "length pre + length inds" junk x "[]" st] at
    by (simp add: tls_def)
  also have "line_loop junk sc grp tls (length tls) delim x (length pre + length inds + length (flats ts)) ts None st
      = Some (ts, length pre + length inds + length (flats ts) + 1, None, st)" for x
    using at assms(4,5) by (subst line_loop.simps) (simp add: ends_line_def tls_def add.assoc)
  finally show ?thesis
    using head by (simp add: selectStmtLine_def grp_def flip: tls_def)
qed

end
