(* ===== verification/StatementFacts.thy ===== *)
theory StatementFacts
  imports Statements TreeFacts
begin

text \<open>
  From the tokens of a script to its statements: a script of expression statements, one per line, is parsed
  as the list of the expressions.
\<close>

section \<open>Fuel for an expression\<close>

lemma commas_weight:
  "sum_list (map tok_weight (concat tss)) \<le> sum_list (map tok_weight (commas c tss))"
  by (induction c tss rule: commas.induct) auto

lemma nodes_weight: "nodes x \<le> sum_list (map tok_weight (print c x))"
proof (induction x)
  case (Call f t xs)
  have "sum_list (map nodes xs) \<le> sum_list (map tok_weight (concat (map (print c) xs)))"
    using Call.IH(2) by (induction xs) (auto intro: add_mono)
  also have "\<dots> \<le> sum_list (map tok_weight (commas c (map (print c) xs)))" by (rule commas_weight)
  finally show ?case using Call.IH(1) by (simp add: with_sub_def)
next
  case (Atom t)
  then show ?case using tok_weight_pos [of t] by simp
next
  case (Unary t x)
  then show ?case using tok_weight_pos [of t] by simp
next
  case (Binary a t b)
  then show ?case using tok_weight_pos [of t] by simp
next
  case (Dot a t n)
  then show ?case using tok_weight_pos [of t] by simp
qed (simp add: with_sub_def)

lemma newExpr_print:
  assumes "wf_expr (sc_syntax sc) x" "sc_syntax sc KW_ExprMethodCall = Some msyn" "tkw c = KW_COMMA"
  shows "newExpr sc line (pre @ print c x) (length pre) (length pre + width x) st = Some (elab (sc_syntax sc) x, st)"
proof -
  have "range_weight (pre @ print c x) (length pre) (length pre + width x) = sum_list (map tok_weight (print c x))"
    by (simp add: range_weight_def)
  then show ?thesis
    using parse_printed [OF assms, of "pre @ print c x" "length pre"] at_place_whole [of pre "print c x" "[]"]
      nodes_weight [of x c]
    by (simp add: newExpr_def del: Stmt_newExpr2.simps)
qed

section \<open>An expression statement\<close>

text \<open>The syntax of expression statements: a rule of one pattern, whose function is the parser of expressions.\<close>

definition expr_rule :: "scope \<Rightarrow> u32 \<Rightarrow> bool" where
  "expr_rule sc name \<longleftrightarrow> (case sc_syntax sc KW_Expr of None \<Rightarrow> False
     | Some s \<Rightarrow> s_kw s = KW_Expr \<and> s_ParseStmt s = Some ParseStmt_Expr
         \<and> (case s_rule s of Some [r] \<Rightarrow> tt r = TK_METANAME \<and> tkw r = KW_Expr \<and> lpos r = name | _ \<Rightarrow> False))"

definition no_rule :: "scope \<Rightarrow> token \<Rightarrow> bool" where
  "no_rule sc t \<longleftrightarrow> (case sc_syntax sc (tkw t) of None \<Rightarrow> False | Some s \<Rightarrow> s_rule s = None)"

definition statement_ok :: "scope \<Rightarrow> token \<Rightarrow> expr \<Rightarrow> bool" where
  "statement_ok sc c x \<longleftrightarrow> wf_expr (sc_syntax sc) x \<and> list_all (tree_ok sc) (print c x)
     \<and> list_all (no_rule sc) (print c x) \<and> list_all (\<lambda>t. \<not> ends_line (chr CHR '';'') t) (print c x)"

definition expr_stmt :: "scope \<Rightarrow> token \<Rightarrow> u32 \<Rightarrow> expr \<Rightarrow> kstmt" where
  "expr_stmt sc c name x = Stmt (tline (hd (print c x))) KW_Expr TSTMT_UNDEFINED [(name, VExpr (elab (sc_syntax sc) x))]"

lemma operator_rule_none: "list_all (no_rule sc) tks \<Longrightarrow> operator_rule (sc_syntax sc) tks = Some None"
  by (induction tks) (auto simp: no_rule_def split: option.splits)

lemma tree_ok_head:
  assumes "tree_ok sc t"
  shows "\<not> TK_isType t" "tt t \<noteq> TK_METANAME"
proof -
  obtain k kw b l p c where t: "t = Token k kw b l p c" by (cases t)
  have "kw_of AST_PARENTHESIS = 8" "kw_of AST_BRACKET = 9"
    by (simp_all add: kw_of_def position_def upt_rec)
  with assms t show "\<not> TK_isType t" "tt t \<noteq> TK_METANAME"
    by (cases b; auto simp: leaf_ok_def bracket_pair_def TK_isType_def KW_Type_def)+
qed

lemma print_nonempty: "print c x \<noteq> []"
  by (induction x) auto

lemma addStmtLine_expr:
  assumes "statement_ok sc c x" "expr_rule sc name" "sc_syntax sc KW_ExprMethodCall = Some msyn" "tkw c = KW_COMMA"
  shows "addStmtLine junk sc bkp (pre @ print c x) (length pre) (length pre + width x) None st
    = Some (expr_stmt sc c name x, st)"
proof -
  obtain t ts where ts: "print c x = t # ts" using print_nonempty by (cases "print c x") auto
  have w: "width x = Suc (length ts)" using ts by (simp flip: length_print [of c x])
  obtain es r where es: "sc_syntax sc KW_Expr = Some es" "s_kw es = KW_Expr" "s_ParseStmt es = Some ParseStmt_Expr"
    "s_rule es = Some [r]" "tt r = TK_METANAME" "tkw r = KW_Expr" "lpos r = name"
    using assms(2) by (auto simp: expr_rule_def split: option.splits list.splits)
  have x: "wf_expr (sc_syntax sc) x" "tree_ok sc t" "no_rule sc t" "list_all (no_rule sc) ts"
    using assms(1) ts by (auto simp: statement_ok_def)
  note head = tree_ok_head [OF x(2)]
  have hd: "hd (print c x) = t" by (simp add: ts)
  define tls where "tls = pre @ print c x"
  have g: "mem_get tls (length pre) = Some t" by (simp add: tls_def ts mem_get_def)
  have rest: "mem_read tls (length pre + 1) (length pre + width x - (length pre + 1)) = Some ts"
    by (simp add: tls_def ts w mem_read_def)
  have "addAnnotation junk sc line tls (length pre) (length pre + width x) [] st = Some (length pre, [], st)" for line
    using head(2) g by (subst addAnnotation.simps) simp
  moreover have "getSyntaxRule sc tls (length pre) (length pre + width x) st = Some es"
    using head(1) g rest x(3,4) es(1)
    by (auto simp: getSyntaxRule_def operator_rule_none no_rule_def split: option.splits)
  moreover have "match_loop sc bkp line KW_Expr [r] l tls (length pre) (length pre) (length pre + width x) False [] st
      = Some (Some (length pre + width x), [(name, VExpr (elab (sc_syntax sc) x))], st)" for line l
    using g newExpr_print [OF x(1) assms(3,4), of line pre st] elab_not_null [OF x(1)] es
    by (simp add: match_loop.simps match_pattern_def ParseStmt_def stmt_Expr_def match_end_def WARN_Ignored_def
        flip: tls_def)
  ultimately show ?thesis
    using g es by (simp add: addStmtLine_def parseSyntaxRule_on_def expr_stmt_def hd flip: tls_def)
qed


section \<open>A script of expressions\<close>

text \<open>A line as it is written: indents, the tokens of an expression without keywords and groups, and the delimiter.\<close>

type_synonym written = "token list \<times> expr \<times> token"

definition write_line :: "token \<Rightarrow> written \<Rightarrow> token list" where
  "write_line c = (\<lambda>(inds, x, d). inds @ flats (print c x) @ [d])"

definition line_ok :: "scope \<Rightarrow> token \<Rightarrow> written \<Rightarrow> bool" where
  "line_ok sc c = (\<lambda>(inds, x, d). list_all is_indent inds \<and> statement_ok sc c x
     \<and> tkw d = 0 \<and> ends_line (chr CHR '';'') d)"

lemma block_lines_written:
  assumes "list_all (line_ok sc c) ls" "expr_rule sc name" "sc_syntax sc KW_ExprMethodCall = Some msyn" "tkw c = KW_COMMA"
    and "tls = pre @ concat (map (write_line c) ls)"
  shows "block_lines junk sc bkp tls (chr CHR '';'') (length pre) (length tls) indent bk st
    = Some (bk @ map (\<lambda>(_, x, _). expr_stmt sc c name x) ls, st)"
  using assms(1,5)
proof (induction ls arbitrary: pre indent bk)
  case Nil
  then show ?case by (subst block_lines.simps) simp
next
  case (Cons l ls)
  obtain inds x d where l: "l = (inds, x, d)" by (cases l)
  have ok: "list_all is_indent inds" "statement_ok sc c x" "tkw d = 0" "ends_line (chr CHR '';'') d"
    using Cons.prems(1) l by (simp_all add: line_ok_def)
  have tls: "tls = pre @ inds @ flats (print c x) @ d # concat (map (write_line c) ls)"
    using Cons.prems(2) by (simp add: l write_line_def)
  have trees: "list_all (tree_ok sc) (print c x)" "\<forall>t\<in>set (print c x). \<not> ends_line (chr CHR '';'') t"
    using ok(2) by (simp_all add: statement_ok_def list_all_iff)
  have "chr CHR '';'' \<notin> {chr CHR ''('', chr CHR ''[''}" by (simp add: chr_eq_iff)
  from selectStmtLine_written [OF trees(1) print_nonempty ok(1,3,4) this trees(2), of junk pre _ indent st]
  have line: "selectStmtLine junk sc tls (length pre) (length tls) (chr CHR '';'') indent st
      = Some (print c x, length (pre @ write_line c l), first_indent inds indent, None, st)"
    by (simp add: tls l write_line_def add.assoc)
  have stmt: "addStmtLine junk sc bkp (tls @ print c x) (length tls) (length tls + width x) None st
      = Some (expr_stmt sc c name x, st)"
    by (rule addStmtLine_expr [OF ok(2) assms(2-4)])
  have i: "length pre < length tls" "length pre < length (pre @ write_line c l)"
    by (simp_all add: tls l write_line_def)
  have "block_lines junk sc bkp tls (chr CHR '';'') (length pre) (length tls) indent bk st
      = block_lines junk sc bkp tls (chr CHR '';'') (length (pre @ write_line c l)) (length tls) (first_indent inds indent)
          (bk @ [expr_stmt sc c name x]) st"
    using i print_nonempty [of c x] by (subst block_lines.simps) (simp add: line stmt)
  also have "\<dots> = Some ((bk @ [expr_stmt sc c name x]) @ map (\<lambda>(_, x, _). expr_stmt sc c name x) ls, st)"
    using Cons.prems by (intro Cons.IH) simp_all
  finally show ?case by (simp add: l)
qed

text \<open>
  C4: A script of expressions is parsed as its expressions. Lines of operator trees, written as the single
  tokens a tokenizer gives, each behind indents and ended by a semicolon, become a block with one expression
  statement for each line, which holds the expression of the tree under the name of the rule's pattern; the
  tokens get their keywords, groups are collected, and nothing is reported. It rests on the syntax of
  expression statements, and on keywords that name operators without a rule of their own.
\<close>

theorem new_Block_script:
  assumes "list_all (line_ok sc c) ls" "expr_rule sc name" "sc_syntax sc KW_ExprMethodCall = Some msyn" "tkw c = KW_COMMA"
  shows "new_Block (Suc n) junk sc (concat (map (write_line c) ls)) 0 (length (concat (map (write_line c) ls)))
      (chr CHR '';'') st
    = Some (map (\<lambda>(_, x, _). expr_stmt sc c name x) ls, st)"
  using block_lines_written [OF assms, where pre = "[]"] by simp


section \<open>An example in the default syntax\<close>

definition ex_scope :: scope where
  "ex_scope = \<lparr>
     sc_keyword = (\<lambda>s. Some (if s = lit ''+'' then 18 else if s = lit ''*'' then 17 else if s = lit '','' then 30 else FN_NONAME)),
     sc_syntax = ex_syntax(1 \<mapsto> (new_syntax 1)\<lparr>s_rule := Some [Token TK_METANAME 1 (Text (lit ''expr'')) 0 1 0],
       s_ParseStmt := Some ParseStmt_Expr\<rparr>),
     sc_class = (\<lambda>_. Some None)\<rparr>"

definition ex_var :: token where "ex_var = Token TK_SYMBOL 2 (Text (lit ''a'')) 1 0 0"
definition ex_op :: "u32 \<Rightarrow> bytes \<Rightarrow> token" where "ex_op k s = Token TK_OPERATOR k (Text s) 1 0 0"
definition ex_paren :: token where "ex_paren = Token AST_PARENTHESIS 8 (Sub []) 1 41 40"
definition ex_semicolon :: token where "ex_semicolon = Token TK_OPERATOR 0 (Text (lit '';'')) 1 0 59"

text \<open>\<open>a + a * a(a, a); (a + a) * a;\<close> on two lines\<close>

definition ex_script :: "written list" where
  "ex_script =
    [([], Binary (Atom ex_var) (ex_op 18 (lit ''+''))
        (Binary (Atom ex_var) (ex_op 17 (lit ''*'')) (Call (Atom ex_var) ex_paren [Atom ex_var, Atom ex_var])), ex_semicolon),
     ([Token TK_INDENT 0 (Text []) 2 4 0], Binary (Group ex_paren (Binary (Atom ex_var) (ex_op 18 (lit ''+'')) (Atom ex_var)))
        (ex_op 17 (lit ''*'')) (Atom ex_var), ex_semicolon)]"

lemma ex_comma_row: "ex_syntax 30 = Some ((new_syntax 30)\<lparr>s_ParseExpr := ParseExpr_COMMA, s_priority := 8192, s_op2 := 5\<rparr>)"
  by (simp add: ex_syntax_def default_syntax_def default_table_def mem_get_def row_def define_parts_def
      new_syntax_def default_ParseExpr_def setSyntaxMethod_def FLAG_is_def SYNFLAG_ExprOp_def SYNFLAG_ExprTerm_def)

lemma ex_script_ok: "list_all (line_ok ex_scope (ex_op 30 (lit '',''))) ex_script"
  by (simp add: ex_script_def line_ok_def statement_ok_def is_indent_def ends_line_def ex_var_def ex_op_def ex_paren_def
      ex_semicolon_def ex_scope_def ex_simps ex_comma_row with_sub_def leaf_ok_def bracket_pair_def bracket_chars
      plain_char_def no_rule_def classify_def Token_resolved_def set_kw_def TK_isType_def KW_Type_def FN_NONAME_def Tokenizer.text_of_def Let_def
      kw_of_def position_def upt_rec lit_def chr_def)

theorem new_Block_script_witness:
  "\<forall>junk st. new_Block 1 junk ex_scope (concat (map (write_line (ex_op 30 (lit '',''))) ex_script)) 0
      (length (concat (map (write_line (ex_op 30 (lit '',''))) ex_script))) (chr CHR '';'') st
    = Some (map (\<lambda>(_, x, _). expr_stmt ex_scope (ex_op 30 (lit '','')) 1 x) ex_script, st)"
proof (intro allI)
  fix junk st
  have "expr_rule ex_scope 1" "ex_syntax KW_ExprMethodCall = Some (the (ex_syntax KW_ExprMethodCall))"
    by (simp_all add: expr_rule_def ex_scope_def KW_Expr_def new_syntax_def KW_ExprMethodCall_def ex_rows)
  then show "new_Block 1 junk ex_scope (concat (map (write_line (ex_op 30 (lit '',''))) ex_script)) 0
      (length (concat (map (write_line (ex_op 30 (lit '',''))) ex_script))) (chr CHR '';'') st
    = Some (map (\<lambda>(_, x, _). expr_stmt ex_scope (ex_op 30 (lit '','')) 1 x) ex_script, st)"
    using new_Block_script [OF ex_script_ok, where n = 0 and name = 1]
    by (simp add: ex_op_def KW_COMMA_def KW_DOT_def ex_scope_def KW_ExprMethodCall_def del: new_Block.simps)
qed

end
