(* ===== verification/Spec2Isabelle.thy ===== *)
theory Spec2Isabelle
  imports Prelude Karray Kmap Kvproto Symbols Tokenizer Lexing Layout Natives CompileExpr VmFacts Strings Stringlib Rope Collections ClassFacts SpaceFacts Reader ParserEnds StatementFacts
begin

text \<open>
  Konoha2 is a small scripting language written in C: a core library of containers, names and
  classes, a tokenizer and parser for scripts, and a virtual machine for which scripts are compiled.

  The development models the core library of \<^verbatim>\<open>src/konoha/klibexec.h\<close>, one theory per component:

  \<^item> \<open>Prelude\<close>: memory as lists with checked accesses. An access outside its allocation is \<open>None\<close>,
    so a result \<open>Some _\<close> says that the code stayed in bounds.
  \<^item> \<open>Karray\<close>: the growable array \<^verbatim>\<open>karray_t\<close> and the write buffer \<^verbatim>\<open>kwb_t\<close> on it.
  \<^item> \<open>Kmap\<close>: the hash map \<^verbatim>\<open>kmap_t\<close> with its arena and free list.
  \<^item> \<open>Kvproto\<close>: the property table of an object.
\<close>

end
